(* ===== verification/Prelude.thy ===== *)
theory Prelude
  imports Main "HOL-Library.Word"
begin

text \<open>
  Vocabulary shared by every theory of the development: the machine integer types of the C
  sources, the \<open>errno\<close> values they return, the bit macros of \<open>include/sys/util.h\<close>, byte copies
  into a fixed buffer, and the generic lemmas on lists and words that the component proofs use.
  The collections \<open>bit_mask\<close> (reasoning about single-bit masks) and \<open>buf_simps\<close> (reads after
  writes in a byte buffer) are extended by the component theories.
\<close>

unbundle bit_operations_syntax

named_theorems bit_mask \<open>single-bit masks and their tests\<close>
named_theorems buf_simps \<open>reads after writes in a byte buffer\<close>

subsection \<open>Types and error codes\<close>

type_synonym u8 = "8 word"
type_synonym u16 = "16 word"
type_synonym u32 = "32 word"
type_synonym u64 = "64 word"

abbreviation ENOENT :: int where "ENOENT \<equiv> 2"
abbreviation EAGAIN :: int where "EAGAIN \<equiv> 11"
abbreviation ENOMEM :: int where "ENOMEM \<equiv> 12"
abbreviation EBUSY :: int where "EBUSY \<equiv> 16"
abbreviation ENODEV :: int where "ENODEV \<equiv> 19"
abbreviation EINVAL :: int where "EINVAL \<equiv> 22"
abbreviation ENOTSUP :: int where "ENOTSUP \<equiv> 35"
abbreviation ENOMSG :: int where "ENOMSG \<equiv> 80"
abbreviation ENOTCONN :: int where "ENOTCONN \<equiv> 57"
abbreviation EPERM :: int where "EPERM \<equiv> 1"
abbreviation EIO :: int where "EIO \<equiv> 5"
abbreviation EALREADY :: int where "EALREADY \<equiv> 69"

subsection \<open>Bit macros\<close>

definition BIT :: "nat \<Rightarrow> 'a::len word" where
  "BIT n = push_bit n 1"

definition WRITE_BIT :: "'a::len word \<Rightarrow> nat \<Rightarrow> bool \<Rightarrow> 'a word" where
  "WRITE_BIT w n b = (if b then w OR BIT n else w AND NOT (BIT n))"

lemma bit_BIT [simp, bit_mask]: "bit (BIT n :: 'a::len word) m \<longleftrightarrow> m = n \<and> n < LENGTH('a)"
  by (auto simp: BIT_def bit_simps)

lemma and_BIT_eq_0 [bit_mask]: "(w::'a::len word) AND BIT n = 0 \<longleftrightarrow> \<not> bit w n"
  by (simp add: BIT_def bit_iff_and_push_bit_not_eq_0)

lemma BIT_and_eq_0 [bit_mask]: "BIT n AND (w::'a::len word) = 0 \<longleftrightarrow> \<not> bit w n"
  by (simp add: and.commute [of "BIT n"] and_BIT_eq_0)

lemma bit_WRITE_BIT [simp, bit_mask]:
  "bit (WRITE_BIT (w::'a::len word) n b) m \<longleftrightarrow>
     (if m = n then b \<and> n < LENGTH('a) else bit w m)"
  by (auto simp: WRITE_BIT_def bit_simps dest: bit_imp_le_length)

lemma bit_or_BIT [simp, bit_mask]:
  "bit ((w::'a::len word) OR BIT n) m \<longleftrightarrow> (m = n \<and> n < LENGTH('a)) \<or> bit w m"
  by (auto simp: bit_simps)

lemma bit_and_not_BIT [simp, bit_mask]:
  "bit ((w::'a::len word) AND NOT (BIT n)) m \<longleftrightarrow> m \<noteq> n \<and> bit w m"
  by (auto simp: bit_simps dest: bit_imp_le_length)

subsection \<open>Statements about every value of a byte\<close>

text \<open>
  A statement about all 256 bytes is checked by evaluating it on each of them: \<open>all_u8\<close> lists
  them, and \<open>all_u8I\<close> turns the finite check into the universal statement.
\<close>

definition all_u8 :: "u8 list" where
  "all_u8 = map word_of_nat [0..<256]"

lemma mem_all_u8 [simp]: "(b::u8) \<in> set all_u8"
proof -
  have "unat b < 256"
    using unsigned_less [of b] by simp
  moreover have "b = word_of_nat (unat b)"
    by simp
  ultimately show ?thesis
    unfolding all_u8_def by (metis atLeastLessThan_iff image_eqI list.set_map set_upt zero_le)
qed

lemma all_u8I: "list_all P all_u8 \<Longrightarrow> P (b::u8)"
  by (simp add: list_all_iff)

subsection \<open>Byte buffers\<close>

text \<open>
  \<open>memcpy\<close> into a buffer at an offset, and the \<open>i\<close>-th slot of \<open>sz\<close> bytes of a buffer that is
  divided into slots.
\<close>

definition memcpy_at :: "u8 list \<Rightarrow> nat \<Rightarrow> u8 list \<Rightarrow> u8 list" where
  "memcpy_at buf off data = take off buf @ data @ drop (off + length data) buf"

definition slot :: "u8 list \<Rightarrow> nat \<Rightarrow> nat \<Rightarrow> u8 list" where
  "slot buf sz i = take sz (drop (i * sz) buf)"

lemma length_memcpy_at [simp, buf_simps]:
  "off + length data \<le> length buf \<Longrightarrow> length (memcpy_at buf off data) = length buf"
  by (simp add: memcpy_at_def)

lemma memcpy_at_whole [simp]: "length data = length buf \<Longrightarrow> memcpy_at buf 0 data = data"
  by (simp add: memcpy_at_def)

lemma slot_bound: "i < n \<Longrightarrow> i * sz + sz \<le> n * (sz::nat)"
  by (metis Suc_leI add.commute mult_Suc mult_le_mono1)

lemma slot_memcpy_same [simp, buf_simps]:
  "length data = sz \<Longrightarrow> i * sz + sz \<le> length buf \<Longrightarrow>
   slot (memcpy_at buf (i * sz) data) sz i = data"
  by (simp add: slot_def memcpy_at_def)

lemma slot_memcpy_other [buf_simps]:
  assumes "length data = sz" and "i * sz + sz \<le> length buf" and "j \<noteq> i"
  shows "slot (memcpy_at buf (i * sz) data) sz j = slot buf sz j"
proof (cases "j < i")
  case True
  then have "j * sz + sz \<le> i * sz"
    by (rule slot_bound)
  with assms show ?thesis
    by (simp add: slot_def memcpy_at_def drop_take min_absorb2)
next
  case False
  with assms(3) have "i * sz + sz \<le> j * sz"
    by (intro slot_bound) simp
  then obtain d where d: "j * sz = i * sz + sz + d"
    using le_iff_add by blast
  with assms show ?thesis
    by (simp add: slot_def memcpy_at_def add.commute add.left_commute)
qed

text \<open>Two places of a ring are different.\<close>

lemma mod_ring_inj:
  assumes "i < n" and "u < n" and "i \<noteq> u"
  shows "(r + i) mod n \<noteq> (r + u) mod (n :: nat)"
proof -
  have *: "(r + a) mod n \<noteq> (r + b) mod n" if "a < b" "b < n" for a b
  proof
    assume "(r + a) mod n = (r + b) mod n"
    then have "n dvd b - a"
      using that mod_eq_dvd_iff_nat [of "r + a" "r + b" n] by simp
    with that show False by (auto dest: dvd_imp_le)
  qed
  from assms * [of i u] * [of u i] show ?thesis
    by (metis linorder_neqE_nat)
qed

end
