(* ===== verification/Prog.thy ===== *)
theory Prog
  imports Prelude
begin

text \<open>
  Threads of the application as values. A thread runs until it needs a scan code from the PS/2
  connector, where it blocks; between such points it updates the state it shares with the other
  threads and sleeps. \<open>prog\<close> is the code a thread still has to run, so a thread that is blocked in
  the middle of a function is the continuation that waits for the code. \<open>Fault\<close> is a read outside
  an array. \<open>run\<close> executes a thread on the codes that are available, up to the point where it is
  done, faults, or blocks because there is no further code.
\<close>

datatype 's prog =
    Done
  | Fault
  | Get_code "u8 \<Rightarrow> 's prog"
  | Act "'s \<Rightarrow> 's" "'s prog"
  | Msleep nat "'s prog"

primrec run :: "'s prog \<Rightarrow> u8 list \<Rightarrow> 's \<Rightarrow> 's prog \<times> u8 list \<times> 's" where
  "run Done cs s = (Done, cs, s)"
| "run Fault cs s = (Fault, cs, s)"
| "run (Get_code k) cs s = (case cs of [] \<Rightarrow> (Get_code k, [], s) | c # cs' \<Rightarrow> run (k c) cs' s)"
| "run (Act f p) cs s = run p cs (f s)"
| "run (Msleep n p) cs s = run p cs s"

text \<open>Running first on some codes and then on more is running on all of them.\<close>

lemma run_append:
  "run p cs s = (q, rest, t) \<Longrightarrow>
   run p (cs @ ds) s = (if rest = [] then run q ds t else (q, rest @ ds, t))"
proof (induction p arbitrary: cs s q rest t)
  case Done
  then show ?case by (cases cs) auto
next
  case Fault
  then show ?case by (cases cs) auto
next
  case (Get_code k)
  then show ?case by (cases cs) (auto split: list.splits)
next
  case (Act f p)
  then show ?case by auto
next
  case (Msleep n p)
  then show ?case by auto
qed

lemma run_suffix: "run p cs s = (q, rest, t) \<Longrightarrow> \<exists>used. cs = used @ rest"
proof (induction p arbitrary: cs s)
  case (Get_code k)
  then show ?case
    by (cases cs) (auto, metis append_Cons range_eqI)
qed auto

lemma run_leftover: "run p cs s = (q, rest, t) \<Longrightarrow> rest \<noteq> [] \<Longrightarrow> q = Done \<or> q = Fault"
proof (induction p arbitrary: cs s)
  case (Get_code k)
  then show ?case by (cases cs) (auto, metis rangeI)
qed auto

text \<open>One piece of code after the other.\<close>

primrec seq :: "'s prog \<Rightarrow> 's prog \<Rightarrow> 's prog" where
  "seq Done q = q"
| "seq Fault q = Fault"
| "seq (Get_code k) q = Get_code (\<lambda>c. seq (k c) q)"
| "seq (Act f p) q = Act f (seq p q)"
| "seq (Msleep n p) q = Msleep n (seq p q)"

lemma run_seq: "run p cs s = (Done, rest, t) \<Longrightarrow> run (seq p q) cs s = run q rest t"
proof (induction p arbitrary: cs s)
  case (Get_code k)
  then show ?case by (cases cs) (auto simp: image_iff)
qed auto

text \<open>
  \<open>keeps I p\<close>: every update the thread can make keeps \<open>I\<close>. \<open>faultless C p\<close>: on codes of \<open>C\<close> the
  thread never reaches a fault.
\<close>

primrec keeps :: "('s \<Rightarrow> bool) \<Rightarrow> 's prog \<Rightarrow> bool" where
  "keeps I Done = True"
| "keeps I Fault = True"
| "keeps I (Get_code k) = (\<forall>c. keeps I (k c))"
| "keeps I (Act f p) = ((\<forall>s. I s \<longrightarrow> I (f s)) \<and> keeps I p)"
| "keeps I (Msleep n p) = keeps I p"

lemma run_keeps:
  "run p cs s = (q, rest, t) \<Longrightarrow> keeps I p \<Longrightarrow> I s \<Longrightarrow> I t \<and> keeps I q"
proof (induction p arbitrary: cs s)
  case (Get_code k)
  then show ?case by (cases cs) (auto simp: image_iff)
qed auto

primrec faultless :: "u8 set \<Rightarrow> 's prog \<Rightarrow> bool" where
  "faultless C Done = True"
| "faultless C Fault = False"
| "faultless C (Get_code k) = (\<forall>c. c \<in> C \<longrightarrow> faultless C (k c))"
| "faultless C (Act f p) = faultless C p"
| "faultless C (Msleep n p) = faultless C p"

lemma run_faultless:
  "run p cs s = (q, rest, t) \<Longrightarrow> faultless C p \<Longrightarrow> set cs \<subseteq> C \<Longrightarrow> faultless C q"
proof (induction p arbitrary: cs s)
  case (Get_code k)
  then show ?case by (cases cs) (auto simp: image_iff)
qed auto

lemma run_Get_code_consumes:
  "run (Get_code k) cs s = (q, rest, t) \<Longrightarrow> cs \<noteq> [] \<Longrightarrow> length rest < length cs"
  by (cases cs) (auto dest!: run_suffix)

end
