(* ===== verification/Hid_Keys.thy ===== *)
theory Hid_Keys
  imports Prelude
begin

text \<open>
  The key codes of \<open>inc/usb_hid_keys.h\<close> that the application uses, and the table
  \<open>ps2_scan_code_to_usb_hid_key\<close> of \<open>inc/keys_by_ps2_scancode.h\<close> that takes a scan code of the
  PS/2 set 2 to the HID usage of the key. The array has 255 elements, so an index of 255 is
  outside it: \<open>scan_code_key\<close> is the read of the array, with \<open>None\<close> for a read out of bounds.
\<close>

subsection \<open>Key codes\<close>

abbreviation KEY_MOD_LCTRL :: u8 where "KEY_MOD_LCTRL \<equiv> 0x01"
abbreviation KEY_MOD_LSHIFT :: u8 where "KEY_MOD_LSHIFT \<equiv> 0x02"
abbreviation KEY_MOD_LALT :: u8 where "KEY_MOD_LALT \<equiv> 0x04"
abbreviation KEY_MOD_LMETA :: u8 where "KEY_MOD_LMETA \<equiv> 0x08"
abbreviation KEY_MOD_RCTRL :: u8 where "KEY_MOD_RCTRL \<equiv> 0x10"
abbreviation KEY_MOD_RSHIFT :: u8 where "KEY_MOD_RSHIFT \<equiv> 0x20"
abbreviation KEY_MOD_RALT :: u8 where "KEY_MOD_RALT \<equiv> 0x40"
abbreviation KEY_MOD_RMETA :: u8 where "KEY_MOD_RMETA \<equiv> 0x80"
abbreviation KEY_NONE :: u8 where "KEY_NONE \<equiv> 0x00"
abbreviation KEY_A :: u8 where "KEY_A \<equiv> 0x04"
abbreviation KEY_B :: u8 where "KEY_B \<equiv> 0x05"
abbreviation KEY_C :: u8 where "KEY_C \<equiv> 0x06"
abbreviation KEY_D :: u8 where "KEY_D \<equiv> 0x07"
abbreviation KEY_E :: u8 where "KEY_E \<equiv> 0x08"
abbreviation KEY_F :: u8 where "KEY_F \<equiv> 0x09"
abbreviation KEY_G :: u8 where "KEY_G \<equiv> 0x0a"
abbreviation KEY_H :: u8 where "KEY_H \<equiv> 0x0b"
abbreviation KEY_I :: u8 where "KEY_I \<equiv> 0x0c"
abbreviation KEY_J :: u8 where "KEY_J \<equiv> 0x0d"
abbreviation KEY_K :: u8 where "KEY_K \<equiv> 0x0e"
abbreviation KEY_L :: u8 where "KEY_L \<equiv> 0x0f"
abbreviation KEY_M :: u8 where "KEY_M \<equiv> 0x10"
abbreviation KEY_N :: u8 where "KEY_N \<equiv> 0x11"
abbreviation KEY_O :: u8 where "KEY_O \<equiv> 0x12"
abbreviation KEY_P :: u8 where "KEY_P \<equiv> 0x13"
abbreviation KEY_Q :: u8 where "KEY_Q \<equiv> 0x14"
abbreviation KEY_R :: u8 where "KEY_R \<equiv> 0x15"
abbreviation KEY_S :: u8 where "KEY_S \<equiv> 0x16"
abbreviation KEY_T :: u8 where "KEY_T \<equiv> 0x17"
abbreviation KEY_U :: u8 where "KEY_U \<equiv> 0x18"
abbreviation KEY_V :: u8 where "KEY_V \<equiv> 0x19"
abbreviation KEY_W :: u8 where "KEY_W \<equiv> 0x1a"
abbreviation KEY_X :: u8 where "KEY_X \<equiv> 0x1b"
abbreviation KEY_Y :: u8 where "KEY_Y \<equiv> 0x1c"
abbreviation KEY_Z :: u8 where "KEY_Z \<equiv> 0x1d"
abbreviation KEY_1 :: u8 where "KEY_1 \<equiv> 0x1e"
abbreviation KEY_2 :: u8 where "KEY_2 \<equiv> 0x1f"
abbreviation KEY_3 :: u8 where "KEY_3 \<equiv> 0x20"
abbreviation KEY_4 :: u8 where "KEY_4 \<equiv> 0x21"
abbreviation KEY_5 :: u8 where "KEY_5 \<equiv> 0x22"
abbreviation KEY_6 :: u8 where "KEY_6 \<equiv> 0x23"
abbreviation KEY_7 :: u8 where "KEY_7 \<equiv> 0x24"
abbreviation KEY_8 :: u8 where "KEY_8 \<equiv> 0x25"
abbreviation KEY_9 :: u8 where "KEY_9 \<equiv> 0x26"
abbreviation KEY_0 :: u8 where "KEY_0 \<equiv> 0x27"
abbreviation KEY_ENTER :: u8 where "KEY_ENTER \<equiv> 0x28"
abbreviation KEY_ESC :: u8 where "KEY_ESC \<equiv> 0x29"
abbreviation KEY_BACKSPACE :: u8 where "KEY_BACKSPACE \<equiv> 0x2a"
abbreviation KEY_TAB :: u8 where "KEY_TAB \<equiv> 0x2b"
abbreviation KEY_SPACE :: u8 where "KEY_SPACE \<equiv> 0x2c"
abbreviation KEY_MINUS :: u8 where "KEY_MINUS \<equiv> 0x2d"
abbreviation KEY_EQUAL :: u8 where "KEY_EQUAL \<equiv> 0x2e"
abbreviation KEY_LEFTBRACE :: u8 where "KEY_LEFTBRACE \<equiv> 0x2f"
abbreviation KEY_RIGHTBRACE :: u8 where "KEY_RIGHTBRACE \<equiv> 0x30"
abbreviation KEY_BACKSLASH :: u8 where "KEY_BACKSLASH \<equiv> 0x31"
abbreviation KEY_SEMICOLON :: u8 where "KEY_SEMICOLON \<equiv> 0x33"
abbreviation KEY_APOSTROPHE :: u8 where "KEY_APOSTROPHE \<equiv> 0x34"
abbreviation KEY_GRAVE :: u8 where "KEY_GRAVE \<equiv> 0x35"
abbreviation KEY_COMMA :: u8 where "KEY_COMMA \<equiv> 0x36"
abbreviation KEY_DOT :: u8 where "KEY_DOT \<equiv> 0x37"
abbreviation KEY_SLASH :: u8 where "KEY_SLASH \<equiv> 0x38"
abbreviation KEY_CAPSLOCK :: u8 where "KEY_CAPSLOCK \<equiv> 0x39"
abbreviation KEY_F1 :: u8 where "KEY_F1 \<equiv> 0x3a"
abbreviation KEY_F2 :: u8 where "KEY_F2 \<equiv> 0x3b"
abbreviation KEY_F3 :: u8 where "KEY_F3 \<equiv> 0x3c"
abbreviation KEY_F4 :: u8 where "KEY_F4 \<equiv> 0x3d"
abbreviation KEY_F5 :: u8 where "KEY_F5 \<equiv> 0x3e"
abbreviation KEY_F6 :: u8 where "KEY_F6 \<equiv> 0x3f"
abbreviation KEY_F7 :: u8 where "KEY_F7 \<equiv> 0x40"
abbreviation KEY_F8 :: u8 where "KEY_F8 \<equiv> 0x41"
abbreviation KEY_F9 :: u8 where "KEY_F9 \<equiv> 0x42"
abbreviation KEY_F10 :: u8 where "KEY_F10 \<equiv> 0x43"
abbreviation KEY_F11 :: u8 where "KEY_F11 \<equiv> 0x44"
abbreviation KEY_F12 :: u8 where "KEY_F12 \<equiv> 0x45"
abbreviation KEY_SYSRQ :: u8 where "KEY_SYSRQ \<equiv> 0x46"
abbreviation KEY_SCROLLLOCK :: u8 where "KEY_SCROLLLOCK \<equiv> 0x47"
abbreviation KEY_PAUSE :: u8 where "KEY_PAUSE \<equiv> 0x48"
abbreviation KEY_INSERT :: u8 where "KEY_INSERT \<equiv> 0x49"
abbreviation KEY_HOME :: u8 where "KEY_HOME \<equiv> 0x4a"
abbreviation KEY_PAGEUP :: u8 where "KEY_PAGEUP \<equiv> 0x4b"
abbreviation KEY_DELETE :: u8 where "KEY_DELETE \<equiv> 0x4c"
abbreviation KEY_END :: u8 where "KEY_END \<equiv> 0x4d"
abbreviation KEY_PAGEDOWN :: u8 where "KEY_PAGEDOWN \<equiv> 0x4e"
abbreviation KEY_RIGHT :: u8 where "KEY_RIGHT \<equiv> 0x4f"
abbreviation KEY_LEFT :: u8 where "KEY_LEFT \<equiv> 0x50"
abbreviation KEY_DOWN :: u8 where "KEY_DOWN \<equiv> 0x51"
abbreviation KEY_UP :: u8 where "KEY_UP \<equiv> 0x52"
abbreviation KEY_NUMLOCK :: u8 where "KEY_NUMLOCK \<equiv> 0x53"
abbreviation KEY_KPSLASH :: u8 where "KEY_KPSLASH \<equiv> 0x54"
abbreviation KEY_KPASTERISK :: u8 where "KEY_KPASTERISK \<equiv> 0x55"
abbreviation KEY_KPMINUS :: u8 where "KEY_KPMINUS \<equiv> 0x56"
abbreviation KEY_KPPLUS :: u8 where "KEY_KPPLUS \<equiv> 0x57"
abbreviation KEY_KP1 :: u8 where "KEY_KP1 \<equiv> 0x59"
abbreviation KEY_KP2 :: u8 where "KEY_KP2 \<equiv> 0x5a"
abbreviation KEY_KP3 :: u8 where "KEY_KP3 \<equiv> 0x5b"
abbreviation KEY_KP4 :: u8 where "KEY_KP4 \<equiv> 0x5c"
abbreviation KEY_KP5 :: u8 where "KEY_KP5 \<equiv> 0x5d"
abbreviation KEY_KP6 :: u8 where "KEY_KP6 \<equiv> 0x5e"
abbreviation KEY_KP7 :: u8 where "KEY_KP7 \<equiv> 0x5f"
abbreviation KEY_KP8 :: u8 where "KEY_KP8 \<equiv> 0x60"
abbreviation KEY_KP9 :: u8 where "KEY_KP9 \<equiv> 0x61"
abbreviation KEY_KP0 :: u8 where "KEY_KP0 \<equiv> 0x62"
abbreviation KEY_KPDOT :: u8 where "KEY_KPDOT \<equiv> 0x63"
abbreviation KEY_PROPS :: u8 where "KEY_PROPS \<equiv> 0x76"
abbreviation KEY_LEFTCTRL :: u8 where "KEY_LEFTCTRL \<equiv> 0xe0"
abbreviation KEY_LEFTSHIFT :: u8 where "KEY_LEFTSHIFT \<equiv> 0xe1"
abbreviation KEY_LEFTALT :: u8 where "KEY_LEFTALT \<equiv> 0xe2"
abbreviation KEY_LEFTMETA :: u8 where "KEY_LEFTMETA \<equiv> 0xe3"
abbreviation KEY_RIGHTCTRL :: u8 where "KEY_RIGHTCTRL \<equiv> 0xe4"
abbreviation KEY_RIGHTSHIFT :: u8 where "KEY_RIGHTSHIFT \<equiv> 0xe5"
abbreviation KEY_RIGHTALT :: u8 where "KEY_RIGHTALT \<equiv> 0xe6"
abbreviation KEY_RIGHTMETA :: u8 where "KEY_RIGHTMETA \<equiv> 0xe7"

text \<open>\<open>KEY_UNKNOWN\<close> of \<open>inc/keys_by_ps2_scancode.h\<close>.\<close>

abbreviation KEY_UNKNOWN :: u8 where "KEY_UNKNOWN \<equiv> 0x00"

subsection \<open>The scan code table\<close>

definition ps2_scan_code_to_usb_hid_key :: "u8 list" where
  "ps2_scan_code_to_usb_hid_key = [
    KEY_UNKNOWN, KEY_F9, KEY_UNKNOWN, KEY_F5,
    KEY_F3, KEY_F1, KEY_F2, KEY_F12,
    KEY_UNKNOWN, KEY_F10, KEY_F8, KEY_F6,
    KEY_F4, KEY_TAB, KEY_GRAVE, KEY_UNKNOWN,
    KEY_UNKNOWN, KEY_MOD_LALT, KEY_MOD_LSHIFT, KEY_UNKNOWN,
    KEY_MOD_LCTRL, KEY_Q, KEY_1, KEY_UNKNOWN,
    KEY_UNKNOWN, KEY_UNKNOWN, KEY_Z, KEY_S,
    KEY_A, KEY_W, KEY_2, KEY_UNKNOWN,
    KEY_UNKNOWN, KEY_C, KEY_X, KEY_D,
    KEY_E, KEY_4, KEY_3, KEY_UNKNOWN,
    KEY_UNKNOWN, KEY_SPACE, KEY_V, KEY_F,
    KEY_T, KEY_R, KEY_5, KEY_UNKNOWN,
    KEY_UNKNOWN, KEY_N, KEY_B, KEY_H,
    KEY_G, KEY_Y, KEY_6, KEY_UNKNOWN,
    KEY_UNKNOWN, KEY_UNKNOWN, KEY_M, KEY_J,
    KEY_U, KEY_7, KEY_8, KEY_UNKNOWN,
    KEY_UNKNOWN, KEY_COMMA, KEY_K, KEY_I,
    KEY_O, KEY_0, KEY_9, KEY_UNKNOWN,
    KEY_UNKNOWN, KEY_DOT, KEY_SLASH, KEY_L,
    KEY_SEMICOLON, KEY_P, KEY_MINUS, KEY_UNKNOWN,
    KEY_UNKNOWN, KEY_UNKNOWN, KEY_APOSTROPHE, KEY_UNKNOWN,
    KEY_LEFTBRACE, KEY_EQUAL, KEY_UNKNOWN, KEY_UNKNOWN,
    KEY_CAPSLOCK, KEY_MOD_RSHIFT, KEY_ENTER, KEY_RIGHTBRACE,
    KEY_UNKNOWN, KEY_BACKSLASH, KEY_UNKNOWN, KEY_UNKNOWN,
    KEY_UNKNOWN, KEY_UNKNOWN, KEY_UNKNOWN, KEY_UNKNOWN,
    KEY_UNKNOWN, KEY_UNKNOWN, KEY_BACKSPACE, KEY_UNKNOWN,
    KEY_UNKNOWN, KEY_KP1, KEY_UNKNOWN, KEY_KP4,
    KEY_KP7, KEY_UNKNOWN, KEY_UNKNOWN, KEY_UNKNOWN,
    KEY_KP0, KEY_KPDOT, KEY_KP2, KEY_KP5,
    KEY_KP6, KEY_KP8, KEY_ESC, KEY_NUMLOCK,
    KEY_F11, KEY_KPPLUS, KEY_KP3, KEY_KPMINUS,
    KEY_KPASTERISK, KEY_KP9, KEY_SCROLLLOCK, KEY_UNKNOWN,
    KEY_UNKNOWN, KEY_UNKNOWN, KEY_UNKNOWN, KEY_F7,
    KEY_UNKNOWN, KEY_UNKNOWN, KEY_UNKNOWN, KEY_UNKNOWN,
    KEY_UNKNOWN, KEY_UNKNOWN, KEY_UNKNOWN, KEY_UNKNOWN,
    KEY_UNKNOWN, KEY_UNKNOWN, KEY_UNKNOWN, KEY_UNKNOWN,
    KEY_UNKNOWN, KEY_UNKNOWN, KEY_UNKNOWN, KEY_UNKNOWN,
    KEY_UNKNOWN, KEY_UNKNOWN, KEY_UNKNOWN, KEY_UNKNOWN,
    KEY_UNKNOWN, KEY_UNKNOWN, KEY_UNKNOWN, KEY_UNKNOWN,
    KEY_UNKNOWN, KEY_UNKNOWN, KEY_UNKNOWN, KEY_UNKNOWN,
    KEY_UNKNOWN, KEY_UNKNOWN, KEY_UNKNOWN, KEY_UNKNOWN,
    KEY_UNKNOWN, KEY_UNKNOWN, KEY_UNKNOWN, KEY_UNKNOWN,
    KEY_UNKNOWN, KEY_UNKNOWN, KEY_UNKNOWN, KEY_UNKNOWN,
    KEY_UNKNOWN, KEY_UNKNOWN, KEY_UNKNOWN, KEY_UNKNOWN,
    KEY_UNKNOWN, KEY_UNKNOWN, KEY_UNKNOWN, KEY_UNKNOWN,
    KEY_UNKNOWN, KEY_UNKNOWN, KEY_UNKNOWN, KEY_UNKNOWN,
    KEY_UNKNOWN, KEY_UNKNOWN, KEY_UNKNOWN, KEY_UNKNOWN,
    KEY_UNKNOWN, KEY_UNKNOWN, KEY_UNKNOWN, KEY_UNKNOWN,
    KEY_UNKNOWN, KEY_UNKNOWN, KEY_UNKNOWN, KEY_UNKNOWN,
    KEY_UNKNOWN, KEY_UNKNOWN, KEY_UNKNOWN, KEY_UNKNOWN,
    KEY_UNKNOWN, KEY_UNKNOWN, KEY_UNKNOWN, KEY_UNKNOWN,
    KEY_UNKNOWN, KEY_UNKNOWN, KEY_UNKNOWN, KEY_UNKNOWN,
    KEY_UNKNOWN, KEY_UNKNOWN, KEY_UNKNOWN, KEY_UNKNOWN,
    KEY_UNKNOWN, KEY_UNKNOWN, KEY_UNKNOWN, KEY_UNKNOWN,
    KEY_UNKNOWN, KEY_UNKNOWN, KEY_UNKNOWN, KEY_UNKNOWN,
    KEY_UNKNOWN, KEY_UNKNOWN, KEY_UNKNOWN, KEY_UNKNOWN,
    KEY_UNKNOWN, KEY_UNKNOWN, KEY_UNKNOWN, KEY_UNKNOWN,
    KEY_UNKNOWN, KEY_UNKNOWN, KEY_UNKNOWN, KEY_UNKNOWN,
    KEY_UNKNOWN, KEY_UNKNOWN, KEY_UNKNOWN, KEY_UNKNOWN,
    KEY_UNKNOWN, KEY_UNKNOWN, KEY_UNKNOWN, KEY_UNKNOWN,
    KEY_UNKNOWN, KEY_UNKNOWN, KEY_UNKNOWN, KEY_UNKNOWN,
    KEY_UNKNOWN, KEY_UNKNOWN, KEY_UNKNOWN, KEY_UNKNOWN,
    KEY_UNKNOWN, KEY_UNKNOWN, KEY_UNKNOWN, KEY_UNKNOWN,
    KEY_UNKNOWN, KEY_UNKNOWN, KEY_UNKNOWN]"

definition scan_code_key :: "u8 \<Rightarrow> u8 option" where
  "scan_code_key code =
     (if unat code < length ps2_scan_code_to_usb_hid_key
      then Some (ps2_scan_code_to_usb_hid_key ! unat code) else None)"

lemma length_scan_code_table: "length ps2_scan_code_to_usb_hid_key = 255"
  by (simp add: ps2_scan_code_to_usb_hid_key_def)

lemma scan_code_key_None: "scan_code_key code = None \<longleftrightarrow> code = 0xff"
proof -
  have "unat code < 256"
    using unsigned_less [of code] by simp
  then have "\<not> unat code < 255 \<longleftrightarrow> unat code = 255"
    by linarith
  also have "\<dots> \<longleftrightarrow> code = 0xff"
    by (simp add: word_unat_eq_iff)
  finally show ?thesis
    unfolding scan_code_key_def length_scan_code_table by (metis option.distinct(1))
qed

lemma scan_code_key_Some:
  "code \<noteq> 0xff \<Longrightarrow> scan_code_key code = Some (ps2_scan_code_to_usb_hid_key ! unat code)"
  using scan_code_key_None [of code] by (auto simp: scan_code_key_def split: if_splits)

end
