(* ===== verification/Byteorder.thy ===== *)
theory Byteorder
  imports Prelude
begin

text \<open>
  Values in memory, \<open>include/sys/byteorder.h\<close>: writing and reading 16 to 64 bit values in either byte
  order, and reversing the bytes of an array. A function that writes returns the bytes it writes.
\<close>

type_synonym u64 = "64 word"

subsection \<open>Writing\<close>

definition sys_put_be16 :: "u16 \<Rightarrow> u8 list" where
  "sys_put_be16 val = [ucast (drop_bit 8 val), ucast val]"

definition sys_put_be24 :: "u32 \<Rightarrow> u8 list" where
  "sys_put_be24 val = ucast (drop_bit 16 val) # sys_put_be16 (ucast val)"

definition sys_put_be32 :: "u32 \<Rightarrow> u8 list" where
  "sys_put_be32 val = sys_put_be16 (ucast (drop_bit 16 val)) @ sys_put_be16 (ucast val)"

definition sys_put_be48 :: "u64 \<Rightarrow> u8 list" where
  "sys_put_be48 val = sys_put_be16 (ucast (drop_bit 32 val)) @ sys_put_be32 (ucast val)"

definition sys_put_be64 :: "u64 \<Rightarrow> u8 list" where
  "sys_put_be64 val = sys_put_be32 (ucast (drop_bit 32 val)) @ sys_put_be32 (ucast val)"

definition sys_put_le16 :: "u16 \<Rightarrow> u8 list" where
  "sys_put_le16 val = [ucast val, ucast (drop_bit 8 val)]"

definition sys_put_le24 :: "u32 \<Rightarrow> u8 list" where
  "sys_put_le24 val = sys_put_le16 (ucast val) @ [ucast (drop_bit 16 val)]"

definition sys_put_le32 :: "u32 \<Rightarrow> u8 list" where
  "sys_put_le32 val = sys_put_le16 (ucast val) @ sys_put_le16 (ucast (drop_bit 16 val))"

definition sys_put_le48 :: "u64 \<Rightarrow> u8 list" where
  "sys_put_le48 val = sys_put_le32 (ucast val) @ sys_put_le16 (ucast (drop_bit 32 val))"

definition sys_put_le64 :: "u64 \<Rightarrow> u8 list" where
  "sys_put_le64 val = sys_put_le32 (ucast val) @ sys_put_le32 (ucast (drop_bit 32 val))"

subsection \<open>Reading\<close>

definition sys_get_be16 :: "u8 list \<Rightarrow> u16" where
  "sys_get_be16 src = push_bit 8 (ucast (src ! 0)) OR ucast (src ! 1)"

definition sys_get_be24 :: "u8 list \<Rightarrow> u32" where
  "sys_get_be24 src = push_bit 16 (ucast (src ! 0)) OR ucast (sys_get_be16 (drop 1 src))"

definition sys_get_be32 :: "u8 list \<Rightarrow> u32" where
  "sys_get_be32 src = push_bit 16 (ucast (sys_get_be16 src)) OR ucast (sys_get_be16 (drop 2 src))"

definition sys_get_be48 :: "u8 list \<Rightarrow> u64" where
  "sys_get_be48 src = push_bit 16 (ucast (sys_get_be32 src)) OR ucast (sys_get_be16 (drop 4 src))"

definition sys_get_be64 :: "u8 list \<Rightarrow> u64" where
  "sys_get_be64 src = push_bit 32 (ucast (sys_get_be32 src)) OR ucast (sys_get_be32 (drop 4 src))"

definition sys_get_le16 :: "u8 list \<Rightarrow> u16" where
  "sys_get_le16 src = push_bit 8 (ucast (src ! 1)) OR ucast (src ! 0)"

definition sys_get_le24 :: "u8 list \<Rightarrow> u32" where
  "sys_get_le24 src = push_bit 16 (ucast (src ! 2)) OR ucast (sys_get_le16 src)"

definition sys_get_le32 :: "u8 list \<Rightarrow> u32" where
  "sys_get_le32 src = push_bit 16 (ucast (sys_get_le16 (drop 2 src))) OR ucast (sys_get_le16 src)"

definition sys_get_le48 :: "u8 list \<Rightarrow> u64" where
  "sys_get_le48 src = push_bit 16 (ucast (sys_get_le32 (drop 2 src))) OR ucast (sys_get_le16 src)"

definition sys_get_le64 :: "u8 list \<Rightarrow> u64" where
  "sys_get_le64 src = push_bit 32 (ucast (sys_get_le32 (drop 4 src))) OR ucast (sys_get_le32 src)"

subsection \<open>Reversing\<close>

primrec memcpy_swap_loop :: "nat \<Rightarrow> u8 list \<Rightarrow> u8 list" where
  "memcpy_swap_loop 0 src = []"
| "memcpy_swap_loop (Suc n) src = src ! n # memcpy_swap_loop n src"

text \<open>The bytes written to the destination, which does not overlap the source.\<close>

definition sys_memcpy_swap :: "u8 list \<Rightarrow> nat \<Rightarrow> u8 list" where
  "sys_memcpy_swap src len = memcpy_swap_loop len src"

fun mem_swap_loop :: "nat \<Rightarrow> nat \<Rightarrow> nat \<Rightarrow> u8 list \<Rightarrow> u8 list" where
  "mem_swap_loop 0 i len buf = buf"
| "mem_swap_loop (Suc n) i len buf =
     mem_swap_loop n (i + 1) len (buf[i := buf ! (len - 1 - i), len - 1 - i := buf ! i])"

definition sys_mem_swap :: "u8 list \<Rightarrow> nat \<Rightarrow> u8 list" where
  "sys_mem_swap buf len = mem_swap_loop (len div 2) 0 len buf"

subsection \<open>Facts\<close>

lemmas put_defs =
  sys_put_be16_def sys_put_be24_def sys_put_be32_def sys_put_be48_def sys_put_be64_def
  sys_put_le16_def sys_put_le24_def sys_put_le32_def sys_put_le48_def sys_put_le64_def

lemma length_puts [simp]:
  "length (sys_put_le16 a) = 2" "length (sys_put_le24 b) = 3" "length (sys_put_le32 b) = 4"
  "length (sys_put_le48 c) = 6" "length (sys_put_le64 c) = 8"
  "length (sys_put_be16 a) = 2" "length (sys_put_be32 b) = 4"
  by (simp_all add: put_defs)

lemma sys_get_put_le16 [simp]: "sys_get_le16 (sys_put_le16 v) = v"
  by (rule bit_word_eqI) (auto simp: sys_get_le16_def sys_put_le16_def bit_simps)

lemma sys_get_put_be16 [simp]: "sys_get_be16 (sys_put_be16 v) = v"
  by (rule bit_word_eqI) (auto simp: sys_get_be16_def sys_put_be16_def bit_simps)

lemma get_append [simp]:
  "2 \<le> length xs \<Longrightarrow> sys_get_le16 (xs @ ys) = sys_get_le16 xs"
  "2 \<le> length xs \<Longrightarrow> sys_get_be16 (xs @ ys) = sys_get_be16 xs"
  by (auto simp: sys_get_le16_def sys_get_be16_def nth_append)

lemma sys_put_get_le16 [simp]: "length bs = 2 \<Longrightarrow> sys_put_le16 (sys_get_le16 bs) = bs"
proof -
  assume "length bs = 2"
  then obtain a b where bs: "bs = [a, b]"
    by (auto simp: length_Suc_conv numeral_2_eq_2)
  have "ucast (push_bit 8 (ucast b) OR ucast a :: u16) = a"
    and "ucast (drop_bit 8 (push_bit 8 (ucast b) OR ucast a :: u16)) = b"
    by (rule bit_word_eqI; auto simp: bit_simps dest: bit_imp_le_length)+
  then show ?thesis
    by (simp add: bs sys_put_le16_def sys_get_le16_def)
qed

lemma halves_16 [simp]: "push_bit 16 (ucast (ucast (drop_bit 16 v) :: u16)) OR ucast (ucast v :: u16) = (v :: u32)"
  by (rule bit_word_eqI) (auto simp: bit_simps)

lemma halves_32 [simp]: "push_bit 32 (ucast (ucast (drop_bit 32 v) :: u32)) OR ucast (ucast v :: u32) = (v :: u64)"
  by (rule bit_word_eqI) (auto simp: bit_simps)

lemma sys_get_put_le32 [simp]: "sys_get_le32 (sys_put_le32 v) = v"
  by (simp add: sys_get_le32_def sys_put_le32_def)

lemma sys_get_put_be32 [simp]: "sys_get_be32 (sys_put_be32 v) = v"
  by (simp add: sys_get_be32_def sys_put_be32_def)

lemma get_append_32 [simp]:
  "4 \<le> length xs \<Longrightarrow> sys_get_le32 (xs @ ys) = sys_get_le32 xs"
  "4 \<le> length xs \<Longrightarrow> sys_get_be32 (xs @ ys) = sys_get_be32 xs"
  by (simp_all add: sys_get_le32_def sys_get_be32_def)

lemma mem_swap_loop_rev:
  assumes "length xs = i" and "length ys = i" and "len = length (xs @ m @ ys)" and "n = length m div 2"
  shows "mem_swap_loop n i len (xs @ m @ ys) = xs @ rev m @ ys"
  using assms
proof (induction n arbitrary: i xs m ys)
  case 0
  then have "length m = 0 \<or> length m = 1" by linarith
  with 0 show ?case by (auto simp: length_Suc_conv)
next
  case (Suc n)
  then have "2 \<le> length m" by linarith
  then obtain a m1 where m1: "m = a # m1" "1 \<le> length m1" by (cases m) auto
  then obtain m' b where m: "m = a # m' @ [b]" by (cases m1 rule: rev_cases) auto
  have last: "len - 1 - i = i + 1 + length m'"
    using Suc.prems m by simp
  have "(xs @ m @ ys)[i := (xs @ m @ ys) ! (len - 1 - i), len - 1 - i := (xs @ m @ ys) ! i] =
      (xs @ [b]) @ m' @ (a # ys)"
    unfolding last using Suc.prems(1) by (simp add: m list_update_append nth_append)
  moreover have "mem_swap_loop n (i + 1) len ((xs @ [b]) @ m' @ (a # ys)) = (xs @ [b]) @ rev m' @ (a # ys)"
    using Suc.prems m by (intro Suc.IH) simp_all
  ultimately show ?case by (simp add: m)
qed

lemma sys_mem_swap_rev: "sys_mem_swap buf (length buf) = rev buf"
  using mem_swap_loop_rev [of "[]" 0 "[]" "length buf" buf] by (simp add: sys_mem_swap_def)

lemma sys_memcpy_swap_rev: "n \<le> length src \<Longrightarrow> sys_memcpy_swap src n = rev (take n src)"
  by (induction n) (simp_all add: sys_memcpy_swap_def take_Suc_conv_app_nth)

lemma thirds_48:
  "push_bit 16 (ucast (push_bit 16 (ucast (ucast (drop_bit 32 v) :: u16)) OR
     ucast (ucast (drop_bit 16 (ucast v :: u32)) :: u16) :: u32)) OR ucast (ucast (ucast v :: u32) :: u16) =
   take_bit 48 (v :: u64)" (is "?l = ?r")
proof (rule bit_word_eqI)
  fix n assume "n < LENGTH(64)"
  consider "n < 16" | m where "n = 16 + m" "m < 16" | m where "n = 32 + m"
    by (metis add.commute le_add_diff_inverse not_less nat_add_left_cancel_less numeral_Bit0)
  then show "bit ?l n = bit ?r n"
    using \<open>n < LENGTH(64)\<close> by cases (simp_all add: bit_simps)
qed

text \<open>
  For every width and in both byte orders, reading what was written gives the value back, cut to
  the width where the value is wider. The big endian form is the little endian form reversed, so the
  functions that reverse an array, in place or into another one, convert between the two.
\<close>

lemma byteorder_roundtrip:
  "sys_get_le16 (sys_put_le16 a) = a \<and> sys_get_be16 (sys_put_be16 a) = a \<and>
   sys_get_le24 (sys_put_le24 b) = take_bit 24 b \<and> sys_get_be24 (sys_put_be24 b) = take_bit 24 b \<and>
   sys_get_le32 (sys_put_le32 b) = b \<and> sys_get_be32 (sys_put_be32 b) = b \<and>
   sys_get_le48 (sys_put_le48 c) = take_bit 48 c \<and> sys_get_be48 (sys_put_be48 c) = take_bit 48 c \<and>
   sys_get_le64 (sys_put_le64 c) = c \<and> sys_get_be64 (sys_put_be64 c) = c \<and>
   sys_mem_swap (sys_put_le64 c) 8 = sys_put_be64 c \<and> sys_memcpy_swap (sys_put_be48 c) 6 = sys_put_le48 c"
proof (intro conjI)
  show "sys_get_le24 (sys_put_le24 b) = take_bit 24 b" "sys_get_be24 (sys_put_be24 b) = take_bit 24 b"
    by (simp_all add: sys_get_le24_def sys_put_le24_def sys_get_be24_def sys_put_be24_def nth_append)
      (rule bit_word_eqI; auto simp: bit_simps)+
  show "sys_get_le48 (sys_put_le48 c) = take_bit 48 c"
    unfolding sys_get_le48_def sys_put_le48_def sys_get_le32_def sys_put_le32_def by (simp add: thirds_48)
  show "sys_get_be48 (sys_put_be48 c) = take_bit 48 c"
    unfolding sys_get_be48_def sys_put_be48_def sys_get_be32_def sys_put_be32_def by (simp add: thirds_48)
  show "sys_mem_swap (sys_put_le64 c) 8 = sys_put_be64 c"
  proof -
    have "rev (sys_put_le64 c) = sys_put_be64 c" by (simp add: put_defs)
    with sys_mem_swap_rev [of "sys_put_le64 c"] show ?thesis by simp
  qed
  show "sys_memcpy_swap (sys_put_be48 c) 6 = sys_put_le48 c"
    by (simp add: sys_memcpy_swap_rev put_defs)
qed (simp_all add: sys_get_le64_def sys_put_le64_def sys_get_be64_def sys_put_be64_def)

end
