(* ===== verification/Gatt.thy ===== *)
theory Gatt
  imports Byteorder
begin

text \<open>
  The part of the Bluetooth host that the HID service talks to, from
  \<open>subsys/bluetooth/host/gatt.c\<close> and \<open>conn.c\<close>: reads of an attribute value at an offset, the
  attribute database of the static services and its iteration, the client characteristic
  configuration (CCC) of the peers, permission checks, and the delivery of a notification to
  every subscribed peer. A read or write returns \<open>Inl\<close> with the negative ATT error, or \<open>Inr\<close>
  with the bytes copied. Handles are natural numbers: the database holds fewer than \<open>2 ^ 16\<close>
  attributes. Building the ATT packet and giving it to the link
  (\<open>bt_att_create_pdu\<close>, \<open>bt_att_send\<close>) is the field \<open>att_ret\<close> of the state, the value
  \<open>gatt_notify\<close> returns on each connection.
\<close>

subsection \<open>Constants\<close>

abbreviation BT_ATT_ERR_READ_NOT_PERMITTED :: int where "BT_ATT_ERR_READ_NOT_PERMITTED \<equiv> 0x02"
abbreviation BT_ATT_ERR_WRITE_NOT_PERMITTED :: int where "BT_ATT_ERR_WRITE_NOT_PERMITTED \<equiv> 0x03"
abbreviation BT_ATT_ERR_AUTHENTICATION :: int where "BT_ATT_ERR_AUTHENTICATION \<equiv> 0x05"
abbreviation BT_ATT_ERR_INVALID_OFFSET :: int where "BT_ATT_ERR_INVALID_OFFSET \<equiv> 0x07"
abbreviation BT_ATT_ERR_INVALID_ATTRIBUTE_LEN :: int where
  "BT_ATT_ERR_INVALID_ATTRIBUTE_LEN \<equiv> 0x0d"
abbreviation BT_ATT_ERR_INSUFFICIENT_ENCRYPTION :: int where
  "BT_ATT_ERR_INSUFFICIENT_ENCRYPTION \<equiv> 0x0f"
abbreviation BT_ATT_ERR_INSUFFICIENT_RESOURCES :: int where
  "BT_ATT_ERR_INSUFFICIENT_RESOURCES \<equiv> 0x11"

abbreviation BT_GATT_PERM_READ :: u8 where "BT_GATT_PERM_READ \<equiv> 0x01"
abbreviation BT_GATT_PERM_WRITE :: u8 where "BT_GATT_PERM_WRITE \<equiv> 0x02"
abbreviation BT_GATT_PERM_READ_ENCRYPT :: u8 where "BT_GATT_PERM_READ_ENCRYPT \<equiv> 0x04"
abbreviation BT_GATT_PERM_WRITE_ENCRYPT :: u8 where "BT_GATT_PERM_WRITE_ENCRYPT \<equiv> 0x08"
abbreviation BT_GATT_PERM_READ_AUTHEN :: u8 where "BT_GATT_PERM_READ_AUTHEN \<equiv> 0x10"
abbreviation BT_GATT_PERM_WRITE_AUTHEN :: u8 where "BT_GATT_PERM_WRITE_AUTHEN \<equiv> 0x20"

abbreviation BT_GATT_PERM_READ_MASK :: u8 where
  "BT_GATT_PERM_READ_MASK \<equiv>
     BT_GATT_PERM_READ OR BT_GATT_PERM_READ_ENCRYPT OR BT_GATT_PERM_READ_AUTHEN"
abbreviation BT_GATT_PERM_WRITE_MASK :: u8 where
  "BT_GATT_PERM_WRITE_MASK \<equiv>
     BT_GATT_PERM_WRITE OR BT_GATT_PERM_WRITE_ENCRYPT OR BT_GATT_PERM_WRITE_AUTHEN"
abbreviation BT_GATT_PERM_ENCRYPT_MASK :: u8 where
  "BT_GATT_PERM_ENCRYPT_MASK \<equiv> BT_GATT_PERM_READ_ENCRYPT OR BT_GATT_PERM_WRITE_ENCRYPT"
abbreviation BT_GATT_PERM_AUTHEN_MASK :: u8 where
  "BT_GATT_PERM_AUTHEN_MASK \<equiv> BT_GATT_PERM_READ_AUTHEN OR BT_GATT_PERM_WRITE_AUTHEN"

abbreviation BT_GATT_CHRC_READ :: u8 where "BT_GATT_CHRC_READ \<equiv> 0x02"
abbreviation BT_GATT_CHRC_WRITE_WITHOUT_RESP :: u8 where
  "BT_GATT_CHRC_WRITE_WITHOUT_RESP \<equiv> 0x04"
abbreviation BT_GATT_CHRC_NOTIFY :: u8 where "BT_GATT_CHRC_NOTIFY \<equiv> 0x10"

abbreviation BT_GATT_CCC_NOTIFY :: u16 where "BT_GATT_CCC_NOTIFY \<equiv> 0x0001"

abbreviation BT_UUID_GATT_PRIMARY :: u16 where "BT_UUID_GATT_PRIMARY \<equiv> 0x2800"
abbreviation BT_UUID_GATT_CHRC :: u16 where "BT_UUID_GATT_CHRC \<equiv> 0x2803"
abbreviation BT_UUID_GATT_CCC :: u16 where "BT_UUID_GATT_CCC \<equiv> 0x2902"

abbreviation BT_SECURITY_L3 :: nat where "BT_SECURITY_L3 \<equiv> 3"

definition BT_GATT_ERR :: "int \<Rightarrow> int" where
  "BT_GATT_ERR att_err = - att_err"

subsection \<open>Reading an attribute value\<close>

definition bt_gatt_attr_read :: "u16 \<Rightarrow> u16 \<Rightarrow> u8 list \<Rightarrow> int + u8 list" where
  "bt_gatt_attr_read buf_len offset value =
     (if unat offset > length value then Inl (BT_GATT_ERR BT_ATT_ERR_INVALID_OFFSET)
      else let len = min (unat buf_len) (length value - unat offset)
           in Inr (take len (drop (unat offset) value)))"

lemma bt_gatt_attr_read_ok:
  "unat offset \<le> length value \<Longrightarrow>
   bt_gatt_attr_read buf_len offset value = Inr (take (unat buf_len) (drop (unat offset) value))"
  by (simp add: bt_gatt_attr_read_def Let_def min_def)

subsection \<open>Connections and peers\<close>

record bt_addr_le =
  addr_type :: u8
  addr_val :: "u8 list"

definition BT_ADDR_LE_ANY :: bt_addr_le where
  "BT_ADDR_LE_ANY = \<lparr>addr_type = 0, addr_val = [0, 0, 0, 0, 0, 0]\<rparr>"

datatype conn_state =
    BT_CONN_DISCONNECTED | BT_CONN_DISCONNECT_COMPLETE | BT_CONN_CONNECT_SCAN
  | BT_CONN_CONNECT_AUTO | BT_CONN_CONNECT_ADV | BT_CONN_CONNECT_DIR_ADV
  | BT_CONN_CONNECT | BT_CONN_CONNECTED | BT_CONN_DISCONNECT

record bt_conn =
  conn_ref :: nat
  conn_le :: bool
  conn_id :: u8
  conn_dst :: bt_addr_le
  conn_init_addr :: bt_addr_le
  conn_resp_addr :: bt_addr_le
  conn_master :: bool
  conn_st :: conn_state
  conn_sec :: nat
  conn_encrypt :: u8

definition bt_conn_is_peer_addr_le :: "bt_conn \<Rightarrow> u8 \<Rightarrow> bt_addr_le \<Rightarrow> bool" where
  "bt_conn_is_peer_addr_le conn ident peer =
     (if ident \<noteq> conn_id conn then False
      else if peer = conn_dst conn then True
      else if conn_master conn then peer = conn_resp_addr conn
      else peer = conn_init_addr conn)"

fun lookup_addr_from :: "nat \<Rightarrow> bt_conn list \<Rightarrow> u8 \<Rightarrow> bt_addr_le \<Rightarrow> nat option" where
  "lookup_addr_from i [] ident peer = None"
| "lookup_addr_from i (c # cs) ident peer =
     (if conn_ref c = 0 then lookup_addr_from (Suc i) cs ident peer
      else if \<not> conn_le c then lookup_addr_from (Suc i) cs ident peer
      else if bt_conn_is_peer_addr_le c ident peer then Some i
      else lookup_addr_from (Suc i) cs ident peer)"

text \<open>The index of the connection in \<open>acl_conns\<close> stands for the pointer that is returned.\<close>

definition bt_conn_lookup_addr_le :: "bt_conn list \<Rightarrow> u8 \<Rightarrow> bt_addr_le \<Rightarrow> nat option" where
  "bt_conn_lookup_addr_le acl_conns ident peer = lookup_addr_from 0 acl_conns ident peer"

subsection \<open>Client characteristic configuration\<close>

record bt_gatt_ccc_cfg =
  cfg_id :: u8
  cfg_peer :: bt_addr_le
  cfg_value :: u16

record bt_gatt_ccc =
  ccc_cfg :: "bt_gatt_ccc_cfg list"
  ccc_value :: u16

definition clear_ccc_cfg :: "bt_gatt_ccc_cfg \<Rightarrow> bt_gatt_ccc_cfg" where
  "clear_ccc_cfg cfg = cfg\<lparr>cfg_peer := BT_ADDR_LE_ANY, cfg_id := 0, cfg_value := 0\<rparr>"

definition ccc_cfg_matches :: "bt_conn option \<Rightarrow> bt_gatt_ccc_cfg \<Rightarrow> bool" where
  "ccc_cfg_matches conn cfg =
     (case conn of
        Some c \<Rightarrow> bt_conn_is_peer_addr_le c (cfg_id cfg) (cfg_peer cfg)
      | None \<Rightarrow> cfg_peer cfg = BT_ADDR_LE_ANY)"

fun find_cfg_from :: "nat \<Rightarrow> bt_conn option \<Rightarrow> bt_gatt_ccc_cfg list \<Rightarrow> nat option" where
  "find_cfg_from i conn [] = None"
| "find_cfg_from i conn (cfg # cfgs) =
     (if ccc_cfg_matches conn cfg then Some i else find_cfg_from (Suc i) conn cfgs)"

definition find_ccc_cfg :: "bt_conn option \<Rightarrow> bt_gatt_ccc \<Rightarrow> nat option" where
  "find_ccc_cfg conn ccc = find_cfg_from 0 conn (ccc_cfg ccc)"

definition bt_gatt_attr_read_ccc ::
    "bt_conn \<Rightarrow> bt_gatt_ccc \<Rightarrow> u16 \<Rightarrow> u16 \<Rightarrow> int + u8 list" where
  "bt_gatt_attr_read_ccc conn ccc len offset =
     (let value = (case find_ccc_cfg (Some conn) ccc of
                     Some i \<Rightarrow> cfg_value (ccc_cfg ccc ! i)
                   | None \<Rightarrow> 0)
      in bt_gatt_attr_read len offset (sys_put_le16 value))"

fun max_cfg_value :: "u16 \<Rightarrow> bt_gatt_ccc_cfg list \<Rightarrow> u16" where
  "max_cfg_value value [] = value"
| "max_cfg_value value (cfg # cfgs) =
     max_cfg_value (if cfg_value cfg > value then cfg_value cfg else value) cfgs"

text \<open>The second component is the value \<open>cfg_changed\<close> is called with, when it is called.\<close>

definition gatt_ccc_changed :: "bt_gatt_ccc \<Rightarrow> bt_gatt_ccc \<times> u16 option" where
  "gatt_ccc_changed ccc =
     (let value = max_cfg_value 0 (ccc_cfg ccc)
      in if value \<noteq> ccc_value ccc then (ccc\<lparr>ccc_value := value\<rparr>, Some value)
         else (ccc, None))"

text \<open>
  A CCC declared with \<open>BT_GATT_CCC\<close> has no \<open>cfg_write\<close> callback. \<open>write_ccc_cfg\<close> is the second
  half of \<open>bt_gatt_attr_write_ccc\<close>, once the entry of the peer is known; the result has the value
  returned, the new CCC and the value \<open>cfg_changed\<close> is called with.
\<close>

definition write_ccc_cfg ::
    "bt_gatt_ccc \<Rightarrow> nat \<Rightarrow> u16 \<Rightarrow> bt_gatt_ccc \<times> u16 option" where
  "write_ccc_cfg ccc i value =
     (let ccc1 = ccc\<lparr>ccc_cfg := (ccc_cfg ccc)[i := (ccc_cfg ccc ! i)\<lparr>cfg_value := value\<rparr>]\<rparr>;
          (ccc2, ev) = (if value \<noteq> ccc_value ccc1 then gatt_ccc_changed ccc1 else (ccc1, None));
          ccc3 = (if value = 0
                  then ccc2\<lparr>ccc_cfg := (ccc_cfg ccc2)[i := clear_ccc_cfg (ccc_cfg ccc2 ! i)]\<rparr>
                  else ccc2)
      in (ccc3, ev))"

definition bt_gatt_attr_write_ccc ::
    "bt_conn \<Rightarrow> bt_gatt_ccc \<Rightarrow> u8 list \<Rightarrow> u16 \<Rightarrow> int \<times> bt_gatt_ccc \<times> u16 option" where
  "bt_gatt_attr_write_ccc conn ccc buf offset =
     (if offset \<noteq> 0 then (BT_GATT_ERR BT_ATT_ERR_INVALID_OFFSET, ccc, None)
      else if length buf = 0 \<or> length buf > 2
        then (BT_GATT_ERR BT_ATT_ERR_INVALID_ATTRIBUTE_LEN, ccc, None)
      else
        let value = (if length buf < 2 then ucast (buf ! 0) else sys_get_le16 buf);
            len = int (length buf)
        in case find_ccc_cfg (Some conn) ccc of
             Some i \<Rightarrow> (len, write_ccc_cfg ccc i value)
           | None \<Rightarrow>
               if value = 0 then (len, ccc, None)
               else case find_ccc_cfg None ccc of
                      None \<Rightarrow> (BT_GATT_ERR BT_ATT_ERR_INSUFFICIENT_RESOURCES, ccc, None)
                    | Some i \<Rightarrow>
                        (len, write_ccc_cfg
                           (ccc\<lparr>ccc_cfg := (ccc_cfg ccc)
                              [i := (ccc_cfg ccc ! i)\<lparr>cfg_peer := conn_dst conn,
                                                       cfg_id := conn_id conn\<rparr>]\<rparr>) i value))"

subsection \<open>The attribute database\<close>

text \<open>
  An attribute names its callbacks; those of an application are numbered by the service that
  declares them. \<open>user_data\<close> is the UUID of a service, the declaration of a characteristic, the
  number of a CCC, or an object of the application.
\<close>

datatype read_fn = Read_service | Read_chrc | Read_ccc | Read_app nat
datatype write_fn = Write_ccc | Write_app nat

datatype user_data =
    UD_Null | UD_Uuid u16 | UD_Chrc u16 nat u8 | UD_Ccc nat | UD_Obj nat

record bt_gatt_attr =
  attr_uuid :: u16
  attr_read :: "read_fn option"
  attr_write :: "write_fn option"
  attr_data :: user_data
  attr_perm :: u8

type_synonym service = "bt_gatt_attr list"

definition BT_GATT_ATTRIBUTE ::
    "u16 \<Rightarrow> u8 \<Rightarrow> read_fn option \<Rightarrow> write_fn option \<Rightarrow> user_data \<Rightarrow> bt_gatt_attr" where
  "BT_GATT_ATTRIBUTE uuid perm rd wr value =
     \<lparr>attr_uuid = uuid, attr_read = rd, attr_write = wr, attr_data = value, attr_perm = perm\<rparr>"

definition BT_GATT_PRIMARY_SERVICE :: "u16 \<Rightarrow> bt_gatt_attr" where
  "BT_GATT_PRIMARY_SERVICE svc =
     BT_GATT_ATTRIBUTE BT_UUID_GATT_PRIMARY BT_GATT_PERM_READ (Some Read_service) None
       (UD_Uuid svc)"

definition BT_GATT_CHARACTERISTIC ::
    "u16 \<Rightarrow> u8 \<Rightarrow> u8 \<Rightarrow> read_fn option \<Rightarrow> write_fn option \<Rightarrow> user_data \<Rightarrow> bt_gatt_attr list" where
  "BT_GATT_CHARACTERISTIC uuid props perm rd wr value =
     [BT_GATT_ATTRIBUTE BT_UUID_GATT_CHRC BT_GATT_PERM_READ (Some Read_chrc) None
        (UD_Chrc uuid 0 props),
      BT_GATT_ATTRIBUTE uuid perm rd wr value]"

definition BT_GATT_CCC :: "nat \<Rightarrow> u8 \<Rightarrow> bt_gatt_attr" where
  "BT_GATT_CCC ccc perm =
     BT_GATT_ATTRIBUTE BT_UUID_GATT_CCC perm (Some Read_ccc) (Some Write_ccc) (UD_Ccc ccc)"

definition BT_GATT_DESCRIPTOR ::
    "u16 \<Rightarrow> u8 \<Rightarrow> read_fn option \<Rightarrow> write_fn option \<Rightarrow> user_data \<Rightarrow> bt_gatt_attr" where
  "BT_GATT_DESCRIPTOR uuid perm rd wr value = BT_GATT_ATTRIBUTE uuid perm rd wr value"

text \<open>
  A pointer to an attribute of a static service is the number of the service in its linker
  section and the index in the service's array.
\<close>

fun get_handle :: "nat \<Rightarrow> service list \<Rightarrow> nat \<Rightarrow> nat \<Rightarrow> nat" where
  "get_handle handle [] s i = 0"
| "get_handle handle (svc # svcs) (Suc s) i = get_handle (handle + length svc) svcs s i"
| "get_handle handle (svc # svcs) 0 i = (if i < length svc then handle + i else 0)"

definition bt_gatt_attr_get_handle :: "service list \<Rightarrow> nat \<times> nat \<Rightarrow> nat" where
  "bt_gatt_attr_get_handle svcs attr = get_handle 1 svcs (fst attr) (snd attr)"

definition bt_gatt_attr_value_handle :: "service list \<Rightarrow> nat \<times> nat \<Rightarrow> nat" where
  "bt_gatt_attr_value_handle svcs attr =
     (case svcs ! fst attr ! snd attr of a \<Rightarrow>
        if attr_read a = Some Read_chrc
        then case attr_data a of
               UD_Chrc _ value_handle _ \<Rightarrow>
                 if value_handle = 0 then bt_gatt_attr_get_handle svcs attr + 1 else value_handle
             | _ \<Rightarrow> 0
        else 0)"

datatype iter = BT_GATT_ITER_STOP | BT_GATT_ITER_CONTINUE

definition gatt_foreach_iter ::
    "nat \<Rightarrow> nat \<Rightarrow> u16 option \<Rightarrow> user_data option \<Rightarrow>
     (bt_gatt_attr \<Rightarrow> nat \<Rightarrow> 's \<Rightarrow> iter \<times> 's) \<Rightarrow>
     bt_gatt_attr \<Rightarrow> nat \<Rightarrow> nat \<times> 's \<Rightarrow> iter \<times> nat \<times> 's" where
  "gatt_foreach_iter start_handle end_handle uuid data func attr handle st =
     (if handle > end_handle then (BT_GATT_ITER_STOP, st)
      else if handle < start_handle then (BT_GATT_ITER_CONTINUE, st)
      else if uuid \<noteq> None \<and> uuid \<noteq> Some (attr_uuid attr) then (BT_GATT_ITER_CONTINUE, st)
      else if data \<noteq> None \<and> data \<noteq> Some (attr_data attr) then (BT_GATT_ITER_CONTINUE, st)
      else let num_matches = fst st - 1;
               (result, s) = func attr handle (snd st)
           in if num_matches = 0 then (BT_GATT_ITER_STOP, num_matches, s)
              else (result, num_matches, s))"

fun foreach_attrs ::
    "(bt_gatt_attr \<Rightarrow> nat \<Rightarrow> 's \<Rightarrow> iter \<times> 's) \<Rightarrow> bt_gatt_attr list \<Rightarrow> nat \<Rightarrow> 's \<Rightarrow>
     iter \<times> nat \<times> 's" where
  "foreach_attrs step [] handle st = (BT_GATT_ITER_CONTINUE, handle, st)"
| "foreach_attrs step (attr # attrs) handle st =
     (case step attr handle st of
        (BT_GATT_ITER_STOP, st') \<Rightarrow> (BT_GATT_ITER_STOP, handle, st')
      | (BT_GATT_ITER_CONTINUE, st') \<Rightarrow> foreach_attrs step attrs (Suc handle) st')"

fun foreach_svcs ::
    "nat \<Rightarrow> (bt_gatt_attr \<Rightarrow> nat \<Rightarrow> 's \<Rightarrow> iter \<times> 's) \<Rightarrow> service list \<Rightarrow> nat \<Rightarrow> 's \<Rightarrow> 's" where
  "foreach_svcs start_handle step [] handle st = st"
| "foreach_svcs start_handle step (svc # svcs) handle st =
     (if handle + length svc < start_handle
      then foreach_svcs start_handle step svcs (handle + length svc) st
      else case foreach_attrs step svc handle st of
             (BT_GATT_ITER_STOP, _, st') \<Rightarrow> st'
           | (BT_GATT_ITER_CONTINUE, handle', st') \<Rightarrow>
               foreach_svcs start_handle step svcs handle' st')"

text \<open>
  The application registers no dynamic service, so the iteration ends with the static ones;
  \<open>last_static_handle\<close> is the number of their attributes.
\<close>

definition bt_gatt_foreach_attr_type ::
    "service list \<Rightarrow> nat \<Rightarrow> nat \<Rightarrow> u16 option \<Rightarrow> user_data option \<Rightarrow> nat \<Rightarrow>
     (bt_gatt_attr \<Rightarrow> nat \<Rightarrow> 's \<Rightarrow> iter \<times> 's) \<Rightarrow> 's \<Rightarrow> 's" where
  "bt_gatt_foreach_attr_type svcs start_handle end_handle uuid data num func s =
     (let num_matches = (if num = 0 then 65535 else num);
          last_static_handle = length (concat svcs)
      in if start_handle \<le> last_static_handle
         then snd (foreach_svcs start_handle
                     (gatt_foreach_iter start_handle end_handle uuid data func) svcs 1
                     (num_matches, s))
         else s)"

subsection \<open>Permissions\<close>

definition bt_gatt_check_perm :: "bt_conn \<Rightarrow> bt_gatt_attr \<Rightarrow> u8 \<Rightarrow> int" where
  "bt_gatt_check_perm conn attr m =
     (if m AND BT_GATT_PERM_READ \<noteq> 0 \<and>
         (attr_perm attr AND BT_GATT_PERM_READ_MASK = 0 \<or> attr_read attr = None)
      then BT_ATT_ERR_READ_NOT_PERMITTED
      else if m AND BT_GATT_PERM_WRITE \<noteq> 0 \<and>
         (attr_perm attr AND BT_GATT_PERM_WRITE_MASK = 0 \<or> attr_write attr = None)
      then BT_ATT_ERR_WRITE_NOT_PERMITTED
      else let m' = m AND attr_perm attr
           in if m' AND BT_GATT_PERM_AUTHEN_MASK \<noteq> 0 \<and> conn_sec conn < BT_SECURITY_L3
              then BT_ATT_ERR_AUTHENTICATION
              else if m' AND BT_GATT_PERM_ENCRYPT_MASK \<noteq> 0 \<and> conn_encrypt conn = 0
              then BT_ATT_ERR_INSUFFICIENT_ENCRYPTION
              else 0)"

subsection \<open>Notifications\<close>

record gatt =
  services :: "service list"
  cccs :: "nat \<Rightarrow> bt_gatt_ccc"
  acl_conns :: "bt_conn list"
  dev_ready :: bool
  att_ret :: "nat \<Rightarrow> int"
  sent :: "(nat \<times> nat \<times> u8 list) list"

definition gatt_notify :: "nat \<Rightarrow> nat \<Rightarrow> u8 list \<Rightarrow> gatt \<Rightarrow> int \<times> gatt" where
  "gatt_notify conn handle data g =
     (if att_ret g conn < 0 then (att_ret g conn, g)
      else (att_ret g conn, g\<lparr>sent := sent g @ [(conn, handle, data)]\<rparr>))"

fun notify_peers ::
    "u16 \<Rightarrow> nat \<Rightarrow> u8 list \<Rightarrow> bt_gatt_ccc_cfg list \<Rightarrow> int \<times> gatt \<Rightarrow> iter \<times> int \<times> gatt" where
  "notify_peers ty handle data [] (err, g) = (BT_GATT_ITER_CONTINUE, err, g)"
| "notify_peers ty handle data (cfg # cfgs) (err, g) =
     (if cfg_value cfg \<noteq> ty then notify_peers ty handle data cfgs (err, g)
      else case bt_conn_lookup_addr_le (acl_conns g) (cfg_id cfg) (cfg_peer cfg) of
             None \<Rightarrow> notify_peers ty handle data cfgs (err, g)
           | Some conn \<Rightarrow>
               if conn_st (acl_conns g ! conn) \<noteq> BT_CONN_CONNECTED
               then notify_peers ty handle data cfgs (err, g)
               else case gatt_notify conn handle data g of (r, g') \<Rightarrow>
                      if r < 0 then (BT_GATT_ITER_STOP, err, g')
                      else notify_peers ty handle data cfgs (0, g'))"

text \<open>
  The branch of \<open>notify_cb\<close> for the CCC of the Service Changed characteristic concerns
  indications only and is not part of the model.
\<close>

definition notify_cb ::
    "u16 \<Rightarrow> nat \<Rightarrow> u8 list \<Rightarrow> bt_gatt_attr \<Rightarrow> nat \<Rightarrow> int \<times> gatt \<Rightarrow> iter \<times> int \<times> gatt" where
  "notify_cb ty value_handle data attr handle st =
     (if attr_write attr \<noteq> Some Write_ccc then (BT_GATT_ITER_CONTINUE, st)
      else case attr_data attr of
             UD_Ccc n \<Rightarrow> notify_peers ty value_handle data (ccc_cfg (cccs (snd st) n)) st
           | _ \<Rightarrow> (BT_GATT_ITER_CONTINUE, st))"

definition bt_gatt_notify_cb ::
    "nat option \<Rightarrow> nat \<times> nat \<Rightarrow> u8 list \<Rightarrow> gatt \<Rightarrow> int \<times> gatt" where
  "bt_gatt_notify_cb conn attr data g =
     (if \<not> dev_ready g then (- EAGAIN, g)
      else if (case conn of Some c \<Rightarrow> conn_st (acl_conns g ! c) \<noteq> BT_CONN_CONNECTED | None \<Rightarrow> False)
      then (- ENOTCONN, g)
      else let handle = bt_gatt_attr_get_handle (services g) attr
           in if handle = 0 then (- ENOENT, g)
              else let a = services g ! fst attr ! snd attr;
                       is_chrc = (attr_uuid a = BT_UUID_GATT_CHRC);
                       props = (case attr_data a of UD_Chrc _ _ p \<Rightarrow> p | _ \<Rightarrow> 0)
                   in if is_chrc \<and> props AND BT_GATT_CHRC_NOTIFY = 0 then (- EINVAL, g)
                      else let h = (if is_chrc then bt_gatt_attr_value_handle (services g) attr
                                    else handle)
                           in case conn of
                                Some c \<Rightarrow> gatt_notify c h data g
                              | None \<Rightarrow>
                                  bt_gatt_foreach_attr_type (services g) h 0xffff
                                    (Some BT_UUID_GATT_CCC) None 1
                                    (notify_cb BT_GATT_CCC_NOTIFY h data) (- ENOTCONN, g))"

definition bt_gatt_notify ::
    "nat option \<Rightarrow> nat \<times> nat \<Rightarrow> u8 list \<Rightarrow> gatt \<Rightarrow> int \<times> gatt" where
  "bt_gatt_notify conn attr data g = bt_gatt_notify_cb conn attr data g"

subsection \<open>Entries of a CCC\<close>

lemma find_cfg_from_Some:
  "find_cfg_from k conn cfgs = Some i \<longleftrightarrow>
     (k \<le> i \<and> i - k < length cfgs \<and> ccc_cfg_matches conn (cfgs ! (i - k)) \<and>
      (\<forall>j < i - k. \<not> ccc_cfg_matches conn (cfgs ! j)))"
proof (induction cfgs arbitrary: k)
  case Nil
  then show ?case by simp
next
  case (Cons cfg cfgs)
  show ?case
  proof (cases "ccc_cfg_matches conn cfg")
    case True
    then have "k < i \<Longrightarrow> \<exists>j < i - k. ccc_cfg_matches conn ((cfg # cfgs) ! j)"
      by (intro exI [of _ 0]) simp
    with True show ?thesis
      by (auto simp: le_less)
  next
    case False
    then show ?thesis
      by (auto simp: Cons.IH Suc_le_eq nth_Cons' less_diff_conv Suc_diff_Suc)
  qed
qed

lemma find_ccc_cfg_Some:
  "find_ccc_cfg conn ccc = Some i \<longleftrightarrow>
     (i < length (ccc_cfg ccc) \<and> ccc_cfg_matches conn (ccc_cfg ccc ! i) \<and>
      (\<forall>j < i. \<not> ccc_cfg_matches conn (ccc_cfg ccc ! j)))"
  by (simp add: find_ccc_cfg_def find_cfg_from_Some)

lemma find_ccc_cfg_None:
  "find_ccc_cfg conn ccc = None \<longleftrightarrow>
     (\<forall>i < length (ccc_cfg ccc). \<not> ccc_cfg_matches conn (ccc_cfg ccc ! i))"
proof -
  have "find_cfg_from k conn cfgs = None \<longleftrightarrow> (\<forall>cfg \<in> set cfgs. \<not> ccc_cfg_matches conn cfg)"
    for k cfgs
    by (induction cfgs arbitrary: k) auto
  then show ?thesis
    by (simp add: find_ccc_cfg_def all_set_conv_all_nth)
qed

lemma matches_own_entry [simp]:
  "ccc_cfg_matches (Some c) (cfg\<lparr>cfg_peer := conn_dst c, cfg_id := conn_id c, cfg_value := v\<rparr>)"
  by (simp add: ccc_cfg_matches_def bt_conn_is_peer_addr_le_def)

lemma matches_value_update [simp]:
  "ccc_cfg_matches conn (cfg\<lparr>cfg_value := v\<rparr>) = ccc_cfg_matches conn cfg"
  by (simp add: ccc_cfg_matches_def split: option.splits)

subsection \<open>The consolidated value\<close>

text \<open>
  \<open>ccc_value\<close> caches the largest value any peer has written. The invariant says that the cache is
  exact; \<open>bt_gatt_attr_write_ccc\<close> keeps it although it recomputes the maximum only when the
  written value differs from the cached one.
\<close>

definition ccc_inv :: "bt_gatt_ccc \<Rightarrow> bool" where
  "ccc_inv ccc \<longleftrightarrow> ccc_value ccc = max_cfg_value 0 (ccc_cfg ccc)"

lemma max_cfg_value_eq: "max_cfg_value v cfgs = Max (insert v (cfg_value ` set cfgs))"
proof (induction cfgs arbitrary: v)
  case Nil
  then show ?case by simp
next
  case (Cons cfg cfgs)
  have "(if v < cfg_value cfg then cfg_value cfg else v) = max v (cfg_value cfg)"
    by (auto simp: max_def)
  then show ?case
    by (cases "cfgs = []") (simp_all add: Cons.IH max.assoc)
qed

lemma max_cfg_value_insert:
  "i < length cfgs \<Longrightarrow> max_cfg_value 0 cfgs =
     max (cfg_value (cfgs ! i)) (Max (insert 0 (cfg_value ` set (take i cfgs @ drop (Suc i) cfgs))))"
proof -
  assume i: "i < length cfgs"
  have "set cfgs = insert (cfgs ! i) (set (take i cfgs @ drop (Suc i) cfgs))"
    using arg_cong [OF id_take_nth_drop [OF i], of set] by simp
  then have "insert 0 (cfg_value ` set cfgs) =
      insert (cfg_value (cfgs ! i)) (insert 0 (cfg_value ` set (take i cfgs @ drop (Suc i) cfgs)))"
    by (metis image_insert insert_commute)
  then show ?thesis
    unfolding max_cfg_value_eq by (simp add: Max_insert del: set_append)
qed

lemma max_cfg_value_update:
  assumes "i < length cfgs"
  shows "max_cfg_value 0 (cfgs[i := cfg]) =
     max (cfg_value cfg) (Max (insert 0 (cfg_value ` set (take i cfgs @ drop (Suc i) cfgs))))"
  using max_cfg_value_insert [of i "cfgs[i := cfg]"] assms by simp

lemma max_cfg_value_same:
  "i < length cfgs \<Longrightarrow> cfg_value cfg = cfg_value (cfgs ! i) \<Longrightarrow>
   max_cfg_value 0 (cfgs[i := cfg]) = max_cfg_value 0 cfgs"
  by (simp add: max_cfg_value_update max_cfg_value_insert del: set_append)

lemma cfg_value_le_max: "i < length cfgs \<Longrightarrow> cfg_value (cfgs ! i) \<le> max_cfg_value 0 cfgs"
  by (simp add: max_cfg_value_insert del: set_append)

lemma write_ccc_cfg_inv:
  assumes "ccc_inv ccc" and i: "i < length (ccc_cfg ccc)"
  shows "ccc_inv (fst (write_ccc_cfg ccc i value))"
proof (cases "value = ccc_value ccc")
  case True
  define rest where "rest = Max (insert 0 (cfg_value ` set (take i (ccc_cfg ccc) @
      drop (Suc i) (ccc_cfg ccc))))"
  have "max_cfg_value 0 (ccc_cfg ccc) = max (cfg_value (ccc_cfg ccc ! i)) rest"
    using i unfolding rest_def by (rule max_cfg_value_insert)
  with assms(1) True have "rest \<le> value"
    by (simp add: ccc_inv_def)
  then have "max_cfg_value 0 ((ccc_cfg ccc)[i := cfg]) = value" if "cfg_value cfg = value" for cfg
    using i that by (simp add: max_cfg_value_update rest_def [symmetric] max_def
        del: set_append)
  with True i show ?thesis
    by (auto simp: write_ccc_cfg_def ccc_inv_def clear_ccc_cfg_def Let_def)
next
  case False
  with i show ?thesis
    by (auto simp: write_ccc_cfg_def gatt_ccc_changed_def Let_def ccc_inv_def clear_ccc_cfg_def
        max_cfg_value_update simp del: set_append split: if_splits)
qed

lemma write_ccc_cfg_event:
  assumes "ccc_inv ccc" and i: "i < length (ccc_cfg ccc)"
  shows "snd (write_ccc_cfg ccc i value) =
     (if ccc_value (fst (write_ccc_cfg ccc i value)) = ccc_value ccc then None
      else Some (ccc_value (fst (write_ccc_cfg ccc i value))))"
  by (auto simp: write_ccc_cfg_def gatt_ccc_changed_def Let_def split: if_splits)

lemma write_ccc_cfg_ok:
  assumes "write_ccc_cfg ccc i v = (ccc', ev)" and "ccc_inv ccc" and "i < length (ccc_cfg ccc)"
  shows "ccc_inv ccc' \<and>
     ev = (if ccc_value ccc' = ccc_value ccc then None else Some (ccc_value ccc'))"
  using write_ccc_cfg_inv [OF assms(2,3), of v] write_ccc_cfg_event [OF assms(2,3), of v]
  unfolding assms(1) by (simp only: fst_conv snd_conv)

lemma ccc_write_cases:
  assumes "bt_gatt_attr_write_ccc conn ccc buf offset = (ret, ccc', ev)" and "ccc_inv ccc"
  shows "ccc_inv ccc' \<and>
     ev = (if ccc_value ccc' = ccc_value ccc then None else Some (ccc_value ccc'))"
proof -
  have fresh: "ccc_inv (ccc\<lparr>ccc_cfg := (ccc_cfg ccc)[i := (ccc_cfg ccc ! i)\<lparr>cfg_peer := p, cfg_id := k\<rparr>]\<rparr>)"
    if "i < length (ccc_cfg ccc)" for i p k
    using assms(2) that by (simp add: ccc_inv_def max_cfg_value_same)
  from assms(1) consider "ccc' = ccc" "ev = None"
    | i v where "find_ccc_cfg (Some conn) ccc = Some i" "write_ccc_cfg ccc i v = (ccc', ev)"
    | i v where "find_ccc_cfg None ccc = Some i"
        "write_ccc_cfg (ccc\<lparr>ccc_cfg := (ccc_cfg ccc)
           [i := (ccc_cfg ccc ! i)\<lparr>cfg_peer := conn_dst conn, cfg_id := conn_id conn\<rparr>]\<rparr>) i v
         = (ccc', ev)"
    by (auto simp: bt_gatt_attr_write_ccc_def Let_def split: if_splits option.splits)
  then show ?thesis
  proof cases
    case 1
    with assms(2) show ?thesis by simp
  next
    case (2 i v)
    from write_ccc_cfg_ok [OF 2(2) assms(2)] 2(1) show ?thesis
      by (simp add: find_ccc_cfg_Some)
  next
    case (3 i v)
    then have i: "i < length (ccc_cfg ccc)"
      by (simp add: find_ccc_cfg_Some)
    from write_ccc_cfg_ok [OF 3(2) fresh [OF i]] i show ?thesis
      by simp
  qed
qed

subsection \<open>Writing and reading back a configuration\<close>

lemma find_after_write:
  assumes found: "find_ccc_cfg (Some conn) ccc = Some i" and "value \<noteq> 0"
  shows "find_ccc_cfg (Some conn) (fst (write_ccc_cfg ccc i value)) = Some i"
    and "cfg_value (ccc_cfg (fst (write_ccc_cfg ccc i value)) ! i) = value"
  using assms by (auto simp: find_ccc_cfg_Some write_ccc_cfg_def gatt_ccc_changed_def Let_def)

lemma find_new_entry:
  assumes none: "find_ccc_cfg (Some conn) ccc = None"
    and free: "find_ccc_cfg None ccc = Some i"
  shows "find_ccc_cfg (Some conn) (ccc\<lparr>ccc_cfg := (ccc_cfg ccc)
           [i := (ccc_cfg ccc ! i)\<lparr>cfg_peer := conn_dst conn, cfg_id := conn_id conn\<rparr>]\<rparr>) = Some i"
  using assms
  by (auto simp: find_ccc_cfg_Some find_ccc_cfg_None ccc_cfg_matches_def [of "Some conn"]
      bt_conn_is_peer_addr_le_def split: if_splits)

lemma write_ccc_read_ccc_value:
  assumes w: "bt_gatt_attr_write_ccc conn ccc (sys_put_le16 value) 0 = (2, ccc', ev)"
    and "value \<noteq> 0"
  shows "\<exists>i. find_ccc_cfg (Some conn) ccc' = Some i \<and> cfg_value (ccc_cfg ccc' ! i) = value"
proof (cases "find_ccc_cfg (Some conn) ccc")
  case (Some i)
  with w \<open>value \<noteq> 0\<close> have "(ccc', ev) = write_ccc_cfg ccc i value"
    by (simp add: bt_gatt_attr_write_ccc_def Let_def)
  with find_after_write [OF Some \<open>value \<noteq> 0\<close>] show ?thesis
    by (metis fst_conv)
next
  case None
  with w \<open>value \<noteq> 0\<close> obtain i where i: "find_ccc_cfg None ccc = Some i"
    by (cases "find_ccc_cfg None ccc")
       (simp_all add: bt_gatt_attr_write_ccc_def Let_def BT_GATT_ERR_def)
  from w \<open>value \<noteq> 0\<close> None i have "(ccc', ev) = write_ccc_cfg (ccc\<lparr>ccc_cfg := (ccc_cfg ccc)
      [i := (ccc_cfg ccc ! i)\<lparr>cfg_peer := conn_dst conn, cfg_id := conn_id conn\<rparr>]\<rparr>) i value"
    by (simp add: bt_gatt_attr_write_ccc_def Let_def)
  with find_after_write [OF find_new_entry [OF None i] \<open>value \<noteq> 0\<close>] show ?thesis
    by (metis fst_conv)
qed

subsection \<open>Iteration over the database\<close>

text \<open>
  The reference for the iteration with \<open>num_matches = 1\<close>: the callback runs on the first attribute
  of the whole database, in handle order, that lies in the range and matches.
\<close>

definition attr_in_range ::
    "nat \<Rightarrow> nat \<Rightarrow> u16 option \<Rightarrow> user_data option \<Rightarrow> bt_gatt_attr \<Rightarrow> nat \<Rightarrow> bool" where
  "attr_in_range start_handle end_handle uuid data attr handle \<longleftrightarrow>
     start_handle \<le> handle \<and> handle \<le> end_handle \<and>
     (uuid = None \<or> uuid = Some (attr_uuid attr)) \<and> (data = None \<or> data = Some (attr_data attr))"

fun first_match ::
    "(bt_gatt_attr \<Rightarrow> nat \<Rightarrow> bool) \<Rightarrow> bt_gatt_attr list \<Rightarrow> nat \<Rightarrow> (bt_gatt_attr \<times> nat) option" where
  "first_match P [] handle = None"
| "first_match P (attr # attrs) handle =
     (if P attr handle then Some (attr, handle) else first_match P attrs (Suc handle))"

lemma first_match_append:
  "first_match P (xs @ ys) h =
     (case first_match P xs h of None \<Rightarrow> first_match P ys (h + length xs) | Some r \<Rightarrow> Some r)"
  by (induction xs arbitrary: h) (auto split: option.splits)

lemma first_match_None:
  "(\<And>a k. h \<le> k \<Longrightarrow> k < h + length xs \<Longrightarrow> \<not> P a k) \<Longrightarrow> first_match P xs h = None"
  by (induction xs arbitrary: h) auto

lemma first_match_past_end:
  "en < h \<Longrightarrow> first_match (attr_in_range st en u d) xs h = None"
  by (rule first_match_None) (simp add: attr_in_range_def)

lemma first_match_before_start:
  "h + length xs \<le> st \<Longrightarrow> first_match (attr_in_range st en u d) xs h = None"
  by (rule first_match_None) (simp add: attr_in_range_def)

lemma foreach_attrs_one:
  "foreach_attrs (gatt_foreach_iter st en u d f) attrs h (Suc 0, s) =
     (case first_match (attr_in_range st en u d) attrs h of
        Some (a, h') \<Rightarrow> (BT_GATT_ITER_STOP, h', 0, snd (f a h' s))
      | None \<Rightarrow>
          if attrs \<noteq> [] \<and> Suc en < h + length attrs
          then (BT_GATT_ITER_STOP, max h (Suc en), Suc 0, s)
          else (BT_GATT_ITER_CONTINUE, h + length attrs, Suc 0, s))"
proof (induction attrs arbitrary: h)
  case Nil
  then show ?case by simp
next
  case (Cons a attrs)
  consider (past) "en < h" | (hit) "attr_in_range st en u d a h"
    | (miss) "h \<le> en" "\<not> attr_in_range st en u d a h"
    by linarith
  then show ?case
  proof cases
    case past
    then have "\<not> attr_in_range st en u d a h"
      by (simp add: attr_in_range_def)
    with past show ?thesis
      by (simp add: gatt_foreach_iter_def first_match_past_end)
  next
    case hit
    then show ?thesis
      by (auto simp: gatt_foreach_iter_def attr_in_range_def split: prod.splits)
  next
    case miss
    then have "gatt_foreach_iter st en u d f a h (Suc 0, s) = (BT_GATT_ITER_CONTINUE, Suc 0, s)"
      by (auto simp: gatt_foreach_iter_def attr_in_range_def)
    with miss show ?thesis
      by (auto simp: Cons.IH max_def split: option.splits)
  qed
qed

lemma foreach_svcs_one:
  "snd (foreach_svcs st (gatt_foreach_iter st en u d f) svcs h (Suc 0, s)) =
     (case first_match (attr_in_range st en u d) (concat svcs) h of
        Some (a, h') \<Rightarrow> snd (f a h' s) | None \<Rightarrow> s)"
proof (induction svcs arbitrary: h)
  case Nil
  then show ?case by simp
next
  case (Cons svc svcs)
  show ?case
  proof (cases "h + length svc < st")
    case True
    then show ?thesis
      by (simp add: Cons.IH first_match_append first_match_before_start)
  next
    case False
    then show ?thesis
      by (auto simp: foreach_attrs_one Cons.IH first_match_append first_match_past_end
          split: option.splits)
  qed
qed

lemma foreach_attr_type_one:
  "bt_gatt_foreach_attr_type svcs st en u d 1 f s =
     (case first_match (attr_in_range st en u d) (concat svcs) 1 of
        Some (a, h) \<Rightarrow> snd (f a h s) | None \<Rightarrow> s)"
  by (auto simp: bt_gatt_foreach_attr_type_def foreach_svcs_one Let_def
      first_match_before_start not_le less_eq_Suc_le split: option.splits)

subsection \<open>Delivery of a notification\<close>

text \<open>The connections that have the characteristic enabled, in the order of the entries.\<close>

definition subscriber :: "bt_conn list \<Rightarrow> u16 \<Rightarrow> bt_gatt_ccc_cfg \<Rightarrow> nat option" where
  "subscriber conns ty cfg =
     (if cfg_value cfg \<noteq> ty then None
      else case bt_conn_lookup_addr_le conns (cfg_id cfg) (cfg_peer cfg) of
             None \<Rightarrow> None
           | Some c \<Rightarrow> if conn_st (conns ! c) = BT_CONN_CONNECTED then Some c else None)"

definition subscribers :: "bt_conn list \<Rightarrow> u16 \<Rightarrow> bt_gatt_ccc_cfg list \<Rightarrow> nat list" where
  "subscribers conns ty cfgs = List.map_filter (subscriber conns ty) cfgs"

lemma subscribers_simps [simp]:
  "subscribers conns ty [] = []"
  "subscribers conns ty (cfg # cfgs) =
     (case subscriber conns ty cfg of None \<Rightarrow> subscribers conns ty cfgs
      | Some c \<Rightarrow> c # subscribers conns ty cfgs)"
  by (simp_all add: subscribers_def List.map_filter_simps split: option.splits)

lemma notify_peers_all:
  assumes "\<forall>c. 0 \<le> att_ret g c"
  shows "notify_peers ty h data cfgs (err, g) =
     (BT_GATT_ITER_CONTINUE,
      (if subscribers (acl_conns g) ty cfgs = [] then err else 0),
      g\<lparr>sent := sent g @ map (\<lambda>c. (c, h, data)) (subscribers (acl_conns g) ty cfgs)\<rparr>)"
  using assms
proof (induction cfgs arbitrary: err g)
  case Nil
  then show ?case by simp
next
  case (Cons cfg cfgs)
  show ?case
  proof (cases "subscriber (acl_conns g) ty cfg")
    case None
    with Cons show ?thesis
      by (auto simp: subscriber_def split: option.splits if_splits)
  next
    case (Some c)
    moreover from Cons.prems have "\<not> att_ret g c < 0"
      by (simp add: not_less)
    ultimately show ?thesis
      using Cons by (auto simp: subscriber_def gatt_notify_def split: option.splits if_splits)
  qed
qed

text \<open>Whatever happens on the link, a notification changes nothing but the log of what was sent.\<close>

lemma notify_peers_frame:
  "\<exists>l. snd (snd (notify_peers ty h data cfgs (err, g))) = g\<lparr>sent := sent g @ l\<rparr>"
proof (induction cfgs arbitrary: err g)
  case Nil
  then show ?case
    by (auto intro: exI [of _ "[]"])
next
  case (Cons cfg cfgs)
  have skip: "\<exists>l. g = g\<lparr>sent := sent g @ l\<rparr>"
    by (rule exI [of _ "[]"]) simp
  have send: "\<exists>l. snd (snd (notify_peers ty h data cfgs
      (0, g\<lparr>sent := sent g @ [(c, h, data)]\<rparr>))) = g\<lparr>sent := sent g @ l\<rparr>" for c
    using Cons.IH [of 0 "g\<lparr>sent := sent g @ [(c, h, data)]\<rparr>"] by auto
  show ?case
    using skip send Cons.IH [of err g]
    by (auto simp: gatt_notify_def split: option.splits)
qed

lemma bt_gatt_notify_frame:
  "\<exists>l. snd (bt_gatt_notify None attr data g) = g\<lparr>sent := sent g @ l\<rparr>"
proof -
  have skip: "\<exists>l. g = g\<lparr>sent := sent g @ l\<rparr>"
    by (rule exI [of _ "[]"]) simp
  have cb: "\<exists>l. snd (snd (notify_cb ty h data a k (err, g))) = g\<lparr>sent := sent g @ l\<rparr>"
    for ty h a k err
    using skip notify_peers_frame by (auto simp: notify_cb_def split: user_data.splits)
  have each: "\<exists>l. snd (bt_gatt_foreach_attr_type svcs st en u d 1 (notify_cb ty h data) (err, g)) =
      g\<lparr>sent := sent g @ l\<rparr>" for svcs st en u d ty h err
    unfolding foreach_attr_type_one using skip cb by (auto split: option.splits)
  show ?thesis
    using skip each
    by (auto simp: bt_gatt_notify_def bt_gatt_notify_cb_def Let_def simp del: One_nat_def)
qed

subsection \<open>Contract of the CCC\<close>

text \<open>
  A peer that enables a characteristic reads back what it wrote. After a CCC write of a value
  other than zero has succeeded, a CCC read by the same peer returns that value's two bytes.
\<close>

lemma ccc_write_then_read:
  assumes "bt_gatt_attr_write_ccc conn ccc (sys_put_le16 v) 0 = (2, ccc', ev)" and "v \<noteq> 0"
  shows "bt_gatt_attr_read_ccc conn ccc' 2 0 = Inr (sys_put_le16 v)"
proof -
  from assms obtain i where "find_ccc_cfg (Some conn) ccc' = Some i" "cfg_value (ccc_cfg ccc' ! i) = v"
    using write_ccc_read_ccc_value by blast
  then show ?thesis
    by (simp add: bt_gatt_attr_read_ccc_def bt_gatt_attr_read_def)
qed

definition sample_conn :: bt_conn where
  "sample_conn = \<lparr>conn_ref = 1, conn_le = True, conn_id = 0,
     conn_dst = \<lparr>addr_type = 0, addr_val = [1, 2, 3, 4, 5, 6]\<rparr>,
     conn_init_addr = \<lparr>addr_type = 0, addr_val = [1, 2, 3, 4, 5, 6]\<rparr>,
     conn_resp_addr = \<lparr>addr_type = 0, addr_val = [6, 5, 4, 3, 2, 1]\<rparr>,
     conn_master = False, conn_st = BT_CONN_CONNECTED, conn_sec = 3, conn_encrypt = 1\<rparr>"

definition sample_ccc :: bt_gatt_ccc where
  "sample_ccc = \<lparr>ccc_cfg = [\<lparr>cfg_id = 0, cfg_peer = BT_ADDR_LE_ANY, cfg_value = 0\<rparr>], ccc_value = 0\<rparr>"

text \<open>
  C20: the consolidated value of a CCC is always the largest value any peer has written, and the
  service is told of a write exactly when it changes that value, with the new value, whatever the
  bytes, the offset and the peer of the write and whether or not it succeeds.
\<close>

theorem ccc_consolidated:
  assumes "ccc_value ccc = max_cfg_value 0 (ccc_cfg ccc)"
  shows "case bt_gatt_attr_write_ccc conn ccc buf offset of (ret, ccc', ev) \<Rightarrow>
     ccc_value ccc' = Max (insert 0 (cfg_value ` set (ccc_cfg ccc'))) \<and>
     ev = (if ccc_value ccc' = ccc_value ccc then None else Some (ccc_value ccc'))"
proof -
  obtain ret ccc' ev where w: "bt_gatt_attr_write_ccc conn ccc buf offset = (ret, ccc', ev)"
    by (cases "bt_gatt_attr_write_ccc conn ccc buf offset")
  have "ccc_inv ccc"
    using assms by (simp add: ccc_inv_def)
  from ccc_write_cases [OF w this] w show ?thesis
    by (simp add: ccc_inv_def max_cfg_value_eq)
qed

theorem ccc_consolidated_witness:
  "case bt_gatt_attr_write_ccc sample_conn sample_ccc [1, 0] 0 of (ret, ccc', ev) \<Rightarrow>
     ccc_value ccc' = Max (insert 0 (cfg_value ` set (ccc_cfg ccc'))) \<and>
     ev = (if ccc_value ccc' = ccc_value sample_ccc then None else Some (ccc_value ccc'))"
  by (rule ccc_consolidated) (simp add: sample_ccc_def)

text \<open>
  The nested iteration over services and attributes, with its running handle and its count of
  matches, visits exactly what a flat search of the database does: asked for one match, it runs
  the callback on the first attribute, in handle order, that lies in the range and has the wanted
  type and data, and on nothing when there is none.
\<close>

lemma foreach_is_first_match:
  "bt_gatt_foreach_attr_type svcs st en u d 1 f s =
     (case first_match (attr_in_range st en u d) (concat svcs) 1 of
        Some (a, h) \<Rightarrow> snd (f a h s) | None \<Rightarrow> s)"
  by (rule foreach_attr_type_one)

end
