(* ===== verification/Hog.thy ===== *)
theory Hog
  imports Hid_Keys Gatt
begin

text \<open>
  The HID-over-GATT service of \<open>projects/peripheral_hids/src/hog.c\<close>: its attribute table, the
  report map, the callbacks of its attributes and the publication of a keyboard report. The state
  holds the static variables of the file, the position of the service among the static services
  and of its CCC among those of the database, and the state of the GATT layer. The output of
  \<open>printk\<close> is not modelled.
\<close>

subsection \<open>Reports\<close>

record hids_report_keyboard =
  modifier :: u8
  reserved :: u8
  keycode :: "u8 list"

text \<open>The struct is packed: eight bytes, in the order of its fields.\<close>

definition report_bytes :: "hids_report_keyboard \<Rightarrow> u8 list" where
  "report_bytes r = modifier r # reserved r # keycode r"

definition empty_report :: hids_report_keyboard where
  "empty_report = \<lparr>modifier = 0, reserved = 0, keycode = [0, 0, 0, 0, 0, 0]\<rparr>"

record hids_info =
  info_version :: u16
  info_code :: u8
  info_flags :: u8

abbreviation HIDS_NORMALLY_CONNECTABLE :: u8 where "HIDS_NORMALLY_CONNECTABLE \<equiv> 0x02"

definition info :: hids_info where
  "info = \<lparr>info_version = 0x0000, info_code = 0x00, info_flags = HIDS_NORMALLY_CONNECTABLE\<rparr>"

definition info_bytes :: "hids_info \<Rightarrow> u8 list" where
  "info_bytes i = sys_put_le16 (info_version i) @ [info_code i, info_flags i]"

definition report_map :: "u8 list" where
  "report_map = [
    0x05, 0x01,
    0x09, 0x06,
    0xa1, 0x01,
    0x75, 0x01,
    0x95, 0x08,
    0x05, 0x07,
    0x19, 0xe0,
    0x29, 0xe7,
    0x15, 0x00,
    0x25, 0x01,
    0x81, 0x02,
    0x95, 0x01,
    0x75, 0x08,
    0x81, 0x03,
    0x95, 0x05,
    0x75, 0x01,
    0x05, 0x08,
    0x19, 0x01,
    0x29, 0x05,
    0x91, 0x02,
    0x95, 0x01,
    0x75, 0x03,
    0x91, 0x03,
    0x95, 0x06,
    0x75, 0x08,
    0x15, 0x00,
    0x25, 167,
    0x05, 0x07,
    0x19, 0x00,
    0x29, 167,
    0x81, 0x00,
    0xc0]"

subsection \<open>State\<close>

record hog =
  input_keyboard :: hids_report_keyboard
  simulate_input :: u8
  ctrl_point :: u8
  hog_no :: nat
  hog_ccc :: nat
  gatt_st :: gatt

subsection \<open>Callbacks of the attributes\<close>

definition read_info :: "u16 \<Rightarrow> u16 \<Rightarrow> int + u8 list" where
  "read_info len offset = bt_gatt_attr_read len offset (info_bytes info)"

definition read_report_map :: "u16 \<Rightarrow> u16 \<Rightarrow> int + u8 list" where
  "read_report_map len offset = bt_gatt_attr_read len offset report_map"

definition read_report :: "hog \<Rightarrow> u16 \<Rightarrow> u16 \<Rightarrow> int + u8 list" where
  "read_report h len offset = bt_gatt_attr_read len offset (report_bytes (input_keyboard h))"

definition input_ccc_changed :: "u16 \<Rightarrow> hog \<Rightarrow> hog" where
  "input_ccc_changed value h =
     h\<lparr>simulate_input := (if value = BT_GATT_CCC_NOTIFY then 1 else 0)\<rparr>"

definition read_input_report :: "u16 \<Rightarrow> u16 \<Rightarrow> int + u8 list" where
  "read_input_report len offset = bt_gatt_attr_read len offset []"

definition write_ctrl_point :: "u8 list \<Rightarrow> u16 \<Rightarrow> hog \<Rightarrow> int \<times> hog" where
  "write_ctrl_point buf offset h =
     (if unat offset + length buf > 1 then (BT_GATT_ERR BT_ATT_ERR_INVALID_OFFSET, h)
      else (int (length buf),
            h\<lparr>ctrl_point := hd (memcpy_at [ctrl_point h] (unat offset) buf)\<rparr>))"

text \<open>
  A write of a peer to the CCC of the service: \<open>input_ccc_changed\<close> is the \<open>cfg_changed\<close> callback
  that \<open>gatt_ccc_changed\<close> calls.
\<close>

definition write_input_ccc :: "bt_conn \<Rightarrow> u8 list \<Rightarrow> u16 \<Rightarrow> hog \<Rightarrow> int \<times> hog" where
  "write_input_ccc conn buf offset h =
     (case bt_gatt_attr_write_ccc conn (cccs (gatt_st h) (hog_ccc h)) buf offset of
        (ret, ccc', ev) \<Rightarrow>
          let h' = h\<lparr>gatt_st := (gatt_st h)\<lparr>cccs := (cccs (gatt_st h))(hog_ccc h := ccc')\<rparr>\<rparr>
          in (ret, case ev of None \<Rightarrow> h' | Some value \<Rightarrow> input_ccc_changed value h'))"

subsection \<open>The service\<close>

abbreviation BT_UUID_HIDS :: u16 where "BT_UUID_HIDS \<equiv> 0x1812"
abbreviation BT_UUID_HIDS_INFO :: u16 where "BT_UUID_HIDS_INFO \<equiv> 0x2a4a"
abbreviation BT_UUID_HIDS_REPORT_MAP :: u16 where "BT_UUID_HIDS_REPORT_MAP \<equiv> 0x2a4b"
abbreviation BT_UUID_HIDS_CTRL_POINT :: u16 where "BT_UUID_HIDS_CTRL_POINT \<equiv> 0x2a4c"
abbreviation BT_UUID_HIDS_REPORT :: u16 where "BT_UUID_HIDS_REPORT \<equiv> 0x2a4d"
abbreviation BT_UUID_HIDS_REPORT_REF :: u16 where "BT_UUID_HIDS_REPORT_REF \<equiv> 0x2908"

text \<open>The numbers of the callbacks and objects of the file in its attribute table.\<close>

abbreviation fn_read_info :: read_fn where "fn_read_info \<equiv> Read_app 0"
abbreviation fn_read_report_map :: read_fn where "fn_read_report_map \<equiv> Read_app 1"
abbreviation fn_read_input_report :: read_fn where "fn_read_input_report \<equiv> Read_app 2"
abbreviation fn_read_report :: read_fn where "fn_read_report \<equiv> Read_app 3"
abbreviation fn_write_ctrl_point :: write_fn where "fn_write_ctrl_point \<equiv> Write_app 0"

definition hog_svc :: "nat \<Rightarrow> service" where
  "hog_svc ccc =
     [BT_GATT_PRIMARY_SERVICE BT_UUID_HIDS]
     @ BT_GATT_CHARACTERISTIC BT_UUID_HIDS_INFO BT_GATT_CHRC_READ
         BT_GATT_PERM_READ (Some fn_read_info) None (UD_Obj 0)
     @ BT_GATT_CHARACTERISTIC BT_UUID_HIDS_REPORT_MAP BT_GATT_CHRC_READ
         BT_GATT_PERM_READ (Some fn_read_report_map) None UD_Null
     @ BT_GATT_CHARACTERISTIC BT_UUID_HIDS_REPORT
         (BT_GATT_CHRC_READ OR BT_GATT_CHRC_NOTIFY)
         BT_GATT_PERM_READ_AUTHEN
         (Some fn_read_input_report) None UD_Null
     @ [BT_GATT_CCC ccc (BT_GATT_PERM_READ_AUTHEN OR BT_GATT_PERM_WRITE_AUTHEN)]
     @ [BT_GATT_DESCRIPTOR BT_UUID_HIDS_REPORT_REF
          (BT_GATT_PERM_READ OR BT_GATT_CHRC_NOTIFY)
          (Some fn_read_report) None (UD_Obj 1)]
     @ BT_GATT_CHARACTERISTIC BT_UUID_HIDS_CTRL_POINT
         BT_GATT_CHRC_WRITE_WITHOUT_RESP
         BT_GATT_PERM_WRITE
         None (Some fn_write_ctrl_point) (UD_Obj 2)"

subsection \<open>Publication of a report\<close>

definition trigger_report_notification :: "hog \<Rightarrow> hog" where
  "trigger_report_notification h =
     (if simulate_input h = 0 then h
      else h\<lparr>gatt_st := snd (bt_gatt_notify None (hog_no h, 6)
                               (report_bytes (input_keyboard h)) (gatt_st h))\<rparr>)"

definition hog_set_keyboard_input :: "hids_report_keyboard \<Rightarrow> hog \<Rightarrow> hog" where
  "hog_set_keyboard_input kb_report h =
     trigger_report_notification (h\<lparr>input_keyboard := kb_report\<rparr>)"

definition hog_init :: "hog \<Rightarrow> hog" where
  "hog_init h = h"

subsection \<open>Invariant\<close>

text \<open>
  The service is in the database at its number, the consolidated CCC value is exact, and
  \<open>simulate_input\<close> says whether that value is the one for notifications.
\<close>

definition hog_inv :: "hog \<Rightarrow> bool" where
  "hog_inv h \<longleftrightarrow>
     hog_no h < length (services (gatt_st h)) \<and>
     services (gatt_st h) ! hog_no h = hog_svc (hog_ccc h) \<and>
     length (concat (services (gatt_st h))) \<le> 0xffff \<and>
     ccc_inv (cccs (gatt_st h) (hog_ccc h)) \<and>
     simulate_input h =
       (if ccc_value (cccs (gatt_st h) (hog_ccc h)) = BT_GATT_CCC_NOTIFY then 1 else 0)"

lemma hog_svc_attrs:
  "length (hog_svc c) = 11"
  "hog_svc c ! 6 = BT_GATT_ATTRIBUTE BT_UUID_HIDS_REPORT BT_GATT_PERM_READ_AUTHEN
     (Some fn_read_input_report) None UD_Null"
  "hog_svc c ! 7 = BT_GATT_CCC c (BT_GATT_PERM_READ_AUTHEN OR BT_GATT_PERM_WRITE_AUTHEN)"
  by (simp_all add: hog_svc_def BT_GATT_CHARACTERISTIC_def)

lemma hog_invE:
  assumes "hog_inv h"
  obtains pre post where
    "services (gatt_st h) = pre @ hog_svc (hog_ccc h) # post"
    "hog_no h = length pre"
    "length (concat pre) + 11 + length (concat post) \<le> 0xffff"
proof
  let ?svcs = "services (gatt_st h)"
  show svcs: "?svcs = take (hog_no h) ?svcs @ hog_svc (hog_ccc h) # drop (Suc (hog_no h)) ?svcs"
    using assms by (metis hog_inv_def id_take_nth_drop)
  show "hog_no h = length (take (hog_no h) ?svcs)"
    using assms by (simp add: hog_inv_def)
  have "length (concat ?svcs) \<le> 0xffff"
    using assms by (simp add: hog_inv_def)
  then show "length (concat (take (hog_no h) ?svcs)) + 11 +
      length (concat (drop (Suc (hog_no h)) ?svcs)) \<le> 0xffff"
    by (subst (asm) svcs) (simp add: hog_svc_attrs)
qed

lemma get_handle_append:
  "get_handle k (pre @ svc # post) (length pre) i =
     (if i < length svc then k + length (concat pre) + i else 0)"
  by (induction pre arbitrary: k) auto

definition report_handle :: "hog \<Rightarrow> nat" where
  "report_handle h = bt_gatt_attr_get_handle (services (gatt_st h)) (hog_no h, 6)"

lemma first_ccc_is_own:
  assumes "hog_inv h"
  shows "first_match (attr_in_range (report_handle h) 0xffff (Some BT_UUID_GATT_CCC) None)
           (concat (services (gatt_st h))) 1 =
         Some (hog_svc (hog_ccc h) ! 7, Suc (report_handle h))"
proof -
  from assms obtain pre post where svcs: "services (gatt_st h) = pre @ hog_svc (hog_ccc h) # post"
    and no: "hog_no h = length pre"
    and len: "length (concat pre) + 11 + length (concat post) \<le> 0xffff"
    by (rule hog_invE)
  then have h6: "report_handle h = length (concat pre) + 7"
    by (simp add: report_handle_def bt_gatt_attr_get_handle_def get_handle_append hog_svc_attrs)
  show ?thesis
    using len
    by (simp add: svcs first_match_append first_match_before_start h6)
       (simp add: hog_svc_def BT_GATT_CHARACTERISTIC_def BT_GATT_ATTRIBUTE_def attr_in_range_def
          BT_GATT_CCC_def BT_GATT_PRIMARY_SERVICE_def)
qed

lemma notify_report:
  assumes "hog_inv h" and "dev_ready (gatt_st h)" and "\<forall>c. 0 \<le> att_ret (gatt_st h) c"
  shows "sent (snd (bt_gatt_notify None (hog_no h, 6) data (gatt_st h))) =
     sent (gatt_st h) @
     map (\<lambda>c. (c, report_handle h, data))
       (subscribers (acl_conns (gatt_st h)) BT_GATT_CCC_NOTIFY
          (ccc_cfg (cccs (gatt_st h) (hog_ccc h))))"
proof -
  from assms(1) have svc: "services (gatt_st h) ! hog_no h = hog_svc (hog_ccc h)"
    by (simp add: hog_inv_def)
  from assms(1) have "report_handle h \<noteq> 0"
    by (rule hog_invE)
       (simp add: report_handle_def bt_gatt_attr_get_handle_def get_handle_append hog_svc_attrs)
  with assms(2) svc have "bt_gatt_notify None (hog_no h, 6) data (gatt_st h) =
      bt_gatt_foreach_attr_type (services (gatt_st h)) (report_handle h) 0xffff
        (Some BT_UUID_GATT_CCC) None 1
        (notify_cb BT_GATT_CCC_NOTIFY (report_handle h) data) (- ENOTCONN, gatt_st h)"
    by (simp add: bt_gatt_notify_def bt_gatt_notify_cb_def Let_def report_handle_def hog_svc_attrs
        BT_GATT_ATTRIBUTE_def)
  also have "\<dots> = snd (notify_peers BT_GATT_CCC_NOTIFY (report_handle h) data
      (ccc_cfg (cccs (gatt_st h) (hog_ccc h))) (- ENOTCONN, gatt_st h))"
    unfolding foreach_attr_type_one first_ccc_is_own [OF assms(1)]
    by (simp add: notify_cb_def hog_svc_attrs BT_GATT_CCC_def BT_GATT_ATTRIBUTE_def)
  finally show ?thesis
    by (simp add: notify_peers_all [OF assms(3)])
qed

lemma trigger_frame:
  "\<exists>l. trigger_report_notification h =
       h\<lparr>gatt_st := (gatt_st h)\<lparr>sent := sent (gatt_st h) @ l\<rparr>\<rparr>"
proof (cases "simulate_input h = 0")
  case True
  then show ?thesis
    by (intro exI [of _ "[]"]) (simp add: trigger_report_notification_def)
next
  case False
  obtain l where "snd (bt_gatt_notify None (hog_no h, 6) (report_bytes (input_keyboard h))
      (gatt_st h)) = (gatt_st h)\<lparr>sent := sent (gatt_st h) @ l\<rparr>"
    using bt_gatt_notify_frame by blast
  with False show ?thesis
    by (intro exI [of _ l]) (simp add: trigger_report_notification_def)
qed

lemma set_keyboard_input_frame:
  "\<exists>l. hog_set_keyboard_input r h =
       h\<lparr>input_keyboard := r, gatt_st := (gatt_st h)\<lparr>sent := sent (gatt_st h) @ l\<rparr>\<rparr>"
  using trigger_frame [of "h\<lparr>input_keyboard := r\<rparr>"] by (auto simp: hog_set_keyboard_input_def)

lemma hog_inv_frame [simp]:
  "hog_inv (h\<lparr>input_keyboard := r, gatt_st := (gatt_st h)\<lparr>sent := l\<rparr>\<rparr>) = hog_inv h"
  by (simp add: hog_inv_def)

lemma hog_inv_set_keyboard_input [simp]:
  "hog_inv (hog_set_keyboard_input r h) = hog_inv h"
  using set_keyboard_input_frame [of r h] by auto

lemma hog_inv_write_input_ccc:
  assumes "hog_inv h"
  shows "hog_inv (snd (write_input_ccc conn buf offset h))"
proof -
  obtain ret ccc' ev where w: "bt_gatt_attr_write_ccc conn (cccs (gatt_st h) (hog_ccc h)) buf offset
      = (ret, ccc', ev)"
    by (cases "bt_gatt_attr_write_ccc conn (cccs (gatt_st h) (hog_ccc h)) buf offset") auto
  from ccc_write_cases [OF w] assms show ?thesis
    by (auto simp: write_input_ccc_def w hog_inv_def input_ccc_changed_def Let_def)
qed

lemma hog_inv_write_ctrl_point:
  "hog_inv (snd (write_ctrl_point buf offset h)) = hog_inv h"
  by (simp add: write_ctrl_point_def hog_inv_def)

lemma input_keyboard_set [simp]: "input_keyboard (hog_set_keyboard_input r h) = r"
  using set_keyboard_input_frame [of r h] by auto

text \<open>The connections a report goes to.\<close>

definition report_targets :: "hog \<Rightarrow> nat list" where
  "report_targets h =
     (if simulate_input h = 0 then []
      else subscribers (acl_conns (gatt_st h)) BT_GATT_CCC_NOTIFY
             (ccc_cfg (cccs (gatt_st h) (hog_ccc h))))"

definition link_ok :: "hog \<Rightarrow> bool" where
  "link_ok h \<longleftrightarrow> dev_ready (gatt_st h) \<and> (\<forall>c. 0 \<le> att_ret (gatt_st h) c)"

lemma set_keyboard_input_sent:
  assumes "hog_inv h" and "link_ok h"
  shows "hog_set_keyboard_input r h =
     h\<lparr>input_keyboard := r,
       gatt_st := (gatt_st h)\<lparr>sent := sent (gatt_st h) @
         map (\<lambda>c. (c, report_handle h, report_bytes r)) (report_targets h)\<rparr>\<rparr>"
proof -
  let ?h = "h\<lparr>input_keyboard := r\<rparr>"
  obtain l where l: "trigger_report_notification ?h =
      ?h\<lparr>gatt_st := (gatt_st h)\<lparr>sent := sent (gatt_st h) @ l\<rparr>\<rparr>"
    using trigger_frame [of ?h] by auto
  have inv: "hog_inv ?h"
    using assms(1) by (simp add: hog_inv_def)
  have "sent (gatt_st (trigger_report_notification ?h)) = sent (gatt_st h) @
      map (\<lambda>c. (c, report_handle h, report_bytes r)) (report_targets h)"
    using notify_report [OF inv, of "report_bytes r"] assms(2)
    by (simp add: trigger_report_notification_def report_targets_def link_ok_def report_handle_def)
  with l show ?thesis
    by (simp add: hog_set_keyboard_input_def)
qed

subsection \<open>The report map\<close>

text \<open>
  A reader of HID report descriptors, as the specification of what the host makes of the map: the
  items of the descriptor, and the fields (size in bits, count, flags) that the main items with a
  given tag declare under the global report size and count. Tag \<open>0x80\<close> is an input item, \<open>0x90\<close>
  an output item; \<open>0x74\<close> and \<open>0x94\<close> set the report size and the report count.
\<close>

function hid_items :: "u8 list \<Rightarrow> (u8 \<times> u8 list) list" where
  "hid_items [] = []"
| "hid_items (p # ds) =
     (let n = (if p AND 3 = 3 then 4 else unat (p AND 3))
      in (p AND 0xfc, take n ds) # hid_items (drop n ds))"
  by pat_completeness auto
termination
  by (relation "measure length") auto

fun main_fields :: "u8 \<Rightarrow> nat \<Rightarrow> nat \<Rightarrow> (u8 \<times> u8 list) list \<Rightarrow> (nat \<times> nat \<times> u8) list" where
  "main_fields tag sz cnt [] = []"
| "main_fields tag sz cnt ((t, ds) # items) =
     (if t = 0x74 then main_fields tag (unat (ds ! 0)) cnt items
      else if t = 0x94 then main_fields tag sz (unat (ds ! 0)) items
      else if t = tag then (sz, cnt, ds ! 0) # main_fields tag sz cnt items
      else main_fields tag sz cnt items)"

definition field_bits :: "(nat \<times> nat \<times> u8) list \<Rightarrow> nat" where
  "field_bits fs = sum_list (map (\<lambda>(sz, cnt, _). sz * cnt) fs)"

lemma report_map_fields:
  "main_fields 0x80 0 0 (hid_items report_map) = [(1, 8, 2), (8, 1, 3), (8, 6, 0)]"
  "main_fields 0x90 0 0 (hid_items report_map) = [(1, 5, 2), (3, 1, 3)]"
  by (simp_all add: report_map_def Let_def)

subsection \<open>The state at boot\<close>

text \<open>
  The static initialisers: the HID service stands alone in the database, no peer has written its CCC, whose
  table has an entry for every bonded and connected peer (\<open>BT_GATT_CCC_MAX\<close>, two in this
  configuration).
\<close>

definition boot_ccc :: bt_gatt_ccc where
  "boot_ccc = \<lparr>ccc_cfg = replicate 2 \<lparr>cfg_id = 0, cfg_peer = BT_ADDR_LE_ANY, cfg_value = 0\<rparr>,
     ccc_value = 0\<rparr>"

definition boot_hog :: "bt_conn list \<Rightarrow> hog" where
  "boot_hog conns =
     \<lparr>input_keyboard = empty_report, simulate_input = 0, ctrl_point = 0, hog_no = 0, hog_ccc = 0,
      gatt_st = \<lparr>services = [hog_svc 0], cccs = (\<lambda>_. boot_ccc), acl_conns = conns,
        dev_ready = True, att_ret = (\<lambda>_. 0), sent = []\<rparr>\<rparr>"

lemma hog_inv_boot [simp]: "hog_inv (boot_hog conns)"
  by (simp add: hog_inv_def boot_hog_def boot_ccc_def ccc_inv_def hog_svc_attrs
      numeral_2_eq_2)

lemma input_keyboard_boot [simp]: "input_keyboard (boot_hog conns) = empty_report"
  by (simp add: boot_hog_def)

subsection \<open>Contract of the service\<close>


text \<open>A peer that has just enabled notifications.\<close>

definition sample_hog :: hog where
  "sample_hog = snd (write_input_ccc sample_conn (sys_put_le16 BT_GATT_CCC_NOTIFY) 0
     (boot_hog [sample_conn]))"

lemma sample_hog_inv [simp]: "hog_inv sample_hog"
  by (simp add: sample_hog_def hog_inv_write_input_ccc)

lemma sample_hog_link [simp]: "link_ok sample_hog"
  by (simp add: sample_hog_def link_ok_def write_input_ccc_def boot_hog_def Let_def
      input_ccc_changed_def split: prod.splits option.splits)

lemma sample_hog_targets: "report_targets sample_hog = [0]"
  by (simp add: sample_hog_def report_targets_def write_input_ccc_def boot_hog_def Let_def
      input_ccc_changed_def bt_gatt_attr_write_ccc_def boot_ccc_def find_ccc_cfg_def numeral_2_eq_2
      ccc_cfg_matches_def bt_conn_is_peer_addr_le_def BT_ADDR_LE_ANY_def write_ccc_cfg_def
      gatt_ccc_changed_def sample_conn_def subscriber_def bt_conn_lookup_addr_le_def)

lemma sample_hog_handle: "report_handle sample_hog = 7" "sent (gatt_st sample_hog) = []"
  by (simp_all add: sample_hog_def write_input_ccc_def boot_hog_def Let_def report_handle_def
      bt_gatt_attr_get_handle_def hog_svc_attrs
      input_ccc_changed_def split: prod.splits option.splits)


text \<open>
  Every entry point of the service keeps its invariant: a new report, a CCC write by any peer
  with any bytes, and a write of the control point. In particular the flag that gates the
  notifications always agrees with the consolidated value of the CCC.
\<close>

lemma hog_operations_keep_inv:
  assumes "hog_inv h"
  shows "hog_inv (hog_set_keyboard_input r h) \<and> hog_inv (snd (write_input_ccc conn buf offset h)) \<and>
     hog_inv (snd (write_ctrl_point buf' offset' h)) \<and> hog_inv (hog_init h)"
  using assms by (simp add: hog_inv_write_input_ccc hog_inv_write_ctrl_point hog_init_def)

text \<open>
  The report map tells the host the layout the service sends. Its input items are eight one-bit
  modifiers, one constant byte and six eight-bit key codes, which add up to the bits of a report,
  and its output items are five LED bits padded to one byte.
\<close>

lemma report_map_describes_report:
  assumes "length (keycode r) = 6"
  shows "main_fields 0x80 0 0 (hid_items report_map) = [(1, 8, 2), (8, 1, 3), (8, 6, 0)] \<and>
     field_bits (main_fields 0x80 0 0 (hid_items report_map)) = 8 * length (report_bytes r) \<and>
     main_fields 0x90 0 0 (hid_items report_map) = [(1, 5, 2), (3, 1, 3)] \<and>
     field_bits (main_fields 0x90 0 0 (hid_items report_map)) = 8"
  using assms by (simp add: report_map_fields field_bits_def report_bytes_def)

text \<open>
  The flag is on only when the consolidated value is exactly the one for notifications, so a peer
  that writes a larger value turns notifications off for every peer.

  As long as any entry of the CCC has a value above one, a new report is sent to nobody.
\<close>

lemma larger_ccc_value_mutes:
  assumes "hog_inv h" and "cfg \<in> set (ccc_cfg (cccs (gatt_st h) (hog_ccc h)))"
    and "cfg_value cfg > BT_GATT_CCC_NOTIFY"
  shows "hog_set_keyboard_input r h = h\<lparr>input_keyboard := r\<rparr>"
proof -
  obtain i where "i < length (ccc_cfg (cccs (gatt_st h) (hog_ccc h)))"
    "cfg = ccc_cfg (cccs (gatt_st h) (hog_ccc h)) ! i"
    using assms(2) by (auto simp: in_set_conv_nth)
  then have "ccc_value (cccs (gatt_st h) (hog_ccc h)) > BT_GATT_CCC_NOTIFY"
    using assms(1,3) cfg_value_le_max [of i "ccc_cfg (cccs (gatt_st h) (hog_ccc h))"]
    by (simp add: hog_inv_def ccc_inv_def)
  then have "simulate_input h = 0"
    using assms(1) by (auto simp: hog_inv_def)
  then show ?thesis
    by (simp add: hog_set_keyboard_input_def trigger_report_notification_def)
qed

end
