(* ===== verification/Hid_Translator.thy ===== *)
theory Hid_Translator
  imports Prog Hog
begin

text \<open>
  The translator of \<open>ps2_hid_translator.c\<close>: a parser of PS/2 scan codes (set 2) that keeps the
  keyboard report up to date and publishes it through the HID service after every change. The
  state is the static \<open>key_report\<close> of the file and the service. The six key slots of a report are a
  list of length six.
\<close>

abbreviation EXTENDED_CODE :: u8 where "EXTENDED_CODE \<equiv> 0xe0"
abbreviation BREAK_CODE :: u8 where "BREAK_CODE \<equiv> 0xf0"

definition pause_break_code :: "u8 list" where
  "pause_break_code = [0xE1, 0x14, 0x77, 0xE1, 0xF0, 0x14, 0xf0, 0x77]"

definition sys_req_make :: "u8 list" where
  "sys_req_make = [0xE0, 0x12, 0xE0, 0x7C]"

definition sys_req_break :: "u8 list" where
  "sys_req_break = [0xE0, 0xF0, 0x7C, 0xE0, 0xF0, 0x12]"

record app =
  key_report :: hids_report_keyboard
  hog_of :: hog

subsection \<open>Operations on the report\<close>

fun pos_loop :: "int \<Rightarrow> u8 list \<Rightarrow> u8 \<Rightarrow> int" where
  "pos_loop i [] key = -1"
| "pos_loop i (k # ks) key = (if k = key then i else pos_loop (i + 1) ks key)"

definition pos_at_pressed_keys :: "u8 \<Rightarrow> hids_report_keyboard \<Rightarrow> int" where
  "pos_at_pressed_keys key r = pos_loop 0 (keycode r) key"

definition publish :: "hids_report_keyboard \<Rightarrow> app \<Rightarrow> app" where
  "publish r s = s\<lparr>key_report := r, hog_of := hog_set_keyboard_input r (hog_of s)\<rparr>"

definition press_mod_key :: "u8 \<Rightarrow> app \<Rightarrow> app" where
  "press_mod_key key s =
     publish ((key_report s)\<lparr>modifier := modifier (key_report s) OR key\<rparr>) s"

definition release_mod_key :: "u8 \<Rightarrow> app \<Rightarrow> app" where
  "release_mod_key key s =
     publish ((key_report s)\<lparr>modifier := modifier (key_report s) AND NOT key\<rparr>) s"

text \<open>The loop of \<open>press_key\<close>: the first free slot from the slot below \<open>n\<close> downwards.\<close>

fun free_slot :: "nat \<Rightarrow> u8 list \<Rightarrow> nat option" where
  "free_slot 0 ks = None"
| "free_slot (Suc i) ks = (if ks ! i = 0 then Some i else free_slot i ks)"

definition press_key :: "u8 \<Rightarrow> app \<Rightarrow> app" where
  "press_key key s =
     (if key = KEY_UNKNOWN then s
      else if pos_at_pressed_keys key (key_report s) = -1 then
        (case free_slot 6 (keycode (key_report s)) of
           Some i \<Rightarrow> publish ((key_report s)\<lparr>keycode := (keycode (key_report s))[i := key]\<rparr>) s
         | None \<Rightarrow> publish ((key_report s)\<lparr>keycode := (keycode (key_report s))[5 := key]\<rparr>) s)
      else s)"

definition release_key :: "u8 \<Rightarrow> app \<Rightarrow> app" where
  "release_key key s =
     (if key = KEY_UNKNOWN then s
      else let pos = pos_at_pressed_keys key (key_report s)
           in if pos = -1 then s
              else publish ((key_report s)\<lparr>keycode := (keycode (key_report s))[nat pos := 0]\<rparr>) s)"

definition press_pause_break :: "app prog" where
  "press_pause_break =
     Act (press_key KEY_PAUSE) (Msleep 10 (Act (release_key KEY_PAUSE) Done))"

definition ps2_extended_code_to_hid_key :: "u8 \<Rightarrow> u8" where
  "ps2_extended_code_to_hid_key code =
     (if code = 0x1F then KEY_LEFTMETA
      else if code = 0x11 then KEY_RIGHTALT
      else if code = 0x27 then KEY_RIGHTMETA
      else if code = 0x2F then KEY_PROPS
      else if code = 0x14 then KEY_RIGHTCTRL
      else if code = 0x70 then KEY_INSERT
      else if code = 0x6C then KEY_HOME
      else if code = 0x7D then KEY_PAGEUP
      else if code = 0x71 then KEY_DELETE
      else if code = 0x69 then KEY_END
      else if code = 0x7A then KEY_PAGEDOWN
      else if code = 0x75 then KEY_UP
      else if code = 0x6B then KEY_LEFT
      else if code = 0x72 then KEY_DOWN
      else if code = 0x74 then KEY_RIGHT
      else if code = 0x4A then KEY_KPSLASH
      else if code = 0x5A then KEY_ENTER
      else KEY_UNKNOWN)"

subsection \<open>The parser\<close>

text \<open>The loops that compare the next codes with a fixed sequence and return at a mismatch.\<close>

fun expect_codes :: "u8 list \<Rightarrow> 's prog \<Rightarrow> 's prog" where
  "expect_codes [] p = p"
| "expect_codes (x # xs) p = Get_code (\<lambda>code. if x \<noteq> code then Done else expect_codes xs p)"

definition is_mod_key :: "u8 \<Rightarrow> bool" where
  "is_mod_key key \<longleftrightarrow>
     key = KEY_RIGHTALT \<or> key = KEY_RIGHTCTRL \<or> key = KEY_LEFTMETA \<or> key = KEY_RIGHTMETA"

definition is_mod_code :: "u8 \<Rightarrow> bool" where
  "is_mod_code code \<longleftrightarrow> code = 0x11 \<or> code = 0x12 \<or> code = 0x14 \<or> code = 0x59"

definition parse_extended :: "app prog" where
  "parse_extended =
     Get_code (\<lambda>code.
       if code = BREAK_CODE then
         Get_code (\<lambda>code.
           if code = sys_req_break ! 2 then
             expect_codes (drop 3 sys_req_break) (Act (release_key KEY_SYSRQ) Done)
           else let key = ps2_extended_code_to_hid_key code
                in if is_mod_key key then Act (release_mod_key key) Done
                   else Act (release_key key) Done)
       else if code = sys_req_make ! 1 then
         expect_codes (drop 2 sys_req_make) (Act (press_key KEY_SYSRQ) Done)
       else let key = ps2_extended_code_to_hid_key code
            in if is_mod_key key then Act (press_mod_key key) Done
               else Act (press_key key) Done)"

definition parse_break :: "app prog" where
  "parse_break =
     Get_code (\<lambda>code.
       case scan_code_key code of
         None \<Rightarrow> Fault
       | Some key \<Rightarrow>
           if is_mod_code code then Act (release_mod_key key) Done
           else Act (release_key key) Done)"

definition ps2_hid_translator_parse_next_scancode :: "app prog" where
  "ps2_hid_translator_parse_next_scancode =
     Get_code (\<lambda>code.
       if is_mod_code code then
         (case scan_code_key code of
            None \<Rightarrow> Fault
          | Some key \<Rightarrow> Act (press_mod_key key) Done)
       else if code = EXTENDED_CODE then parse_extended
       else if code = BREAK_CODE then parse_break
       else if code = 0xE1 then expect_codes (drop 1 pause_break_code) press_pause_break
       else (case scan_code_key code of
               None \<Rightarrow> Fault
             | Some key \<Rightarrow> Act (press_key key) Done))"

subsection \<open>The report invariant\<close>

text \<open>
  A report has six key slots, and no key is in two of them. \<open>pressed\<close> is the set of keys the
  report says are down, the abstraction of its slots.
\<close>

definition report_inv :: "hids_report_keyboard \<Rightarrow> bool" where
  "report_inv r \<longleftrightarrow> length (keycode r) = 6 \<and> distinct (filter (\<lambda>k. k \<noteq> 0) (keycode r))"

definition pressed :: "hids_report_keyboard \<Rightarrow> u8 set" where
  "pressed r = set (keycode r) - {0}"

lemma report_inv_empty [simp]: "report_inv empty_report"
  by (simp add: report_inv_def empty_report_def)

lemma pos_loop_bounds: "pos_loop i ks key = -1 \<or> (i \<le> pos_loop i ks key \<and> pos_loop i ks key < i + int (length ks))"
  by (induction i ks key rule: pos_loop.induct) auto

lemma pos_loop_None: "0 \<le> i \<Longrightarrow> pos_loop i ks key = -1 \<longleftrightarrow> key \<notin> set ks"
  by (induction i ks key rule: pos_loop.induct) auto

lemma pos_loop_nth:
  "pos_loop i ks key \<noteq> -1 \<Longrightarrow> 0 \<le> i \<Longrightarrow> ks ! nat (pos_loop i ks key - i) = key"
proof (induction i ks key rule: pos_loop.induct)
  case (2 i k ks key)
  show ?case
  proof (cases "k = key")
    case False
    with 2 pos_loop_bounds [of "i + 1" ks key] have
      "nat (pos_loop (i + 1) ks key - i) = Suc (nat (pos_loop (i + 1) ks key - (i + 1)))"
      by auto
    with False 2 show ?thesis by simp
  qed simp
qed simp

lemma pos_absent: "pos_at_pressed_keys key r = -1 \<longleftrightarrow> key \<notin> set (keycode r)"
  by (simp add: pos_at_pressed_keys_def pos_loop_None)

lemma pos_present:
  assumes "key \<in> set (keycode r)"
  shows "nat (pos_at_pressed_keys key r) < length (keycode r)"
    and "keycode r ! nat (pos_at_pressed_keys key r) = key"
  using assms pos_loop_bounds [of 0 "keycode r" key] pos_loop_nth [of 0 "keycode r" key]
    pos_loop_None [of 0 "keycode r" key]
  by (auto simp: pos_at_pressed_keys_def)

lemma free_slot_Some: "free_slot n ks = Some i \<Longrightarrow> i < n \<and> ks ! i = 0"
  by (induction n) (auto split: if_splits)

lemma free_slot_None: "free_slot n ks = None \<longleftrightarrow> (\<forall>i < n. ks ! i \<noteq> 0)"
  by (induction n) (auto simp: less_Suc_eq)

lemma free_slot_full:
  "length ks = n \<Longrightarrow> free_slot n ks = None \<longleftrightarrow> 0 \<notin> set ks"
  by (auto simp: free_slot_None in_set_conv_nth)

text \<open>Writing one slot of a list of six.\<close>

lemma distinct_filter_update:
  assumes "distinct (filter P ks)" and "i < length ks" and "x \<notin> set ks \<or> \<not> P x"
  shows "distinct (filter P (ks[i := x]))"
proof -
  have ks: "ks = take i ks @ ks ! i # drop (Suc i) ks"
    using assms(2) by (rule id_take_nth_drop)
  have "distinct (filter P (take i ks @ ks ! i # drop (Suc i) ks))"
    using assms(1) ks by simp
  moreover have "x \<notin> set (take i ks) \<union> set (drop (Suc i) ks) \<or> \<not> P x"
    using assms(3) by (auto dest: in_set_takeD in_set_dropD)
  ultimately show ?thesis
    using assms(2) by (auto simp: upd_conv_take_nth_drop split: if_splits)
qed

lemma nonzero_unique:
  assumes "distinct (filter (\<lambda>k. k \<noteq> 0) ks)" and "i < length ks" and "ks ! i \<noteq> 0"
  shows "set (ks[i := x]) - {0} = insert x (set ks - {ks ! i}) - {0}"
proof -
  have ks: "ks = take i ks @ ks ! i # drop (Suc i) ks"
    using assms(2) by (rule id_take_nth_drop)
  have "distinct (filter (\<lambda>k. k \<noteq> 0) (take i ks @ ks ! i # drop (Suc i) ks))"
    using assms(1) ks by simp
  with assms(3) have "ks ! i \<notin> set (take i ks) \<union> set (drop (Suc i) ks)"
    by auto
  moreover have "set ks = insert (ks ! i) (set (take i ks) \<union> set (drop (Suc i) ks))"
    by (subst ks) simp
  moreover have "set (ks[i := x]) = insert x (set (take i ks) \<union> set (drop (Suc i) ks))"
    using assms(2) by (simp add: upd_conv_take_nth_drop)
  ultimately show ?thesis by auto
qed

lemma zero_slot_set:
  assumes "i < length ks" and "ks ! i = 0"
  shows "set (ks[i := x]) - {0} = insert x (set ks) - {0}"
proof -
  have ks: "ks = take i ks @ ks ! i # drop (Suc i) ks"
    using assms(1) by (rule id_take_nth_drop)
  then have "set ks = insert 0 (set (take i ks) \<union> set (drop (Suc i) ks))"
    using assms(2) by (metis Un_insert_right list.set(2) set_append)
  then show ?thesis
    using assms(1) by (auto simp: upd_conv_take_nth_drop)
qed

subsection \<open>Effect of the operations on the report\<close>

lemma publish_simps [simp]:
  "key_report (publish r s) = r"
  "input_keyboard (hog_of (publish r s)) = r"
  "hog_inv (hog_of (publish r s)) = hog_inv (hog_of s)"
  by (simp_all add: publish_def)

lemma card_pressed:
  assumes "report_inv r"
  shows "card (pressed r) < 6 \<longleftrightarrow> 0 \<in> set (keycode r)"
proof -
  let ?ks = "filter (\<lambda>k. k \<noteq> 0) (keycode r)"
  have "pressed r = set ?ks"
    by (auto simp: pressed_def)
  then have "card (pressed r) = length ?ks"
    using assms distinct_card [of ?ks] by (simp only: report_inv_def)
  moreover have "length ?ks < length (keycode r) \<longleftrightarrow> 0 \<in> set (keycode r)"
    by (metis (mono_tags, lifting) filter_True length_filter_less order_less_irrefl)
  ultimately show ?thesis
    using assms by (simp add: report_inv_def)
qed

lemma press_key_known:
  "key = 0 \<or> key \<in> pressed (key_report s) \<Longrightarrow> press_key key s = s"
  by (auto simp: press_key_def pos_absent pressed_def)

lemma press_key_free:
  assumes inv: "report_inv (key_report s)" and key: "key \<noteq> 0" "key \<notin> pressed (key_report s)"
    and room: "card (pressed (key_report s)) < 6"
  obtains i where "i < 6" and "keycode (key_report s) ! i = 0"
    and "press_key key s =
           publish ((key_report s)\<lparr>keycode := (keycode (key_report s))[i := key]\<rparr>) s"
proof -
  from inv room have "free_slot 6 (keycode (key_report s)) \<noteq> None"
    by (simp add: card_pressed free_slot_full report_inv_def)
  then obtain i where i: "free_slot 6 (keycode (key_report s)) = Some i"
    by auto
  with key that show ?thesis
    by (auto simp: press_key_def pos_absent pressed_def dest: free_slot_Some)
qed

lemma press_key_full:
  assumes "report_inv (key_report s)" and "key \<noteq> 0" "key \<notin> pressed (key_report s)"
    and "\<not> card (pressed (key_report s)) < 6"
  shows "press_key key s =
     publish ((key_report s)\<lparr>keycode := (keycode (key_report s))[5 := key]\<rparr>) s"
proof -
  have "free_slot 6 (keycode (key_report s)) = None"
    using assms by (simp add: card_pressed free_slot_full report_inv_def)
  with assms(2,3) show ?thesis
    by (simp add: press_key_def pos_absent pressed_def)
qed

lemma release_key_absent:
  "key = 0 \<or> key \<notin> pressed (key_report s) \<Longrightarrow> release_key key s = s"
  by (auto simp: release_key_def pos_absent pressed_def)

lemma release_key_present:
  assumes "key \<in> pressed (key_report s)"
  obtains i where "i < length (keycode (key_report s))" and "keycode (key_report s) ! i = key"
    and "release_key key s =
           publish ((key_report s)\<lparr>keycode := (keycode (key_report s))[i := 0]\<rparr>) s"
  using assms that pos_present [of key "key_report s"]
  by (auto simp: release_key_def pos_absent pressed_def Let_def)

lemma report_inv_update:
  "report_inv r \<Longrightarrow> i < 6 \<Longrightarrow> key \<notin> set (keycode r) \<or> key = 0 \<Longrightarrow>
   report_inv (r\<lparr>keycode := (keycode r)[i := key]\<rparr>)"
  by (auto simp: report_inv_def intro: distinct_filter_update)

lemma report_inv_press_key:
  assumes "report_inv (key_report s)"
  shows "report_inv (key_report (press_key key s))"
proof -
  consider "key = 0 \<or> key \<in> pressed (key_report s)"
    | "key \<noteq> 0" "key \<notin> pressed (key_report s)" "card (pressed (key_report s)) < 6"
    | "key \<noteq> 0" "key \<notin> pressed (key_report s)" "\<not> card (pressed (key_report s)) < 6"
    by blast
  then show ?thesis
  proof cases
    case 1
    with assms show ?thesis by (simp add: press_key_known)
  next
    case 2
    with assms obtain i where "i < 6" "press_key key s =
        publish ((key_report s)\<lparr>keycode := (keycode (key_report s))[i := key]\<rparr>) s"
      by (rule press_key_free)
    with assms 2 show ?thesis
      by (auto simp: pressed_def intro: report_inv_update)
  next
    case 3
    with assms show ?thesis
      by (auto simp: press_key_full pressed_def intro: report_inv_update)
  qed
qed

lemma report_inv_release_key:
  assumes "report_inv (key_report s)"
  shows "report_inv (key_report (release_key key s))"
proof (cases "key \<in> pressed (key_report s)")
  case True
  then obtain i where "i < length (keycode (key_report s))" "release_key key s =
      publish ((key_report s)\<lparr>keycode := (keycode (key_report s))[i := 0]\<rparr>) s"
    by (rule release_key_present)
  with assms show ?thesis
    by (auto simp: report_inv_def intro: distinct_filter_update)
next
  case False
  with assms show ?thesis by (simp add: release_key_absent)
qed

lemma report_inv_mod_keys [simp]:
  "report_inv (key_report (press_mod_key key s)) = report_inv (key_report s)"
  "report_inv (key_report (release_mod_key key s)) = report_inv (key_report s)"
  by (simp_all add: press_mod_key_def release_mod_key_def report_inv_def)

text \<open>
  The slots refine a set of at most six keys: a press adds the key, at the cost of the key in the
  last slot when six keys are down already, and a release removes it.
\<close>

lemma pressed_press_key:
  assumes "report_inv (key_report s)"
  shows "pressed (key_report (press_key key s)) =
     (if key = 0 then pressed (key_report s)
      else if key \<in> pressed (key_report s) \<or> card (pressed (key_report s)) < 6
        then insert key (pressed (key_report s))
      else insert key (pressed (key_report s) - {keycode (key_report s) ! 5}))"
proof -
  let ?r = "key_report s"
  consider "key = 0 \<or> key \<in> pressed ?r"
    | "key \<noteq> 0" "key \<notin> pressed ?r" "card (pressed ?r) < 6"
    | "key \<noteq> 0" "key \<notin> pressed ?r" "\<not> card (pressed ?r) < 6"
    by blast
  then show ?thesis
  proof cases
    case 1
    then show ?thesis by (auto simp: press_key_known)
  next
    case 2
    with assms obtain i where "i < 6" "keycode ?r ! i = 0"
      "press_key key s = publish (?r\<lparr>keycode := (keycode ?r)[i := key]\<rparr>) s"
      by (rule press_key_free)
    with assms 2 zero_slot_set [of i "keycode ?r" key] show ?thesis
      by (auto simp: pressed_def report_inv_def)
  next
    case 3
    then have "keycode ?r ! 5 \<noteq> 0"
      using assms by (auto simp: card_pressed report_inv_def in_set_conv_nth)
    with assms 3 nonzero_unique [of "keycode ?r" 5 key] show ?thesis
      by (auto simp: press_key_full pressed_def report_inv_def)
  qed
qed

lemma pressed_release_key:
  assumes "report_inv (key_report s)"
  shows "pressed (key_report (release_key key s)) = pressed (key_report s) - {key}"
proof (cases "key \<in> pressed (key_report s)")
  case True
  then obtain i where "i < length (keycode (key_report s))" "keycode (key_report s) ! i = key"
    "release_key key s =
       publish ((key_report s)\<lparr>keycode := (keycode (key_report s))[i := 0]\<rparr>) s"
    by (rule release_key_present)
  with assms True nonzero_unique [of "keycode (key_report s)" i 0] show ?thesis
    by (auto simp: pressed_def report_inv_def)
next
  case False
  then show ?thesis by (auto simp: release_key_absent)
qed

lemma release_after_press:
  assumes inv: "report_inv (key_report s)" and key: "key \<noteq> 0" "key \<notin> pressed (key_report s)"
    and room: "card (pressed (key_report s)) < 6"
  shows "key_report (release_key key (press_key key s)) = key_report s"
proof -
  let ?ks = "keycode (key_report s)"
  obtain i where i: "i < 6" "?ks ! i = 0"
    and p: "press_key key s = publish ((key_report s)\<lparr>keycode := ?ks[i := key]\<rparr>) s"
    using assms by (rule press_key_free)
  have len: "length ?ks = 6"
    using inv by (simp add: report_inv_def)
  have "key \<in> pressed (key_report (press_key key s))"
    using assms by (simp add: pressed_press_key)
  then obtain j where j: "j < length (?ks[i := key])" "?ks[i := key] ! j = key"
    and r: "key_report (release_key key (press_key key s)) = (key_report s)\<lparr>keycode := ?ks[i := key, j := 0]\<rparr>"
    by (rule release_key_present) (auto simp: p)
  have "j = i"
  proof (rule ccontr)
    assume "j \<noteq> i"
    with j have "?ks ! j = key" "j < length ?ks" by simp_all
    with key show False by (auto simp: pressed_def)
  qed
  then show ?thesis
    using i len r by (simp add: list_update_same_conv)
qed

subsection \<open>Contract of the report operations\<close>


definition sample_app :: app where
  "sample_app = \<lparr>key_report = empty_report\<lparr>keycode := [0, 0, 0, 0, 0, KEY_A]\<rparr>,
     hog_of = boot_hog []\<rparr>"


text \<open>
  The comment in \<open>press_key\<close> says that with more than six keys down the oldest is dropped; the code
  always reuses the last slot.

  With six keys down, pressing two further keys drops the first of the two, the most recent key,
  while five keys that were down before stay in the report.
\<close>

lemma seventh_key_dropped_by_eighth:
  assumes "report_inv (key_report s)" and "card (pressed (key_report s)) = 6"
    and "a \<noteq> 0" "b \<noteq> 0" "a \<noteq> b" "a \<notin> pressed (key_report s)" "b \<notin> pressed (key_report s)"
  shows "pressed (key_report (press_key b (press_key a s))) =
     insert b (pressed (key_report s) - {keycode (key_report s) ! 5})"
proof -
  let ?r = "key_report s" and ?ks = "keycode (key_report s)"
  have len: "length ?ks = 6"
    using assms(1) by (simp add: report_inv_def)
  have full: "0 \<notin> set ?ks"
    using card_pressed [OF assms(1)] assms(2) by simp
  have full': "\<not> card (pressed ?r) < 6"
    by (simp add: assms(2))
  have a: "key_report (press_key a s) = ?r\<lparr>keycode := ?ks[5 := a]\<rparr>"
    unfolding press_key_full [OF assms(1,3,6) full'] by (rule publish_simps)
  have inv: "report_inv (key_report (press_key a s))"
    using assms(1) by (rule report_inv_press_key)
  have "0 \<notin> set (?ks[5 := a])"
    using full assms(3) set_update_subset_insert [of ?ks 5 a] by blast
  then have "\<not> card (pressed (key_report (press_key a s))) < 6"
    using card_pressed [OF inv] by (simp add: a)
  moreover have "pressed (key_report (press_key a s)) = insert a (pressed ?r - {?ks ! 5})"
    unfolding pressed_press_key [OF assms(1)] using assms(3,6) full' by presburger
  moreover have "keycode (key_report (press_key a s)) ! 5 = a"
    using len by (simp add: a)
  ultimately show ?thesis
    unfolding pressed_press_key [OF inv] using assms(4-7) by auto
qed

end
