(* ===== verification/Bt_Hid_Tools.thy ===== *)
theory Bt_Hid_Tools
  imports Hid_Translator
begin

text \<open>
  The tools of \<open>bt_hid_tools.c\<close>: the HID key of an ASCII character, and a thread body that types a
  string by publishing reports of its own. The specification side of the file is a US keyboard
  layout and a host that turns a sequence of reports into characters.
\<close>

text \<open>\<open>ascii_to_hid\<close> returns an \<open>int\<close>, with -1 for a character that is not supported.\<close>

definition ascii_to_hid :: "u8 \<Rightarrow> int" where
  "ascii_to_hid ascii =
     (if ascii < 32 then -1
      else if ascii < 48 then
        (if ascii = 32 then uint KEY_SPACE
         else if ascii = 33 then uint KEY_1
         else if ascii = 34 then uint KEY_APOSTROPHE
         else if ascii = 35 then uint KEY_3
         else if ascii = 36 then uint KEY_4
         else if ascii = 37 then uint KEY_5
         else if ascii = 38 then uint KEY_7
         else if ascii = 39 then uint KEY_APOSTROPHE
         else if ascii = 40 then uint KEY_9
         else if ascii = 41 then uint KEY_0
         else if ascii = 42 then uint KEY_8
         else if ascii = 43 then uint KEY_EQUAL
         else if ascii = 44 then uint KEY_COMMA
         else if ascii = 45 then uint KEY_MINUS
         else if ascii = 46 then uint KEY_DOT
         else if ascii = 47 then uint KEY_SLASH
         else -1)
      else if ascii < 58 then
        (if ascii = 48 then uint KEY_0 else uint ascii - 19)
      else if ascii < 65 then
        (if ascii = 58 then uint KEY_SEMICOLON
         else if ascii = 59 then uint KEY_SEMICOLON
         else if ascii = 60 then uint KEY_COMMA
         else if ascii = 61 then uint KEY_EQUAL
         else if ascii = 62 then uint KEY_DOT
         else if ascii = 63 then uint KEY_SLASH
         else if ascii = 64 then uint KEY_2
         else -1)
      else if ascii < 91 then uint ascii - 61
      else if ascii < 97 then
        (if ascii = 91 then uint KEY_LEFTBRACE
         else if ascii = 92 then uint KEY_BACKSLASH
         else if ascii = 93 then uint KEY_RIGHTBRACE
         else if ascii = 94 then uint KEY_6
         else if ascii = 95 then uint KEY_MINUS
         else if ascii = 96 then uint KEY_GRAVE
         else -1)
      else if ascii < 123 then uint ascii - 93
      else if ascii < 128 then
        (if ascii = 123 then uint KEY_LEFTBRACE
         else if ascii = 124 then uint KEY_BACKSLASH
         else if ascii = 125 then uint KEY_RIGHTBRACE
         else if ascii = 126 then uint KEY_GRAVE
         else if ascii = 127 then uint KEY_DELETE
         else -1)
      else -1)"

text \<open>
  The thread body of \<open>keyboard_print\<close>. The string is the bytes up to its terminating zero; the report
  is a local variable that differs from the empty report in the last slot only.
\<close>

definition print_report :: "u8 \<Rightarrow> hids_report_keyboard" where
  "print_report key = empty_report\<lparr>keycode := (keycode empty_report)[5 := key]\<rparr>"

definition set_input :: "hids_report_keyboard \<Rightarrow> app \<Rightarrow> app" where
  "set_input r s = s\<lparr>hog_of := hog_set_keyboard_input r (hog_of s)\<rparr>"

fun keyboard_print :: "u8 list \<Rightarrow> app prog" where
  "keyboard_print [] = Act (set_input (print_report 0)) Done"
| "keyboard_print (c # str) =
     (if c = 0 then Act (set_input (print_report 0)) Done
      else Act (set_input (print_report 0)) (Msleep 100
             (Act (set_input (print_report (word_of_int (ascii_to_hid c)))) (Msleep 100
               (keyboard_print str)))))"

subsection \<open>A US keyboard\<close>

text \<open>The keys of the layout with the characters they type without and with shift.\<close>

definition us_layout :: "(u8 \<times> u8 \<times> u8) list" where
  "us_layout = [(KEY_A, 97, 65), (KEY_B, 98, 66), (KEY_C, 99, 67), (KEY_D, 100, 68),
     (KEY_E, 101, 69), (KEY_F, 102, 70), (KEY_G, 103, 71), (KEY_H, 104, 72),
     (KEY_I, 105, 73), (KEY_J, 106, 74), (KEY_K, 107, 75), (KEY_L, 108, 76),
     (KEY_M, 109, 77), (KEY_N, 110, 78), (KEY_O, 111, 79), (KEY_P, 112, 80),
     (KEY_Q, 113, 81), (KEY_R, 114, 82), (KEY_S, 115, 83), (KEY_T, 116, 84),
     (KEY_U, 117, 85), (KEY_V, 118, 86), (KEY_W, 119, 87), (KEY_X, 120, 88),
     (KEY_Y, 121, 89), (KEY_Z, 122, 90), (KEY_1, 49, 33), (KEY_2, 50, 64),
     (KEY_3, 51, 35), (KEY_4, 52, 36), (KEY_5, 53, 37), (KEY_6, 54, 94),
     (KEY_7, 55, 38), (KEY_8, 56, 42), (KEY_9, 57, 40), (KEY_0, 48, 41),
     (KEY_SPACE, 32, 32), (KEY_MINUS, 45, 95), (KEY_EQUAL, 61, 43), (KEY_LEFTBRACE, 91, 123),
     (KEY_RIGHTBRACE, 93, 125), (KEY_BACKSLASH, 92, 124), (KEY_SEMICOLON, 59, 58), (KEY_APOSTROPHE, 39, 34),
     (KEY_GRAVE, 96, 126), (KEY_COMMA, 44, 60), (KEY_DOT, 46, 62), (KEY_SLASH, 47, 63)]"

fun layout_char :: "bool \<Rightarrow> u8 \<Rightarrow> (u8 \<times> u8 \<times> u8) list \<Rightarrow> u8 option" where
  "layout_char shift key [] = None"
| "layout_char shift key ((k, plain, shifted) # ls) =
     (if k = key then Some (if shift then shifted else plain) else layout_char shift key ls)"

definition printable :: "u8 \<Rightarrow> bool" where
  "printable c \<longleftrightarrow> 32 \<le> c \<and> c < 127"

lemma all_printable:
  assumes "list_all P (map word_of_nat [32..<127])" and "printable (c :: u8)"
  shows "P c"
proof -
  have "32 \<le> unat c" "unat c < 127"
    using assms(2) by (auto simp: printable_def word_le_nat_alt word_less_nat_alt)
  moreover have "c = word_of_nat (unat c)" by simp
  ultimately have "c \<in> set (map word_of_nat [32..<127])"
    by (metis (no_types, lifting) atLeastLessThan_iff image_eqI list.set_map set_upt)
  with assms(1) show ?thesis by (simp only: list_all_iff)
qed

definition hid_key_ok :: "u8 \<Rightarrow> bool" where
  "hid_key_ok c \<longleftrightarrow>
     (let k = word_of_int (ascii_to_hid c) :: u8
      in ascii_to_hid c = uint k \<and> k \<noteq> 0 \<and> layout_char False k us_layout \<noteq> None \<and>
         (layout_char False k us_layout = Some c \<or> layout_char True k us_layout = Some c))"

lemma hid_key_ok_all: "list_all hid_key_ok (map word_of_nat [32..<127])"
  by code_simp

lemmas printable_hid_key = all_printable [OF hid_key_ok_all]

lemma printable_key:
  assumes "printable c"
  obtains k d where "word_of_int (ascii_to_hid c) = k" and "ascii_to_hid c = uint k" and "k \<noteq> 0"
    and "layout_char False k us_layout = Some d" and "d = c \<or> layout_char True k us_layout = Some c"
  using printable_hid_key [OF assms] by (auto simp: hid_key_ok_def Let_def)

lemma ascii_to_hid_unsupported: "c < 32 \<or> 128 \<le> c \<Longrightarrow> ascii_to_hid c = -1"
  by (auto simp: ascii_to_hid_def not_less word_less_nat_alt word_le_nat_alt)

text \<open>
  For every printable ASCII character \<open>ascii_to_hid\<close> returns the key of a US keyboard that carries
  the character, with or without shift, and for a control character or a byte outside ASCII it
  returns -1.
\<close>

lemma ascii_to_hid_us_layout:
  "if printable c
   then \<exists>k. ascii_to_hid c = uint k \<and>
          (layout_char False k us_layout = Some c \<or> layout_char True k us_layout = Some c)
   else c = 127 \<or> ascii_to_hid c = -1"
proof (cases "printable c")
  case True
  then show ?thesis
    using printable_key [OF True] by (metis (full_types))
next
  case False
  then have "c = 127 \<or> c < 32 \<or> 128 \<le> c"
    by (auto simp: printable_def word_le_nat_alt word_less_nat_alt not_le not_less
        word_unat_eq_iff)
  with False show ?thesis by (auto simp: ascii_to_hid_unsupported)
qed

subsection \<open>What \<open>keyboard_print\<close> publishes\<close>

fun print_reports :: "u8 list \<Rightarrow> hids_report_keyboard list" where
  "print_reports [] = [print_report 0]"
| "print_reports (c # str) =
     print_report 0 # print_report (word_of_int (ascii_to_hid c)) # print_reports str"

lemma run_keyboard_print:
  "0 \<notin> set str \<Longrightarrow>
   run (keyboard_print str) cs s = (Done, cs, fold set_input (print_reports str) s)"
  by (induction str arbitrary: s) auto

lemma set_input_kept:
  assumes "hog_inv (hog_of s)"
  shows "hog_inv (hog_of (set_input r s))"
    and "link_ok (hog_of (set_input r s)) = link_ok (hog_of s)"
    and "report_targets (hog_of (set_input r s)) = report_targets (hog_of s)"
    and "report_handle (hog_of (set_input r s)) = report_handle (hog_of s)"
    and "key_report (set_input r s) = key_report s"
  using assms set_keyboard_input_frame [of r "hog_of s"]
  by (auto simp: set_input_def link_ok_def report_targets_def report_handle_def)

lemma sent_set_inputs:
  "hog_inv (hog_of s) \<Longrightarrow> link_ok (hog_of s) \<Longrightarrow>
   sent (gatt_st (hog_of (fold set_input rs s))) = sent (gatt_st (hog_of s)) @
     concat (map (\<lambda>r. map (\<lambda>c. (c, report_handle (hog_of s), report_bytes r))
       (report_targets (hog_of s))) rs)"
proof (induction rs arbitrary: s)
  case (Cons r rs)
  from Cons.prems have "sent (gatt_st (hog_of (set_input r s))) = sent (gatt_st (hog_of s)) @
      map (\<lambda>c. (c, report_handle (hog_of s), report_bytes r)) (report_targets (hog_of s))"
    by (simp add: set_input_def set_keyboard_input_sent)
  with Cons show ?case by (simp add: set_input_kept)
qed simp

text \<open>
  What one peer receives, and the host behind it: it types the character of every key that is in a
  report and was not in the report before, with the shift bits of that report.
\<close>

definition received :: "nat \<Rightarrow> (nat \<times> nat \<times> u8 list) list \<Rightarrow> u8 list list" where
  "received c log = map (\<lambda>(_, _, data). data) (filter (\<lambda>(d, _, _). d = c) log)"

lemma received_append [simp]: "received c (xs @ ys) = received c xs @ received c ys"
  by (simp add: received_def)

lemma filter_one_target:
  "distinct ts \<Longrightarrow> c \<in> set ts \<Longrightarrow> filter (\<lambda>d. d = c) ts = [c]"
  by (induction ts) (auto simp: filter_empty_conv)

lemma received_reports:
  assumes "distinct ts" and "c \<in> set ts"
  shows "received c (concat (map (\<lambda>r. map (\<lambda>d. (d, h, f r)) ts) rs)) = map f rs"
proof (induction rs)
  case (Cons r rs)
  have "received c (map (\<lambda>d. (d, h, f r)) ts) = [f r]"
    using assms by (simp add: received_def filter_map o_def filter_one_target)
  with Cons show ?case by simp
qed (simp add: received_def)

fun host_types :: "u8 list \<Rightarrow> u8 list list \<Rightarrow> u8 list" where
  "host_types prev [] = []"
| "host_types prev (r # rs) =
     List.map_filter (\<lambda>k. layout_char (r ! 0 AND (KEY_MOD_LSHIFT OR KEY_MOD_RSHIFT) \<noteq> 0) k us_layout)
       (filter (\<lambda>k. k \<notin> set (drop 2 prev)) (drop 2 r)) @ host_types r rs"

lemma no_key_zero: "layout_char b 0 us_layout = None"
  by (cases b) (simp_all add: us_layout_def)

lemma print_report_bytes: "report_bytes (print_report k) = [0, 0, 0, 0, 0, 0, 0, k]"
  by (simp add: print_report_def report_bytes_def empty_report_def)

text \<open>The character on the key of \<open>c\<close> without shift.\<close>

definition unshifted :: "u8 \<Rightarrow> u8" where
  "unshifted c = the (layout_char False (word_of_int (ascii_to_hid c)) us_layout)"

lemma host_types_print:
  "list_all printable str \<Longrightarrow>
   host_types (report_bytes (print_report k)) (map report_bytes (print_reports str)) = map unshifted str"
proof (induction str arbitrary: k)
  case Nil
  then show ?case
    by (simp add: print_report_bytes no_key_zero List.map_filter_simps)
next
  case (Cons c str)
  then have "printable c" by simp
  then obtain key d where "word_of_int (ascii_to_hid c) = key" "key \<noteq> 0"
    "layout_char False key us_layout = Some d"
    by (rule printable_key)
  with Cons show ?case
    by (simp add: print_report_bytes no_key_zero List.map_filter_simps unshifted_def)
qed

lemma printable_nonzero: "list_all printable str \<Longrightarrow> 0 \<notin> set str"
  by (auto simp: list_all_iff printable_def)



end

