(* ===== verification/Main_App.thy ===== *)
theory Main_App
  imports Bt_Hid_Tools
begin

text \<open>
  The application's \<open>main.c\<close>, as far as it is not a call into the Bluetooth host: the endless loop of
  the main thread, which types a demonstration text every tenth turn, and the command bytes of the
  keyboard's LEDs in \<open>ps2_keyboard.c\<close>. \<open>main_turns n i\<close> is \<open>n\<close> turns of the loop with the counter at
  \<open>i\<close>.
\<close>

text \<open>The bytes of ``I'm writing on your keyboard!''.\<close>

definition demo_text :: "u8 list" where
  "demo_text = [0x49, 0x27, 0x6D, 0x20, 0x77, 0x72, 0x69, 0x74, 0x69, 0x6E, 0x67, 0x20, 0x6F, 0x6E, 0x20,
     0x79, 0x6F, 0x75, 0x72, 0x20, 0x6B, 0x65, 0x79, 0x62, 0x6F, 0x61, 0x72, 0x64, 0x21]"

fun main_turns :: "nat \<Rightarrow> int \<Rightarrow> app prog" where
  "main_turns 0 i = Done"
| "main_turns (Suc n) i =
     seq (if (i + 1) mod 10 = 0 then keyboard_print demo_text else Done) (Msleep 1000 (main_turns n (i + 1)))"

text \<open>\<open>ps2_keyboard_set_leds\<close>: the bytes it passes to \<open>ps2_connector_send_byte\<close>, in order.\<close>

definition ps2_keyboard_set_leds :: "u8 \<Rightarrow> u8 \<Rightarrow> u8 \<Rightarrow> u8 list" where
  "ps2_keyboard_set_leds scroll_lock num_lock caps_lock =
     (let c0 = 0;
          c1 = (if scroll_lock \<noteq> 0 then c0 OR 0x01 else c0);
          c2 = (if num_lock \<noteq> 0 then c1 OR push_bit 1 0x01 else c1);
          c3 = (if caps_lock \<noteq> 0 then c2 OR push_bit 2 0x01 else c2)
      in [0xED, c3])"

lemma set_leds_bits:
  "ps2_keyboard_set_leds s n c = [0xED, word_of_int (of_bool (s \<noteq> 0) + 2 * of_bool (n \<noteq> 0) + 4 * of_bool (c \<noteq> 0))]"
  by (simp add: ps2_keyboard_set_leds_def Let_def)

lemma run_main_quiet:
  "\<forall>j. i < j \<and> j \<le> i + int n \<longrightarrow> j mod 10 \<noteq> 0 \<Longrightarrow> run (main_turns n i) cs s = (Done, cs, s)"
proof (induction n arbitrary: i)
  case (Suc n)
  from Suc.prems have "(i + 1) mod 10 \<noteq> 0" by auto
  moreover have "run (main_turns n (i + 1)) cs s = (Done, cs, s)"
    using Suc.prems by (intro Suc.IH) auto
  ultimately show ?case by simp
qed simp

lemma run_keyboard_print_ends:
  "0 \<notin> set str \<Longrightarrow> \<exists>t. run (keyboard_print str) cs s = (Done, cs, t) \<and> key_report t = key_report s \<and>
     input_keyboard (hog_of t) = print_report 0"
proof (induction str arbitrary: s)
  case (Cons c str)
  let ?s = "set_input (print_report (word_of_int (ascii_to_hid c))) (set_input (print_report 0) s)"
  have "key_report ?s = key_report s"
    by (simp add: set_input_def)
  with Cons.IH [of ?s] Cons.prems show ?case by simp
qed (simp add: set_input_def)

text \<open>
  The main loop takes the keyboard away from its user. In its first nine turns it changes nothing;
  at the tenth it types the demonstration text, after which the report the peers see is empty although
  the keys that were down still are down in the translator's report.
\<close>

lemma demo_hides_keys:
  "run (main_turns 9 0) cs s = (Done, cs, s) \<and>
   (\<exists>t. run (main_turns 10 0) cs s = (Done, cs, t) \<and> key_report t = key_report s \<and>
      pressed (input_keyboard (hog_of t)) = {})"
proof -
  have nine: "run (main_turns 9 0) cs s = (Done, cs, s)"
    by (rule run_main_quiet) (auto simp: mod_eq_0_iff_dvd dest!: zdvd_not_zless)
  have "0 \<notin> set demo_text"
    by (simp add: demo_text_def)
  then obtain t where t: "run (keyboard_print demo_text) cs s = (Done, cs, t)" "key_report t = key_report s"
      "input_keyboard (hog_of t) = print_report 0"
    using run_keyboard_print_ends by blast
  have "run (main_turns 10 0) cs s = (Done, cs, t)"
    using run_seq [OF t(1)] by (simp add: eval_nat_numeral)
  with nine t(2,3) show ?thesis
    by (simp add: print_report_def empty_report_def pressed_def)
qed

end
