(* ===== verification/Gpio_Nrfx.thy ===== *)
theory Gpio_Nrfx
  imports Prelude
begin

text \<open>
  The GPIO driver \<open>drivers/gpio/gpio_nrfx.c\<close> with the callback lists of \<open>gpio_utils.h\<close>. The hardware
  abstraction layer of the chip is not part of the repository: its functions are the fields of the
  record \<open>hal\<close>, a parameter of every operation, over an unknown state of the hardware. \<open>hal_ok\<close> states
  what the layer documents of them, as the registers each function changes. A device is its port
  number; its driver data and the registered callbacks are fields of the state, which client theories
  extend with their own variables so that a callback may change both.
\<close>

subsection \<open>Flags\<close>

abbreviation GPIO_ACTIVE_LOW :: u32 where "GPIO_ACTIVE_LOW \<equiv> BIT 0"
abbreviation GPIO_ACTIVE_HIGH :: u32 where "GPIO_ACTIVE_HIGH \<equiv> 0"
abbreviation GPIO_SINGLE_ENDED :: u32 where "GPIO_SINGLE_ENDED \<equiv> BIT 1"
abbreviation GPIO_LINE_OPEN_DRAIN :: u32 where "GPIO_LINE_OPEN_DRAIN \<equiv> BIT 2"
abbreviation GPIO_OPEN_DRAIN :: u32 where "GPIO_OPEN_DRAIN \<equiv> GPIO_SINGLE_ENDED OR GPIO_LINE_OPEN_DRAIN"
abbreviation GPIO_OPEN_SOURCE :: u32 where "GPIO_OPEN_SOURCE \<equiv> GPIO_SINGLE_ENDED"
abbreviation GPIO_PULL_UP :: u32 where "GPIO_PULL_UP \<equiv> BIT 4"
abbreviation GPIO_PULL_DOWN :: u32 where "GPIO_PULL_DOWN \<equiv> BIT 5"
abbreviation GPIO_INPUT :: u32 where "GPIO_INPUT \<equiv> BIT 8"
abbreviation GPIO_OUTPUT :: u32 where "GPIO_OUTPUT \<equiv> BIT 9"
abbreviation GPIO_OUTPUT_INIT_LOW :: u32 where "GPIO_OUTPUT_INIT_LOW \<equiv> BIT 10"
abbreviation GPIO_OUTPUT_INIT_HIGH :: u32 where "GPIO_OUTPUT_INIT_HIGH \<equiv> BIT 11"
abbreviation GPIO_OUTPUT_INIT_LOGICAL :: u32 where "GPIO_OUTPUT_INIT_LOGICAL \<equiv> BIT 12"
abbreviation GPIO_INT_DISABLE :: u32 where "GPIO_INT_DISABLE \<equiv> BIT 13"
abbreviation GPIO_INT_ENABLE :: u32 where "GPIO_INT_ENABLE \<equiv> BIT 14"
abbreviation GPIO_INT_LEVELS_LOGICAL :: u32 where "GPIO_INT_LEVELS_LOGICAL \<equiv> BIT 15"
abbreviation GPIO_INT_EDGE :: u32 where "GPIO_INT_EDGE \<equiv> BIT 16"
abbreviation GPIO_INT_LOW_0 :: u32 where "GPIO_INT_LOW_0 \<equiv> BIT 17"
abbreviation GPIO_INT_HIGH_1 :: u32 where "GPIO_INT_HIGH_1 \<equiv> BIT 18"
abbreviation GPIO_INT_DEBOUNCE :: u32 where "GPIO_INT_DEBOUNCE \<equiv> BIT 19"
abbreviation GPIO_DS_LOW_MASK :: u32 where "GPIO_DS_LOW_MASK \<equiv> BIT 20 OR BIT 21"
abbreviation GPIO_DS_ALT_LOW :: u32 where "GPIO_DS_ALT_LOW \<equiv> BIT 20"
abbreviation GPIO_DS_HIGH_MASK :: u32 where "GPIO_DS_HIGH_MASK \<equiv> BIT 22 OR BIT 23"
abbreviation GPIO_DS_ALT_HIGH :: u32 where "GPIO_DS_ALT_HIGH \<equiv> BIT 22"

text \<open>The values of \<open>enum gpio_int_mode\<close> and \<open>enum gpio_int_trig\<close> are combinations of flags.\<close>

abbreviation GPIO_INT_MODE_DISABLED :: u32 where "GPIO_INT_MODE_DISABLED \<equiv> GPIO_INT_DISABLE"
abbreviation GPIO_INT_MODE_LEVEL :: u32 where "GPIO_INT_MODE_LEVEL \<equiv> GPIO_INT_ENABLE"
abbreviation GPIO_INT_MODE_EDGE :: u32 where "GPIO_INT_MODE_EDGE \<equiv> GPIO_INT_ENABLE OR GPIO_INT_EDGE"
abbreviation GPIO_INT_TRIG_LOW :: u32 where "GPIO_INT_TRIG_LOW \<equiv> GPIO_INT_LOW_0"
abbreviation GPIO_INT_TRIG_HIGH :: u32 where "GPIO_INT_TRIG_HIGH \<equiv> GPIO_INT_HIGH_1"
abbreviation GPIO_INT_TRIG_BOTH :: u32 where "GPIO_INT_TRIG_BOTH \<equiv> GPIO_INT_LOW_0 OR GPIO_INT_HIGH_1"

subsection \<open>The hardware abstraction layer\<close>

datatype nrf_gpio_pin_dir = NRF_GPIO_PIN_DIR_INPUT | NRF_GPIO_PIN_DIR_OUTPUT
datatype nrf_gpio_pin_input = NRF_GPIO_PIN_INPUT_CONNECT | NRF_GPIO_PIN_INPUT_DISCONNECT
datatype nrf_gpio_pin_pull = NRF_GPIO_PIN_NOPULL | NRF_GPIO_PIN_PULLDOWN | NRF_GPIO_PIN_PULLUP
datatype nrf_gpio_pin_drive =
    NRF_GPIO_PIN_S0S1 | NRF_GPIO_PIN_H0S1 | NRF_GPIO_PIN_S0H1 | NRF_GPIO_PIN_H0H1
  | NRF_GPIO_PIN_D0S1 | NRF_GPIO_PIN_D0H1 | NRF_GPIO_PIN_S0D1 | NRF_GPIO_PIN_H0D1
datatype nrf_gpio_pin_sense = NRF_GPIO_PIN_NOSENSE | NRF_GPIO_PIN_SENSE_LOW | NRF_GPIO_PIN_SENSE_HIGH
datatype nrf_gpiote_polarity =
    NRF_GPIOTE_POLARITY_LOTOHI | NRF_GPIOTE_POLARITY_HITOLO | NRF_GPIOTE_POLARITY_TOGGLE
datatype nrf_gpiote_event = EVENTS_IN nat | NRF_GPIOTE_EVENT_PORT

record 'h hal =
  NRF_GPIO_PIN_MAP :: "nat \<Rightarrow> nat \<Rightarrow> nat"
  GPIOTE_CH_NUM :: nat
  NRF_GPIOTE_INT_IN_MASK :: u32
  NRF_GPIOTE_INT_PORT_MASK :: u32
  nrf_gpio_port_in_read :: "nat \<Rightarrow> 'h \<Rightarrow> u32"
  nrf_gpio_port_out_read :: "nat \<Rightarrow> 'h \<Rightarrow> u32"
  nrf_gpio_port_out_write :: "nat \<Rightarrow> u32 \<Rightarrow> 'h \<Rightarrow> 'h"
  nrf_gpio_port_out_set :: "nat \<Rightarrow> u32 \<Rightarrow> 'h \<Rightarrow> 'h"
  nrf_gpio_port_out_clear :: "nat \<Rightarrow> u32 \<Rightarrow> 'h \<Rightarrow> 'h"
  nrf_gpio_cfg :: "nat \<Rightarrow> nrf_gpio_pin_dir \<Rightarrow> nrf_gpio_pin_input \<Rightarrow> nrf_gpio_pin_pull \<Rightarrow>
    nrf_gpio_pin_drive \<Rightarrow> nrf_gpio_pin_sense \<Rightarrow> 'h \<Rightarrow> 'h"
  nrf_gpio_cfg_sense_set :: "nat \<Rightarrow> nrf_gpio_pin_sense \<Rightarrow> 'h \<Rightarrow> 'h"
  nrf_gpio_pin_dir_get :: "nat \<Rightarrow> 'h \<Rightarrow> nrf_gpio_pin_dir"
  nrf_gpiote_event_configure :: "nat \<Rightarrow> nat \<Rightarrow> nrf_gpiote_polarity \<Rightarrow> 'h \<Rightarrow> 'h"
  nrf_gpiote_event_clear :: "nrf_gpiote_event \<Rightarrow> 'h \<Rightarrow> 'h"
  nrf_gpiote_event_check :: "nrf_gpiote_event \<Rightarrow> 'h \<Rightarrow> bool"
  nrf_gpiote_event_enable :: "nat \<Rightarrow> 'h \<Rightarrow> 'h"
  nrf_gpiote_event_disable :: "nat \<Rightarrow> 'h \<Rightarrow> 'h"
  nrf_gpiote_event_pin_get :: "nat \<Rightarrow> 'h \<Rightarrow> nat"
  nrf_gpiote_int_enable :: "u32 \<Rightarrow> 'h \<Rightarrow> 'h"
  nrf_gpiote_int_disable :: "u32 \<Rightarrow> 'h \<Rightarrow> 'h"
  nrf_gpiote_int_enable_check :: "u32 \<Rightarrow> 'h \<Rightarrow> u32"

text \<open>
  The registers behind the layer: the output latches by port, the configuration of the pins by
  absolute pin number, and for the GPIOTE peripheral the configuration of its channels, the enabled
  interrupts and the pending events.
\<close>

record nrf_regs =
  out_reg :: "nat \<Rightarrow> u32"
  pin_dir :: "nat \<Rightarrow> nrf_gpio_pin_dir"
  pin_cnf :: "nat \<Rightarrow> nrf_gpio_pin_input \<times> nrf_gpio_pin_pull \<times> nrf_gpio_pin_drive"
  pin_sense :: "nat \<Rightarrow> nrf_gpio_pin_sense"
  ch_pin :: "nat \<Rightarrow> nat"
  ch_polarity :: "nat \<Rightarrow> nrf_gpiote_polarity"
  ch_mode :: "nat \<Rightarrow> bool"
  inten :: u32
  pending :: "nrf_gpiote_event \<Rightarrow> bool"

definition hal_ok :: "'h hal \<Rightarrow> ('h \<Rightarrow> nrf_regs) \<Rightarrow> bool" where
  "hal_ok hal r \<longleftrightarrow>
     (\<forall>port pin. pin < 32 \<longrightarrow> NRF_GPIO_PIN_MAP hal port pin = 32 * port + pin) \<and>
     GPIOTE_CH_NUM hal \<le> 8 \<and>
     (\<forall>i. bit (NRF_GPIOTE_INT_IN_MASK hal) i \<longleftrightarrow> i < GPIOTE_CH_NUM hal) \<and>
     (\<forall>i<GPIOTE_CH_NUM hal. \<not> bit (NRF_GPIOTE_INT_PORT_MASK hal) i) \<and>
     (\<forall>p h. nrf_gpio_port_out_read hal p h = out_reg (r h) p) \<and>
     (\<forall>p v h. r (nrf_gpio_port_out_write hal p v h) = (r h)\<lparr>out_reg := (out_reg (r h))(p := v)\<rparr>) \<and>
     (\<forall>p m h. r (nrf_gpio_port_out_set hal p m h) =
        (r h)\<lparr>out_reg := (out_reg (r h))(p := out_reg (r h) p OR m)\<rparr>) \<and>
     (\<forall>p m h. r (nrf_gpio_port_out_clear hal p m h) =
        (r h)\<lparr>out_reg := (out_reg (r h))(p := out_reg (r h) p AND NOT m)\<rparr>) \<and>
     (\<forall>n d i u v s h. r (nrf_gpio_cfg hal n d i u v s h) =
        (r h)\<lparr>pin_dir := (pin_dir (r h))(n := d), pin_cnf := (pin_cnf (r h))(n := (i, u, v)),
              pin_sense := (pin_sense (r h))(n := s)\<rparr>) \<and>
     (\<forall>n s h. r (nrf_gpio_cfg_sense_set hal n s h) =
        (r h)\<lparr>pin_sense := (pin_sense (r h))(n := s)\<rparr>) \<and>
     (\<forall>n h. nrf_gpio_pin_dir_get hal n h = pin_dir (r h) n) \<and>
     (\<forall>c n p h. r (nrf_gpiote_event_configure hal c n p h) =
        (r h)\<lparr>ch_pin := (ch_pin (r h))(c := n), ch_polarity := (ch_polarity (r h))(c := p)\<rparr>) \<and>
     (\<forall>e h. r (nrf_gpiote_event_clear hal e h) = (r h)\<lparr>pending := (pending (r h))(e := False)\<rparr>) \<and>
     (\<forall>e h. nrf_gpiote_event_check hal e h = pending (r h) e) \<and>
     (\<forall>c h. r (nrf_gpiote_event_enable hal c h) = (r h)\<lparr>ch_mode := (ch_mode (r h))(c := True)\<rparr>) \<and>
     (\<forall>c h. r (nrf_gpiote_event_disable hal c h) = (r h)\<lparr>ch_mode := (ch_mode (r h))(c := False)\<rparr>) \<and>
     (\<forall>c h. nrf_gpiote_event_pin_get hal c h = ch_pin (r h) c) \<and>
     (\<forall>m h. r (nrf_gpiote_int_enable hal m h) = (r h)\<lparr>inten := inten (r h) OR m\<rparr>) \<and>
     (\<forall>m h. r (nrf_gpiote_int_disable hal m h) = (r h)\<lparr>inten := inten (r h) AND NOT m\<rparr>) \<and>
     (\<forall>m h. nrf_gpiote_int_enable_check hal m h = inten (r h) AND m)"

lemma hal_laws:
  assumes "hal_ok hal r"
  shows "pin < 32 \<Longrightarrow> NRF_GPIO_PIN_MAP hal port pin = 32 * port + pin"
    and "GPIOTE_CH_NUM hal \<le> 8"
    and "bit (NRF_GPIOTE_INT_IN_MASK hal) i \<longleftrightarrow> i < GPIOTE_CH_NUM hal"
    and "i < GPIOTE_CH_NUM hal \<Longrightarrow> \<not> bit (NRF_GPIOTE_INT_PORT_MASK hal) i"
    and "nrf_gpio_port_out_read hal p h = out_reg (r h) p"
    and "r (nrf_gpio_port_out_write hal p v h) = (r h)\<lparr>out_reg := (out_reg (r h))(p := v)\<rparr>"
    and "r (nrf_gpio_port_out_set hal p m h) =
        (r h)\<lparr>out_reg := (out_reg (r h))(p := out_reg (r h) p OR m)\<rparr>"
    and "r (nrf_gpio_port_out_clear hal p m h) =
        (r h)\<lparr>out_reg := (out_reg (r h))(p := out_reg (r h) p AND NOT m)\<rparr>"
    and "r (nrf_gpio_cfg hal n d x u y s h) =
        (r h)\<lparr>pin_dir := (pin_dir (r h))(n := d), pin_cnf := (pin_cnf (r h))(n := (x, u, y)),
              pin_sense := (pin_sense (r h))(n := s)\<rparr>"
    and "r (nrf_gpio_cfg_sense_set hal n s h) = (r h)\<lparr>pin_sense := (pin_sense (r h))(n := s)\<rparr>"
    and "nrf_gpio_pin_dir_get hal n h = pin_dir (r h) n"
    and "r (nrf_gpiote_event_configure hal c n q h) =
        (r h)\<lparr>ch_pin := (ch_pin (r h))(c := n), ch_polarity := (ch_polarity (r h))(c := q)\<rparr>"
    and "r (nrf_gpiote_event_clear hal e h) = (r h)\<lparr>pending := (pending (r h))(e := False)\<rparr>"
    and "nrf_gpiote_event_check hal e h = pending (r h) e"
    and "r (nrf_gpiote_event_enable hal c h) = (r h)\<lparr>ch_mode := (ch_mode (r h))(c := True)\<rparr>"
    and "r (nrf_gpiote_event_disable hal c h) = (r h)\<lparr>ch_mode := (ch_mode (r h))(c := False)\<rparr>"
    and "nrf_gpiote_event_pin_get hal c h = ch_pin (r h) c"
    and "r (nrf_gpiote_int_enable hal m h) = (r h)\<lparr>inten := inten (r h) OR m\<rparr>"
    and "r (nrf_gpiote_int_disable hal m h) = (r h)\<lparr>inten := inten (r h) AND NOT m\<rparr>"
    and "nrf_gpiote_int_enable_check hal m h = inten (r h) AND m"
  using assms by (simp_all add: hal_ok_def)

subsection \<open>State of the driver\<close>

record gpio_callback =
  handler :: nat
  pin_mask :: u32

record gpio_nrfx_data =
  invert :: u32
  callbacks :: "nat list"
  pin_int_en :: u32
  int_active_level :: u32
  trig_edge :: u32
  double_edge :: u32

record 'h gpio =
  hw :: 'h
  gpiote_alloc_mask :: u32
  port_data :: "nat \<Rightarrow> gpio_nrfx_data"
  callback_at :: "nat \<Rightarrow> gpio_callback"
  gpio_initialized :: bool

abbreviation upd_hw :: "('h \<Rightarrow> 'h) \<Rightarrow> ('h, 'm) gpio_scheme \<Rightarrow> ('h, 'm) gpio_scheme" where
  "upd_hw f s \<equiv> s\<lparr>hw := f (hw s)\<rparr>"

definition upd_data ::
    "nat \<Rightarrow> (gpio_nrfx_data \<Rightarrow> gpio_nrfx_data) \<Rightarrow> ('h, 'm) gpio_scheme \<Rightarrow> ('h, 'm) gpio_scheme" where
  "upd_data p f s = s\<lparr>port_data := (port_data s)(p := f (port_data s p))\<rparr>"

subsection \<open>Channels and pins\<close>

fun channel_alloc_loop ::
    "'h hal \<Rightarrow> nat list \<Rightarrow> nat \<Rightarrow> nrf_gpiote_polarity \<Rightarrow> ('h, 'm) gpio_scheme \<Rightarrow>
     int \<times> ('h, 'm) gpio_scheme" where
  "channel_alloc_loop hal [] abs_pin pol s = (- ENODEV, s)"
| "channel_alloc_loop hal (c # cs) abs_pin pol s =
     (let prev = gpiote_alloc_mask s;
          s1 = s\<lparr>gpiote_alloc_mask := prev OR BIT c\<rparr>
      in if prev AND BIT c = 0
         then (0, upd_hw (nrf_gpiote_int_enable hal (BIT c) \<circ> nrf_gpiote_event_enable hal c \<circ>
                 nrf_gpiote_event_clear hal (EVENTS_IN c) \<circ> nrf_gpiote_event_configure hal c abs_pin pol) s1)
         else channel_alloc_loop hal cs abs_pin pol s1)"

definition gpiote_channel_alloc ::
    "'h hal \<Rightarrow> nat \<Rightarrow> nrf_gpiote_polarity \<Rightarrow> ('h, 'm) gpio_scheme \<Rightarrow> int \<times> ('h, 'm) gpio_scheme" where
  "gpiote_channel_alloc hal abs_pin pol s = channel_alloc_loop hal [0..<GPIOTE_CH_NUM hal] abs_pin pol s"

fun pin_cleanup_loop ::
    "'h hal \<Rightarrow> nat list \<Rightarrow> nat \<Rightarrow> u32 \<Rightarrow> ('h, 'm) gpio_scheme \<Rightarrow> ('h, 'm) gpio_scheme" where
  "pin_cleanup_loop hal [] abs_pin intenset s = s"
| "pin_cleanup_loop hal (i # is) abs_pin intenset s =
     (if nrf_gpiote_event_pin_get hal i (hw s) = abs_pin \<and> intenset AND BIT i \<noteq> 0
      then upd_hw (nrf_gpiote_int_disable hal (BIT i) \<circ> nrf_gpiote_event_disable hal i)
             (s\<lparr>gpiote_alloc_mask := gpiote_alloc_mask s AND NOT (BIT i)\<rparr>)
      else pin_cleanup_loop hal is abs_pin intenset s)"

definition gpiote_pin_cleanup :: "'h hal \<Rightarrow> nat \<Rightarrow> ('h, 'm) gpio_scheme \<Rightarrow> ('h, 'm) gpio_scheme" where
  "gpiote_pin_cleanup hal abs_pin s =
     (let intenset = nrf_gpiote_int_enable_check hal (NRF_GPIOTE_INT_IN_MASK hal) (hw s)
      in pin_cleanup_loop hal [0..<GPIOTE_CH_NUM hal] abs_pin intenset s)"

definition sense_for_pin :: "gpio_nrfx_data \<Rightarrow> nat \<Rightarrow> nrf_gpio_pin_sense" where
  "sense_for_pin data pin =
     (if BIT pin AND int_active_level data \<noteq> 0 then NRF_GPIO_PIN_SENSE_HIGH else NRF_GPIO_PIN_SENSE_LOW)"

definition gpiote_pin_int_cfg ::
    "'h hal \<Rightarrow> nat \<Rightarrow> nat \<Rightarrow> ('h, 'm) gpio_scheme \<Rightarrow> int \<times> ('h, 'm) gpio_scheme" where
  "gpiote_pin_int_cfg hal port pin s =
     (let data = port_data s port;
          abs_pin = NRF_GPIO_PIN_MAP hal port pin;
          s1 = upd_hw (nrf_gpio_cfg_sense_set hal abs_pin NRF_GPIO_PIN_NOSENSE) (gpiote_pin_cleanup hal abs_pin s)
      in if pin_int_en data AND BIT pin \<noteq> 0
         then if trig_edge data AND BIT pin \<noteq> 0
              then gpiote_channel_alloc hal abs_pin
                     (if double_edge data AND BIT pin \<noteq> 0 then NRF_GPIOTE_POLARITY_TOGGLE
                      else if int_active_level data AND BIT pin \<noteq> 0 then NRF_GPIOTE_POLARITY_LOTOHI
                      else NRF_GPIOTE_POLARITY_HITOLO) s1
              else (0, upd_hw (nrf_gpio_cfg_sense_set hal abs_pin (sense_for_pin data pin)) s1)
         else (0, s1))"

subsection \<open>Driver operations\<close>

definition drive_of_flags :: "u32 \<Rightarrow> nrf_gpio_pin_drive option" where
  "drive_of_flags flags =
     (let d = flags AND (GPIO_DS_LOW_MASK OR GPIO_DS_HIGH_MASK OR GPIO_OPEN_DRAIN)
      in if d = 0 then Some NRF_GPIO_PIN_S0S1
         else if d = GPIO_DS_ALT_HIGH then Some NRF_GPIO_PIN_S0H1
         else if d = GPIO_OPEN_DRAIN then Some NRF_GPIO_PIN_S0D1
         else if d = GPIO_DS_ALT_LOW then Some NRF_GPIO_PIN_H0S1
         else if d = GPIO_DS_ALT_LOW OR GPIO_DS_ALT_HIGH then Some NRF_GPIO_PIN_H0H1
         else if d = GPIO_DS_ALT_LOW OR GPIO_OPEN_DRAIN then Some NRF_GPIO_PIN_H0D1
         else if d = GPIO_OPEN_SOURCE then Some NRF_GPIO_PIN_D0S1
         else if d = GPIO_DS_ALT_HIGH OR GPIO_OPEN_SOURCE then Some NRF_GPIO_PIN_D0H1
         else None)"

definition gpio_nrfx_config ::
    "'h hal \<Rightarrow> nat \<Rightarrow> nat \<Rightarrow> u32 \<Rightarrow> ('h, 'm) gpio_scheme \<Rightarrow> int \<times> ('h, 'm) gpio_scheme" where
  "gpio_nrfx_config hal port pin flags s =
     (case drive_of_flags flags of
        None \<Rightarrow> (- EINVAL, s)
      | Some drive \<Rightarrow>
          let pull = (if flags AND GPIO_PULL_UP \<noteq> 0 then NRF_GPIO_PIN_PULLUP
                      else if flags AND GPIO_PULL_DOWN \<noteq> 0 then NRF_GPIO_PIN_PULLDOWN
                      else NRF_GPIO_PIN_NOPULL);
              dir = (if flags AND GPIO_OUTPUT \<noteq> 0 then NRF_GPIO_PIN_DIR_OUTPUT else NRF_GPIO_PIN_DIR_INPUT);
              input = (if flags AND GPIO_INPUT \<noteq> 0 then NRF_GPIO_PIN_INPUT_CONNECT
                       else NRF_GPIO_PIN_INPUT_DISCONNECT);
              s1 = (if flags AND GPIO_OUTPUT \<noteq> 0
                    then if flags AND GPIO_OUTPUT_INIT_HIGH \<noteq> 0
                         then upd_hw (nrf_gpio_port_out_set hal port (BIT pin)) s
                         else if flags AND GPIO_OUTPUT_INIT_LOW \<noteq> 0
                         then upd_hw (nrf_gpio_port_out_clear hal port (BIT pin)) s
                         else s
                    else s)
          in (0, upd_hw (nrf_gpio_cfg hal (NRF_GPIO_PIN_MAP hal port pin) dir input pull drive
                   NRF_GPIO_PIN_NOSENSE) s1))"

definition gpio_nrfx_port_get_raw :: "'h hal \<Rightarrow> nat \<Rightarrow> ('h, 'm) gpio_scheme \<Rightarrow> int \<times> u32" where
  "gpio_nrfx_port_get_raw hal port s = (0, nrf_gpio_port_in_read hal port (hw s))"

definition gpio_nrfx_port_set_masked_raw ::
    "'h hal \<Rightarrow> nat \<Rightarrow> u32 \<Rightarrow> u32 \<Rightarrow> ('h, 'm) gpio_scheme \<Rightarrow> int \<times> ('h, 'm) gpio_scheme" where
  "gpio_nrfx_port_set_masked_raw hal port msk v s =
     (let value_tmp = nrf_gpio_port_out_read hal port (hw s) AND NOT msk
      in (0, upd_hw (nrf_gpio_port_out_write hal port (value_tmp OR (msk AND v))) s))"

definition gpio_nrfx_port_set_bits_raw ::
    "'h hal \<Rightarrow> nat \<Rightarrow> u32 \<Rightarrow> ('h, 'm) gpio_scheme \<Rightarrow> int \<times> ('h, 'm) gpio_scheme" where
  "gpio_nrfx_port_set_bits_raw hal port msk s = (0, upd_hw (nrf_gpio_port_out_set hal port msk) s)"

definition gpio_nrfx_port_clear_bits_raw ::
    "'h hal \<Rightarrow> nat \<Rightarrow> u32 \<Rightarrow> ('h, 'm) gpio_scheme \<Rightarrow> int \<times> ('h, 'm) gpio_scheme" where
  "gpio_nrfx_port_clear_bits_raw hal port msk s = (0, upd_hw (nrf_gpio_port_out_clear hal port msk) s)"

definition gpio_nrfx_port_toggle_bits ::
    "'h hal \<Rightarrow> nat \<Rightarrow> u32 \<Rightarrow> ('h, 'm) gpio_scheme \<Rightarrow> int \<times> ('h, 'm) gpio_scheme" where
  "gpio_nrfx_port_toggle_bits hal port msk s =
     (0, upd_hw (nrf_gpio_port_out_write hal port (nrf_gpio_port_out_read hal port (hw s) XOR msk)) s)"

definition gpio_nrfx_pin_interrupt_configure ::
    "'h hal \<Rightarrow> nat \<Rightarrow> nat \<Rightarrow> u32 \<Rightarrow> u32 \<Rightarrow> ('h, 'm) gpio_scheme \<Rightarrow> int \<times> ('h, 'm) gpio_scheme" where
  "gpio_nrfx_pin_interrupt_configure hal port pin mode trig s =
     (let abs_pin = NRF_GPIO_PIN_MAP hal port pin
      in if mode = GPIO_INT_MODE_EDGE \<and> nrf_gpio_pin_dir_get hal abs_pin (hw s) = NRF_GPIO_PIN_DIR_OUTPUT
         then (- ENOTSUP, s)
         else gpiote_pin_int_cfg hal port pin
                (upd_data port (\<lambda>d. d\<lparr>pin_int_en := WRITE_BIT (pin_int_en d) pin (mode \<noteq> GPIO_INT_MODE_DISABLED),
                     trig_edge := WRITE_BIT (trig_edge d) pin (mode = GPIO_INT_MODE_EDGE),
                     double_edge := WRITE_BIT (double_edge d) pin (trig = GPIO_INT_TRIG_BOTH),
                     int_active_level := WRITE_BIT (int_active_level d) pin (trig = GPIO_INT_TRIG_HIGH)\<rparr>) s))"

subsection \<open>Callbacks\<close>

text \<open>
  \<open>gpio_manage_callback\<close> on the list of the addresses of the callbacks. \<open>call\<close> runs the handler of a
  callback; handlers do not change the list they are called from.
\<close>

definition gpio_manage_callback :: "nat list \<Rightarrow> nat \<Rightarrow> bool \<Rightarrow> int \<times> nat list" where
  "gpio_manage_callback cbs cb set_it =
     (if cbs \<noteq> [] \<and> cb \<notin> set cbs \<and> \<not> set_it then (- EINVAL, cbs)
      else (0, if set_it then cb # remove1 cb cbs else remove1 cb cbs))"

definition gpio_nrfx_manage_callback ::
    "nat \<Rightarrow> nat \<Rightarrow> bool \<Rightarrow> ('h, 'm) gpio_scheme \<Rightarrow> int \<times> ('h, 'm) gpio_scheme" where
  "gpio_nrfx_manage_callback port cb set_it s =
     (case gpio_manage_callback (callbacks (port_data s port)) cb set_it of (ret, cbs) \<Rightarrow>
        (ret, upd_data port (\<lambda>d. d\<lparr>callbacks := cbs\<rparr>) s))"

fun gpio_fire_callbacks ::
    "(nat \<Rightarrow> nat \<Rightarrow> nat \<Rightarrow> u32 \<Rightarrow> ('h, 'm) gpio_scheme \<Rightarrow> ('h, 'm) gpio_scheme) \<Rightarrow>
     nat list \<Rightarrow> nat \<Rightarrow> u32 \<Rightarrow> ('h, 'm) gpio_scheme \<Rightarrow> ('h, 'm) gpio_scheme" where
  "gpio_fire_callbacks call [] port pins s = s"
| "gpio_fire_callbacks call (cb # cbs) port pins s =
     (let c = callback_at s cb
      in gpio_fire_callbacks call cbs port pins
           (if pin_mask c AND pins \<noteq> 0 then call (handler c) port cb (pin_mask c AND pins) s else s))"

definition fire_callbacks ::
    "(nat \<Rightarrow> nat \<Rightarrow> nat \<Rightarrow> u32 \<Rightarrow> ('h, 'm) gpio_scheme \<Rightarrow> ('h, 'm) gpio_scheme) \<Rightarrow>
     nat \<Rightarrow> u32 \<Rightarrow> ('h, 'm) gpio_scheme \<Rightarrow> ('h, 'm) gpio_scheme" where
  "fire_callbacks call port pins s = gpio_fire_callbacks call (callbacks (port_data s port)) port pins s"

subsection \<open>Interrupt handler\<close>

definition get_level_pins :: "nat \<Rightarrow> ('h, 'm) gpio_scheme \<Rightarrow> u32" where
  "get_level_pins port s =
     (let data = port_data s port
      in pin_int_en data AND (NOT (trig_edge data) AND NOT (double_edge data)))"

text \<open>The loops over the pins of a mask: \<open>level_pins\<close> has 32 bits, so 32 turns are enough.\<close>

fun sense_loop ::
    "'h hal \<Rightarrow> nat \<Rightarrow> (nat \<Rightarrow> nrf_gpio_pin_sense) \<Rightarrow> nat list \<Rightarrow> u32 \<Rightarrow> ('h, 'm) gpio_scheme \<Rightarrow>
     ('h, 'm) gpio_scheme" where
  "sense_loop hal port f [] level_pins s = s"
| "sense_loop hal port f (pin # pins) level_pins s =
     (if level_pins = 0 then s
      else if level_pins AND BIT pin \<noteq> 0
      then sense_loop hal port f pins (level_pins AND NOT (BIT pin))
             (upd_hw (nrf_gpio_cfg_sense_set hal (NRF_GPIO_PIN_MAP hal port pin) (f pin)) s)
      else sense_loop hal port f pins level_pins s)"

definition cfg_level_pins :: "'h hal \<Rightarrow> nat \<Rightarrow> ('h, 'm) gpio_scheme \<Rightarrow> ('h, 'm) gpio_scheme" where
  "cfg_level_pins hal port s =
     sense_loop hal port (sense_for_pin (port_data s port)) [0..<32] (get_level_pins port s) s"

definition check_level_trigger_pins ::
    "'h hal \<Rightarrow> nat \<Rightarrow> ('h, 'm) gpio_scheme \<Rightarrow> u32 \<times> ('h, 'm) gpio_scheme" where
  "check_level_trigger_pins hal port s =
     (let level_pins = get_level_pins port s;
          port_in = nrf_gpio_port_in_read hal port (hw s);
          pin_states = NOT (port_in XOR int_active_level (port_data s port))
      in (pin_states AND level_pins,
          sense_loop hal port (\<lambda>_. NRF_GPIO_PIN_NOSENSE) [0..<32] level_pins s))"

fun channel_event_loop ::
    "'h hal \<Rightarrow> nat list \<Rightarrow> (nat \<Rightarrow> u32) \<Rightarrow> ('h, 'm) gpio_scheme \<Rightarrow> (nat \<Rightarrow> u32) \<times> ('h, 'm) gpio_scheme" where
  "channel_event_loop hal [] fired s = (fired, s)"
| "channel_event_loop hal (i # is) fired s =
     (if nrf_gpiote_int_enable_check hal (BIT i) (hw s) \<noteq> 0 \<and> nrf_gpiote_event_check hal (EVENTS_IN i) (hw s)
      then let abs_pin = nrf_gpiote_event_pin_get hal i (hw s)
           in channel_event_loop hal is
                (fired(abs_pin div 32 := fired (abs_pin div 32) OR BIT (abs_pin mod 32)))
                (upd_hw (nrf_gpiote_event_clear hal (EVENTS_IN i)) s)
      else channel_event_loop hal is fired s)"

definition gpiote_event_handler ::
    "'h hal \<Rightarrow> (nat \<Rightarrow> nat \<Rightarrow> nat \<Rightarrow> u32 \<Rightarrow> ('h, 'm) gpio_scheme \<Rightarrow> ('h, 'm) gpio_scheme) \<Rightarrow>
     ('h, 'm) gpio_scheme \<Rightarrow> ('h, 'm) gpio_scheme" where
  "gpiote_event_handler hal call s =
     (let port_event = nrf_gpiote_event_check hal NRF_GPIOTE_EVENT_PORT (hw s);
          (fired, s1) =
            (if port_event
             then let (f0, sa) = check_level_trigger_pins hal 0 s;
                      (f1, sb) = check_level_trigger_pins hal 1 sa
                  in ((\<lambda>_. 0)(0 := f0, 1 := f1), upd_hw (nrf_gpiote_event_clear hal NRF_GPIOTE_EVENT_PORT) sb)
             else (\<lambda>_. 0, s));
          (fired', s2) = channel_event_loop hal [0..<GPIOTE_CH_NUM hal] fired s1;
          s3 = (if fired' 0 \<noteq> 0 then fire_callbacks call 0 (fired' 0) s2 else s2);
          s4 = (if fired' 1 \<noteq> 0 then fire_callbacks call 1 (fired' 1) s3 else s3)
      in if port_event then cfg_level_pins hal 1 (cfg_level_pins hal 0 s4) else s4)"

definition gpio_nrfx_init :: "'h hal \<Rightarrow> ('h, 'm) gpio_scheme \<Rightarrow> int \<times> ('h, 'm) gpio_scheme" where
  "gpio_nrfx_init hal s =
     (0, if gpio_initialized s then s
         else upd_hw (nrf_gpiote_int_enable hal (NRF_GPIOTE_INT_PORT_MASK hal)) (s\<lparr>gpio_initialized := True\<rparr>))"

end
