(* ===== verification/Gpio.thy ===== *)
theory Gpio
  imports Gpio_Nrfx
begin

text \<open>
  The GPIO interface \<open>include/drivers/gpio.h\<close> on the driver \<open>gpio_nrfx.c\<close>: configuration of pins and
  of their interrupts, and reads and writes in physical (\<open>raw\<close>) and logical levels, where a pin that
  is active low is inverted. Assertions are compiled out in this configuration. The lemmas show what
  the operations do to the registers: a write changes the output latch of the pins it names and of
  no other, and the channels of the GPIOTE peripheral implement a map from pins to the edge that
  each of them reports.
\<close>

subsection \<open>Operations\<close>

definition z_impl_gpio_config ::
    "'h hal \<Rightarrow> nat \<Rightarrow> nat \<Rightarrow> u32 \<Rightarrow> ('h, 'm) gpio_scheme \<Rightarrow> int \<times> ('h, 'm) gpio_scheme" where
  "z_impl_gpio_config hal port pin flags s = gpio_nrfx_config hal port pin flags s"

definition z_impl_gpio_pin_interrupt_configure ::
    "'h hal \<Rightarrow> nat \<Rightarrow> nat \<Rightarrow> u32 \<Rightarrow> ('h, 'm) gpio_scheme \<Rightarrow> int \<times> ('h, 'm) gpio_scheme" where
  "z_impl_gpio_pin_interrupt_configure hal port pin flags s =
     (let flags' = (if flags AND GPIO_INT_LEVELS_LOGICAL \<noteq> 0 \<and> invert (port_data s port) AND BIT pin \<noteq> 0
                    then flags XOR (GPIO_INT_LOW_0 OR GPIO_INT_HIGH_1) else flags);
          trig = flags' AND (GPIO_INT_LOW_0 OR GPIO_INT_HIGH_1);
          mode = flags' AND (GPIO_INT_EDGE OR GPIO_INT_DISABLE OR GPIO_INT_ENABLE)
      in gpio_nrfx_pin_interrupt_configure hal port pin mode trig s)"

definition gpio_pin_configure ::
    "'h hal \<Rightarrow> nat \<Rightarrow> nat \<Rightarrow> u32 \<Rightarrow> ('h, 'm) gpio_scheme \<Rightarrow> int \<times> ('h, 'm) gpio_scheme" where
  "gpio_pin_configure hal port pin flags s =
     (let flags' = (if flags AND GPIO_OUTPUT_INIT_LOGICAL \<noteq> 0 \<and>
                       flags AND (GPIO_OUTPUT_INIT_LOW OR GPIO_OUTPUT_INIT_HIGH) \<noteq> 0 \<and>
                       flags AND GPIO_ACTIVE_LOW \<noteq> 0
                    then flags XOR (GPIO_OUTPUT_INIT_LOW OR GPIO_OUTPUT_INIT_HIGH OR GPIO_OUTPUT_INIT_LOGICAL)
                    else flags)
      in case z_impl_gpio_config hal port pin flags' s of (ret, s1) \<Rightarrow>
           if ret \<noteq> 0 then (ret, s1)
           else let s2 = upd_data port (\<lambda>d. d\<lparr>invert :=
                            if flags' AND GPIO_ACTIVE_LOW \<noteq> 0 then invert d OR BIT pin
                            else invert d AND NOT (BIT pin)\<rparr>) s1
                in if flags' AND (GPIO_INT_DISABLE OR GPIO_INT_ENABLE) \<noteq> 0
                   then z_impl_gpio_pin_interrupt_configure hal port pin (flags' AND NOT GPIO_INT_DEBOUNCE) s2
                   else (ret, s2))"

definition z_impl_gpio_port_get_raw :: "'h hal \<Rightarrow> nat \<Rightarrow> ('h, 'm) gpio_scheme \<Rightarrow> int \<times> u32" where
  "z_impl_gpio_port_get_raw hal port s = gpio_nrfx_port_get_raw hal port s"

definition gpio_port_get :: "'h hal \<Rightarrow> nat \<Rightarrow> ('h, 'm) gpio_scheme \<Rightarrow> int \<times> u32" where
  "gpio_port_get hal port s =
     (case z_impl_gpio_port_get_raw hal port s of (ret, v) \<Rightarrow>
        (ret, if ret = 0 then v XOR invert (port_data s port) else v))"

definition z_impl_gpio_port_set_masked_raw ::
    "'h hal \<Rightarrow> nat \<Rightarrow> u32 \<Rightarrow> u32 \<Rightarrow> ('h, 'm) gpio_scheme \<Rightarrow> int \<times> ('h, 'm) gpio_scheme" where
  "z_impl_gpio_port_set_masked_raw hal port msk v s = gpio_nrfx_port_set_masked_raw hal port msk v s"

definition gpio_port_set_masked ::
    "'h hal \<Rightarrow> nat \<Rightarrow> u32 \<Rightarrow> u32 \<Rightarrow> ('h, 'm) gpio_scheme \<Rightarrow> int \<times> ('h, 'm) gpio_scheme" where
  "gpio_port_set_masked hal port msk v s =
     z_impl_gpio_port_set_masked_raw hal port msk (v XOR invert (port_data s port)) s"

definition z_impl_gpio_port_set_bits_raw ::
    "'h hal \<Rightarrow> nat \<Rightarrow> u32 \<Rightarrow> ('h, 'm) gpio_scheme \<Rightarrow> int \<times> ('h, 'm) gpio_scheme" where
  "z_impl_gpio_port_set_bits_raw hal port pins s = gpio_nrfx_port_set_bits_raw hal port pins s"

definition gpio_port_set_bits ::
    "'h hal \<Rightarrow> nat \<Rightarrow> u32 \<Rightarrow> ('h, 'm) gpio_scheme \<Rightarrow> int \<times> ('h, 'm) gpio_scheme" where
  "gpio_port_set_bits hal port pins s = gpio_port_set_masked hal port pins pins s"

definition z_impl_gpio_port_clear_bits_raw ::
    "'h hal \<Rightarrow> nat \<Rightarrow> u32 \<Rightarrow> ('h, 'm) gpio_scheme \<Rightarrow> int \<times> ('h, 'm) gpio_scheme" where
  "z_impl_gpio_port_clear_bits_raw hal port pins s = gpio_nrfx_port_clear_bits_raw hal port pins s"

definition gpio_port_clear_bits ::
    "'h hal \<Rightarrow> nat \<Rightarrow> u32 \<Rightarrow> ('h, 'm) gpio_scheme \<Rightarrow> int \<times> ('h, 'm) gpio_scheme" where
  "gpio_port_clear_bits hal port pins s = gpio_port_set_masked hal port pins 0 s"

definition z_impl_gpio_port_toggle_bits ::
    "'h hal \<Rightarrow> nat \<Rightarrow> u32 \<Rightarrow> ('h, 'm) gpio_scheme \<Rightarrow> int \<times> ('h, 'm) gpio_scheme" where
  "z_impl_gpio_port_toggle_bits hal port pins s = gpio_nrfx_port_toggle_bits hal port pins s"

definition gpio_port_set_clr_bits_raw ::
    "'h hal \<Rightarrow> nat \<Rightarrow> u32 \<Rightarrow> u32 \<Rightarrow> ('h, 'm) gpio_scheme \<Rightarrow> int \<times> ('h, 'm) gpio_scheme" where
  "gpio_port_set_clr_bits_raw hal port set_pins clear_pins s =
     z_impl_gpio_port_set_masked_raw hal port (set_pins OR clear_pins) set_pins s"

definition gpio_port_set_clr_bits ::
    "'h hal \<Rightarrow> nat \<Rightarrow> u32 \<Rightarrow> u32 \<Rightarrow> ('h, 'm) gpio_scheme \<Rightarrow> int \<times> ('h, 'm) gpio_scheme" where
  "gpio_port_set_clr_bits hal port set_pins clear_pins s =
     gpio_port_set_masked hal port (set_pins OR clear_pins) set_pins s"

definition gpio_pin_get_raw :: "'h hal \<Rightarrow> nat \<Rightarrow> nat \<Rightarrow> ('h, 'm) gpio_scheme \<Rightarrow> int" where
  "gpio_pin_get_raw hal port pin s =
     (case z_impl_gpio_port_get_raw hal port s of (ret, v) \<Rightarrow>
        if ret = 0 then (if v AND BIT pin \<noteq> 0 then 1 else 0) else ret)"

definition gpio_pin_get :: "'h hal \<Rightarrow> nat \<Rightarrow> nat \<Rightarrow> ('h, 'm) gpio_scheme \<Rightarrow> int" where
  "gpio_pin_get hal port pin s =
     (case gpio_port_get hal port s of (ret, v) \<Rightarrow>
        if ret = 0 then (if v AND BIT pin \<noteq> 0 then 1 else 0) else ret)"

definition gpio_pin_set_raw ::
    "'h hal \<Rightarrow> nat \<Rightarrow> nat \<Rightarrow> int \<Rightarrow> ('h, 'm) gpio_scheme \<Rightarrow> int \<times> ('h, 'm) gpio_scheme" where
  "gpio_pin_set_raw hal port pin v s =
     (if v \<noteq> 0 then z_impl_gpio_port_set_bits_raw hal port (BIT pin) s
      else z_impl_gpio_port_clear_bits_raw hal port (BIT pin) s)"

definition gpio_pin_set ::
    "'h hal \<Rightarrow> nat \<Rightarrow> nat \<Rightarrow> int \<Rightarrow> ('h, 'm) gpio_scheme \<Rightarrow> int \<times> ('h, 'm) gpio_scheme" where
  "gpio_pin_set hal port pin v s =
     gpio_pin_set_raw hal port pin
       (if invert (port_data s port) AND BIT pin \<noteq> 0 then (if v \<noteq> 0 then 0 else 1) else v) s"

definition gpio_pin_toggle ::
    "'h hal \<Rightarrow> nat \<Rightarrow> nat \<Rightarrow> ('h, 'm) gpio_scheme \<Rightarrow> int \<times> ('h, 'm) gpio_scheme" where
  "gpio_pin_toggle hal port pin s = z_impl_gpio_port_toggle_bits hal port (BIT pin) s"

definition gpio_init_callback :: "nat \<Rightarrow> nat \<Rightarrow> u32 \<Rightarrow> ('h, 'm) gpio_scheme \<Rightarrow> ('h, 'm) gpio_scheme" where
  "gpio_init_callback cb hnd pins s =
     s\<lparr>callback_at := (callback_at s)(cb := \<lparr>handler = hnd, pin_mask = pins\<rparr>)\<rparr>"

definition gpio_add_callback :: "nat \<Rightarrow> nat \<Rightarrow> ('h, 'm) gpio_scheme \<Rightarrow> int \<times> ('h, 'm) gpio_scheme" where
  "gpio_add_callback port cb s = gpio_nrfx_manage_callback port cb True s"

definition gpio_remove_callback :: "nat \<Rightarrow> nat \<Rightarrow> ('h, 'm) gpio_scheme \<Rightarrow> int \<times> ('h, 'm) gpio_scheme" where
  "gpio_remove_callback port cb s = gpio_nrfx_manage_callback port cb False s"

text \<open>The driver has no \<open>get_pending_int\<close>.\<close>

definition z_impl_gpio_get_pending_int :: "nat \<Rightarrow> int" where
  "z_impl_gpio_get_pending_int dev = - ENOTSUP"

subsection \<open>Writing pins\<close>

text \<open>The logical level of an output pin: its latch, inverted when the pin is active low.\<close>

definition out_level :: "('h \<Rightarrow> nrf_regs) \<Rightarrow> ('h, 'm) gpio_scheme \<Rightarrow> nat \<Rightarrow> nat \<Rightarrow> bool" where
  "out_level r s port pin \<longleftrightarrow> bit (out_reg (r (hw s)) port) pin \<noteq> bit (invert (port_data s port)) pin"

text \<open>What every write keeps: all state but the latch of the pins it names.\<close>

definition writes_only ::
    "('h \<Rightarrow> nrf_regs) \<Rightarrow> nat \<Rightarrow> u32 \<Rightarrow> ('h, 'm) gpio_scheme \<Rightarrow> ('h, 'm) gpio_scheme \<Rightarrow> bool" where
  "writes_only r port pins s s' \<longleftrightarrow>
     s' = s\<lparr>hw := hw s'\<rparr> \<and> r (hw s') = (r (hw s))\<lparr>out_reg := out_reg (r (hw s'))\<rparr> \<and>
     (\<forall>p n. p \<noteq> port \<or> \<not> bit pins n \<longrightarrow> bit (out_reg (r (hw s')) p) n = bit (out_reg (r (hw s)) p) n)"

lemma set_masked_raw:
  assumes "hal_ok hal r" and "z_impl_gpio_port_set_masked_raw hal port msk v s = (ret, s')"
  shows "ret = 0" and "writes_only r port msk s s'"
    and "bit msk n \<Longrightarrow> bit (out_reg (r (hw s')) port) n = bit v n"
proof -
  have s': "s' = upd_hw (nrf_gpio_port_out_write hal port
      (out_reg (r (hw s)) port AND NOT msk OR (msk AND v))) s" and "ret = 0"
    using assms(2)
    by (auto simp: z_impl_gpio_port_set_masked_raw_def gpio_nrfx_port_set_masked_raw_def
        hal_laws(5) [OF assms(1)] Let_def)
  then show "ret = 0" by simp
  show "writes_only r port msk s s'"
    by (auto simp: s' writes_only_def hal_laws(6) [OF assms(1)] bit_simps dest: bit_imp_le_length)
  show "bit (out_reg (r (hw s')) port) n = bit v n" if "bit msk n"
    using that by (auto simp: s' hal_laws(6) [OF assms(1)] bit_simps)
qed

lemma pin_set_raw:
  assumes "hal_ok hal r" and "pin < 32" and "gpio_pin_set_raw hal port pin v s = (ret, s')"
  shows "ret = 0" and "writes_only r port (BIT pin) s s'"
    and "bit (out_reg (r (hw s')) port) pin \<longleftrightarrow> v \<noteq> 0"
proof -
  have s': "s' = upd_hw (if v \<noteq> 0 then nrf_gpio_port_out_set hal port (BIT pin)
      else nrf_gpio_port_out_clear hal port (BIT pin)) s" and "ret = 0"
    using assms(3)
    by (auto simp: gpio_pin_set_raw_def z_impl_gpio_port_set_bits_raw_def gpio_nrfx_port_set_bits_raw_def
        z_impl_gpio_port_clear_bits_raw_def gpio_nrfx_port_clear_bits_raw_def split: if_splits)
  then show "ret = 0" by simp
  show "writes_only r port (BIT pin) s s'" and "bit (out_reg (r (hw s')) port) pin \<longleftrightarrow> v \<noteq> 0"
    using assms(2) by (auto simp: s' writes_only_def hal_laws(7,8) [OF assms(1)])
qed

text \<open>
  A write in logical levels gives each named pin the level asked for, whatever its polarity, by
  any of the operations that set pins one by one, by mask, or set some and clear others; the other
  pins, the other port, and all the rest of the state stay as they are.
\<close>

lemma gpio_write_logical:
  assumes "hal_ok hal r" and "pin < 32"
  shows "(gpio_pin_set hal port pin v s = (ret, s') \<longrightarrow>
            ret = 0 \<and> writes_only r port (BIT pin) s s' \<and> out_level r s' port pin = (v \<noteq> 0)) \<and>
     (gpio_port_set_masked hal port msk vs s = (ret, s') \<longrightarrow>
            ret = 0 \<and> writes_only r port msk s s' \<and> (bit msk n \<longrightarrow> out_level r s' port n = bit vs n)) \<and>
     (gpio_port_set_clr_bits hal port on off s = (ret, s') \<and> on AND off = 0 \<longrightarrow>
            ret = 0 \<and> writes_only r port (on OR off) s s' \<and> (bit on n \<longrightarrow> out_level r s' port n) \<and>
            (bit off n \<longrightarrow> \<not> out_level r s' port n))"
proof -
  have data: "port_data s' = port_data s" if "writes_only r p m s s'" for p m
    using that by (auto simp: writes_only_def) (metis gpio.select_convs(3) gpio.surjective gpio.update_convs(1))
  have set1: "ret = 0 \<and> writes_only r port (BIT pin) s s' \<and> out_level r s' port pin = (v \<noteq> 0)"
    if "gpio_pin_set hal port pin v s = (ret, s')"
    using pin_set_raw [OF assms that [unfolded gpio_pin_set_def]] data
    by (auto simp: out_level_def and_BIT_eq_0 split: if_splits)
  have masked: "ret = 0 \<and> writes_only r port m s s' \<and> (bit m n \<longrightarrow> out_level r s' port n = bit x n)"
    if "gpio_port_set_masked hal port m x s = (ret, s')" for m x
    using set_masked_raw [OF assms(1) that [unfolded gpio_port_set_masked_def]] data
    by (auto simp: out_level_def bit_simps)
  have "\<not> (bit on n \<and> bit off n)" if "on AND off = 0"
    using that by (metis bit_and_iff bit_0_eq bot_apply bot_bool_def)
  then show ?thesis
    using set1 masked [of msk vs] masked [of "on OR off" on] by (auto simp: gpio_port_set_clr_bits_def bit_simps)
qed

subsection \<open>A concrete layer\<close>

text \<open>A register file that satisfies the laws, with the input registers beside it.\<close>

type_synonym chip = "nrf_regs \<times> (nat \<Rightarrow> u32)"

definition chip_hal :: "chip hal" where
  "chip_hal = \<lparr>
     NRF_GPIO_PIN_MAP = (\<lambda>port pin. 32 * port + pin mod 32),
     GPIOTE_CH_NUM = 8,
     NRF_GPIOTE_INT_IN_MASK = 0xff,
     NRF_GPIOTE_INT_PORT_MASK = 0x80000000,
     nrf_gpio_port_in_read = (\<lambda>p h. snd h p),
     nrf_gpio_port_out_read = (\<lambda>p h. out_reg (fst h) p),
     nrf_gpio_port_out_write = (\<lambda>p v. apfst (\<lambda>r. r\<lparr>out_reg := (out_reg r)(p := v)\<rparr>)),
     nrf_gpio_port_out_set = (\<lambda>p m. apfst (\<lambda>r. r\<lparr>out_reg := (out_reg r)(p := out_reg r p OR m)\<rparr>)),
     nrf_gpio_port_out_clear = (\<lambda>p m. apfst (\<lambda>r. r\<lparr>out_reg := (out_reg r)(p := out_reg r p AND NOT m)\<rparr>)),
     nrf_gpio_cfg = (\<lambda>n d i u v s. apfst (\<lambda>r. r\<lparr>pin_dir := (pin_dir r)(n := d),
        pin_cnf := (pin_cnf r)(n := (i, u, v)), pin_sense := (pin_sense r)(n := s)\<rparr>)),
     nrf_gpio_cfg_sense_set = (\<lambda>n s. apfst (\<lambda>r. r\<lparr>pin_sense := (pin_sense r)(n := s)\<rparr>)),
     nrf_gpio_pin_dir_get = (\<lambda>n h. pin_dir (fst h) n),
     nrf_gpiote_event_configure = (\<lambda>c n p. apfst (\<lambda>r. r\<lparr>ch_pin := (ch_pin r)(c := n),
        ch_polarity := (ch_polarity r)(c := p)\<rparr>)),
     nrf_gpiote_event_clear = (\<lambda>e. apfst (\<lambda>r. r\<lparr>pending := (pending r)(e := False)\<rparr>)),
     nrf_gpiote_event_check = (\<lambda>e h. pending (fst h) e),
     nrf_gpiote_event_enable = (\<lambda>c. apfst (\<lambda>r. r\<lparr>ch_mode := (ch_mode r)(c := True)\<rparr>)),
     nrf_gpiote_event_disable = (\<lambda>c. apfst (\<lambda>r. r\<lparr>ch_mode := (ch_mode r)(c := False)\<rparr>)),
     nrf_gpiote_event_pin_get = (\<lambda>c h. ch_pin (fst h) c),
     nrf_gpiote_int_enable = (\<lambda>m. apfst (\<lambda>r. r\<lparr>inten := inten r OR m\<rparr>)),
     nrf_gpiote_int_disable = (\<lambda>m. apfst (\<lambda>r. r\<lparr>inten := inten r AND NOT m\<rparr>)),
     nrf_gpiote_int_enable_check = (\<lambda>m h. inten (fst h) AND m)\<rparr>"

lemma chip_hal_ok: "hal_ok chip_hal fst"
proof -
  have "bit (0xff :: u32) i \<longleftrightarrow> i < 8" for i
    using bit_mask_iff [where 'a = "32 word", of 8 i] by (auto simp: mask_eq_exp_minus_1)
  moreover have "\<not> bit (0x80000000 :: u32) i" if "i < 8" for i
  proof -
    have "(0x80000000 :: u32) = BIT 31"
      by (simp add: BIT_def push_bit_eq_mult)
    with that show ?thesis by (simp only: bit_BIT) simp
  qed
  ultimately show ?thesis
    by (simp add: hal_ok_def chip_hal_def)
qed

definition reset_regs :: nrf_regs where
  "reset_regs = \<lparr>out_reg = (\<lambda>_. 0), pin_dir = (\<lambda>_. NRF_GPIO_PIN_DIR_INPUT),
     pin_cnf = (\<lambda>_. (NRF_GPIO_PIN_INPUT_DISCONNECT, NRF_GPIO_PIN_NOPULL, NRF_GPIO_PIN_S0S1)),
     pin_sense = (\<lambda>_. NRF_GPIO_PIN_NOSENSE), ch_pin = (\<lambda>_. 0),
     ch_polarity = (\<lambda>_. NRF_GPIOTE_POLARITY_TOGGLE), ch_mode = (\<lambda>_. False), inten = 0,
     pending = (\<lambda>_. False)\<rparr>"

definition reset_gpio :: "(nat \<Rightarrow> u32) \<Rightarrow> chip gpio" where
  "reset_gpio inputs = \<lparr>hw = (reset_regs, inputs), gpiote_alloc_mask = 0,
     port_data = (\<lambda>_. \<lparr>invert = 0, callbacks = [], pin_int_en = 0, int_active_level = 0, trig_edge = 0,
       double_edge = 0\<rparr>),
     callback_at = (\<lambda>_. \<lparr>handler = 0, pin_mask = 0\<rparr>), gpio_initialized = False\<rparr>"

subsection \<open>Channels as a map\<close>

text \<open>
  A channel that is allocated has its interrupt enabled, and no two channels report the same pin.
  \<open>watched\<close> is the edge that is reported for a pin, if any.
\<close>

definition channel_on :: "nrf_regs \<Rightarrow> nat \<Rightarrow> nat \<Rightarrow> bool" where
  "channel_on R n i \<longleftrightarrow> bit (inten R) i \<and> ch_pin R i = n"

definition gpiote_inv :: "'h hal \<Rightarrow> ('h \<Rightarrow> nrf_regs) \<Rightarrow> ('h, 'm) gpio_scheme \<Rightarrow> bool" where
  "gpiote_inv hal r s \<longleftrightarrow>
     (\<forall>i<GPIOTE_CH_NUM hal. bit (gpiote_alloc_mask s) i = bit (inten (r (hw s))) i) \<and>
     (\<forall>i<GPIOTE_CH_NUM hal. \<forall>j<GPIOTE_CH_NUM hal. \<forall>n.
        channel_on (r (hw s)) n i \<longrightarrow> channel_on (r (hw s)) n j \<longrightarrow> i = j)"

definition watched :: "'h hal \<Rightarrow> nrf_regs \<Rightarrow> nat \<Rightarrow> nrf_gpiote_polarity option" where
  "watched hal R n = map_option (ch_polarity R) (List.find (channel_on R n) [0..<GPIOTE_CH_NUM hal])"

lemma channel_alloc_loop_find:
  "(\<forall>c\<in>set cs. c < 32) \<Longrightarrow>
   channel_alloc_loop hal cs n pol s =
     (case List.find (\<lambda>c. \<not> bit (gpiote_alloc_mask s) c) cs of
        None \<Rightarrow> (- ENODEV, s)
      | Some c \<Rightarrow> (0, upd_hw (nrf_gpiote_int_enable hal (BIT c) \<circ> nrf_gpiote_event_enable hal c \<circ>
          nrf_gpiote_event_clear hal (EVENTS_IN c) \<circ> nrf_gpiote_event_configure hal c n pol)
          (s\<lparr>gpiote_alloc_mask := gpiote_alloc_mask s OR BIT c\<rparr>)))"
proof (induction cs)
  case (Cons c cs)
  have "gpiote_alloc_mask s OR BIT c = gpiote_alloc_mask s" if "bit (gpiote_alloc_mask s) c"
    using that by (intro bit_word_eqI) auto
  with Cons show ?case
    by (auto simp: and_BIT_eq_0 Let_def)
qed simp

lemma pin_cleanup_loop_find:
  assumes "hal_ok hal r"
  shows "pin_cleanup_loop hal is n intenset s =
     (case List.find (\<lambda>i. ch_pin (r (hw s)) i = n \<and> bit intenset i) is of
        None \<Rightarrow> s
      | Some i \<Rightarrow> upd_hw (nrf_gpiote_int_disable hal (BIT i) \<circ> nrf_gpiote_event_disable hal i)
          (s\<lparr>gpiote_alloc_mask := gpiote_alloc_mask s AND NOT (BIT i)\<rparr>))"
  by (induction "is") (auto simp: hal_laws [OF assms] and_BIT_eq_0)

lemma watched_iff:
  assumes "gpiote_inv hal r s"
  shows "watched hal (r (hw s)) n = Some p \<longleftrightarrow>
     (\<exists>i<GPIOTE_CH_NUM hal. channel_on (r (hw s)) n i \<and> ch_polarity (r (hw s)) i = p)"
proof -
  let ?R = "r (hw s)" and ?N = "GPIOTE_CH_NUM hal"
  have "watched hal ?R n = Some (ch_polarity ?R i)" if "i < ?N" "channel_on ?R n i" for i
  proof (cases "List.find (channel_on ?R n) [0..<?N]")
    case None
    with that show ?thesis by (auto simp: find_None_iff)
  next
    case (Some j)
    then have "j < ?N" "channel_on ?R n j"
      by (auto simp: find_Some_iff)
    with that assms have "j = i"
      by (auto simp: gpiote_inv_def)
    with Some show ?thesis by (simp add: watched_def)
  qed
  then show ?thesis
    by (auto simp: watched_def find_Some_iff)
qed

lemma watched_eqI:
  assumes "gpiote_inv hal r s" and "gpiote_inv hal r s'"
    and "\<And>i p. i < GPIOTE_CH_NUM hal \<Longrightarrow>
      channel_on (r (hw s)) n i \<and> ch_polarity (r (hw s)) i = p \<longleftrightarrow>
      channel_on (r (hw s')) n i \<and> ch_polarity (r (hw s')) i = p"
  shows "watched hal (r (hw s)) n = watched hal (r (hw s')) n"
proof (rule option.expand)
  have *: "watched hal (r (hw s)) n = Some p \<longleftrightarrow> watched hal (r (hw s')) n = Some p" for p
    unfolding watched_iff [OF assms(1)] watched_iff [OF assms(2)] using assms(3) by auto
  show "(watched hal (r (hw s)) n = None) = (watched hal (r (hw s')) n = None)"
    using * by (metis not_None_eq)
  show "the (watched hal (r (hw s)) n) = the (watched hal (r (hw s')) n)"
    if "watched hal (r (hw s)) n \<noteq> None" "watched hal (r (hw s')) n \<noteq> None"
    using that * by (metis option.collapse option.inject)
qed

text \<open>Cleaning up a pin removes it from the map and touches no other entry.\<close>

lemma pin_cleanup:
  fixes s :: "('h, 'm) gpio_scheme" and n :: nat
  assumes hal: "hal_ok hal r" and inv: "gpiote_inv hal r s"
  defines "s' \<equiv> gpiote_pin_cleanup hal n s"
  shows "gpiote_inv hal r s'"
    and "watched hal (r (hw s')) = (watched hal (r (hw s)))(n := None)"
    and "port_data s' = port_data s" and "callback_at s' = callback_at s"
    and "pin_dir (r (hw s')) = pin_dir (r (hw s))" and "out_reg (r (hw s')) = out_reg (r (hw s))"
    and "i < GPIOTE_CH_NUM hal \<Longrightarrow>
      bit (inten (r (hw s'))) i \<longleftrightarrow> bit (inten (r (hw s))) i \<and> \<not> channel_on (r (hw s)) n i"
proof -
  let ?R = "r (hw s)" and ?N = "GPIOTE_CH_NUM hal" and ?R' = "r (hw s')"
  note laws = hal_laws [OF hal]
  have eq: "s' = (case List.find (channel_on ?R n) [0..<?N] of None \<Rightarrow> s
      | Some i \<Rightarrow> upd_hw (nrf_gpiote_int_disable hal (BIT i) \<circ> nrf_gpiote_event_disable hal i)
          (s\<lparr>gpiote_alloc_mask := gpiote_alloc_mask s AND NOT (BIT i)\<rparr>))"
  proof -
    have "List.find (\<lambda>i. ch_pin ?R i = n \<and> bit (inten ?R AND NRF_GPIOTE_INT_IN_MASK hal) i) [0..<?N] =
        List.find (channel_on ?R n) [0..<?N]"
      by (intro find_cong) (auto simp: channel_on_def laws bit_simps)
    then show ?thesis
      by (simp add: s'_def gpiote_pin_cleanup_def pin_cleanup_loop_find [OF hal] laws Let_def)
  qed
  have on: "channel_on ?R' m i \<longleftrightarrow> channel_on ?R m i \<and> m \<noteq> n" if "i < ?N" for m i
  proof (cases "List.find (channel_on ?R n) [0..<?N]")
    case None
    then have "s' = s"
      by (simp add: eq)
    with None that show ?thesis by (auto simp: find_None_iff)
  next
    case (Some j)
    then have "j < ?N" "channel_on ?R n j"
      by (auto simp: find_Some_iff)
    with inv that Some show ?thesis
      by (auto simp: eq laws gpiote_inv_def channel_on_def)
  qed
  show frame: "port_data s' = port_data s" "callback_at s' = callback_at s" "pin_dir ?R' = pin_dir ?R"
    "out_reg ?R' = out_reg ?R"
    by (auto simp: eq laws split: option.splits)
  have pol: "ch_polarity ?R' = ch_polarity ?R" "ch_pin ?R' = ch_pin ?R"
    by (auto simp: eq laws split: option.splits)
  show "bit (inten ?R') i \<longleftrightarrow> bit (inten ?R) i \<and> \<not> channel_on ?R n i" if "i < ?N"
    using on [OF that, of "ch_pin ?R i"] by (auto simp: channel_on_def pol)
  show inv': "gpiote_inv hal r s'"
  proof -
    have "bit (gpiote_alloc_mask s') i = bit (inten ?R') i" if "i < ?N" for i
      using that inv by (auto simp: eq laws gpiote_inv_def split: option.splits)
    with inv on show ?thesis
      unfolding gpiote_inv_def by blast
  qed
  show "watched hal ?R' = (watched hal ?R)(n := None)"
  proof
    fix m
    show "watched hal ?R' m = ((watched hal ?R)(n := None)) m"
    proof (cases "m = n")
      case True
      then show ?thesis by (simp add: watched_def find_None_iff on)
    next
      case False
      have "watched hal ?R' m = watched hal ?R m"
        using on False by (intro watched_eqI [OF inv' inv]) (simp add: pol)
      with False show ?thesis by simp
    qed
  qed
qed

text \<open>Allocating a channel adds the pin to the map, if a channel is free.\<close>

lemma channel_alloc:
  fixes s :: "('h, 'm) gpio_scheme"
  assumes hal: "hal_ok hal r" and inv: "gpiote_inv hal r s" and none: "watched hal (r (hw s)) n = None"
    and alloc: "gpiote_channel_alloc hal n pol s = (ret, s')"
  shows "gpiote_inv hal r s'" and "port_data s' = port_data s" and "callback_at s' = callback_at s"
    and "if \<forall>i<GPIOTE_CH_NUM hal. bit (inten (r (hw s))) i then ret = - ENODEV \<and> s' = s
      else ret = 0 \<and> watched hal (r (hw s')) = (watched hal (r (hw s)))(n \<mapsto> pol)"
    and "pin_dir (r (hw s')) = pin_dir (r (hw s))" and "out_reg (r (hw s')) = out_reg (r (hw s))"
proof -
  let ?R = "r (hw s)" and ?N = "GPIOTE_CH_NUM hal" and ?R' = "r (hw s')"
  note laws = hal_laws [OF hal]
  have busy: "bit (gpiote_alloc_mask s) i = bit (inten ?R) i" if "i < ?N" for i
    using that inv by (simp add: gpiote_inv_def)
  have eq: "(ret, s') = (case List.find (\<lambda>c. \<not> bit (inten ?R) c) [0..<?N] of
      None \<Rightarrow> (- ENODEV, s)
    | Some c \<Rightarrow> (0, upd_hw (nrf_gpiote_int_enable hal (BIT c) \<circ> nrf_gpiote_event_enable hal c \<circ>
          nrf_gpiote_event_clear hal (EVENTS_IN c) \<circ> nrf_gpiote_event_configure hal c n pol)
          (s\<lparr>gpiote_alloc_mask := gpiote_alloc_mask s OR BIT c\<rparr>)))"
  proof -
    have "List.find (\<lambda>c. \<not> bit (gpiote_alloc_mask s) c) [0..<?N] = List.find (\<lambda>c. \<not> bit (inten ?R) c) [0..<?N]"
      by (intro find_cong) (auto simp: busy)
    moreover have "\<forall>c\<in>set [0..<?N]. c < 32"
      using laws(2) by auto
    ultimately show ?thesis
      using alloc by (simp add: gpiote_channel_alloc_def channel_alloc_loop_find)
  qed
  have off: "\<not> channel_on ?R n i" if "i < ?N" for i
    using none that by (auto simp: watched_def find_None_iff)
  have *: "gpiote_inv hal r s' \<and> port_data s' = port_data s \<and> callback_at s' = callback_at s \<and>
     (if \<forall>i<?N. bit (inten ?R) i then ret = - ENODEV \<and> s' = s
      else ret = 0 \<and> watched hal ?R' = (watched hal ?R)(n \<mapsto> pol)) \<and>
     pin_dir ?R' = pin_dir ?R \<and> out_reg ?R' = out_reg ?R"
  proof (cases "List.find (\<lambda>c. \<not> bit (inten ?R) c) [0..<?N]")
    case None
    with eq inv show ?thesis by (auto simp: find_None_iff)
  next
    case (Some c)
    then have c: "c < ?N" "\<not> bit (inten ?R) c" "c < 32"
      using laws(2) by (auto simp: find_Some_iff)
    have R': "inten ?R' = inten ?R OR BIT c" "ch_pin ?R' = (ch_pin ?R)(c := n)" "ret = 0"
      "ch_polarity ?R' = (ch_polarity ?R)(c := pol)" "gpiote_alloc_mask s' = gpiote_alloc_mask s OR BIT c"
      "port_data s' = port_data s" "callback_at s' = callback_at s" "pin_dir ?R' = pin_dir ?R" "out_reg ?R' = out_reg ?R"
      using eq Some by (simp_all add: laws)
    have on: "channel_on ?R' m i \<longleftrightarrow> (if i = c then m = n else channel_on ?R m i)" for m i
      using c by (auto simp: channel_on_def R')
    have inv': "gpiote_inv hal r s'"
      using inv c off by (auto simp: gpiote_inv_def on R')
    have "watched hal ?R' m = ((watched hal ?R)(n \<mapsto> pol)) m" for m
    proof (cases "m = n")
      case True
      with c(1) show ?thesis
        by (auto simp: watched_iff [OF inv'] on R')
    next
      case False
      have "watched hal ?R' m = watched hal ?R m"
        using False c(2) by (intro watched_eqI [OF inv' inv]) (auto simp: on R' channel_on_def)
      with False show ?thesis by simp
    qed
    with c R' inv' show ?thesis by auto
  qed
  then show "gpiote_inv hal r s'" "port_data s' = port_data s" "callback_at s' = callback_at s"
    "if \<forall>i<?N. bit (inten ?R) i then ret = - ENODEV \<and> s' = s
     else ret = 0 \<and> watched hal ?R' = (watched hal ?R)(n \<mapsto> pol)"
    "pin_dir ?R' = pin_dir ?R" "out_reg ?R' = out_reg ?R"
    by blast+
qed

subsection \<open>Configuring interrupts\<close>

lemma bits_eq: "(a :: u32) = b \<longleftrightarrow> (\<forall>n. bit a n = bit b n)"
  by (auto intro: bit_word_eqI)

lemma all_masked:
  "(\<forall>n. (P n \<and> Q n) = R n) \<longleftrightarrow> (\<forall>n. R n \<longrightarrow> P n \<and> Q n) \<and> (\<forall>n. Q n \<longrightarrow> P n \<longrightarrow> R n)"
  by auto

lemma mode_edge_iff:
  "flags AND (GPIO_INT_EDGE OR GPIO_INT_DISABLE OR GPIO_INT_ENABLE) = GPIO_INT_MODE_EDGE \<longleftrightarrow>
   bit flags 14 \<and> bit flags 16 \<and> \<not> bit flags 13"
  by (auto simp: bits_eq all_masked bit_and_iff bit_or_iff)

lemma mode_disabled_iff:
  "flags AND (GPIO_INT_EDGE OR GPIO_INT_DISABLE OR GPIO_INT_ENABLE) = GPIO_INT_MODE_DISABLED \<longleftrightarrow>
   bit flags 13 \<and> \<not> bit flags 14 \<and> \<not> bit flags 16"
  by (auto simp: bits_eq all_masked bit_and_iff bit_or_iff)

lemma trig_both_iff:
  "flags AND (GPIO_INT_LOW_0 OR GPIO_INT_HIGH_1) = GPIO_INT_TRIG_BOTH \<longleftrightarrow> bit flags 17 \<and> bit flags 18"
  by (auto simp: bits_eq all_masked bit_and_iff bit_or_iff)

lemma trig_high_iff:
  "flags AND (GPIO_INT_LOW_0 OR GPIO_INT_HIGH_1) = GPIO_INT_TRIG_HIGH \<longleftrightarrow> bit flags 18 \<and> \<not> bit flags 17"
  by (auto simp: bits_eq all_masked bit_and_iff bit_or_iff)

text \<open>Sense detection and the driver's own data are outside the map.\<close>

lemma hw_same [simp]: "s\<lparr>hw := hw s\<rparr> = s"
  by (cases s) simp

lemma channel_on_sense [simp]: "channel_on (R\<lparr>pin_sense := q\<rparr>) = channel_on R"
  by (simp add: channel_on_def fun_eq_iff)

lemma inv_sense [simp]:
  assumes "hal_ok hal r"
  shows "gpiote_inv hal r (s\<lparr>hw := nrf_gpio_cfg_sense_set hal n q h\<rparr>) = gpiote_inv hal r (s\<lparr>hw := h\<rparr>)"
    and "watched hal (r (nrf_gpio_cfg_sense_set hal n q h)) = watched hal (r h)"
    and "inten (r (nrf_gpio_cfg_sense_set hal n q h)) = inten (r h)"
  by (simp_all add: gpiote_inv_def watched_def hal_laws [OF assms] fun_eq_iff)

lemma inv_upd_data [simp]:
  "gpiote_inv hal r (upd_data p f s) = gpiote_inv hal r s" "hw (upd_data p f s) = hw s"
  by (simp_all add: gpiote_inv_def upd_data_def)

lemma pin_int_cfg:
  assumes hal: "hal_ok hal r" and inv: "gpiote_inv hal r s" and "pin < 32"
    and cfg: "gpiote_pin_int_cfg hal port pin s = (ret, s')"
  defines "n \<equiv> 32 * port + pin" and "d \<equiv> port_data s port"
  defines "edge \<equiv> bit (pin_int_en d) pin \<and> bit (trig_edge d) pin"
  defines "pol \<equiv> (if bit (double_edge d) pin then NRF_GPIOTE_POLARITY_TOGGLE
     else if bit (int_active_level d) pin then NRF_GPIOTE_POLARITY_LOTOHI else NRF_GPIOTE_POLARITY_HITOLO)"
  shows "gpiote_inv hal r s'"
    and "watched hal (r (hw s')) = (watched hal (r (hw s)))(n := if edge \<and> ret = 0 then Some pol else None)"
    and "ret = 0 \<or> ret = - ENODEV \<and> edge \<and> watched hal (r (hw s)) n = None \<and>
       (\<forall>i<GPIOTE_CH_NUM hal. bit (inten (r (hw s))) i)"
proof -
  let ?c = "gpiote_pin_cleanup hal n s" and ?N = "GPIOTE_CH_NUM hal"
  let ?s1 = "upd_hw (nrf_gpio_cfg_sense_set hal n NRF_GPIO_PIN_NOSENSE) ?c"
  note laws = hal_laws [OF hal]
  note c = pin_cleanup [OF hal inv, where n = n]
  have n: "NRF_GPIO_PIN_MAP hal port pin = n"
    using laws(1) \<open>pin < 32\<close> by (simp add: n_def)
  have s1: "gpiote_inv hal r ?s1" "watched hal (r (hw ?s1)) n = None"
    using c(1,2) by (simp_all add: hal)
  have "gpiote_inv hal r s' \<and>
    watched hal (r (hw s')) = (watched hal (r (hw s)))(n := if edge \<and> ret = 0 then Some pol else None) \<and>
    (ret = 0 \<or> ret = - ENODEV \<and> edge \<and> (\<forall>i<?N. bit (inten (r (hw ?s1))) i))"
  proof (cases edge)
    case True
    then have "gpiote_channel_alloc hal n pol ?s1 = (ret, s')"
      using cfg by (auto simp: gpiote_pin_int_cfg_def Let_def n and_BIT_eq_0 edge_def pol_def d_def split: if_splits)
    from channel_alloc [OF hal s1 this] c(2) True show ?thesis
      by (auto simp: hal split: if_splits)
  next
    case False
    then have "ret = 0" "s' = ?s1 \<or> s' = upd_hw (nrf_gpio_cfg_sense_set hal n (sense_for_pin d pin)) ?s1"
      using cfg by (auto simp: gpiote_pin_int_cfg_def Let_def n and_BIT_eq_0 edge_def d_def split: if_splits)
    with s1(1) c(2) False show ?thesis by (auto simp: hal)
  qed
  moreover have "watched hal (r (hw s)) n = None \<and> (\<forall>i<?N. bit (inten (r (hw s))) i)"
    if "\<forall>i<?N. bit (inten (r (hw ?s1))) i"
    using that c(7) by (auto simp: hal watched_def find_None_iff)
  ultimately show "gpiote_inv hal r s'"
    "watched hal (r (hw s')) = (watched hal (r (hw s)))(n := if edge \<and> ret = 0 then Some pol else None)"
    "ret = 0 \<or> ret = - ENODEV \<and> edge \<and> watched hal (r (hw s)) n = None \<and> (\<forall>i<?N. bit (inten (r (hw s))) i)"
    by blast+
qed

text \<open>
  The edge a client asks for: both, or the one to the named level, which is the opposite physical
  level when the flags speak of logical levels and the pin is active low.
\<close>

definition wanted_polarity :: "u32 \<Rightarrow> bool \<Rightarrow> nrf_gpiote_polarity" where
  "wanted_polarity flags active_low =
     (if bit flags 17 \<and> bit flags 18 then NRF_GPIOTE_POLARITY_TOGGLE
      else if bit flags 18 \<noteq> (bit flags 15 \<and> active_low) then NRF_GPIOTE_POLARITY_LOTOHI
      else NRF_GPIOTE_POLARITY_HITOLO)"

definition valid_int_flags :: "u32 \<Rightarrow> bool" where
  "valid_int_flags flags \<longleftrightarrow> bit flags 13 \<noteq> bit flags 14 \<and>
     (bit flags 14 \<longrightarrow> bit flags 17 \<or> bit flags 18) \<and> (bit flags 15 \<longrightarrow> \<not> (bit flags 17 \<and> bit flags 18))"

lemma interrupt_map:
  assumes hal: "hal_ok hal r" and inv: "gpiote_inv hal r s" and "pin < 32" and flags: "valid_int_flags flags"
    and cfg: "z_impl_gpio_pin_interrupt_configure hal port pin flags s = (ret, s')"
  defines "n \<equiv> 32 * port + pin"
  defines "edge \<equiv> bit flags 14 \<and> bit flags 16"
  shows "if edge \<and> pin_dir (r (hw s)) n = NRF_GPIO_PIN_DIR_OUTPUT then ret = - ENOTSUP \<and> s' = s
     else gpiote_inv hal r s' \<and>
       watched hal (r (hw s')) = (watched hal (r (hw s)))
         (n := if edge \<and> ret = 0 then Some (wanted_polarity flags (bit (invert (port_data s port)) pin)) else None) \<and>
       (ret = 0 \<or> ret = - ENODEV \<and> edge \<and> watched hal (r (hw s)) n = None \<and>
          (\<forall>i<GPIOTE_CH_NUM hal. bit (inten (r (hw s))) i))"
proof -
  define low where "low = bit (invert (port_data s port)) pin"
  define f where "f = (if bit flags 15 \<and> low then flags XOR (GPIO_INT_LOW_0 OR GPIO_INT_HIGH_1) else flags)"
  have bits: "bit f 13 = bit flags 13" "bit f 14 = bit flags 14" "bit f 16 = bit flags 16"
    "bit f 17 = (bit flags 17 \<noteq> (bit flags 15 \<and> low))" "bit f 18 = (bit flags 18 \<noteq> (bit flags 15 \<and> low))"
    by (simp_all add: f_def bit_xor_iff bit_or_iff)
  define u :: "gpio_nrfx_data \<Rightarrow> gpio_nrfx_data" where "u = (\<lambda>d. d\<lparr>pin_int_en := WRITE_BIT (pin_int_en d) pin (\<not> (bit f 13 \<and> \<not> bit f 14 \<and> \<not> bit f 16)),
       trig_edge := WRITE_BIT (trig_edge d) pin edge,
       double_edge := WRITE_BIT (double_edge d) pin (bit f 17 \<and> bit f 18),
       int_active_level := WRITE_BIT (int_active_level d) pin (bit f 18 \<and> \<not> bit f 17)\<rparr>)"
  have edge: "(bit f 14 \<and> bit f 16 \<and> \<not> bit f 13) = edge"
    using flags by (auto simp: edge_def valid_int_flags_def bits)
  have n: "NRF_GPIO_PIN_MAP hal port pin = n"
    using hal_laws(1) [OF hal] \<open>pin < 32\<close> by (simp add: n_def)
  have "z_impl_gpio_pin_interrupt_configure hal port pin flags s =
     (if edge \<and> pin_dir (r (hw s)) n = NRF_GPIO_PIN_DIR_OUTPUT then (- ENOTSUP, s)
      else gpiote_pin_int_cfg hal port pin (upd_data port u s))"
    unfolding z_impl_gpio_pin_interrupt_configure_def gpio_nrfx_pin_interrupt_configure_def Let_def
      and_BIT_eq_0 not_not n hal_laws(11) [OF hal] low_def [symmetric] f_def [symmetric]
      mode_edge_iff mode_disabled_iff trig_both_iff trig_high_iff edge u_def
    by (rule refl)
  with cfg have eq: "(ret, s') = (if edge \<and> pin_dir (r (hw s)) n = NRF_GPIO_PIN_DIR_OUTPUT then (- ENOTSUP, s)
      else gpiote_pin_int_cfg hal port pin (upd_data port u s))"
    by simp
  show ?thesis
  proof (cases "edge \<and> pin_dir (r (hw s)) n = NRF_GPIO_PIN_DIR_OUTPUT")
    case False
    let ?d = "port_data (upd_data port u s) port"
    have d: "(bit (pin_int_en ?d) pin \<and> bit (trig_edge ?d) pin) = edge"
      "bit (double_edge ?d) pin = (bit f 17 \<and> bit f 18)" "bit (int_active_level ?d) pin = (bit f 18 \<and> \<not> bit f 17)"
      using \<open>pin < 32\<close> edge by (auto simp: upd_data_def u_def)
    have pol: "(if bit f 17 \<and> bit f 18 then NRF_GPIOTE_POLARITY_TOGGLE
        else if bit f 18 \<and> \<not> bit f 17 then NRF_GPIOTE_POLARITY_LOTOHI else NRF_GPIOTE_POLARITY_HITOLO) =
        wanted_polarity flags low" if edge
      using flags that by (auto simp: wanted_polarity_def bits valid_int_flags_def edge_def)
    have "gpiote_pin_int_cfg hal port pin (upd_data port u s) = (ret, s')"
      using eq unfolding if_not_P [OF False] by simp
    note * = pin_int_cfg [OF hal _ \<open>pin < 32\<close> this, unfolded d n_def [symmetric] inv_upd_data, OF inv]
    from *(1,3) *(2) pol False show ?thesis
      unfolding low_def [symmetric] by (cases edge) auto
  qed (use eq in simp)
qed

text \<open>
  C16: the channels implement a map from pins to edges. Configuring a pin for an edge enters exactly
  the edge the flags ask for, in place of what was there before; disabling the interrupt or asking
  for a level removes the entry; no other pin's entry changes. An edge interrupt on an output pin is
  refused with -ENOTSUP, and -ENODEV is returned only when every channel serves another pin.
\<close>

theorem gpio_interrupt_map:
  assumes hal: "hal_ok hal r" and inv: "gpiote_inv hal r s" and "pin < 32" and flags: "valid_int_flags flags"
    and cfg: "z_impl_gpio_pin_interrupt_configure hal port pin flags s = (ret, s')"
  defines "n \<equiv> 32 * port + pin"
  defines "edge \<equiv> bit flags 14 \<and> bit flags 16"
  shows "if edge \<and> pin_dir (r (hw s)) n = NRF_GPIO_PIN_DIR_OUTPUT then ret = - ENOTSUP \<and> s' = s
     else gpiote_inv hal r s' \<and>
       watched hal (r (hw s')) = (watched hal (r (hw s)))
         (n := if edge \<and> ret = 0 then Some (wanted_polarity flags (bit (invert (port_data s port)) pin)) else None) \<and>
       (ret = 0 \<or> ret = - ENODEV \<and> edge \<and> watched hal (r (hw s)) n = None \<and>
          (\<forall>i<GPIOTE_CH_NUM hal. bit (inten (r (hw s))) i))"
  using interrupt_map [OF hal inv \<open>pin < 32\<close> flags cfg] unfolding n_def edge_def .

lemma chip_channels: "GPIOTE_CH_NUM chip_hal = 8"
  by (simp add: chip_hal_def)

theorem gpio_interrupt_map_witness:
  "case z_impl_gpio_pin_interrupt_configure chip_hal 0 27
      (GPIO_INT_ENABLE OR GPIO_INT_LEVELS_LOGICAL OR GPIO_INT_EDGE OR GPIO_INT_LOW_0) (reset_gpio (\<lambda>_. 0)) of
   (ret, s') \<Rightarrow> ret = 0 \<and> watched chip_hal (fst (hw s')) 27 = Some NRF_GPIOTE_POLARITY_HITOLO"
proof -
  define f :: u32 where "f = GPIO_INT_ENABLE OR GPIO_INT_LEVELS_LOGICAL OR GPIO_INT_EDGE OR GPIO_INT_LOW_0"
  let ?s = "reset_gpio (\<lambda>_. 0)"
  obtain ret s' where c: "z_impl_gpio_pin_interrupt_configure chip_hal 0 27 f ?s = (ret, s')"
    by (cases "z_impl_gpio_pin_interrupt_configure chip_hal 0 27 f ?s")
  have bits: "\<not> bit f 13" "bit f 14" "bit f 16" "bit f 17" "\<not> bit f 18" "bit f 15"
    by (simp_all add: f_def bit_or_iff)
  have "gpiote_inv chip_hal fst ?s"
    by (simp add: gpiote_inv_def reset_gpio_def reset_regs_def channel_on_def)
  moreover have "valid_int_flags f"
    by (simp add: valid_int_flags_def bits)
  ultimately have "if bit f 14 \<and> bit f 16 \<and> pin_dir (fst (hw ?s)) (32 * 0 + 27) = NRF_GPIO_PIN_DIR_OUTPUT
      then ret = - ENOTSUP \<and> s' = ?s
      else gpiote_inv chip_hal fst s' \<and> watched chip_hal (fst (hw s')) = (watched chip_hal (fst (hw ?s)))
         (32 * 0 + 27 := if (bit f 14 \<and> bit f 16) \<and> ret = 0
            then Some (wanted_polarity f (bit (invert (port_data ?s 0)) 27)) else None) \<and>
       (ret = 0 \<or> ret = - ENODEV \<and> (bit f 14 \<and> bit f 16) \<and> watched chip_hal (fst (hw ?s)) (32 * 0 + 27) = None \<and>
          (\<forall>i<GPIOTE_CH_NUM chip_hal. bit (inten (fst (hw ?s))) i))"
    using gpio_interrupt_map [OF chip_hal_ok _ _ _ c] by simp
  moreover have "\<not> (\<forall>i<GPIOTE_CH_NUM chip_hal. bit (inten (fst (hw ?s))) i)"
    by (auto simp: chip_channels reset_gpio_def reset_regs_def intro: exI [of _ 0])
  ultimately show ?thesis
    unfolding f_def [symmetric] c by (auto simp: bits wanted_polarity_def reset_gpio_def reset_regs_def)
qed

subsection \<open>Reading pins\<close>

lemma gpio_pin_get_bit:
  "pin < 32 \<Longrightarrow> gpio_pin_get hal port pin s =
     of_bool (bit (nrf_gpio_port_in_read hal port (hw s)) pin \<noteq> bit (invert (port_data s port)) pin)"
  by (auto simp: gpio_pin_get_def gpio_port_get_def z_impl_gpio_port_get_raw_def gpio_nrfx_port_get_raw_def
      and_BIT_eq_0 bit_xor_iff)

subsection \<open>Dispatching events\<close>

text \<open>The pins for which an enabled channel has an event.\<close>

definition event_pin :: "'h hal \<Rightarrow> nrf_regs \<Rightarrow> nat \<Rightarrow> bool" where
  "event_pin hal R n \<longleftrightarrow> (\<exists>i<GPIOTE_CH_NUM hal. channel_on R n i \<and> pending R (EVENTS_IN i))"

definition cleared :: "nat list \<Rightarrow> nrf_regs \<Rightarrow> nrf_regs" where
  "cleared is R = R\<lparr>pending := \<lambda>e. pending R e \<and> \<not> (\<exists>i\<in>set is. e = EVENTS_IN i \<and> bit (inten R) i)\<rparr>"

lemma split_pin: "k < 32 \<Longrightarrow> n div 32 = p \<and> n mod 32 = k \<longleftrightarrow> n = 32 * p + (k :: nat)"
  by (metis add.commute div_mult_self1_is_m div_less div_mult_self2 mod_less mod_mult_self2
      mult_div_mod_eq zero_less_numeral plus_nat.add_0 zero_neq_numeral)

lemma channel_event_loop:
  assumes hal: "hal_ok hal r" and "channel_event_loop hal is fired s = (fired', s')" and "distinct is"
  shows "s\<lparr>hw := hw s'\<rparr> = s'" and "r (hw s') = cleared is (r (hw s))"
    and "k < 32 \<Longrightarrow> bit (fired' p) k \<longleftrightarrow> bit (fired p) k \<or>
       (\<exists>i\<in>set is. channel_on (r (hw s)) (32 * p + k) i \<and> pending (r (hw s)) (EVENTS_IN i))"
proof -
  note laws = hal_laws [OF hal]
  have "s\<lparr>hw := hw s'\<rparr> = s' \<and> r (hw s') = cleared is (r (hw s)) \<and>
    (\<forall>p. \<forall>k<32. bit (fired' p) k \<longleftrightarrow> bit (fired p) k \<or>
       (\<exists>i\<in>set is. channel_on (r (hw s)) (32 * p + k) i \<and> pending (r (hw s)) (EVENTS_IN i)))"
    using assms(2,3)
  proof (induction "is" arbitrary: fired s)
    case Nil
    then show ?case by (auto simp: cleared_def)
  next
    case (Cons i "is")
    let ?R = "r (hw s)"
    have d: "distinct is"
      using Cons.prems(2) by simp
    show ?case
    proof (cases "bit (inten ?R) i \<and> pending ?R (EVENTS_IN i)")
      case True
      let ?n = "ch_pin ?R i"
      let ?f = "fired(?n div 32 := fired (?n div 32) OR BIT (?n mod 32))"
      let ?s = "upd_hw (nrf_gpiote_event_clear hal (EVENTS_IN i)) s"
      have "channel_event_loop hal is ?f ?s = (fired', s')"
        using Cons.prems(1) True by (simp add: laws and_BIT_eq_0 Let_def)
      note * = Cons.IH [OF this d]
      note IH = conjunct1 [OF *] conjunct1 [OF conjunct2 [OF *]]
      have IH3: "\<And>p k. k < 32 \<Longrightarrow> bit (fired' p) k \<longleftrightarrow> bit (?f p) k \<or>
          (\<exists>j\<in>set is. channel_on (r (hw ?s)) (32 * p + k) j \<and> pending (r (hw ?s)) (EVENTS_IN j))"
        using conjunct2 [OF conjunct2 [OF *]] by blast
      have "?n div 32 = p \<and> ?n mod 32 = k \<longleftrightarrow> ?n = 32 * p + k" if "k < 32" for p k
        using that by (rule split_pin)
      then have "bit (?f p) k \<longleftrightarrow> bit (fired p) k \<or> ?n = 32 * p + k" if "k < 32" for p k
        using that by (auto simp: fun_upd_def)
      moreover have "(\<exists>j\<in>set is. channel_on (r (hw ?s)) m j \<and> pending (r (hw ?s)) (EVENTS_IN j)) \<longleftrightarrow>
          (\<exists>j\<in>set is. channel_on ?R m j \<and> pending ?R (EVENTS_IN j))" for m
        using Cons.prems(2) by (auto simp: laws channel_on_def)
      moreover have "cleared is (r (hw ?s)) = cleared (i # is) ?R"
        using True by (auto simp: cleared_def laws fun_eq_iff)
      moreover have "(\<exists>j\<in>set (i # is). channel_on ?R m j \<and> pending ?R (EVENTS_IN j)) \<longleftrightarrow>
          ?n = m \<or> (\<exists>j\<in>set is. channel_on ?R m j \<and> pending ?R (EVENTS_IN j))" for m
        using True by (simp add: channel_on_def)
      ultimately show ?thesis
        using IH IH3 by simp
    next
      case False
      then have "channel_event_loop hal is fired s = (fired', s')"
        using Cons.prems(1) by (simp add: laws and_BIT_eq_0 split: if_splits)
      note * = Cons.IH [OF this d]
      note IH = conjunct1 [OF *] conjunct1 [OF conjunct2 [OF *]]
      have "\<And>p k. k < 32 \<Longrightarrow> bit (fired' p) k \<longleftrightarrow> bit (fired p) k \<or>
          (\<exists>j\<in>set is. channel_on ?R (32 * p + k) j \<and> pending ?R (EVENTS_IN j))"
        using conjunct2 [OF conjunct2 [OF *]] by blast
      moreover have "cleared is ?R = cleared (i # is) ?R"
        unfolding cleared_def using False by (intro arg_cong [where f = "\<lambda>p. ?R\<lparr>pending := p\<rparr>"]) auto
      moreover have "(\<exists>j\<in>set (i # is). channel_on ?R m j \<and> pending ?R (EVENTS_IN j)) \<longleftrightarrow>
          (\<exists>j\<in>set is. channel_on ?R m j \<and> pending ?R (EVENTS_IN j))" for m
        using False by (auto simp: channel_on_def)
      ultimately show ?thesis
        using IH by simp
    qed
  qed
  then show "s\<lparr>hw := hw s'\<rparr> = s'" "r (hw s') = cleared is (r (hw s))"
    "k < 32 \<Longrightarrow> bit (fired' p) k \<longleftrightarrow> bit (fired p) k \<or>
       (\<exists>i\<in>set is. channel_on (r (hw s)) (32 * p + k) i \<and> pending (r (hw s)) (EVENTS_IN i))"
    by blast+
qed

definition event_mask :: "'h hal \<Rightarrow> nrf_regs \<Rightarrow> nat \<Rightarrow> u32" where
  "event_mask hal R p = foldr (\<lambda>k w. w OR BIT k) (filter (\<lambda>k. event_pin hal R (32 * p + k)) [0..<32]) 0"

lemma bit_foldr_BIT: "bit (foldr (\<lambda>k w. w OR BIT k) ks (0 :: u32)) n \<longleftrightarrow> n \<in> set ks \<and> n < 32"
  by (induction ks) (auto simp: bit_or_iff)

lemma bit_event_mask: "bit (event_mask hal R p) k \<longleftrightarrow> k < 32 \<and> event_pin hal R (32 * p + k)"
  by (auto simp: event_mask_def bit_foldr_BIT)

text \<open>The callbacks of a port that asked for one of the pins, in the order of the list.\<close>

definition interested :: "('h, 'm) gpio_scheme \<Rightarrow> nat \<Rightarrow> u32 \<Rightarrow> nat list" where
  "interested s port pins = filter (\<lambda>cb. pin_mask (callback_at s cb) AND pins \<noteq> 0) (callbacks (port_data s port))"

definition notify_all ::
    "(nat \<Rightarrow> nat \<Rightarrow> nat \<Rightarrow> u32 \<Rightarrow> ('h, 'm) gpio_scheme \<Rightarrow> ('h, 'm) gpio_scheme) \<Rightarrow> (nat \<Rightarrow> gpio_callback) \<Rightarrow>
     nat \<Rightarrow> u32 \<Rightarrow> nat list \<Rightarrow> ('h, 'm) gpio_scheme \<Rightarrow> ('h, 'm) gpio_scheme" where
  "notify_all call cb_at port pins cbs =
     fold (\<lambda>cb. call (handler (cb_at cb)) port cb (pin_mask (cb_at cb) AND pins)) cbs"

text \<open>Handlers that leave the registry of callbacks alone.\<close>

definition registry_kept ::
    "(nat \<Rightarrow> nat \<Rightarrow> nat \<Rightarrow> u32 \<Rightarrow> ('h, 'm) gpio_scheme \<Rightarrow> ('h, 'm) gpio_scheme) \<Rightarrow> bool" where
  "registry_kept call \<longleftrightarrow> (\<forall>f p cb m s. callback_at (call f p cb m s) = callback_at s \<and>
     (\<forall>q. callbacks (port_data (call f p cb m s) q) = callbacks (port_data s q)))"

lemma fire_keeps:
  assumes "registry_kept call"
  shows "callback_at (gpio_fire_callbacks call cbs port pins s) = callback_at s \<and>
     (\<forall>q. callbacks (port_data (gpio_fire_callbacks call cbs port pins s) q) = callbacks (port_data s q))"
  using assms by (induction cbs arbitrary: s) (simp_all add: registry_kept_def Let_def)

lemma fire_notify:
  assumes "registry_kept call"
  shows "gpio_fire_callbacks call cbs port pins s =
     notify_all call (callback_at s) port pins (filter (\<lambda>cb. pin_mask (callback_at s cb) AND pins \<noteq> 0) cbs) s"
proof (induction cbs arbitrary: s)
  case (Cons cb cbs)
  have "callback_at (call f p c m s) = callback_at s" for f p c m
    using assms by (simp add: registry_kept_def)
  with Cons show ?case
    by (simp add: notify_all_def Let_def)
qed (simp add: notify_all_def)

lemma fire_callbacks_notify:
  assumes "registry_kept call"
  shows "fire_callbacks call port pins s = notify_all call (callback_at s) port pins (interested s port pins) s"
    and "callback_at (fire_callbacks call port pins s) = callback_at s"
    and "callbacks (port_data (fire_callbacks call port pins s) q) = callbacks (port_data s q)"
  using fire_keeps [OF assms] by (simp_all add: fire_callbacks_def interested_def fire_notify [OF assms])

lemma events_dispatched:
  assumes hal: "hal_ok hal r" and no_port: "\<not> pending (r (hw s)) NRF_GPIOTE_EVENT_PORT" and call: "registry_kept call"
  shows "\<exists>s1. s1 = snd (channel_event_loop hal [0..<GPIOTE_CH_NUM hal] (\<lambda>_. 0) s) \<and> s\<lparr>hw := hw s1\<rparr> = s1 \<and> r (hw s1) = cleared [0..<GPIOTE_CH_NUM hal] (r (hw s)) \<and>
     gpiote_event_handler hal call s =
       (let m = event_mask hal (r (hw s))
        in notify_all call (callback_at s) 1 (m 1) (interested s 1 (m 1))
             (notify_all call (callback_at s) 0 (m 0) (interested s 0 (m 0)) s1))"
proof -
  obtain f s1 where l: "channel_event_loop hal [0..<GPIOTE_CH_NUM hal] (\<lambda>_. 0) s = (f, s1)"
    by (cases "channel_event_loop hal [0..<GPIOTE_CH_NUM hal] (\<lambda>_. 0) s")
  note loop = channel_event_loop [OF hal l distinct_upt]
  have f: "f p = event_mask hal (r (hw s)) p" for p
  proof (rule bit_word_eqI)
    fix k assume "k < LENGTH(32)"
    then show "bit (f p) k = bit (event_mask hal (r (hw s)) p) k"
      using loop(3) [of k p] by (auto simp: bit_event_mask event_pin_def)
  qed
  have fire_none: "fire_callbacks call p 0 x = x" for p x
    by (simp add: fire_callbacks_notify(1) [OF call] interested_def notify_all_def)
  have s1: "callback_at s1 = callback_at s" "port_data s1 = port_data s"
    using arg_cong [OF loop(1), of callback_at] arg_cong [OF loop(1), of port_data] by simp_all
  have "gpiote_event_handler hal call s =
      (let s2 = (if f 0 \<noteq> 0 then fire_callbacks call 0 (f 0) s1 else s1)
       in if f 1 \<noteq> 0 then fire_callbacks call 1 (f 1) s2 else s2)"
    using no_port l by (simp add: gpiote_event_handler_def hal_laws [OF hal] Let_def)
  also have "\<dots> = fire_callbacks call 1 (f 1) (fire_callbacks call 0 (f 0) s1)"
    by (simp add: fire_none Let_def)
  also have "\<dots> = notify_all call (callback_at s) 1 (f 1) (interested s 1 (f 1))
      (notify_all call (callback_at s) 0 (f 0) (interested s 0 (f 0)) s1)"
    unfolding fire_callbacks_notify(1) [OF call, of 1]
    using fire_callbacks_notify [OF call, of 0 "f 0" s1] by (simp add: interested_def s1)
  finally show ?thesis
    using loop(1,2) l by (auto simp: f Let_def)
qed

text \<open>
  An interrupt delivers every event once. For the pins whose channel has an event, the handler
  calls each callback that asked for one of them, with exactly those of its pins that have an event,
  those of port 0 before those of port 1 and in the order of the lists; no other callback is called,
  and the events are cleared before the first call.
\<close>

lemma gpio_events_dispatched:
  assumes "hal_ok hal r" and "\<not> pending (r (hw s)) NRF_GPIOTE_EVENT_PORT" and "registry_kept call"
  shows "\<exists>s1. s\<lparr>hw := hw s1\<rparr> = s1 \<and> r (hw s1) = cleared [0..<GPIOTE_CH_NUM hal] (r (hw s)) \<and>
     gpiote_event_handler hal call s =
       (let m = event_mask hal (r (hw s))
        in notify_all call (callback_at s) 1 (m 1) (interested s 1 (m 1))
             (notify_all call (callback_at s) 0 (m 0) (interested s 0 (m 0)) s1))"
  using events_dispatched [OF assms] by blast

definition event_gpio :: "chip gpio" where
  "event_gpio = (reset_gpio (\<lambda>_. 0))
     \<lparr>hw := (reset_regs\<lparr>ch_pin := (\<lambda>_. 27), inten := BIT 0, pending := (\<lambda>e. e = EVENTS_IN 0)\<rparr>, \<lambda>_. 0),
      port_data := (\<lambda>_. \<lparr>invert = 0, callbacks = [5], pin_int_en = BIT 27, int_active_level = 0,
        trig_edge = BIT 27, double_edge = 0\<rparr>),
      callback_at := (\<lambda>_. \<lparr>handler = 7, pin_mask = BIT 27\<rparr>)\<rparr>"

subsection \<open>Registering callbacks\<close>

text \<open>Adding a callback puts it first, once; removing takes it away; the other callbacks keep their order.\<close>

lemma manage_callback_list:
  assumes "distinct (callbacks (port_data s port))"
  shows "callbacks (port_data (snd (gpio_add_callback port cb s)) port) =
      cb # filter (\<lambda>c. c \<noteq> cb) (callbacks (port_data s port))"
    and "callbacks (port_data (snd (gpio_remove_callback port cb s)) port) =
      filter (\<lambda>c. c \<noteq> cb) (callbacks (port_data s port))"
    and "fst (gpio_remove_callback port cb s) =
      (if callbacks (port_data s port) \<noteq> [] \<and> cb \<notin> set (callbacks (port_data s port)) then - EINVAL else 0)"
  using assms
  by (auto simp: gpio_add_callback_def gpio_remove_callback_def gpio_nrfx_manage_callback_def
      gpio_manage_callback_def upd_data_def distinct_remove1_removeAll removeAll_filter_not_eq
      intro!: filter_True [symmetric] filter_cong)

end
