(* ===== verification/Thread.thy ===== *)
theory Thread
  imports Prelude
begin

text \<open>
  Threads of the kernel: the part of \<open>struct k_thread\<close> the scheduler works with, and the predicates
  and marks of \<open>ksched.h\<close> on its state bits. A thread is known by a number (its address), a wait
  queue by another. \<open>swap_data\<close> is what the pointer of that name refers to, and \<open>swap_word\<close> the
  pointer itself, for the kernel objects that pass a word in it. The priority is a signed byte.
\<close>

type_synonym tid = nat
type_synonym wqid = nat

record thread =
  thread_state :: u8
  prio_byte :: u8
  sched_locked :: u8
  pended_on :: "wqid option"
  swap_data :: "u8 list"
  swap_word :: u32
  swap_return_value :: int

abbreviation THREAD_DUMMY :: u8 where "THREAD_DUMMY \<equiv> 0x01"
abbreviation THREAD_PENDING :: u8 where "THREAD_PENDING \<equiv> 0x02"
abbreviation THREAD_PRESTART :: u8 where "THREAD_PRESTART \<equiv> 0x04"
abbreviation THREAD_DEAD :: u8 where "THREAD_DEAD \<equiv> 0x08"
abbreviation THREAD_SUSPENDED :: u8 where "THREAD_SUSPENDED \<equiv> 0x10"
abbreviation THREAD_ABORTING :: u8 where "THREAD_ABORTING \<equiv> 0x20"
abbreviation THREAD_QUEUED :: u8 where "THREAD_QUEUED \<equiv> 0x80"

definition prio :: "thread \<Rightarrow> int" where
  "prio t = sint (prio_byte t)"

text \<open>
  The union of \<open>struct _thread_base\<close>: the priority and the scheduler lock count read as one 16-bit
  number, the priority in the low byte.
\<close>

definition preempt :: "thread \<Rightarrow> u16" where
  "preempt t = push_bit 8 (ucast (sched_locked t)) OR ucast (prio_byte t)"

definition is_preempt :: "thread \<Rightarrow> bool" where
  "is_preempt t \<longleftrightarrow> preempt t \<le> 0x007f"

definition z_is_thread_pending :: "thread \<Rightarrow> bool" where
  "z_is_thread_pending t \<longleftrightarrow> thread_state t AND THREAD_PENDING \<noteq> 0"

definition z_is_thread_prevented_from_running :: "thread \<Rightarrow> bool" where
  "z_is_thread_prevented_from_running t \<longleftrightarrow>
     thread_state t AND (THREAD_PENDING OR THREAD_PRESTART OR THREAD_DEAD OR THREAD_DUMMY OR
       THREAD_SUSPENDED) \<noteq> 0"

definition z_has_thread_started :: "thread \<Rightarrow> bool" where
  "z_has_thread_started t \<longleftrightarrow> thread_state t AND THREAD_PRESTART = 0"

definition z_is_thread_state_set :: "thread \<Rightarrow> u8 \<Rightarrow> bool" where
  "z_is_thread_state_set t state \<longleftrightarrow> thread_state t AND state \<noteq> 0"

definition z_is_thread_queued :: "thread \<Rightarrow> bool" where
  "z_is_thread_queued t = z_is_thread_state_set t THREAD_QUEUED"

definition z_set_thread_states :: "u8 \<Rightarrow> thread \<Rightarrow> thread" where
  "z_set_thread_states states t = t\<lparr>thread_state := thread_state t OR states\<rparr>"

definition z_reset_thread_states :: "u8 \<Rightarrow> thread \<Rightarrow> thread" where
  "z_reset_thread_states states t = t\<lparr>thread_state := thread_state t AND NOT states\<rparr>"

definition z_mark_thread_as_suspended :: "thread \<Rightarrow> thread" where
  "z_mark_thread_as_suspended t = t\<lparr>thread_state := thread_state t OR THREAD_SUSPENDED\<rparr>"

definition z_mark_thread_as_not_suspended :: "thread \<Rightarrow> thread" where
  "z_mark_thread_as_not_suspended t = t\<lparr>thread_state := thread_state t AND NOT THREAD_SUSPENDED\<rparr>"

definition z_mark_thread_as_started :: "thread \<Rightarrow> thread" where
  "z_mark_thread_as_started t = t\<lparr>thread_state := thread_state t AND NOT THREAD_PRESTART\<rparr>"

definition z_mark_thread_as_pending :: "thread \<Rightarrow> thread" where
  "z_mark_thread_as_pending t = t\<lparr>thread_state := thread_state t OR THREAD_PENDING\<rparr>"

definition z_mark_thread_as_not_pending :: "thread \<Rightarrow> thread" where
  "z_mark_thread_as_not_pending t = t\<lparr>thread_state := thread_state t AND NOT THREAD_PENDING\<rparr>"

definition z_mark_thread_as_queued :: "thread \<Rightarrow> thread" where
  "z_mark_thread_as_queued t = z_set_thread_states THREAD_QUEUED t"

definition z_mark_thread_as_not_queued :: "thread \<Rightarrow> thread" where
  "z_mark_thread_as_not_queued t = z_reset_thread_states THREAD_QUEUED t"

lemmas thread_marks = z_set_thread_states_def z_reset_thread_states_def
  z_mark_thread_as_suspended_def z_mark_thread_as_not_suspended_def z_mark_thread_as_started_def
  z_mark_thread_as_pending_def z_mark_thread_as_not_pending_def z_mark_thread_as_queued_def
  z_mark_thread_as_not_queued_def

subsection \<open>The state bits\<close>

lemma low_bits: "(x :: u8) AND 0x1f = 0 \<longleftrightarrow> (\<forall>n<5. \<not> bit x n)"
proof -
  have "x AND 0x1f = take_bit 5 x"
    by (simp add: take_bit_eq_mask mask_eq_exp_minus_1)
  then show ?thesis
    by (auto simp: bit_eq_iff bit_take_bit_iff)
qed

lemma mask_bits:
  fixes x :: u8
  shows "x AND 0x02 = 0 \<longleftrightarrow> \<not> bit x 1" "x AND 0x04 = 0 \<longleftrightarrow> \<not> bit x 2" "x AND 0x20 = 0 \<longleftrightarrow> \<not> bit x 5"
    "x AND 0x80 = 0 \<longleftrightarrow> \<not> bit x 7" "x AND 0x08 = 0 \<longleftrightarrow> \<not> bit x 3"
    "x AND 0x1f = 0 \<longleftrightarrow> \<not> bit x 0 \<and> \<not> bit x 1 \<and> \<not> bit x 2 \<and> \<not> bit x 3 \<and> \<not> bit x 4"
  using and_exp_eq_0_iff_not_bit [of x 1] and_exp_eq_0_iff_not_bit [of x 2]
    and_exp_eq_0_iff_not_bit [of x 5] and_exp_eq_0_iff_not_bit [of x 7]
    and_exp_eq_0_iff_not_bit [of x 3]
  by (simp_all add: low_bits numeral_eq_Suc All_less_Suc conj_ac)

lemma set_bits:
  fixes x :: u8
  assumes "n < 8"
  shows "bit (x OR 0x02) n \<longleftrightarrow> bit x n \<or> n = 1" "bit (x OR 0x10) n \<longleftrightarrow> bit x n \<or> n = 4"
    "bit (x OR 0x08) n \<longleftrightarrow> bit x n \<or> n = 3" "bit (x OR 0x20) n \<longleftrightarrow> bit x n \<or> n = 5"
    "bit (x OR 0x80) n \<longleftrightarrow> bit x n \<or> n = 7"
    "bit (x AND NOT 0x02) n \<longleftrightarrow> bit x n \<and> n \<noteq> 1" "bit (x AND NOT 0x04) n \<longleftrightarrow> bit x n \<and> n \<noteq> 2"
    "bit (x AND NOT 0x10) n \<longleftrightarrow> bit x n \<and> n \<noteq> 4" "bit (x AND NOT 0x80) n \<longleftrightarrow> bit x n \<and> n \<noteq> 7"
proof -
  have n: "n \<in> {0, 1, 2, 3, 4, 5, 6, 7}"
    using assms by auto
  show "bit (x OR 0x02) n \<longleftrightarrow> bit x n \<or> n = 1" "bit (x OR 0x10) n \<longleftrightarrow> bit x n \<or> n = 4"
    "bit (x OR 0x08) n \<longleftrightarrow> bit x n \<or> n = 3" "bit (x OR 0x20) n \<longleftrightarrow> bit x n \<or> n = 5"
    "bit (x OR 0x80) n \<longleftrightarrow> bit x n \<or> n = 7"
    "bit (x AND NOT 0x02) n \<longleftrightarrow> bit x n \<and> n \<noteq> 1" "bit (x AND NOT 0x04) n \<longleftrightarrow> bit x n \<and> n \<noteq> 2"
    "bit (x AND NOT 0x10) n \<longleftrightarrow> bit x n \<and> n \<noteq> 4" "bit (x AND NOT 0x80) n \<longleftrightarrow> bit x n \<and> n \<noteq> 7"
    using n by (auto simp: bit_simps)
qed

lemma pending_bit: "z_is_thread_pending t \<longleftrightarrow> bit (thread_state t) 1"
  by (simp add: z_is_thread_pending_def mask_bits)

lemma queued_bit: "z_is_thread_queued t \<longleftrightarrow> bit (thread_state t) 7"
  by (simp add: z_is_thread_queued_def z_is_thread_state_set_def mask_bits)

lemma started_bit: "z_has_thread_started t \<longleftrightarrow> \<not> bit (thread_state t) 2"
  by (simp add: z_has_thread_started_def mask_bits)

lemma prevented_bits:
  "z_is_thread_prevented_from_running t \<longleftrightarrow>
     bit (thread_state t) 0 \<or> bit (thread_state t) 1 \<or> bit (thread_state t) 2 \<or>
     bit (thread_state t) 3 \<or> bit (thread_state t) 4"
  by (simp add: z_is_thread_prevented_from_running_def mask_bits)

lemma mark_bits:
  assumes "n < 8"
  shows
    "bit (thread_state (z_mark_thread_as_suspended t)) n \<longleftrightarrow> bit (thread_state t) n \<or> n = 4"
    "bit (thread_state (z_mark_thread_as_not_suspended t)) n \<longleftrightarrow> bit (thread_state t) n \<and> n \<noteq> 4"
    "bit (thread_state (z_mark_thread_as_started t)) n \<longleftrightarrow> bit (thread_state t) n \<and> n \<noteq> 2"
    "bit (thread_state (z_mark_thread_as_pending t)) n \<longleftrightarrow> bit (thread_state t) n \<or> n = 1"
    "bit (thread_state (z_mark_thread_as_not_pending t)) n \<longleftrightarrow> bit (thread_state t) n \<and> n \<noteq> 1"
    "bit (thread_state (z_mark_thread_as_queued t)) n \<longleftrightarrow> bit (thread_state t) n \<or> n = 7"
    "bit (thread_state (z_mark_thread_as_not_queued t)) n \<longleftrightarrow> bit (thread_state t) n \<and> n \<noteq> 7"
    "bit (thread_state (z_set_thread_states THREAD_DEAD t)) n \<longleftrightarrow> bit (thread_state t) n \<or> n = 3"
  by (cases t, simp_all only: thread_marks thread.simps set_bits [OF assms])+

lemma mark_fields [simp]:
  "prio_byte (z_mark_thread_as_suspended t) = prio_byte t"
  "prio_byte (z_mark_thread_as_not_suspended t) = prio_byte t"
  "prio_byte (z_mark_thread_as_started t) = prio_byte t"
  "prio_byte (z_mark_thread_as_pending t) = prio_byte t"
  "prio_byte (z_mark_thread_as_not_pending t) = prio_byte t"
  "prio_byte (z_mark_thread_as_queued t) = prio_byte t"
  "prio_byte (z_mark_thread_as_not_queued t) = prio_byte t"
  "prio_byte (z_set_thread_states x t) = prio_byte t"
  "sched_locked (z_mark_thread_as_suspended t) = sched_locked t"
  "sched_locked (z_mark_thread_as_not_suspended t) = sched_locked t"
  "sched_locked (z_mark_thread_as_started t) = sched_locked t"
  "sched_locked (z_mark_thread_as_pending t) = sched_locked t"
  "sched_locked (z_mark_thread_as_not_pending t) = sched_locked t"
  "sched_locked (z_mark_thread_as_queued t) = sched_locked t"
  "sched_locked (z_mark_thread_as_not_queued t) = sched_locked t"
  "sched_locked (z_set_thread_states x t) = sched_locked t"
  "pended_on (z_mark_thread_as_suspended t) = pended_on t"
  "pended_on (z_mark_thread_as_not_suspended t) = pended_on t"
  "pended_on (z_mark_thread_as_started t) = pended_on t"
  "pended_on (z_mark_thread_as_pending t) = pended_on t"
  "pended_on (z_mark_thread_as_not_pending t) = pended_on t"
  "pended_on (z_mark_thread_as_queued t) = pended_on t"
  "pended_on (z_mark_thread_as_not_queued t) = pended_on t"
  "pended_on (z_set_thread_states x t) = pended_on t"
  "swap_data (z_mark_thread_as_suspended t) = swap_data t"
  "swap_data (z_mark_thread_as_not_suspended t) = swap_data t"
  "swap_data (z_mark_thread_as_started t) = swap_data t"
  "swap_data (z_mark_thread_as_pending t) = swap_data t"
  "swap_data (z_mark_thread_as_not_pending t) = swap_data t"
  "swap_data (z_mark_thread_as_queued t) = swap_data t"
  "swap_data (z_mark_thread_as_not_queued t) = swap_data t"
  "swap_data (z_set_thread_states x t) = swap_data t"
  "swap_word (z_mark_thread_as_suspended t) = swap_word t"
  "swap_word (z_mark_thread_as_not_suspended t) = swap_word t"
  "swap_word (z_mark_thread_as_started t) = swap_word t"
  "swap_word (z_mark_thread_as_pending t) = swap_word t"
  "swap_word (z_mark_thread_as_not_pending t) = swap_word t"
  "swap_word (z_mark_thread_as_queued t) = swap_word t"
  "swap_word (z_mark_thread_as_not_queued t) = swap_word t"
  "swap_word (z_set_thread_states x t) = swap_word t"
  "swap_return_value (z_mark_thread_as_suspended t) = swap_return_value t"
  "swap_return_value (z_mark_thread_as_not_suspended t) = swap_return_value t"
  "swap_return_value (z_mark_thread_as_started t) = swap_return_value t"
  "swap_return_value (z_mark_thread_as_pending t) = swap_return_value t"
  "swap_return_value (z_mark_thread_as_not_pending t) = swap_return_value t"
  "swap_return_value (z_mark_thread_as_queued t) = swap_return_value t"
  "swap_return_value (z_mark_thread_as_not_queued t) = swap_return_value t"
  "swap_return_value (z_set_thread_states x t) = swap_return_value t"
  by (simp_all add: thread_marks)

lemma mark_prio [simp]:
  "prio (z_mark_thread_as_suspended t) = prio t"
  "prio (z_mark_thread_as_not_suspended t) = prio t"
  "prio (z_mark_thread_as_started t) = prio t"
  "prio (z_mark_thread_as_pending t) = prio t"
  "prio (z_mark_thread_as_not_pending t) = prio t"
  "prio (z_mark_thread_as_queued t) = prio t"
  "prio (z_mark_thread_as_not_queued t) = prio t"
  "prio (z_set_thread_states x t) = prio t"
  by (simp_all add: prio_def)

lemma mark_preempt [simp]:
  "is_preempt (z_mark_thread_as_suspended t) = is_preempt t"
  "is_preempt (z_mark_thread_as_not_suspended t) = is_preempt t"
  "is_preempt (z_mark_thread_as_started t) = is_preempt t"
  "is_preempt (z_mark_thread_as_pending t) = is_preempt t"
  "is_preempt (z_mark_thread_as_not_pending t) = is_preempt t"
  "is_preempt (z_mark_thread_as_queued t) = is_preempt t"
  "is_preempt (z_mark_thread_as_not_queued t) = is_preempt t"
  "is_preempt (z_set_thread_states x t) = is_preempt t"
  by (simp_all add: is_preempt_def preempt_def)

lemmas state_bits = pending_bit queued_bit started_bit prevented_bits mark_bits

lemma pending_prevented: "z_is_thread_pending t \<Longrightarrow> z_is_thread_prevented_from_running t"
  by (simp add: pending_bit prevented_bits)

lemma prio_marks [simp]:
  "prio (t\<lparr>thread_state := x\<rparr>) = prio t" "prio (t\<lparr>pended_on := w\<rparr>) = prio t"
  "prio (t\<lparr>swap_data := d\<rparr>) = prio t" "prio (t\<lparr>swap_word := u\<rparr>) = prio t"
  "prio (t\<lparr>swap_return_value := r\<rparr>) = prio t"
  by (simp_all add: prio_def)

subsection \<open>Preemptible threads\<close>

lemma u8_bound: "unat (x :: u8) < 256"
  using unsigned_less [of x] by simp

lemma preempt_unat: "unat (preempt t) = 256 * unat (sched_locked t) + unat (prio_byte t)"
proof -
  have "preempt t = push_bit 8 (ucast (sched_locked t)) + ucast (prio_byte t)"
    unfolding preempt_def
    by (intro disjunctive_add [symmetric]) (auto simp: bit_simps dest: bit_imp_le_length)
  also have "\<dots> = word_of_nat (256 * unat (sched_locked t) + unat (prio_byte t))"
    by (simp add: push_bit_eq_mult unsigned_of_nat [symmetric])
  finally have eq: "preempt t = word_of_nat (256 * unat (sched_locked t) + unat (prio_byte t))" .
  have "256 * unat (sched_locked t) + unat (prio_byte t) < 2 ^ 16"
    using u8_bound [of "sched_locked t"] u8_bound [of "prio_byte t"] by simp
  then show ?thesis
    unfolding eq unsigned_of_nat by (simp add: take_bit_nat_eq_self)
qed

lemma nonnegative_byte: "0 \<le> sint (x :: u8) \<longleftrightarrow> unat x \<le> 127"
proof -
  have "0 \<le> sint x \<longleftrightarrow> \<not> bit x 7"
    using bit_last_iff [of x] by (simp add: not_less)
  also have "\<dots> \<longleftrightarrow> \<not> odd (unat x div 2 ^ 7)"
    using bit_unsigned_iff [of x 7] bit_iff_odd [of "unat x" 7] by auto
  also have "\<dots> \<longleftrightarrow> unat x \<le> 127"
  proof (cases "unat x \<le> 127")
    case False
    then have "unat x div 2 ^ 7 = 1"
      using u8_bound [of x] by (simp add: div_nat_eqI)
    with False show ?thesis by simp
  qed simp
  finally show ?thesis .
qed

text \<open>
  Reading priority and lock count as one number decides preemptibility with a single
  comparison: a thread is preemptible exactly when its scheduler lock count is zero and its priority
  is not negative, for all 65536 values of the two bytes.
\<close>

lemma is_preempt_iff: "is_preempt t \<longleftrightarrow> sched_locked t = 0 \<and> 0 \<le> prio t"
proof -
  have "is_preempt t \<longleftrightarrow> 256 * unat (sched_locked t) + unat (prio_byte t) \<le> 127"
    by (simp add: is_preempt_def word_le_nat_alt preempt_unat)
  also have "\<dots> \<longleftrightarrow> unat (sched_locked t) = 0 \<and> unat (prio_byte t) \<le> 127"
    by auto
  finally show ?thesis
    by (simp add: prio_def nonnegative_byte word_unat_eq_iff)
qed

end
