(* ===== verification/Priq.thy ===== *)
theory Priq
  imports Thread
begin

text \<open>
  The priority queues of \<open>sched.c\<close>. \<open>z_priq_dumb\<close> is the list the ready queue and the wait queues of
  this configuration use, \<open>z_priq_mq\<close> the array of lists with a bit mask of the non-empty ones. Both
  implement one interface, the locale \<open>priority_queue\<close>: a sequence ordered by priority and by arrival
  within a priority. The early return of \<open>z_priq_mq_remove\<close> for the ready queue is compiled only with
  \<open>CONFIG_SCHED_MULTIQ\<close>, which this program does not set.
\<close>

definition z_is_t1_higher_prio_than_t2 :: "thread \<Rightarrow> thread \<Rightarrow> bool" where
  "z_is_t1_higher_prio_than_t2 t1 t2 \<longleftrightarrow> prio t1 < prio t2"

fun z_priq_dumb_add :: "(tid \<Rightarrow> thread) \<Rightarrow> tid \<Rightarrow> tid list \<Rightarrow> tid list" where
  "z_priq_dumb_add th thread [] = [thread]"
| "z_priq_dumb_add th thread (t # pq) =
     (if z_is_t1_higher_prio_than_t2 (th thread) (th t) then thread # t # pq
      else t # z_priq_dumb_add th thread pq)"

definition sys_dlist_remove :: "tid \<Rightarrow> tid list \<Rightarrow> tid list" where
  "sys_dlist_remove thread pq = remove1 thread pq"

fun z_priq_dumb_best :: "tid list \<Rightarrow> tid option" where
  "z_priq_dumb_best [] = None"
| "z_priq_dumb_best (t # pq) = Some t"

abbreviation K_HIGHEST_THREAD_PRIO :: int where "K_HIGHEST_THREAD_PRIO \<equiv> -16"

record priq_mq =
  queues :: "tid list list"
  bitmask :: u32

definition priority_bit :: "thread \<Rightarrow> nat" where
  "priority_bit t = nat (prio t - K_HIGHEST_THREAD_PRIO)"

definition z_priq_mq_add :: "(tid \<Rightarrow> thread) \<Rightarrow> tid \<Rightarrow> priq_mq \<Rightarrow> priq_mq" where
  "z_priq_mq_add th thread pq =
     (let i = priority_bit (th thread)
      in pq\<lparr>queues := (queues pq)[i := queues pq ! i @ [thread]], bitmask := bitmask pq OR BIT i\<rparr>)"

definition z_priq_mq_remove :: "(tid \<Rightarrow> thread) \<Rightarrow> tid \<Rightarrow> priq_mq \<Rightarrow> priq_mq" where
  "z_priq_mq_remove th thread pq =
     (let i = priority_bit (th thread);
          pq' = pq\<lparr>queues := (queues pq)[i := sys_dlist_remove thread (queues pq ! i)]\<rparr>
      in if queues pq' ! i = [] then pq'\<lparr>bitmask := bitmask pq' AND NOT (BIT i)\<rparr> else pq')"

definition builtin_ctz :: "u32 \<Rightarrow> nat" where
  "builtin_ctz w = the (List.find (bit w) [0..<32])"

definition z_priq_mq_best :: "priq_mq \<Rightarrow> tid option" where
  "z_priq_mq_best pq =
     (if bitmask pq = 0 then None
      else case queues pq ! builtin_ctz (bitmask pq) of [] \<Rightarrow> None | t # _ \<Rightarrow> Some t)"

subsection \<open>The interface\<close>

text \<open>The place of a new entry: behind the entries that are at least as urgent.\<close>

primrec insert_behind :: "('a \<Rightarrow> int) \<Rightarrow> 'a \<Rightarrow> 'a list \<Rightarrow> 'a list" where
  "insert_behind p x [] = [x]"
| "insert_behind p x (y # ys) = (if p x < p y then x # y # ys else y # insert_behind p x ys)"

lemma set_insert_behind [simp]: "set (insert_behind p x ys) = insert x (set ys)"
  by (induction ys) auto

lemma distinct_insert_behind [simp]:
  "distinct (insert_behind p x ys) \<longleftrightarrow> x \<notin> set ys \<and> distinct ys"
  by (induction ys) auto

lemma sorted_insert_behind:
  "sorted (map p ys) \<Longrightarrow> sorted (map p (insert_behind p x ys))"
  by (induction ys) auto

lemma remove1_insert_behind [simp]: "x \<notin> set ys \<Longrightarrow> remove1 x (insert_behind p x ys) = ys"
  by (induction ys) auto

lemma filter_insert_behind:
  "sorted (map p ys) \<Longrightarrow>
   filter (\<lambda>y. p y = q) (insert_behind p x ys) = filter (\<lambda>y. p y = q) ys @ (if p x = q then [x] else [])"
proof (induction ys)
  case (Cons y ys)
  show ?case
  proof (cases "p x < p y")
    case True
    with Cons.prems have "filter (\<lambda>z. p z = p x) (y # ys) = []"
      by (auto simp: filter_empty_conv)
    with True show ?thesis by auto
  next
    case False
    with Cons show ?thesis by auto
  qed
qed simp

lemma insert_behind_append:
  "\<forall>y\<in>set xs. p y \<le> p x \<Longrightarrow> insert_behind p x (xs @ ys) = xs @ insert_behind p x ys"
  by (induction xs) auto

lemma insert_behind_front: "\<forall>y\<in>set ys. p x < p y \<Longrightarrow> insert_behind p x ys = x # ys"
  by (cases ys) auto

locale priority_queue =
  fixes add :: "'a \<Rightarrow> 'q \<Rightarrow> 'q" and remove :: "'a \<Rightarrow> 'q \<Rightarrow> 'q" and best :: "'q \<Rightarrow> 'a option"
    and entries :: "'q \<Rightarrow> 'a list" and inv :: "'q \<Rightarrow> bool" and key :: "'a \<Rightarrow> int"
    and valid :: "'a \<Rightarrow> bool"
  assumes entries_add: "inv q \<Longrightarrow> valid x \<Longrightarrow> x \<notin> set (entries q) \<Longrightarrow>
      entries (add x q) = insert_behind key x (entries q)"
    and inv_add: "inv q \<Longrightarrow> valid x \<Longrightarrow> x \<notin> set (entries q) \<Longrightarrow> inv (add x q)"
    and entries_remove: "inv q \<Longrightarrow> x \<in> set (entries q) \<Longrightarrow>
      entries (remove x q) = remove1 x (entries q)"
    and inv_remove: "inv q \<Longrightarrow> x \<in> set (entries q) \<Longrightarrow> inv (remove x q)"
    and best_entries: "inv q \<Longrightarrow> best q = (case entries q of [] \<Rightarrow> None | x # _ \<Rightarrow> Some x)"
    and inv_entries: "inv q \<Longrightarrow> sorted (map key (entries q)) \<and> distinct (entries q)"
begin

lemma best_is_most_urgent:
  "inv q \<Longrightarrow> best q = Some x \<Longrightarrow> x \<in> set (entries q) \<and> (\<forall>y\<in>set (entries q). key x \<le> key y)"
  using inv_entries [of q] by (cases "entries q") (auto simp: best_entries)

lemma best_None: "inv q \<Longrightarrow> best q = None \<longleftrightarrow> entries q = []"
  by (auto simp: best_entries split: list.splits)

lemma fifo_within_key:
  assumes "inv q" and "valid x" and "x \<notin> set (entries q)"
  shows "filter (\<lambda>y. key y = k) (entries (add x q)) =
     filter (\<lambda>y. key y = k) (entries q) @ (if key x = k then [x] else [])"
  using assms inv_entries [of q] by (simp add: entries_add filter_insert_behind)

lemma remove_add: "inv q \<Longrightarrow> valid x \<Longrightarrow> x \<notin> set (entries q) \<Longrightarrow>
   entries (remove x (add x q)) = entries q"
  using inv_add [of q x] by (simp add: entries_remove entries_add)

lemma best_add:
  assumes "inv q" and "valid x" and "x \<notin> set (entries q)"
  shows "best (add x q) =
     (case best q of None \<Rightarrow> Some x | Some y \<Rightarrow> Some (if key x < key y then x else y))"
  using assms inv_add [OF assms] by (simp add: best_entries entries_add split: list.splits)

lemma yield_rotates:
  assumes "inv q" and "best q = Some x" and "valid x"
  shows "entries (add x (remove x q)) = insert_behind key x (tl (entries q))"
proof -
  from assms(1,2) obtain xs where xs: "entries q = x # xs"
    by (auto simp: best_entries split: list.splits)
  then have "entries (remove x q) = xs" "x \<notin> set xs" "inv (remove x q)"
    using inv_entries [OF assms(1)] inv_remove [OF assms(1), of x]
    by (auto simp: entries_remove [OF assms(1)])
  with xs assms(3) show ?thesis by (simp add: entries_add)
qed

end

subsection \<open>The list\<close>

definition dumb_inv :: "(tid \<Rightarrow> thread) \<Rightarrow> tid list \<Rightarrow> bool" where
  "dumb_inv th pq \<longleftrightarrow> sorted (map (\<lambda>t. prio (th t)) pq) \<and> distinct pq"

lemma dumb_add_insert: "z_priq_dumb_add th t pq = insert_behind (\<lambda>t. prio (th t)) t pq"
  by (induction pq) (auto simp: z_is_t1_higher_prio_than_t2_def)

lemma dumb_best_hd: "z_priq_dumb_best pq = (case pq of [] \<Rightarrow> None | t # _ \<Rightarrow> Some t)"
  by (cases pq) auto

lemma sorted_remove1: "sorted (map f xs) \<Longrightarrow> sorted (map f (remove1 x xs))"
  by (induction xs) (auto simp: dest: notin_set_remove1 in_set_remove1 [THEN iffD1, rotated])

interpretation dumb: priority_queue "z_priq_dumb_add th" sys_dlist_remove z_priq_dumb_best
    "\<lambda>pq. pq" "dumb_inv th" "\<lambda>t. prio (th t)" "\<lambda>_. True" for th
  by unfold_locales
     (auto simp: dumb_inv_def dumb_add_insert dumb_best_hd sys_dlist_remove_def sorted_insert_behind
       sorted_remove1)

subsection \<open>The array of lists\<close>

definition mq_inv :: "(tid \<Rightarrow> thread) \<Rightarrow> priq_mq \<Rightarrow> bool" where
  "mq_inv th pq \<longleftrightarrow> length (queues pq) = 32 \<and> distinct (concat (queues pq)) \<and>
     (\<forall>i<32. bit (bitmask pq) i \<longleftrightarrow> queues pq ! i \<noteq> []) \<and>
     (\<forall>i<32. \<forall>t\<in>set (queues pq ! i). prio (th t) = int i - 16)"

definition mq_prio :: "(tid \<Rightarrow> thread) \<Rightarrow> tid \<Rightarrow> bool" where
  "mq_prio th t \<longleftrightarrow> -16 \<le> prio (th t) \<and> prio (th t) < 16"

lemma priority_bit_eq: "mq_prio th t \<Longrightarrow> priority_bit (th t) < 32 \<and> int (priority_bit (th t)) - 16 = prio (th t)"
  by (auto simp: mq_prio_def priority_bit_def nat_less_iff)

lemma concat_split:
  "i < length qs \<Longrightarrow> concat qs = concat (take i qs) @ qs ! i @ concat (drop (Suc i) qs)"
  by (metis concat.simps(2) concat_append id_take_nth_drop)

lemma concat_update:
  "i < length qs \<Longrightarrow> concat (qs[i := y]) = concat (take i qs) @ y @ concat (drop (Suc i) qs)"
  by (simp add: upd_conv_take_nth_drop)

lemma sorted_concat:
  "\<forall>i<length qs. \<forall>t\<in>set (qs ! i). f t = int i + c \<Longrightarrow>
   sorted (map f (concat qs)) \<and> (\<forall>t\<in>set (concat qs). c \<le> f t)"
proof (induction qs arbitrary: c)
  case (Cons q qs)
  have head: "\<forall>t\<in>set q. f t = c"
    using Cons.prems [rule_format, of 0] by simp
  have "\<forall>i<length qs. \<forall>t\<in>set (qs ! i). f t = int i + (c + 1)"
  proof (intro allI impI ballI)
    fix i t assume "i < length qs" "t \<in> set (qs ! i)"
    with Cons.prems [rule_format, of "Suc i" t] show "f t = int i + (c + 1)" by simp
  qed
  from Cons.IH [OF this] have tail: "sorted (map f (concat qs))" "\<forall>t\<in>set (concat qs). c + 1 \<le> f t"
    by auto
  have "sorted (map f q)"
    using head by (simp add: sorted_iff_nth_mono)
  with head tail show ?case
    by (auto simp: sorted_append) force+
qed simp

lemma mq_concat_sides:
  assumes "mq_inv th pq" and "i < 32"
  shows "\<forall>t\<in>set (concat (take i (queues pq))). prio (th t) < int i - 16"
    and "\<forall>t\<in>set (concat (drop (Suc i) (queues pq))). int i - 16 < prio (th t)"
proof -
  have len: "length (queues pq) = 32"
    and key: "\<And>j t. j < 32 \<Longrightarrow> t \<in> set (queues pq ! j) \<Longrightarrow> prio (th t) = int j - 16"
    using assms(1) by (auto simp: mq_inv_def)
  show "\<forall>t\<in>set (concat (take i (queues pq))). prio (th t) < int i - 16"
  proof
    fix t assume "t \<in> set (concat (take i (queues pq)))"
    then obtain j where "j < i" "t \<in> set (queues pq ! j)"
      using len by (auto simp: in_set_conv_nth [of _ "take i (queues pq)"])
    with key [of j t] assms(2) show "prio (th t) < int i - 16" by simp
  qed
  show "\<forall>t\<in>set (concat (drop (Suc i) (queues pq))). int i - 16 < prio (th t)"
  proof
    fix t assume "t \<in> set (concat (drop (Suc i) (queues pq)))"
    then obtain j where "j < 31 - i" "t \<in> set (queues pq ! (Suc i + j))"
      using len by (auto simp: in_set_conv_nth [of _ "drop (Suc i) (queues pq)"])
    with key [of "Suc i + j" t] show "int i - 16 < prio (th t)" by simp
  qed
qed

lemma mq_member:
  assumes "mq_inv th pq" and "t \<in> set (concat (queues pq))"
  shows "priority_bit (th t) < 32 \<and> t \<in> set (queues pq ! priority_bit (th t))"
proof -
  obtain i where "i < 32" "t \<in> set (queues pq ! i)"
    using assms by (auto simp: mq_inv_def in_set_conv_nth [of _ "queues pq"])
  moreover from this assms(1) have "prio (th t) = int i - 16"
    by (auto simp: mq_inv_def)
  ultimately show ?thesis by (simp add: priority_bit_def)
qed

lemma builtin_ctz_least:
  assumes "w \<noteq> 0"
  shows "builtin_ctz w < 32 \<and> bit w (builtin_ctz w) \<and> (\<forall>j<builtin_ctz w. \<not> bit w j)"
proof -
  from assms obtain n where "bit w n"
    by (auto simp: bit_eq_iff)
  then have "n < 32"
    using bit_imp_le_length [of w n] by simp
  with \<open>bit w n\<close> have "List.find (bit w) [0..<32] \<noteq> None"
    by (auto simp: find_None_iff)
  then obtain m where m: "List.find (bit w) [0..<32] = Some m"
    by auto
  then have "builtin_ctz w = m"
    by (simp add: builtin_ctz_def)
  with m show ?thesis
    by (auto simp: find_Some_iff)
qed

lemma mq_entries_add:
  assumes "mq_inv th pq" and "mq_prio th t"
  shows "concat (queues (z_priq_mq_add th t pq)) =
     insert_behind (\<lambda>t. prio (th t)) t (concat (queues pq))"
proof -
  let ?i = "priority_bit (th t)" and ?p = "\<lambda>t. prio (th t)"
  have i: "?i < length (queues pq)" "?i < 32" and p: "?p t = int ?i - 16"
    using assms priority_bit_eq [OF assms(2)] by (auto simp: mq_inv_def)
  have "\<forall>u\<in>set (concat (take ?i (queues pq)) @ queues pq ! ?i). ?p u \<le> ?p t"
    using mq_concat_sides(1) [OF assms(1) i(2)] assms(1) i(2) p by (auto simp: mq_inv_def) force
  moreover have "\<forall>u\<in>set (concat (drop (Suc ?i) (queues pq))). ?p t < ?p u"
    using mq_concat_sides(2) [OF assms(1) i(2)] p by simp
  ultimately show ?thesis
    by (simp add: z_priq_mq_add_def Let_def concat_update [OF i(1)] concat_split [OF i(1)]
        insert_behind_append [of "_ @ _", simplified] insert_behind_front)
qed

lemma mq_inv_add:
  assumes "mq_inv th pq" and "mq_prio th t" and "t \<notin> set (concat (queues pq))"
  shows "mq_inv th (z_priq_mq_add th t pq)"
proof -
  let ?i = "priority_bit (th t)"
  have i: "?i < 32" "int ?i - 16 = prio (th t)"
    using priority_bit_eq [OF assms(2)] by auto
  have "distinct (concat (queues (z_priq_mq_add th t pq)))"
    using assms by (simp add: mq_entries_add [OF assms(1,2)] mq_inv_def)
  with assms(1) i show ?thesis
    by (auto simp: mq_inv_def z_priq_mq_add_def Let_def nth_list_update)
qed

lemma mq_entries_remove:
  assumes "mq_inv th pq" and "t \<in> set (concat (queues pq))"
  shows "concat (queues (z_priq_mq_remove th t pq)) = remove1 t (concat (queues pq))"
proof -
  let ?i = "priority_bit (th t)"
  have i: "?i < length (queues pq)" "t \<in> set (queues pq ! ?i)"
    using mq_member [OF assms] assms(1) by (auto simp: mq_inv_def)
  have "t \<notin> set (concat (take ?i (queues pq)))"
    using assms(1) i(2) concat_split [OF i(1)] by (auto simp: mq_inv_def)
  then show ?thesis
    using i by (simp add: z_priq_mq_remove_def Let_def sys_dlist_remove_def concat_update [OF i(1)]
        concat_split [OF i(1)] remove1_append)
qed

lemma mq_inv_remove:
  assumes "mq_inv th pq" and "t \<in> set (concat (queues pq))"
  shows "mq_inv th (z_priq_mq_remove th t pq)"
proof -
  have i: "priority_bit (th t) < 32"
    using mq_member [OF assms] by simp
  have "distinct (concat (queues (z_priq_mq_remove th t pq)))"
    using assms by (simp add: mq_entries_remove mq_inv_def)
  with assms(1) i show ?thesis
    by (auto simp: mq_inv_def z_priq_mq_remove_def sys_dlist_remove_def Let_def nth_list_update
        dest: notin_set_remove1 split: if_splits)
qed

lemma mq_best:
  assumes "mq_inv th pq"
  shows "z_priq_mq_best pq = (case concat (queues pq) of [] \<Rightarrow> None | t # _ \<Rightarrow> Some t)"
proof (cases "bitmask pq = 0")
  case True
  with assms have "\<forall>q\<in>set (queues pq). q = []"
    by (auto simp: mq_inv_def in_set_conv_nth)
  then have "concat (queues pq) = []" by simp
  with True show ?thesis by (simp add: z_priq_mq_best_def del: concat_eq_Nil_conv Nil_eq_concat_conv)
next
  case False
  let ?i = "builtin_ctz (bitmask pq)"
  have i: "?i < 32" "queues pq ! ?i \<noteq> []" "\<forall>j<?i. queues pq ! j = []"
    using builtin_ctz_least [OF False] assms by (auto simp: mq_inv_def)
  have len: "?i < length (queues pq)"
    using i assms by (simp add: mq_inv_def)
  have "\<forall>q\<in>set (take ?i (queues pq)). q = []"
    using i(3) len by (auto simp: in_set_conv_nth)
  then have "concat (take ?i (queues pq)) = []" by simp
  then have "concat (queues pq) = queues pq ! ?i @ concat (drop (Suc ?i) (queues pq))"
    unfolding concat_split [OF len] by (simp only: append_Nil)
  with False i(2) show ?thesis
    by (cases "queues pq ! ?i") (simp_all add: z_priq_mq_best_def)
qed

interpretation mq: priority_queue "z_priq_mq_add th" "z_priq_mq_remove th" z_priq_mq_best
    "\<lambda>pq. concat (queues pq)" "mq_inv th" "\<lambda>t. prio (th t)" "mq_prio th" for th
proof unfold_locales
  fix q assume "mq_inv th q"
  then have "\<forall>i<length (queues q). \<forall>t\<in>set (queues q ! i). prio (th t) = int i + - 16"
    by (simp add: mq_inv_def)
  from conjunct1 [OF sorted_concat [OF this]] \<open>mq_inv th q\<close>
  show "sorted (map (\<lambda>t. prio (th t)) (concat (queues q))) \<and> distinct (concat (queues q))"
    by (simp add: mq_inv_def)
qed (simp_all add: mq_entries_add mq_inv_add mq_entries_remove mq_inv_remove mq_best
    del: set_concat)

subsection \<open>Contract of the queues\<close>

text \<open>
  C23: the array of lists with its bit mask is the list. On every well-formed state, adding, removing
  and looking up the best thread do the same on the array as on the list of its entries.
\<close>

theorem mq_refines_dumb:
  assumes "mq_inv th pq"
  shows "z_priq_mq_best pq = z_priq_dumb_best (concat (queues pq)) \<and>
     (mq_prio th t \<and> t \<notin> set (concat (queues pq)) \<longrightarrow>
        mq_inv th (z_priq_mq_add th t pq) \<and>
        concat (queues (z_priq_mq_add th t pq)) = z_priq_dumb_add th t (concat (queues pq))) \<and>
     (t \<in> set (concat (queues pq)) \<longrightarrow>
        mq_inv th (z_priq_mq_remove th t pq) \<and>
        concat (queues (z_priq_mq_remove th t pq)) = sys_dlist_remove t (concat (queues pq)))"
  using assms
  by (simp add: mq.best_entries dumb_best_hd mq.inv_add mq.entries_add dumb_add_insert
      mq.inv_remove mq.entries_remove sys_dlist_remove_def del: set_concat)

definition sample_threads :: "tid \<Rightarrow> thread" where
  "sample_threads t = \<lparr>thread_state = 0, prio_byte = (if t = 2 then 0xf8 else 5),
     sched_locked = 0, pended_on = None, swap_data = [], swap_word = 0, swap_return_value = 0\<rparr>"

lemma sample_prio:
  "prio (sample_threads 4) = 5" "prio (sample_threads 2) = -8" "prio (sample_threads 3) = 5"
  by (simp_all add: sample_threads_def prio_def)

theorem mq_refines_dumb_witness:
  "let pq = \<lparr>queues = replicate 32 [], bitmask = 0\<rparr>
   in concat (queues (z_priq_mq_add sample_threads 4 pq)) = [4]"
proof -
  let ?pq = "\<lparr>queues = replicate 32 [], bitmask = 0\<rparr>"
  have "mq_inv sample_threads ?pq"
    by (simp add: mq_inv_def)
  from mq_refines_dumb [OF this, of 4] show ?thesis
    by (simp add: mq_prio_def sample_prio Let_def)
qed

text \<open>
  The ready queue schedules by priority and is fair within a priority. Adding a thread to a
  well-formed list keeps it ordered; the best thread is then the added one exactly when it is more
  urgent than the best so far; and among the threads of one priority it is the last.
\<close>

lemma dumb_add_order:
  assumes "dumb_inv th pq" and "t \<notin> set pq"
  shows "dumb_inv th (z_priq_dumb_add th t pq) \<and>
     z_priq_dumb_best (z_priq_dumb_add th t pq) =
       (case z_priq_dumb_best pq of
          None \<Rightarrow> Some t | Some u \<Rightarrow> Some (if prio (th t) < prio (th u) then t else u)) \<and>
     filter (\<lambda>u. prio (th u) = prio (th t)) (z_priq_dumb_add th t pq) =
       filter (\<lambda>u. prio (th u) = prio (th t)) pq @ [t]"
  using dumb.inv_add [OF assms(1) _ assms(2)] dumb.best_add [OF assms(1) _ assms(2)]
    dumb.fifo_within_key [OF assms(1) _ assms(2)] by simp

end
