(* ===== verification/Timeout.thy ===== *)
theory Timeout
  imports Prelude
begin

text \<open>
  The timeout queue of \<open>kernel/timeout.c\<close>: a list of pending timeouts in the order they expire, each
  with the number of ticks between its expiry and that of the one before. A timeout is a number (the
  address of its \<open>struct _timeout\<close>); what \<open>z_clock_elapsed\<close> of the timer driver returns and what
  \<open>z_clock_set_timeout\<close> was last told are fields of the state. Ticks are 64-bit signed in the code
  and integers here.
\<close>

abbreviation K_TICKS_FOREVER :: int where "K_TICKS_FOREVER \<equiv> -1"
abbreviation K_FOREVER :: int where "K_FOREVER \<equiv> K_TICKS_FOREVER"
abbreviation K_NO_WAIT :: int where "K_NO_WAIT \<equiv> 0"
abbreviation MAX_WAIT :: int where "MAX_WAIT \<equiv> 0x7fffffff"

definition Z_TICK_ABS :: "int \<Rightarrow> int" where
  "Z_TICK_ABS t = K_TICKS_FOREVER - 1 - t"

type_synonym tlist = "(nat \<times> int) list"

record timeouts =
  timeout_list :: tlist
  curr_tick :: int
  announce_remaining :: int
  slice_ticks :: int
  clock_elapsed :: int
  clock_timeout :: int

fun remove_timeout :: "nat \<Rightarrow> tlist \<Rightarrow> tlist" where
  "remove_timeout to [] = []"
| "remove_timeout to ((t, d) # l) =
     (if t = to then (case l of [] \<Rightarrow> [] | (u, e) # l' \<Rightarrow> (u, e + d) # l')
      else (t, d) # remove_timeout to l)"

definition elapsed :: "timeouts \<Rightarrow> int" where
  "elapsed s = (if announce_remaining s = 0 then clock_elapsed s else 0)"

definition next_timeout :: "timeouts \<Rightarrow> int" where
  "next_timeout s =
     (let ret = (case timeout_list s of
                   [] \<Rightarrow> MAX_WAIT
                 | (t, d) # _ \<Rightarrow> min MAX_WAIT (max 0 (d - elapsed s)))
      in if slice_ticks s \<noteq> 0 \<and> slice_ticks s < ret then slice_ticks s else ret)"

text \<open>The loop of \<open>z_add_timeout\<close> that finds the place of a timeout and its distance there.\<close>

fun insert_timeout :: "nat \<Rightarrow> int \<Rightarrow> tlist \<Rightarrow> tlist" where
  "insert_timeout to dticks [] = [(to, dticks)]"
| "insert_timeout to dticks ((t, d) # l) =
     (if d > dticks then (to, dticks) # (t, d - dticks) # l
      else (t, d) # insert_timeout to (dticks - d) l)"

definition timeout_ticks :: "int \<Rightarrow> timeouts \<Rightarrow> int" where
  "timeout_ticks timeout s =
     (let ticks = timeout + 1
      in max 1 (if Z_TICK_ABS ticks \<ge> 0 then Z_TICK_ABS ticks - (curr_tick s + elapsed s)
                else ticks))"

definition z_add_timeout :: "nat \<Rightarrow> int \<Rightarrow> timeouts \<Rightarrow> timeouts" where
  "z_add_timeout to timeout s =
     (if timeout = K_FOREVER then s
      else let s' = s\<lparr>timeout_list :=
                 insert_timeout to (timeout_ticks timeout s + elapsed s) (timeout_list s)\<rparr>
           in if fst (hd (timeout_list s')) = to then s'\<lparr>clock_timeout := next_timeout s'\<rparr> else s')"

definition is_linked :: "nat \<Rightarrow> timeouts \<Rightarrow> bool" where
  "is_linked to s \<longleftrightarrow> to \<in> fst ` set (timeout_list s)"

definition z_abort_timeout :: "nat \<Rightarrow> timeouts \<Rightarrow> int \<times> timeouts" where
  "z_abort_timeout to s =
     (if is_linked to s then (0, s\<lparr>timeout_list := remove_timeout to (timeout_list s)\<rparr>)
      else (- EINVAL, s))"

fun ticks_until :: "nat \<Rightarrow> tlist \<Rightarrow> int" where
  "ticks_until to [] = 0"
| "ticks_until to ((t, d) # l) = (if to = t then d else d + ticks_until to l)"

definition timeout_rem :: "nat \<Rightarrow> timeouts \<Rightarrow> int" where
  "timeout_rem to s = (if \<not> is_linked to s then 0 else ticks_until to (timeout_list s) - elapsed s)"

definition z_timeout_remaining :: "nat \<Rightarrow> timeouts \<Rightarrow> int" where
  "z_timeout_remaining to s = timeout_rem to s"

definition z_timeout_expires :: "nat \<Rightarrow> timeouts \<Rightarrow> int" where
  "z_timeout_expires to s = curr_tick s + timeout_rem to s"

definition z_get_next_timeout_expiry :: "timeouts \<Rightarrow> int" where
  "z_get_next_timeout_expiry s = next_timeout s"

definition z_set_timeout_expiry :: "int \<Rightarrow> timeouts \<Rightarrow> timeouts" where
  "z_set_timeout_expiry ticks s =
     (let next_to = next_timeout s;
          sooner = (next_to = K_TICKS_FOREVER \<or> ticks < next_to);
          imminent = (next_to \<le> 1)
      in if \<not> imminent \<and> sooner then s\<lparr>clock_timeout := ticks\<rparr> else s)"

text \<open>
  \<open>z_clock_announce\<close> without the functions of the timeouts: \<open>announce_begin\<close> and \<open>announce_end\<close>
  are the code before and after its loop, \<open>announce_step\<close> is one turn of the loop up to the call of
  the timeout's function, which is returned. \<open>announce\<close> runs the loop with functions that do not
  touch the queue and returns the timeouts in the order they fire.
\<close>

definition announce_begin :: "int \<Rightarrow> timeouts \<Rightarrow> timeouts" where
  "announce_begin ticks s = s\<lparr>announce_remaining := ticks\<rparr>"

definition announce_step :: "timeouts \<Rightarrow> (nat \<times> timeouts) option" where
  "announce_step s =
     (case timeout_list s of
        [] \<Rightarrow> None
      | (t, d) # l \<Rightarrow>
          if d \<le> announce_remaining s
          then Some (t, s\<lparr>curr_tick := curr_tick s + d,
                         announce_remaining := announce_remaining s - d,
                         timeout_list := remove_timeout t ((t, 0) # l)\<rparr>)
          else None)"

definition announce_end :: "timeouts \<Rightarrow> timeouts" where
  "announce_end s =
     (let s1 = s\<lparr>timeout_list :=
            (case timeout_list s of [] \<Rightarrow> [] | (t, d) # l \<Rightarrow> (t, d - announce_remaining s) # l)\<rparr>;
          s2 = s1\<lparr>curr_tick := curr_tick s1 + announce_remaining s1, announce_remaining := 0\<rparr>
      in s2\<lparr>clock_timeout := next_timeout s2\<rparr>)"

lemma length_remove_head: "length (remove_timeout t ((t, d) # l)) = length l"
  by (cases l) auto

lemma announce_step_shorter:
  "announce_step s = Some (t, s') \<Longrightarrow> length (timeout_list s') < length (timeout_list s)"
  by (auto simp: announce_step_def length_remove_head simp del: remove_timeout.simps
      split: list.splits if_splits)

function announce_loop :: "timeouts \<Rightarrow> nat list \<times> timeouts" where
  "announce_loop s =
     (case announce_step s of
        None \<Rightarrow> ([], s)
      | Some (t, s') \<Rightarrow> (case announce_loop s' of (fired, s'') \<Rightarrow> (t # fired, s'')))"
  by pat_completeness auto
termination
  by (relation "measure (\<lambda>s. length (timeout_list s))") (auto dest: announce_step_shorter)

declare announce_loop.simps [simp del]

definition announce :: "int \<Rightarrow> timeouts \<Rightarrow> nat list \<times> timeouts" where
  "announce ticks s =
     (case announce_loop (announce_begin ticks s) of (fired, s') \<Rightarrow> (fired, announce_end s'))"

definition z_tick_get :: "timeouts \<Rightarrow> int" where
  "z_tick_get s = curr_tick s + clock_elapsed s"

definition z_timeout_end_calc :: "int \<Rightarrow> timeouts \<Rightarrow> int" where
  "z_timeout_end_calc timeout s =
     (if timeout = K_FOREVER then 2 ^ 64 - 1
      else if timeout = K_NO_WAIT then z_tick_get s
      else if Z_TICK_ABS timeout \<ge> 0 then Z_TICK_ABS timeout
      else z_tick_get s + max 1 timeout)"

subsection \<open>Expiry times\<close>

text \<open>
  The queue is a set of absolute deadlines: \<open>deadlines\<close> lists the timeouts with the number of ticks
  from now to their expiry. A queue is well formed when no timeout is in it twice and no distance
  is negative, so that the deadlines are in order.
\<close>

primrec deadlines :: "int \<Rightarrow> tlist \<Rightarrow> (nat \<times> int) list" where
  "deadlines base [] = []"
| "deadlines base (x # l) = (fst x, base + snd x) # deadlines (base + snd x) l"

definition tlist_inv :: "tlist \<Rightarrow> bool" where
  "tlist_inv l \<longleftrightarrow> distinct (map fst l) \<and> list_all (\<lambda>x. 0 \<le> snd x) l"

lemma fst_deadlines [simp]: "map fst (deadlines b l) = map fst l"
  by (induction l arbitrary: b) auto

lemma fst_set_deadlines [simp]: "fst ` set (deadlines b l) = fst ` set l"
  by (metis fst_deadlines list.set_map)

lemma in_deadlines: "(t, e) \<in> set (deadlines b l) \<Longrightarrow> t \<in> fst ` set l"
  by (metis fst_conv fst_set_deadlines image_eqI)

lemma deadlines_lower: "list_all (\<lambda>x. 0 \<le> snd x) l \<Longrightarrow> x \<in> set (deadlines b l) \<Longrightarrow> b \<le> snd x"
proof (induction l arbitrary: b)
  case (Cons y l)
  then show ?case by (auto, fastforce)
qed simp

lemma deadlines_sorted:
  "list_all (\<lambda>x. 0 \<le> snd x) l \<Longrightarrow> sorted (map snd (deadlines b l))"
  by (induction l arbitrary: b) (auto dest: deadlines_lower)

lemma deadlines_shift: "deadlines (b + c) l = map (\<lambda>(t, e). (t, e + c)) (deadlines b l)"
proof (induction l arbitrary: b)
  case (Cons x l)
  from Cons [of "b + snd x"] show ?case by (simp add: algebra_simps)
qed simp

lemma ticks_until_deadline:
  "distinct (map fst l) \<Longrightarrow> (t, e) \<in> set (deadlines b l) \<Longrightarrow> b + ticks_until t l = e"
proof (induction l arbitrary: b)
  case (Cons x l)
  obtain u d where x: "x = (u, d)" by (cases x)
  show ?case
  proof (cases "t = u")
    case True
    with Cons.prems x show ?thesis by (auto dest: in_deadlines)
  next
    case False
    with Cons.prems x Cons.IH [of "b + d"] show ?thesis by simp
  qed
qed simp

text \<open>Inserting keeps every other deadline and puts the new one behind the equal ones.\<close>

lemma deadlines_insert:
  "\<exists>xs ys. deadlines b l = xs @ ys \<and>
     deadlines b (insert_timeout to dt l) = xs @ (to, b + dt) # ys \<and>
     (\<forall>x\<in>set xs. list_all (\<lambda>x. 0 \<le> snd x) l \<longrightarrow> snd x \<le> b + dt)"
proof (induction to dt l arbitrary: b rule: insert_timeout.induct)
  case (1 to dticks)
  then show ?case by simp
next
  case (2 to dticks t d l)
  show ?case
  proof (cases "d > dticks")
    case True
    then show ?thesis
      by (intro exI [of _ "[]"] exI [of _ "deadlines b ((t, d) # l)"]) simp
  next
    case False
    with 2 [of "b + d"] obtain xs ys where IH: "deadlines (b + d) l = xs @ ys"
      "deadlines (b + d) (insert_timeout to (dticks - d) l) = xs @ (to, b + dticks) # ys"
      "\<forall>x\<in>set xs. list_all (\<lambda>x. 0 \<le> snd x) l \<longrightarrow> snd x \<le> b + dticks"
      by auto
    with False show ?thesis
      by (intro exI [of _ "(t, b + d) # xs"] exI [of _ ys]) auto
  qed
qed

lemma fst_set_insert [simp]: "fst ` set (insert_timeout to dt l) = insert to (fst ` set l)"
  by (induction to dt l rule: insert_timeout.induct) auto

lemma fst_set_remove: "fst ` set (remove_timeout to l) \<subseteq> fst ` set l"
  by (induction to l rule: remove_timeout.induct) (auto split: list.splits)

lemma tlist_inv_insert:
  "tlist_inv l \<Longrightarrow> to \<notin> fst ` set l \<Longrightarrow> 0 \<le> dt \<Longrightarrow> tlist_inv (insert_timeout to dt l)"
proof (induction to dt l rule: insert_timeout.induct)
  case (2 to dt t d l)
  show ?case
  proof (cases "d > dt")
    case True
    with 2 show ?thesis by (auto simp: tlist_inv_def)
  next
    case False
    with 2 have "tlist_inv (insert_timeout to (dt - d) l)"
      by (simp add: tlist_inv_def)
    with False 2 show ?thesis by (auto simp: tlist_inv_def)
  qed
qed (simp add: tlist_inv_def)

text \<open>Removing a timeout keeps every other deadline.\<close>

lemma deadlines_remove:
  "distinct (map fst l) \<Longrightarrow>
   deadlines b (remove_timeout to l) = filter (\<lambda>x. fst x \<noteq> to) (deadlines b l)"
proof (induction l arbitrary: b)
  case (Cons x l)
  obtain t d where x: "x = (t, d)" by (cases x)
  show ?case
  proof (cases "t = to")
    case True
    with Cons.prems x have "filter (\<lambda>x. fst x \<noteq> to) (deadlines (b + d) l) = deadlines (b + d) l"
      by (auto simp: filter_id_conv dest: in_deadlines)
    with x True show ?thesis
      by (cases l) (auto simp: algebra_simps)
  next
    case False
    with Cons x show ?thesis by simp
  qed
qed simp

lemma tlist_inv_remove: "tlist_inv l \<Longrightarrow> tlist_inv (remove_timeout to l)"
proof (induction l)
  case (Cons x l)
  obtain t d where x: "x = (t, d)" by (cases x)
  with Cons fst_set_remove [of to l] show ?case
    by (cases l) (auto simp: tlist_inv_def)
qed (simp add: tlist_inv_def)

subsection \<open>Announcing ticks\<close>

lemma remove_head_zero: "remove_timeout t ((t, 0) # l) = l"
  by (cases l) auto

lemma announce_step_None:
  assumes "announce_step s = None" and "tlist_inv (timeout_list s)"
    and "x \<in> set (deadlines b (timeout_list s))"
  shows "b + announce_remaining s < snd x"
proof -
  from assms obtain t d l where l: "timeout_list s = (t, d) # l" "announce_remaining s < d"
    by (auto simp: announce_step_def split: list.splits if_splits prod.splits)
  from assms(2) l have "list_all (\<lambda>x. 0 \<le> snd x) l"
    by (simp add: tlist_inv_def)
  with deadlines_lower [of l x "b + d"] assms(3) l show ?thesis by auto
qed

lemma announce_loop_fires:
  assumes "tlist_inv (timeout_list s)" and "announce_loop s = (fired, s')"
  shows "fired = map fst (filter (\<lambda>x. snd x \<le> b + announce_remaining s) (deadlines b (timeout_list s)))
    \<and> deadlines (b + announce_remaining s - announce_remaining s') (timeout_list s') =
        filter (\<lambda>x. b + announce_remaining s < snd x) (deadlines b (timeout_list s))
    \<and> curr_tick s' + announce_remaining s' = curr_tick s + announce_remaining s
    \<and> tlist_inv (timeout_list s')
    \<and> (\<forall>x\<in>set (deadlines 0 (timeout_list s')). announce_remaining s' < snd x)"
  using assms
proof (induction s arbitrary: b fired s' rule: announce_loop.induct)
  case (1 s)
  show ?case
  proof (cases "announce_step s")
    case None
    with 1(3) have eq: "fired = []" "s' = s"
      by (simp_all add: announce_loop.simps)
    have late: "\<And>b x. x \<in> set (deadlines b (timeout_list s)) \<Longrightarrow> b + announce_remaining s < snd x"
      using announce_step_None [OF None 1(2)] .
    then have "filter (\<lambda>x. snd x \<le> b + announce_remaining s) (deadlines b (timeout_list s)) = []"
      "filter (\<lambda>x. b + announce_remaining s < snd x) (deadlines b (timeout_list s)) =
         deadlines b (timeout_list s)"
      by (force simp: filter_empty_conv, simp add: filter_id_conv)
    with eq 1(2) late [of _ 0] show ?thesis by simp
  next
    case (Some r)
    then obtain t d l where l: "timeout_list s = (t, d) # l" "d \<le> announce_remaining s"
      and r: "r = (t, s\<lparr>curr_tick := curr_tick s + d,
        announce_remaining := announce_remaining s - d, timeout_list := l\<rparr>)"
      by (auto simp: announce_step_def remove_head_zero simp del: remove_timeout.simps
          split: list.splits if_splits prod.splits)
    let ?s = "snd r"
    obtain fired' where loop: "announce_loop ?s = (fired', s')" "fired = t # fired'"
      using 1(3) Some r by (auto simp: announce_loop.simps [of s] split: prod.splits)
    have "tlist_inv (timeout_list ?s)"
      using 1(2) l r by (simp add: tlist_inv_def)
    from 1(1) [OF Some, of t ?s, OF _ this loop(1), of "b + d"] r loop(2) l show ?thesis
      by simp
  qed
qed

lemma deadlines_advance:
  "deadlines b (case l of [] \<Rightarrow> [] | (t, d) # l' \<Rightarrow> (t, d - r) # l') = deadlines (b - r) l"
  by (cases l) (auto simp: algebra_simps)

subsection \<open>Contract of the timeout queue\<close>

definition timeouts_inv :: "timeouts \<Rightarrow> bool" where
  "timeouts_inv s \<longleftrightarrow>
     tlist_inv (timeout_list s) \<and> announce_remaining s = 0 \<and> 0 \<le> clock_elapsed s"

lemma rem_deadline:
  assumes "distinct (map fst (timeout_list s))" and "(t, e) \<in> set (deadlines 0 (timeout_list s))"
  shows "timeout_rem t s = e - elapsed s"
  using assms ticks_until_deadline [of "timeout_list s" t e 0] in_deadlines [OF assms(2)]
  by (simp add: timeout_rem_def is_linked_def)

lemma timeout_list_add:
  "timeout_list (z_add_timeout to n s) =
     (if n = K_FOREVER then timeout_list s
      else insert_timeout to (timeout_ticks n s + elapsed s) (timeout_list s))"
  by (simp add: z_add_timeout_def Let_def)

lemma elapsed_add [simp]: "elapsed (z_add_timeout to n s) = elapsed s"
  by (simp add: z_add_timeout_def elapsed_def Let_def)

lemma timeouts_inv_add:
  assumes "timeouts_inv s" and "\<not> is_linked to s"
  shows "timeouts_inv (z_add_timeout to n s)"
proof -
  have "0 \<le> timeout_ticks n s + elapsed s"
    using assms(1) by (simp add: timeout_ticks_def timeouts_inv_def elapsed_def Let_def max_def)
  then have "tlist_inv (timeout_list (z_add_timeout to n s))"
    using assms by (auto simp: timeout_list_add timeouts_inv_def is_linked_def intro: tlist_inv_insert)
  with assms(1) show ?thesis
    by (simp add: timeouts_inv_def z_add_timeout_def Let_def)
qed

lemma timeouts_inv_abort: "timeouts_inv s \<Longrightarrow> timeouts_inv (snd (z_abort_timeout to s))"
  by (simp add: timeouts_inv_def z_abort_timeout_def tlist_inv_remove)

lemma remaining_after_add:
  assumes inv: "timeouts_inv s" and "\<not> is_linked to s" and "n \<noteq> K_FOREVER"
  shows "z_timeout_remaining to (z_add_timeout to n s) = timeout_ticks n s"
    and "t \<noteq> to \<Longrightarrow> z_timeout_remaining t (z_add_timeout to n s) = z_timeout_remaining t s"
proof -
  let ?s = "z_add_timeout to n s" and ?dt = "timeout_ticks n s + elapsed s"
  have dist: "distinct (map fst (timeout_list s))" "distinct (map fst (timeout_list ?s))"
    using inv timeouts_inv_add [OF inv assms(2), of n] by (simp_all add: timeouts_inv_def tlist_inv_def)
  obtain xs ys where xy: "deadlines 0 (timeout_list s) = xs @ ys"
    "deadlines 0 (timeout_list ?s) = xs @ (to, ?dt) # ys"
    using deadlines_insert [of 0 "timeout_list s" to ?dt] assms(3) by (auto simp: timeout_list_add)
  show "z_timeout_remaining to ?s = timeout_ticks n s"
    using rem_deadline [OF dist(2), of to ?dt] xy(2) by (simp add: z_timeout_remaining_def)
  assume t: "t \<noteq> to"
  show "z_timeout_remaining t ?s = z_timeout_remaining t s"
  proof (cases "is_linked t s")
    case True
    then obtain e where "(t, e) \<in> set (deadlines 0 (timeout_list s))"
      unfolding is_linked_def by (metis fst_set_deadlines imageE prod.collapse)
    with rem_deadline [OF dist(1), of t e] rem_deadline [OF dist(2), of t e] xy show ?thesis
      by (simp add: z_timeout_remaining_def)
  next
    case False
    with t assms(3) show ?thesis
      by (simp add: z_timeout_remaining_def timeout_rem_def is_linked_def timeout_list_add)
  qed
qed

text \<open>
  A relative timeout of \<open>n\<close> ticks has \<open>n + 1\<close> ticks to go when it is added, whatever is pending
  and however far the timer is ahead of the last announcement; adding it changes the time left of
  no other timeout and keeps the queue well formed.
\<close>

lemma add_timeout_remaining:
  assumes "timeouts_inv s" and "\<not> is_linked to s" and "0 \<le> n"
  shows "z_timeout_remaining to (z_add_timeout to n s) = n + 1 \<and>
     (\<forall>t. t \<noteq> to \<longrightarrow> z_timeout_remaining t (z_add_timeout to n s) = z_timeout_remaining t s) \<and>
     timeouts_inv (z_add_timeout to n s)"
proof -
  have "n \<noteq> K_FOREVER" and "timeout_ticks n s = n + 1"
    using assms(3) by (simp_all add: timeout_ticks_def Z_TICK_ABS_def)
  with remaining_after_add [OF assms(1,2)] timeouts_inv_add [OF assms(1,2)] show ?thesis
    by simp
qed

definition sample_timeouts :: timeouts where
  "sample_timeouts = \<lparr>timeout_list = [(1, 5), (2, 3)], curr_tick = 100, announce_remaining = 0,
     slice_ticks = 0, clock_elapsed = 2, clock_timeout = 0\<rparr>"

text \<open>
  C24: announcing ticks fires exactly the timeouts that are due within them, in the order of their
  deadlines and among equal deadlines in the order they were added; the clock advances by the ticks
  and every other timeout keeps its deadline.
\<close>

theorem announce_fires_due:
  assumes "timeouts_inv s" and "0 \<le> ticks"
  shows "fst (announce ticks s) =
       map fst (filter (\<lambda>x. snd x \<le> ticks) (deadlines 0 (timeout_list s))) \<and>
     deadlines ticks (timeout_list (snd (announce ticks s))) =
       filter (\<lambda>x. ticks < snd x) (deadlines 0 (timeout_list s)) \<and>
     curr_tick (snd (announce ticks s)) = curr_tick s + ticks"
proof -
  obtain fired s' where l: "announce_loop (announce_begin ticks s) = (fired, s')"
    by (cases "announce_loop (announce_begin ticks s)")
  have "tlist_inv (timeout_list (announce_begin ticks s))"
    using assms(1) by (simp add: timeouts_inv_def announce_begin_def)
  note loop = announce_loop_fires [OF this l, of 0]
  have "deadlines ticks (timeout_list (announce_end s')) =
      deadlines (ticks - announce_remaining s') (timeout_list s')"
    by (simp add: announce_end_def Let_def deadlines_advance)
  with loop l show ?thesis
    by (simp add: announce_def announce_begin_def announce_end_def Let_def)
qed

theorem announce_fires_due_witness:
  "fst (announce 6 sample_timeouts) = [1] \<and> curr_tick (snd (announce 6 sample_timeouts)) = 106"
proof -
  have "timeouts_inv sample_timeouts"
    by (simp add: timeouts_inv_def tlist_inv_def sample_timeouts_def)
  from announce_fires_due [OF this, of 6] show ?thesis
    by (simp add: sample_timeouts_def)
qed

text \<open>The tick at which a timeout fires.\<close>

definition deadline_tick :: "nat \<Rightarrow> timeouts \<Rightarrow> int" where
  "deadline_tick to s = curr_tick s + ticks_until to (timeout_list s)"

lemma deadline_tick_expires:
  "is_linked to s \<Longrightarrow> deadline_tick to s = z_timeout_expires to s + elapsed s"
  by (simp add: deadline_tick_def z_timeout_expires_def timeout_rem_def)

lemma is_linked_add: "n \<noteq> K_FOREVER \<Longrightarrow> is_linked to (z_add_timeout to n s)"
  by (simp add: is_linked_def timeout_list_add)

text \<open>
  Absolute timeouts are encoded as \<open>Z_TICK_ABS t\<close>, and \<open>z_add_timeout\<close> decodes the value after it has
  added one to it.

  A timeout for the absolute tick \<open>t\<close> more than a tick away fires at tick \<open>t - 1\<close>, one tick
  before the one asked for and before the end \<open>z_timeout_end_calc\<close> computes for the same value;
  \<open>z_timeout_expires\<close> reports a tick that is earlier still by the ticks not yet announced.
\<close>

lemma absolute_timeout_early:
  assumes "timeouts_inv s" and "\<not> is_linked to s" and "z_tick_get s + 2 \<le> t" and "1 \<le> t"
  shows "deadline_tick to (z_add_timeout to (Z_TICK_ABS t) s) = t - 1 \<and>
     z_timeout_end_calc (Z_TICK_ABS t) s = t \<and>
     z_timeout_expires to (z_add_timeout to (Z_TICK_ABS t) s) = t - 1 - clock_elapsed s"
proof -
  have n: "Z_TICK_ABS t \<noteq> K_FOREVER" "Z_TICK_ABS t \<noteq> K_NO_WAIT" "Z_TICK_ABS (Z_TICK_ABS t) = t"
    using assms(4) by (simp_all add: Z_TICK_ABS_def)
  have e: "elapsed s = clock_elapsed s"
    using assms(1) by (simp add: elapsed_def timeouts_inv_def)
  have "timeout_ticks (Z_TICK_ABS t) s = t - 1 - (curr_tick s + elapsed s)"
    using assms(3,4) e by (simp add: timeout_ticks_def Z_TICK_ABS_def z_tick_get_def)
  moreover have "curr_tick (z_add_timeout to (Z_TICK_ABS t) s) = curr_tick s"
    by (simp add: z_add_timeout_def Let_def)
  ultimately show ?thesis
    using remaining_after_add(1) [OF assms(1,2) n(1)] n assms(4) e
      deadline_tick_expires [OF is_linked_add [OF n(1)], of to s]
    by (simp add: z_timeout_expires_def z_timeout_remaining_def z_timeout_end_calc_def)
qed

end
