(* ===== verification/Sched.thy ===== *)
theory Sched
  imports Priq Timeout
begin

text \<open>
  The scheduler of \<open>kernel/sched.c\<close> in the configuration of the program: one processor, the list as
  ready queue and wait queue, time slicing, preemption, no meta-interrupt threads, and the context
  switch of ARM that is not atomic with pending a thread. The kernel's static data is the record
  \<open>kernel\<close>; the timeout of a thread is the entry with the thread's number in the timeout queue.
  A context switch makes the thread in \<open>cache\<close> the current one. \<open>in_isr\<close> and \<open>irqs_on\<close> are what
  \<open>arch_is_in_isr\<close> and \<open>arch_irq_unlocked\<close> answer. The locks around the operations make each of
  them one step and are not part of the state.
\<close>

record kernel =
  thrd :: "tid \<Rightarrow> thread"
  runq :: "tid list"
  cache :: tid
  current :: tid
  idle_thread :: tid
  pending_abort :: "tid option"
  waitqs :: "wqid \<Rightarrow> tid list"
  tmo :: timeouts
  pending_current :: "tid option"
  slice_time :: int
  slice_max_prio :: int
  in_isr :: bool
  irqs_on :: bool

definition upd_thread :: "tid \<Rightarrow> (thread \<Rightarrow> thread) \<Rightarrow> kernel \<Rightarrow> kernel" where
  "upd_thread t f k = k\<lparr>thrd := (thrd k)(t := f (thrd k t))\<rparr>"

definition z_is_thread_timeout_active :: "kernel \<Rightarrow> tid \<Rightarrow> bool" where
  "z_is_thread_timeout_active k t \<longleftrightarrow> is_linked t (tmo k)"

definition z_is_thread_ready :: "kernel \<Rightarrow> tid \<Rightarrow> bool" where
  "z_is_thread_ready k t \<longleftrightarrow>
     \<not> (z_is_thread_prevented_from_running (thrd k t) \<or> z_is_thread_timeout_active k t)"

definition z_is_idle_thread_object :: "kernel \<Rightarrow> tid \<Rightarrow> bool" where
  "z_is_idle_thread_object k t \<longleftrightarrow> t = idle_thread k"

definition should_preempt :: "kernel \<Rightarrow> tid \<Rightarrow> bool \<Rightarrow> bool" where
  "should_preempt k t preempt_ok \<longleftrightarrow>
     preempt_ok \<or> z_is_thread_prevented_from_running (thrd k (current k)) \<or>
     z_is_thread_timeout_active k t \<or> is_preempt (thrd k (current k))"

definition next_up :: "kernel \<Rightarrow> tid \<times> kernel" where
  "next_up k =
     (if pending_abort k \<noteq> None then (idle_thread k, k)
      else let k' = (if thread_state (thrd k (current k)) AND THREAD_ABORTING \<noteq> 0
                     then upd_thread (current k) (z_set_thread_states THREAD_DEAD) k else k)
           in (case z_priq_dumb_best (runq k) of Some t \<Rightarrow> t | None \<Rightarrow> idle_thread k, k'))"

definition z_reset_time_slice :: "kernel \<Rightarrow> kernel" where
  "z_reset_time_slice k =
     (if slice_time k \<noteq> 0
      then k\<lparr>tmo := z_set_timeout_expiry (slice_time k)
             ((tmo k)\<lparr>slice_ticks := slice_time k + clock_elapsed (tmo k)\<rparr>)\<rparr>
      else k)"

definition update_cache :: "bool \<Rightarrow> kernel \<Rightarrow> kernel" where
  "update_cache preempt_ok k =
     (case next_up k of (t, k1) \<Rightarrow>
        if should_preempt k1 t preempt_ok
        then (if t \<noteq> current k1 then z_reset_time_slice k1 else k1)\<lparr>cache := t\<rparr>
        else k1\<lparr>cache := current k1\<rparr>)"

definition priq_run_add :: "tid \<Rightarrow> kernel \<Rightarrow> kernel" where
  "priq_run_add t k = k\<lparr>runq := z_priq_dumb_add (thrd k) t (runq k)\<rparr>"

definition priq_run_remove :: "tid \<Rightarrow> kernel \<Rightarrow> kernel" where
  "priq_run_remove t k =
     (if t = current k \<and> z_is_thread_prevented_from_running (thrd k t) then k
      else k\<lparr>runq := sys_dlist_remove t (runq k)\<rparr>)"

definition move_thread_to_end_of_prio_q :: "tid \<Rightarrow> kernel \<Rightarrow> kernel" where
  "move_thread_to_end_of_prio_q t k =
     (let k1 = (if z_is_thread_queued (thrd k t) then priq_run_remove t k else k);
          k2 = upd_thread t z_mark_thread_as_queued (priq_run_add t k1)
      in update_cache (t = current k2) k2)"

definition sliceable :: "kernel \<Rightarrow> tid \<Rightarrow> bool" where
  "sliceable k t \<longleftrightarrow>
     is_preempt (thrd k t) \<and> \<not> z_is_thread_prevented_from_running (thrd k t) \<and>
     \<not> prio (thrd k t) < slice_max_prio k \<and> \<not> z_is_idle_thread_object k t"

definition z_time_slice :: "int \<Rightarrow> kernel \<Rightarrow> kernel" where
  "z_time_slice ticks k =
     (if pending_current k = Some (current k) then z_reset_time_slice k
      else let k1 = k\<lparr>pending_current := None\<rparr>
           in if slice_time k1 \<noteq> 0 \<and> sliceable k1 (current k1)
              then if ticks \<ge> slice_ticks (tmo k1)
                   then z_reset_time_slice (move_thread_to_end_of_prio_q (current k1) k1)
                   else k1\<lparr>tmo := (tmo k1)\<lparr>slice_ticks := slice_ticks (tmo k1) - ticks\<rparr>\<rparr>
              else k1\<lparr>tmo := (tmo k1)\<lparr>slice_ticks := 0\<rparr>\<rparr>)"

definition ready_thread :: "tid \<Rightarrow> kernel \<Rightarrow> kernel" where
  "ready_thread t k =
     (if z_is_thread_ready k t
      then update_cache False (upd_thread t z_mark_thread_as_queued (priq_run_add t k))
      else k)"

definition z_ready_thread :: "tid \<Rightarrow> kernel \<Rightarrow> kernel" where
  "z_ready_thread t k = ready_thread t k"

definition z_swap :: "kernel \<Rightarrow> kernel" where
  "z_swap k = (upd_thread (current k) (\<lambda>t. t\<lparr>swap_return_value := - EAGAIN\<rparr>) k)\<lparr>current := cache k\<rparr>"

definition resched :: "kernel \<Rightarrow> bool" where
  "resched k \<longleftrightarrow> irqs_on k \<and> \<not> in_isr k"

definition need_swap :: "kernel \<Rightarrow> bool" where
  "need_swap k \<longleftrightarrow> cache k \<noteq> current k"

definition z_reschedule :: "kernel \<Rightarrow> kernel" where
  "z_reschedule k = (if resched k \<and> need_swap k then z_swap k else k)"

definition z_reschedule_unlocked :: "kernel \<Rightarrow> kernel" where
  "z_reschedule_unlocked k = (if resched k then z_swap k else k)"

definition z_sched_start :: "tid \<Rightarrow> kernel \<Rightarrow> kernel" where
  "z_sched_start t k =
     (if z_has_thread_started (thrd k t) then k
      else z_reschedule (ready_thread t (upd_thread t z_mark_thread_as_started k)))"

definition z_abort_thread_timeout :: "tid \<Rightarrow> kernel \<Rightarrow> int \<times> kernel" where
  "z_abort_thread_timeout t k =
     (case z_abort_timeout t (tmo k) of (r, m) \<Rightarrow> (r, k\<lparr>tmo := m\<rparr>))"

definition z_add_thread_timeout :: "tid \<Rightarrow> int \<Rightarrow> kernel \<Rightarrow> kernel" where
  "z_add_thread_timeout t ticks k = k\<lparr>tmo := z_add_timeout t ticks (tmo k)\<rparr>"

definition z_impl_k_thread_suspend :: "tid \<Rightarrow> kernel \<Rightarrow> kernel" where
  "z_impl_k_thread_suspend t k =
     (let k1 = snd (z_abort_thread_timeout t k);
          k2 = (if z_is_thread_queued (thrd k1 t)
                then upd_thread t z_mark_thread_as_not_queued (priq_run_remove t k1) else k1);
          k3 = upd_thread t z_mark_thread_as_suspended k2;
          k4 = update_cache (t = current k3) k3
      in if t = current k4 then z_reschedule_unlocked k4 else k4)"

definition z_impl_k_thread_resume :: "tid \<Rightarrow> kernel \<Rightarrow> kernel" where
  "z_impl_k_thread_resume t k =
     z_reschedule (ready_thread t (upd_thread t z_mark_thread_as_not_suspended k))"

definition unready_thread :: "tid \<Rightarrow> kernel \<Rightarrow> kernel" where
  "unready_thread t k =
     (let k1 = (if z_is_thread_queued (thrd k t)
                then upd_thread t z_mark_thread_as_not_queued (priq_run_remove t k) else k)
      in update_cache (t = current k1) k1)"

definition add_to_waitq_locked :: "tid \<Rightarrow> wqid option \<Rightarrow> kernel \<Rightarrow> kernel" where
  "add_to_waitq_locked t wait_q k =
     (let k1 = upd_thread t z_mark_thread_as_pending (unready_thread t k)
      in case wait_q of
           None \<Rightarrow> k1
         | Some w \<Rightarrow>
             let k2 = upd_thread t (\<lambda>x. x\<lparr>pended_on := Some w\<rparr>) k1
             in k2\<lparr>waitqs := (waitqs k2)(w := z_priq_dumb_add (thrd k2) t (waitqs k2 w))\<rparr>)"

definition add_thread_timeout :: "tid \<Rightarrow> int \<Rightarrow> kernel \<Rightarrow> kernel" where
  "add_thread_timeout t timeout k =
     (if timeout \<noteq> K_FOREVER then z_add_thread_timeout t timeout k else k)"

definition pend :: "tid \<Rightarrow> wqid option \<Rightarrow> int \<Rightarrow> kernel \<Rightarrow> kernel" where
  "pend t wait_q timeout k = add_thread_timeout t timeout (add_to_waitq_locked t wait_q k)"

definition z_find_first_thread_to_unpend :: "wqid \<Rightarrow> kernel \<Rightarrow> tid option" where
  "z_find_first_thread_to_unpend w k = z_priq_dumb_best (waitqs k w)"

definition unpend_thread_no_timeout :: "tid \<Rightarrow> kernel \<Rightarrow> kernel" where
  "unpend_thread_no_timeout t k =
     (case pended_on (thrd k t) of
        None \<Rightarrow> k
      | Some w \<Rightarrow>
          upd_thread t (\<lambda>x. (z_mark_thread_as_not_pending x)\<lparr>pended_on := None\<rparr>)
            (k\<lparr>waitqs := (waitqs k)(w := sys_dlist_remove t (waitqs k w))\<rparr>))"

definition z_unpend1_no_timeout :: "wqid \<Rightarrow> kernel \<Rightarrow> tid option \<times> kernel" where
  "z_unpend1_no_timeout w k =
     (case z_find_first_thread_to_unpend w k of
        None \<Rightarrow> (None, k)
      | Some t \<Rightarrow> (Some t, unpend_thread_no_timeout t k))"

definition z_unpend_first_thread :: "wqid \<Rightarrow> kernel \<Rightarrow> tid option \<times> kernel" where
  "z_unpend_first_thread w k =
     (case z_unpend1_no_timeout w k of
        (None, k1) \<Rightarrow> (None, k1)
      | (Some t, k1) \<Rightarrow> (Some t, snd (z_abort_thread_timeout t k1)))"

definition z_unpend_thread :: "tid \<Rightarrow> kernel \<Rightarrow> kernel" where
  "z_unpend_thread t k = snd (z_abort_thread_timeout t (unpend_thread_no_timeout t k))"

definition z_thread_timeout :: "tid \<Rightarrow> kernel \<Rightarrow> kernel" where
  "z_thread_timeout t k =
     (let k1 = (if pended_on (thrd k t) \<noteq> None then unpend_thread_no_timeout t k else k)
      in ready_thread t (upd_thread t
           (\<lambda>x. z_mark_thread_as_not_suspended (z_mark_thread_as_started x)) k1))"

definition z_pend_curr :: "wqid \<Rightarrow> int \<Rightarrow> kernel \<Rightarrow> kernel" where
  "z_pend_curr w timeout k =
     (let k1 = k\<lparr>pending_current := Some (current k)\<rparr>
      in z_swap (pend (current k1) (Some w) timeout k1))"

definition arch_thread_return_value_set :: "tid \<Rightarrow> int \<Rightarrow> kernel \<Rightarrow> kernel" where
  "arch_thread_return_value_set t v k = upd_thread t (\<lambda>x. x\<lparr>swap_return_value := v\<rparr>) k"

definition z_set_prio :: "tid \<Rightarrow> u8 \<Rightarrow> kernel \<Rightarrow> bool \<times> kernel" where
  "z_set_prio t p k =
     (let need_sched = z_is_thread_ready k t;
          set = upd_thread t (\<lambda>x. x\<lparr>prio_byte := p\<rparr>)
      in (need_sched,
          if need_sched then update_cache True (priq_run_add t (set (priq_run_remove t k)))
          else set k))"

definition z_thread_priority_set :: "tid \<Rightarrow> u8 \<Rightarrow> kernel \<Rightarrow> kernel" where
  "z_thread_priority_set t p k =
     (case z_set_prio t p k of (need_sched, k1) \<Rightarrow>
        if need_sched \<and> sched_locked (thrd k1 (current k1)) = 0 then z_reschedule_unlocked k1
        else k1)"

definition k_sched_lock :: "kernel \<Rightarrow> kernel" where
  "k_sched_lock k = upd_thread (current k) (\<lambda>t. t\<lparr>sched_locked := sched_locked t - 1\<rparr>) k"

definition k_sched_unlock :: "kernel \<Rightarrow> kernel" where
  "k_sched_unlock k =
     z_reschedule_unlocked (update_cache False
       (upd_thread (current k) (\<lambda>t. t\<lparr>sched_locked := sched_locked t + 1\<rparr>) k))"

definition z_impl_k_yield :: "kernel \<Rightarrow> kernel" where
  "z_impl_k_yield k =
     z_swap (if z_is_idle_thread_object k (current k) then k
             else update_cache True (upd_thread (current k) z_mark_thread_as_queued
                    (priq_run_add (current k) (priq_run_remove (current k) k))))"

text \<open>The part of \<open>z_tick_sleep\<close> up to the context switch.\<close>

definition z_tick_sleep :: "int \<Rightarrow> kernel \<Rightarrow> kernel" where
  "z_tick_sleep ticks k =
     (if ticks = 0 then z_impl_k_yield k
      else let k1 = k\<lparr>pending_current := Some (current k)\<rparr>;
               k2 = z_add_thread_timeout (current k1) ticks (unready_thread (current k1) k1)
           in z_swap (upd_thread (current k1) z_mark_thread_as_suspended k2))"

definition z_impl_k_wakeup :: "tid \<Rightarrow> kernel \<Rightarrow> kernel" where
  "z_impl_k_wakeup t k =
     (if z_is_thread_pending (thrd k t) then k
      else case z_abort_thread_timeout t k of (r, k1) \<Rightarrow>
        if r < 0 \<and> thread_state (thrd k1 t) \<noteq> THREAD_SUSPENDED then k1
        else let k2 = z_ready_thread t (upd_thread t z_mark_thread_as_not_suspended k1)
             in if \<not> in_isr k2 then z_reschedule_unlocked k2 else k2)"

lemma upd_thread_tmo: "tmo (upd_thread t f k) = tmo k"
  by (simp add: upd_thread_def)

lemma update_cache_timeouts: "timeout_list (tmo (update_cache ok k)) = timeout_list (tmo k)"
  by (auto simp: update_cache_def next_up_def z_reset_time_slice_def z_set_timeout_expiry_def
      upd_thread_tmo Let_def split: option.splits)

lemma z_thread_timeout_timeouts: "timeout_list (tmo (z_thread_timeout t k)) = timeout_list (tmo k)"
  by (auto simp: z_thread_timeout_def ready_thread_def update_cache_timeouts upd_thread_tmo
      priq_run_add_def unpend_thread_no_timeout_def Let_def split: option.splits)

text \<open>
  \<open>z_clock_announce\<close> with the timeouts of threads: the loop calls \<open>z_thread_timeout\<close> for every timeout
  that is due.
\<close>

function announce_threads :: "kernel \<Rightarrow> kernel" where
  "announce_threads k =
     (case announce_step (tmo k) of
        None \<Rightarrow> k
      | Some (t, m) \<Rightarrow> announce_threads (z_thread_timeout t (k\<lparr>tmo := m\<rparr>)))"
  by pat_completeness auto
termination
  by (relation "measure (\<lambda>k. length (timeout_list (tmo k)))")
     (auto simp: z_thread_timeout_timeouts dest: announce_step_shorter)

declare announce_threads.simps [simp del]

definition z_clock_announce :: "int \<Rightarrow> kernel \<Rightarrow> kernel" where
  "z_clock_announce ticks k =
     (let k1 = z_time_slice ticks k;
          k2 = announce_threads (k1\<lparr>tmo := announce_begin ticks (tmo k1)\<rparr>)
      in k2\<lparr>tmo := announce_end (tmo k2)\<rparr>)"

subsection \<open>Invariant\<close>

text \<open>
  The ready queue is ordered and holds exactly the threads marked as queued, which are all ready to
  run; a wait queue holds exactly the threads that are pended on it; the idle thread is always ready
  and never queued. A thread in a queue or with a pending timeout is not being aborted.
\<close>

definition sched_inv :: "kernel \<Rightarrow> bool" where
  "sched_inv k \<longleftrightarrow>
     dumb_inv (thrd k) (runq k) \<and>
     (\<forall>t. t \<in> set (runq k) \<longleftrightarrow> z_is_thread_queued (thrd k t)) \<and>
     (\<forall>t\<in>insert (idle_thread k) (set (runq k)).
        z_is_thread_ready k t \<and> \<not> bit (thread_state (thrd k t)) 5) \<and>
     idle_thread k \<notin> set (runq k) \<and>
     (\<forall>w. dumb_inv (thrd k) (waitqs k w)) \<and>
     (\<forall>t w. t \<in> set (waitqs k w) \<longleftrightarrow> pended_on (thrd k t) = Some w) \<and>
     (\<forall>t. pended_on (thrd k t) \<noteq> None \<longrightarrow>
        z_is_thread_pending (thrd k t) \<and> \<not> bit (thread_state (thrd k t)) 5) \<and>
     (\<forall>t. is_linked t (tmo k) \<longrightarrow> \<not> bit (thread_state (thrd k t)) 5) \<and>
     tlist_inv (timeout_list (tmo k)) \<and> 0 \<le> clock_elapsed (tmo k)"

lemma sched_inv_waitq: "sched_inv k \<Longrightarrow> dumb_inv (thrd k) (waitqs k w)"
  by (simp add: sched_inv_def)

text \<open>The thread the ready queue puts first.\<close>

fun first_or :: "tid \<Rightarrow> tid list \<Rightarrow> tid" where
  "first_or idle [] = idle"
| "first_or idle (t # pq) = t"

definition first_ready :: "kernel \<Rightarrow> tid" where
  "first_ready k = first_or (idle_thread k) (runq k)"

text \<open>
  The cache holds that thread, unless the current thread can run and is not preemptible. \<open>lost\<close> is
  the set of threads that are ready to run but in no queue.
\<close>

definition cache_inv :: "kernel \<Rightarrow> bool" where
  "cache_inv k \<longleftrightarrow> pending_abort k = None \<longrightarrow>
     cache k = first_ready k \<or>
     (cache k = current k \<and> \<not> z_is_thread_prevented_from_running (thrd k (current k)) \<and>
      \<not> is_preempt (thrd k (current k)))"

definition lost :: "kernel \<Rightarrow> tid set" where
  "lost k = {t. z_is_thread_ready k t \<and> \<not> z_is_thread_queued (thrd k t) \<and> t \<noteq> idle_thread k}"

subsection \<open>Frame lemmas\<close>

lemma upd_thread_simps [simp]:
  "thrd (upd_thread t f k) = (thrd k)(t := f (thrd k t))" "runq (upd_thread t f k) = runq k"
  "cache (upd_thread t f k) = cache k" "current (upd_thread t f k) = current k"
  "idle_thread (upd_thread t f k) = idle_thread k"
  "pending_abort (upd_thread t f k) = pending_abort k" "waitqs (upd_thread t f k) = waitqs k"
  "tmo (upd_thread t f k) = tmo k" "slice_time (upd_thread t f k) = slice_time k"
  "in_isr (upd_thread t f k) = in_isr k" "irqs_on (upd_thread t f k) = irqs_on k"
  by (simp_all add: upd_thread_def)

lemma dumb_inv_cong:
  "(\<And>t. t \<in> set pq \<Longrightarrow> prio (th t) = prio (th' t)) \<Longrightarrow> dumb_inv th pq = dumb_inv th' pq"
  by (simp add: dumb_inv_def cong: map_cong)

lemma z_set_timeout_expiry_frame [simp]:
  "timeout_list (z_set_timeout_expiry n s) = timeout_list s"
  "clock_elapsed (z_set_timeout_expiry n s) = clock_elapsed s"
  "announce_remaining (z_set_timeout_expiry n s) = announce_remaining s"
  "curr_tick (z_set_timeout_expiry n s) = curr_tick s"
  by (simp_all add: z_set_timeout_expiry_def Let_def)

text \<open>Two kernels that differ in the cache, the time slice and the programmed timer only.\<close>

definition same_threads :: "kernel \<Rightarrow> kernel \<Rightarrow> bool" where
  "same_threads k k' \<longleftrightarrow>
     thrd k = thrd k' \<and> runq k = runq k' \<and> current k = current k' \<and>
     idle_thread k = idle_thread k' \<and> pending_abort k = pending_abort k' \<and> waitqs k = waitqs k' \<and>
     timeout_list (tmo k) = timeout_list (tmo k') \<and> clock_elapsed (tmo k) = clock_elapsed (tmo k') \<and>
     in_isr k = in_isr k' \<and> irqs_on k = irqs_on k'"

lemma same_threads_refl [simp]: "same_threads k k"
  by (simp add: same_threads_def)

lemma same_threads_ready: "same_threads k k' \<Longrightarrow> z_is_thread_ready k t = z_is_thread_ready k' t"
  by (simp add: same_threads_def z_is_thread_ready_def z_is_thread_timeout_active_def is_linked_def)

lemma same_threads_inv: "same_threads k k' \<Longrightarrow> sched_inv k = sched_inv k'"
  using same_threads_ready [of k k'] by (simp add: sched_inv_def same_threads_def is_linked_def)

lemma same_threads_lost: "same_threads k k' \<Longrightarrow> lost k = lost k'"
  using same_threads_ready [of k k'] by (simp add: lost_def same_threads_def)

lemma reset_time_slice_same [simp]: "same_threads (z_reset_time_slice k) k"
  by (simp add: same_threads_def z_reset_time_slice_def)

subsection \<open>The cache\<close>

text \<open>The current thread with the mark \<open>next_up\<close> puts on it when it is being aborted.\<close>

definition reaped :: "kernel \<Rightarrow> kernel" where
  "reaped k = (if pending_abort k = None \<and> bit (thread_state (thrd k (current k))) 5
               then upd_thread (current k) (z_set_thread_states THREAD_DEAD) k else k)"

lemma reaped_simps [simp]:
  "runq (reaped k) = runq k" "current (reaped k) = current k" "waitqs (reaped k) = waitqs k"
  "idle_thread (reaped k) = idle_thread k" "pending_abort (reaped k) = pending_abort k"
  "tmo (reaped k) = tmo k" "slice_time (reaped k) = slice_time k"
  "in_isr (reaped k) = in_isr k" "irqs_on (reaped k) = irqs_on k"
  by (simp_all add: reaped_def)

lemma next_up_eq:
  "next_up k = (if pending_abort k \<noteq> None then (idle_thread k, k) else (first_ready k, reaped k))"
  by (simp add: next_up_def first_ready_def reaped_def dumb_best_hd mask_bits split: list.splits)

lemma reaped_bits:
  "n < 8 \<Longrightarrow> bit (thread_state (thrd (reaped k) t)) n \<longleftrightarrow>
     bit (thread_state (thrd k t)) n \<or>
     (n = 3 \<and> t = current k \<and> pending_abort k = None \<and> bit (thread_state (thrd k t)) 5)"
  by (auto simp: reaped_def mark_bits)

lemma reaped_fields [simp]:
  "prio (thrd (reaped k) t) = prio (thrd k t)" "pended_on (thrd (reaped k) t) = pended_on (thrd k t)"
  "swap_data (thrd (reaped k) t) = swap_data (thrd k t)"
  "swap_word (thrd (reaped k) t) = swap_word (thrd k t)"
  "swap_return_value (thrd (reaped k) t) = swap_return_value (thrd k t)"
  "sched_locked (thrd (reaped k) t) = sched_locked (thrd k t)"
  by (simp_all add: reaped_def)

lemma is_preempt_reaped [simp]: "is_preempt (thrd (reaped k) t) = is_preempt (thrd k t)"
  by (simp add: reaped_def)

lemma reaped_ready:
  "z_is_thread_ready (reaped k) t \<longleftrightarrow> z_is_thread_ready k t \<and>
     \<not> (t = current k \<and> pending_abort k = None \<and> bit (thread_state (thrd k t)) 5)"
  by (auto simp: z_is_thread_ready_def z_is_thread_timeout_active_def prevented_bits reaped_bits)

lemma reaped_queued [simp]: "z_is_thread_queued (thrd (reaped k) t) = z_is_thread_queued (thrd k t)"
  by (simp add: queued_bit reaped_bits)

lemma sched_inv_reaped: "sched_inv k \<Longrightarrow> sched_inv (reaped k)"
  using dumb_inv_cong [of _ "thrd (reaped k)" "thrd k"]
  by (auto simp: sched_inv_def reaped_ready reaped_bits pending_bit)

lemma update_cache_eq:
  "\<exists>k'. same_threads k' (reaped k) \<and> update_cache ok k = k' \<and>
     (pending_abort k = None \<longrightarrow>
        cache k' = (if should_preempt (reaped k) (first_ready k) ok then first_ready k else current k))"
proof -
  have r: "pending_abort k \<noteq> None \<Longrightarrow> reaped k = k"
    by (auto simp: reaped_def)
  show ?thesis
    using reset_time_slice_same [of "reaped k"] r
    by (auto simp: update_cache_def next_up_eq same_threads_def)
qed

lemma update_cache_same: "same_threads (update_cache ok k) (reaped k)"
  using update_cache_eq [of k ok] by auto

lemma update_cache_simps [simp]:
  "runq (update_cache ok k) = runq k" "current (update_cache ok k) = current k"
  "waitqs (update_cache ok k) = waitqs k" "idle_thread (update_cache ok k) = idle_thread k"
  "pending_abort (update_cache ok k) = pending_abort k"
  "timeout_list (tmo (update_cache ok k)) = timeout_list (tmo k)"
  "in_isr (update_cache ok k) = in_isr k" "irqs_on (update_cache ok k) = irqs_on k"
  "thrd (update_cache ok k) = thrd (reaped k)"
  using update_cache_same [of ok k] by (auto simp: same_threads_def)

lemma sched_inv_update_cache: "sched_inv k \<Longrightarrow> sched_inv (update_cache ok k)"
  using same_threads_inv [OF update_cache_same] sched_inv_reaped by blast

lemma lost_update_cache: "lost (update_cache ok k) \<subseteq> lost k"
  using same_threads_lost [OF update_cache_same [of ok k]] by (auto simp: lost_def reaped_ready)

lemma first_ready_update_cache [simp]: "first_ready (update_cache ok k) = first_ready k"
  by (simp add: first_ready_def)

lemma cache_update_cache:
  "pending_abort k = None \<Longrightarrow> cache (update_cache ok k) =
     (if should_preempt (reaped k) (first_ready k) ok then first_ready k else current k)"
  using update_cache_eq [of k ok] by auto

lemma cache_inv_update_cache [simp]: "cache_inv (update_cache ok k)"
  by (simp add: cache_inv_def cache_update_cache should_preempt_def)

lemma cache_first_ready:
  "pending_abort k = None \<Longrightarrow> ok \<Longrightarrow> cache (update_cache ok k) = first_ready k"
  by (simp add: cache_update_cache should_preempt_def)

subsection \<open>Steps on the ready queue\<close>

lemma ready_simps [simp]:
  "z_is_thread_ready (k\<lparr>runq := q\<rparr>) t = z_is_thread_ready k t"
  "z_is_thread_ready (k\<lparr>waitqs := ws\<rparr>) t = z_is_thread_ready k t"
  "z_is_thread_ready (k\<lparr>current := c\<rparr>) t = z_is_thread_ready k t"
  "z_is_thread_ready (k\<lparr>pending_current := p\<rparr>) t = z_is_thread_ready k t"
  by (simp_all add: z_is_thread_ready_def z_is_thread_timeout_active_def)

lemma ready_upd_thread:
  "z_is_thread_ready (upd_thread t f k) u \<longleftrightarrow>
     (if u = t then \<not> z_is_thread_prevented_from_running (f (thrd k t)) \<and> \<not> is_linked t (tmo k)
      else z_is_thread_ready k u)"
  by (auto simp: z_is_thread_ready_def z_is_thread_timeout_active_def)

definition enqueue :: "tid \<Rightarrow> kernel \<Rightarrow> kernel" where
  "enqueue t k = upd_thread t z_mark_thread_as_queued (priq_run_add t k)"

definition dequeue :: "tid \<Rightarrow> kernel \<Rightarrow> kernel" where
  "dequeue t k = upd_thread t z_mark_thread_as_not_queued (priq_run_remove t k)"

text \<open>A thread that may be put into the ready queue.\<close>

definition addable :: "kernel \<Rightarrow> tid \<Rightarrow> bool" where
  "addable k t \<longleftrightarrow> \<not> z_is_thread_queued (thrd k t) \<and> \<not> bit (thread_state (thrd k t)) 5 \<and>
     t \<noteq> idle_thread k"

lemma sched_inv_enqueue:
  assumes inv: "sched_inv k" and "addable k t" and "z_is_thread_ready k t"
  shows "sched_inv (enqueue t k)"
proof -
  have "t \<notin> set (runq k)"
    using inv assms(2) by (auto simp: sched_inv_def addable_def)
  then have "dumb_inv (thrd k) (z_priq_dumb_add (thrd k) t (runq k))"
    using inv by (intro dumb.inv_add) (auto simp: sched_inv_def)
  then have q: "dumb_inv (thrd (enqueue t k)) (runq (enqueue t k))"
    by (subst dumb_inv_cong [of _ _ "thrd k"]) (simp_all add: enqueue_def priq_run_add_def)
  have w: "dumb_inv (thrd (enqueue t k)) (waitqs k w)" for w
    using inv
    by (subst dumb_inv_cong [of _ _ "thrd k"]) (auto simp: enqueue_def priq_run_add_def sched_inv_def)
  show ?thesis
    using inv assms(2,3) q w
    by (auto simp: sched_inv_def enqueue_def priq_run_add_def dumb_add_insert addable_def
        ready_upd_thread state_bits z_is_thread_ready_def z_is_thread_timeout_active_def)
qed

lemma lost_enqueue: "lost (enqueue t k) \<subseteq> lost k - {t}"
  by (auto simp: lost_def enqueue_def priq_run_add_def ready_upd_thread state_bits split: if_splits)

lemma sched_inv_dequeue:
  assumes inv: "sched_inv k" and "z_is_thread_queued (thrd k t)"
  shows "sched_inv (dequeue t k)" and "\<not> z_is_thread_queued (thrd (dequeue t k) t)"
    and "runq (dequeue t k) = remove1 t (runq k)"
proof -
  have t: "t \<in> set (runq k)"
    using assms by (auto simp: sched_inv_def)
  then have "\<not> z_is_thread_prevented_from_running (thrd k t)"
    using inv by (auto simp: sched_inv_def z_is_thread_ready_def)
  then show r: "runq (dequeue t k) = remove1 t (runq k)"
    by (simp add: dequeue_def priq_run_remove_def sys_dlist_remove_def)
  have d: "dequeue t k = upd_thread t z_mark_thread_as_not_queued (k\<lparr>runq := remove1 t (runq k)\<rparr>)"
    using \<open>\<not> _\<close> by (simp add: dequeue_def priq_run_remove_def sys_dlist_remove_def)
  have "dumb_inv (thrd k) (remove1 t (runq k))"
    using dumb.inv_remove [of "thrd k" "runq k" t] inv t by (simp add: sched_inv_def sys_dlist_remove_def)
  then have q: "dumb_inv (thrd (dequeue t k)) (remove1 t (runq k))"
    by (subst dumb_inv_cong [of _ _ "thrd k"]) (simp_all add: d)
  have w: "dumb_inv (thrd (dequeue t k)) (waitqs k w)" for w
    using inv by (subst dumb_inv_cong [of _ _ "thrd k"]) (auto simp: d sched_inv_def)
  have "distinct (runq k)"
    using inv by (simp add: sched_inv_def dumb_inv_def)
  then have mem: "u \<in> set (remove1 t (runq k)) \<longleftrightarrow> u \<in> set (runq k) \<and> u \<noteq> t" for u
    by (auto simp: set_remove1_eq)
  show "sched_inv (dequeue t k)"
    unfolding sched_inv_def r
    using inv q w mem t by (auto simp: sched_inv_def d ready_upd_thread state_bits)
  show "\<not> z_is_thread_queued (thrd (dequeue t k) t)"
    by (simp add: d state_bits)
qed

lemma lost_dequeue: "lost (dequeue t k) \<subseteq> insert t (lost k)"
  by (auto simp: lost_def dequeue_def priq_run_remove_def ready_upd_thread split: if_splits)

lemma ready_thread_inv:
  assumes "sched_inv k" and "addable k t"
  shows "sched_inv (ready_thread t k)" and "lost (ready_thread t k) \<subseteq> lost k - {t}"
    and "cache_inv k \<Longrightarrow> cache_inv (ready_thread t k)"
proof -
  show "sched_inv (ready_thread t k)"
    using assms sched_inv_update_cache [OF sched_inv_enqueue]
    by (simp add: ready_thread_def enqueue_def)
  show "lost (ready_thread t k) \<subseteq> lost k - {t}"
    using lost_enqueue [of t k] lost_update_cache [of False "enqueue t k"]
    by (auto simp: ready_thread_def enqueue_def lost_def)
  show "cache_inv k \<Longrightarrow> cache_inv (ready_thread t k)"
    by (simp add: ready_thread_def)
qed

lemma unready_thread_inv:
  assumes "sched_inv k"
  shows "sched_inv (unready_thread t k)" and "lost (unready_thread t k) \<subseteq> insert t (lost k)"
    and "cache_inv (unready_thread t k)" and "\<not> z_is_thread_queued (thrd (unready_thread t k) t)"
    and "pending_abort k = None \<Longrightarrow> t = current k \<Longrightarrow>
      cache (unready_thread t k) = first_ready (unready_thread t k)"
proof -
  let ?k = "if z_is_thread_queued (thrd k t) then dequeue t k else k"
  have eq: "unready_thread t k = update_cache (t = current ?k) ?k"
    by (simp add: unready_thread_def dequeue_def Let_def)
  have k: "sched_inv ?k" "\<not> z_is_thread_queued (thrd ?k t)" "lost ?k \<subseteq> insert t (lost k)"
    using sched_inv_dequeue [OF assms] assms lost_dequeue by auto
  show "sched_inv (unready_thread t k)" "cache_inv (unready_thread t k)"
    "\<not> z_is_thread_queued (thrd (unready_thread t k) t)"
    using k sched_inv_update_cache by (auto simp: eq)
  show "lost (unready_thread t k) \<subseteq> insert t (lost k)"
    using k(3) lost_update_cache eq by (metis order_trans)
  have "current ?k = current k" "pending_abort ?k = pending_abort k"
    by (simp_all add: dequeue_def priq_run_remove_def)
  then show "cache (unready_thread t k) = first_ready (unready_thread t k)"
    if "pending_abort k = None" "t = current k"
    unfolding eq first_ready_update_cache using that by (intro cache_first_ready) simp_all
qed

subsection \<open>Steps on a thread\<close>

lemma upd_harmless:
  assumes "\<And>x. thread_state (f x) = thread_state x" "\<And>x. prio_byte (f x) = prio_byte x"
    "\<And>x. pended_on (f x) = pended_on x" "\<And>x. sched_locked (f x) = sched_locked x"
  shows "sched_inv (upd_thread t f k) = sched_inv k" and "lost (upd_thread t f k) = lost k"
    and "cache_inv (upd_thread t f k) = cache_inv k"
proof -
  have p: "prio (f x) = prio x" "is_preempt (f x) = is_preempt x"
    "z_is_thread_prevented_from_running (f x) = z_is_thread_prevented_from_running x"
    "z_is_thread_pending (f x) = z_is_thread_pending x"
    "z_is_thread_queued (f x) = z_is_thread_queued x" for x
    using assms by (simp_all add: prio_def is_preempt_def preempt_def prevented_bits pending_bit queued_bit)
  have r: "z_is_thread_ready (upd_thread t f k) u = z_is_thread_ready k u" for u
    by (auto simp: ready_upd_thread p z_is_thread_ready_def z_is_thread_timeout_active_def)
  have d: "dumb_inv (thrd (upd_thread t f k)) pq = dumb_inv (thrd k) pq" for pq
    by (rule dumb_inv_cong) (simp add: p)
  have s: "thread_state (thrd (upd_thread t f k) u) = thread_state (thrd k u)"
    "pended_on (thrd (upd_thread t f k) u) = pended_on (thrd k u)" for u
    by (simp_all add: assms)
  have q: "z_is_thread_pending (thrd (upd_thread t f k) u) = z_is_thread_pending (thrd k u)"
    "z_is_thread_queued (thrd (upd_thread t f k) u) = z_is_thread_queued (thrd k u)" for u
    by (simp_all only: pending_bit queued_bit s)
  show "sched_inv (upd_thread t f k) = sched_inv k"
    by (simp add: sched_inv_def d r s q del: upd_thread_simps(1))
  show "lost (upd_thread t f k) = lost k"
    by (simp add: lost_def r q del: upd_thread_simps(1))
  show "cache_inv (upd_thread t f k) = cache_inv k"
    by (simp add: cache_inv_def first_ready_def p)
qed

lemma current_simps [simp]:
  "sched_inv (k\<lparr>current := c\<rparr>) = sched_inv k" "lost (k\<lparr>current := c\<rparr>) = lost k"
  "sched_inv (k\<lparr>pending_current := p\<rparr>) = sched_inv k" "lost (k\<lparr>pending_current := p\<rparr>) = lost k"
  "cache_inv (k\<lparr>pending_current := p\<rparr>) = cache_inv k"
  by (simp_all add: sched_inv_def lost_def cache_inv_def first_ready_def)

lemma z_swap_inv:
  "sched_inv (z_swap k) = sched_inv k" "lost (z_swap k) = lost k"
  "cache_inv k \<Longrightarrow> cache_inv (z_swap k)"
proof -
  let ?f = "\<lambda>t. t\<lparr>swap_return_value := - EAGAIN\<rparr>"
  show "sched_inv (z_swap k) = sched_inv k" "lost (z_swap k) = lost k"
    by (simp_all add: z_swap_def upd_harmless)
  assume "cache_inv k"
  then have "cache_inv (upd_thread (current k) ?f k)"
    by (simp add: upd_harmless)
  then show "cache_inv (z_swap k)"
    by (auto simp: z_swap_def cache_inv_def first_ready_def)
qed

lemma z_reschedule_inv:
  "sched_inv (z_reschedule k) = sched_inv k" "lost (z_reschedule k) = lost k"
  "cache_inv k \<Longrightarrow> cache_inv (z_reschedule k)"
  by (simp_all add: z_reschedule_def z_swap_inv)

lemma z_reschedule_unlocked_inv:
  "sched_inv (z_reschedule_unlocked k) = sched_inv k" "lost (z_reschedule_unlocked k) = lost k"
  "cache_inv k \<Longrightarrow> cache_inv (z_reschedule_unlocked k)"
  by (simp_all add: z_reschedule_unlocked_def z_swap_inv)

text \<open>Marking a thread that is in no queue.\<close>

lemma mark_pending_inv:
  assumes "sched_inv k" and "\<not> z_is_thread_queued (thrd k t)" and "t \<noteq> idle_thread k"
  shows "sched_inv (upd_thread t z_mark_thread_as_pending k)"
    and "lost (upd_thread t z_mark_thread_as_pending k) \<subseteq> lost k - {t}"
    and "cache_inv k \<Longrightarrow> t = current k \<longrightarrow> cache k = first_ready k \<Longrightarrow>
      cache_inv (upd_thread t z_mark_thread_as_pending k)"
proof -
  have d: "dumb_inv (thrd (upd_thread t z_mark_thread_as_pending k)) pq = dumb_inv (thrd k) pq" for pq
    by (rule dumb_inv_cong) simp
  show "sched_inv (upd_thread t z_mark_thread_as_pending k)"
    using assms d by (auto simp: sched_inv_def ready_upd_thread state_bits)
  show "lost (upd_thread t z_mark_thread_as_pending k) \<subseteq> lost k - {t}"
    by (auto simp: lost_def ready_upd_thread state_bits split: if_splits)
  show "cache_inv k \<Longrightarrow> t = current k \<longrightarrow> cache k = first_ready k \<Longrightarrow>
      cache_inv (upd_thread t z_mark_thread_as_pending k)"
    by (auto simp: cache_inv_def first_ready_def)
qed

lemma mark_suspended_inv:
  assumes "sched_inv k" and "\<not> z_is_thread_queued (thrd k t)" and "t \<noteq> idle_thread k"
  shows "sched_inv (upd_thread t z_mark_thread_as_suspended k)"
    and "lost (upd_thread t z_mark_thread_as_suspended k) \<subseteq> lost k - {t}"
    and "cache_inv k \<Longrightarrow> t = current k \<longrightarrow> cache k = first_ready k \<Longrightarrow>
      cache_inv (upd_thread t z_mark_thread_as_suspended k)"
proof -
  have d: "dumb_inv (thrd (upd_thread t z_mark_thread_as_suspended k)) pq = dumb_inv (thrd k) pq" for pq
    by (rule dumb_inv_cong) simp
  show "sched_inv (upd_thread t z_mark_thread_as_suspended k)"
    using assms d by (auto simp: sched_inv_def ready_upd_thread state_bits)
  show "lost (upd_thread t z_mark_thread_as_suspended k) \<subseteq> lost k - {t}"
    by (auto simp: lost_def ready_upd_thread state_bits split: if_splits)
  show "cache_inv k \<Longrightarrow> t = current k \<longrightarrow> cache k = first_ready k \<Longrightarrow>
      cache_inv (upd_thread t z_mark_thread_as_suspended k)"
    by (auto simp: cache_inv_def first_ready_def)
qed

text \<open>Clearing marks can only make the thread ready.\<close>

lemma unmark_inv:
  assumes "sched_inv k" and "\<not> z_is_thread_queued (thrd k t)" and "t \<noteq> idle_thread k"
    and f: "f = z_mark_thread_as_not_suspended \<or> f = z_mark_thread_as_started \<or>
      f = (\<lambda>x. z_mark_thread_as_not_suspended (z_mark_thread_as_started x))"
  shows "sched_inv (upd_thread t f k)" and "lost (upd_thread t f k) \<subseteq> insert t (lost k)"
    and "cache_inv k \<Longrightarrow> cache_inv (upd_thread t f k)"
proof -
  have d: "dumb_inv (thrd (upd_thread t f k)) pq = dumb_inv (thrd k) pq" for pq
    by (rule dumb_inv_cong) (use f in auto)
  show "sched_inv (upd_thread t f k)"
    using assms d by (auto simp: sched_inv_def ready_upd_thread state_bits)
  show "lost (upd_thread t f k) \<subseteq> insert t (lost k)"
    by (auto simp: lost_def ready_upd_thread split: if_splits)
  show "cache_inv k \<Longrightarrow> cache_inv (upd_thread t f k)"
    using f by (auto simp: cache_inv_def first_ready_def state_bits)
qed

subsection \<open>Steps on a wait queue and on the timeouts\<close>

definition join_waitq :: "tid \<Rightarrow> wqid \<Rightarrow> kernel \<Rightarrow> kernel" where
  "join_waitq t w k =
     (let k2 = upd_thread t (\<lambda>x. x\<lparr>pended_on := Some w\<rparr>) k
      in k2\<lparr>waitqs := (waitqs k2)(w := z_priq_dumb_add (thrd k2) t (waitqs k2 w))\<rparr>)"

lemma join_waitq_simps [simp]:
  "runq (join_waitq t w k) = runq k" "idle_thread (join_waitq t w k) = idle_thread k"
  "current (join_waitq t w k) = current k" "cache (join_waitq t w k) = cache k"
  "pending_abort (join_waitq t w k) = pending_abort k" "tmo (join_waitq t w k) = tmo k"
  by (simp_all add: join_waitq_def Let_def)

lemma join_waitq_inv:
  assumes inv: "sched_inv k" and "z_is_thread_pending (thrd k t)" and "pended_on (thrd k t) = None"
    and "\<not> bit (thread_state (thrd k t)) 5"
  shows "sched_inv (join_waitq t w k)" and "lost (join_waitq t w k) = lost k"
    and "cache_inv (join_waitq t w k) = cache_inv k"
proof -
  let ?f = "\<lambda>x. x\<lparr>pended_on := Some w\<rparr>" and ?k = "join_waitq t w k"
  have d: "dumb_inv (thrd ?k) pq = dumb_inv (thrd k) pq" for pq
    by (rule dumb_inv_cong) (simp add: join_waitq_def)
  have b: "thread_state (thrd ?k u) = thread_state (thrd k u)"
    "is_preempt (thrd ?k u) = is_preempt (thrd k u)" for u
    by (simp_all add: join_waitq_def is_preempt_def preempt_def)
  have s: "z_is_thread_queued (thrd ?k u) = z_is_thread_queued (thrd k u)"
    "z_is_thread_pending (thrd ?k u) = z_is_thread_pending (thrd k u)"
    "z_is_thread_prevented_from_running (thrd ?k u) = z_is_thread_prevented_from_running (thrd k u)" for u
    by (simp_all only: queued_bit pending_bit prevented_bits b)
  have r: "z_is_thread_ready ?k u = z_is_thread_ready k u" for u
    by (simp add: z_is_thread_ready_def z_is_thread_timeout_active_def s)
  have po: "pended_on (thrd ?k u) = (if u = t then Some w else pended_on (thrd k u))" for u
    by (simp add: join_waitq_def)
  have ws: "waitqs ?k v = (if v = w then z_priq_dumb_add (thrd k) t (waitqs k w) else waitqs k v)" for v
  proof -
    have "(\<lambda>u. prio (((thrd k)(t := ?f (thrd k t))) u)) = (\<lambda>u. prio (thrd k u))"
      by auto
    then show ?thesis
      by (simp add: join_waitq_def Let_def dumb_add_insert del: fun_upd_apply) simp
  qed
  have "t \<notin> set (waitqs k v)" for v
    using inv assms(3) by (auto simp: sched_inv_def)
  then have "dumb_inv (thrd k) (waitqs ?k v)" for v
    using inv dumb.inv_add [of "thrd k" "waitqs k w" t] by (auto simp: ws sched_inv_def)
  then show "sched_inv ?k"
    using inv assms(2-4)
    by (auto simp: sched_inv_def d r b s po ws dumb_add_insert)
  show "lost ?k = lost k"
    by (simp add: lost_def r s)
  show "cache_inv ?k = cache_inv k"
    by (simp add: cache_inv_def first_ready_def b s)
qed

lemma unpend_inv:
  assumes inv: "sched_inv k" and w: "pended_on (thrd k t) = Some w"
  shows "sched_inv (unpend_thread_no_timeout t k)"
    and "lost (unpend_thread_no_timeout t k) \<subseteq> insert t (lost k)"
    and "cache_inv k \<Longrightarrow> cache_inv (unpend_thread_no_timeout t k)"
    and "addable (unpend_thread_no_timeout t k) t"
proof -
  let ?f = "\<lambda>x. (z_mark_thread_as_not_pending x)\<lparr>pended_on := None\<rparr>"
  let ?k = "unpend_thread_no_timeout t k"
  have eq: "?k = upd_thread t ?f (k\<lparr>waitqs := (waitqs k)(w := remove1 t (waitqs k w))\<rparr>)"
    by (simp add: unpend_thread_no_timeout_def w sys_dlist_remove_def)
  have pend: "z_is_thread_pending (thrd k t)" "\<not> bit (thread_state (thrd k t)) 5"
    using inv w by (auto simp: sched_inv_def)
  then have nq: "t \<notin> set (runq k)" "t \<noteq> idle_thread k"
    using inv pending_prevented by (auto simp: sched_inv_def z_is_thread_ready_def)
  have d: "dumb_inv (thrd ?k) pq = dumb_inv (thrd k) pq" for pq
    by (rule dumb_inv_cong) (simp add: eq)
  have mem: "t \<in> set (waitqs k w)" and dist: "distinct (waitqs k w)"
    using inv w by (auto simp: sched_inv_def dumb_inv_def)
  have "dumb_inv (thrd k) (remove1 t (waitqs k w))"
    using inv mem dumb.inv_remove [of "thrd k" "waitqs k w" t]
    by (simp add: sched_inv_def sys_dlist_remove_def)
  then have "dumb_inv (thrd k) (waitqs ?k v)" for v
    using inv by (simp add: eq sched_inv_def)
  moreover have "u \<in> set (waitqs ?k v) \<longleftrightarrow> pended_on (thrd ?k u) = Some v" for u v
    using inv dist w by (auto simp: eq sched_inv_def)
  ultimately show "sched_inv ?k"
    unfolding sched_inv_def d using inv nq
    by (auto simp: eq sched_inv_def ready_upd_thread state_bits)
  show "lost ?k \<subseteq> insert t (lost k)"
    by (auto simp: lost_def eq ready_upd_thread split: if_splits)
  show "cache_inv k \<Longrightarrow> cache_inv ?k"
    by (auto simp: cache_inv_def first_ready_def eq state_bits is_preempt_def preempt_def)
  show "addable ?k t"
    using inv nq pend by (auto simp: addable_def eq sched_inv_def state_bits)
qed

lemma fst_set_remove_eq:
  "distinct (map fst l) \<Longrightarrow> fst ` set (remove_timeout t l) = fst ` set l - {t}"
proof (induction l)
  case (Cons x l)
  then show ?case by (cases x; cases l) (auto, (force simp: image_iff)+)
qed simp

lemma is_linked_abort:
  "tlist_inv (timeout_list s) \<Longrightarrow>
   is_linked u (snd (z_abort_timeout t s)) \<longleftrightarrow> u \<noteq> t \<and> is_linked u s"
  by (auto simp: is_linked_def z_abort_timeout_def tlist_inv_def fst_set_remove_eq)

lemma z_add_timeout_forever [simp]: "z_add_timeout t K_FOREVER s = s"
  by (simp add: z_add_timeout_def)

lemma is_linked_add_iff:
  "n \<noteq> K_FOREVER \<Longrightarrow> is_linked u (z_add_timeout t n s) \<longleftrightarrow> u = t \<or> is_linked u s"
  by (simp add: is_linked_def timeout_list_add)

lemma abort_timeout_simps [simp]:
  "thrd (snd (z_abort_thread_timeout t k)) = thrd k" "runq (snd (z_abort_thread_timeout t k)) = runq k"
  "cache (snd (z_abort_thread_timeout t k)) = cache k"
  "current (snd (z_abort_thread_timeout t k)) = current k"
  "idle_thread (snd (z_abort_thread_timeout t k)) = idle_thread k"
  "pending_abort (snd (z_abort_thread_timeout t k)) = pending_abort k"
  "waitqs (snd (z_abort_thread_timeout t k)) = waitqs k"
  "in_isr (snd (z_abort_thread_timeout t k)) = in_isr k"
  "irqs_on (snd (z_abort_thread_timeout t k)) = irqs_on k"
  "tmo (snd (z_abort_thread_timeout t k)) = snd (z_abort_timeout t (tmo k))"
  by (simp_all add: z_abort_thread_timeout_def split: prod.splits)

lemma abort_timeout_inv:
  assumes "sched_inv k"
  shows "sched_inv (snd (z_abort_thread_timeout t k))"
    and "lost (snd (z_abort_thread_timeout t k)) \<subseteq> insert t (lost k)"
    and "cache_inv (snd (z_abort_thread_timeout t k)) = cache_inv k"
    and "\<not> z_is_thread_timeout_active (snd (z_abort_thread_timeout t k)) t"
proof -
  let ?k = "snd (z_abort_thread_timeout t k)"
  have l: "is_linked u (tmo ?k) \<longleftrightarrow> u \<noteq> t \<and> is_linked u (tmo k)" for u
    using assms by (simp add: is_linked_abort sched_inv_def)
  have r: "z_is_thread_ready ?k u \<longleftrightarrow>
      z_is_thread_ready k u \<or> (u = t \<and> \<not> z_is_thread_prevented_from_running (thrd k t))" for u
    using l by (auto simp: z_is_thread_ready_def z_is_thread_timeout_active_def)
  have "tlist_inv (timeout_list (tmo ?k))" "clock_elapsed (tmo ?k) = clock_elapsed (tmo k)"
    using assms by (auto simp: sched_inv_def z_abort_timeout_def tlist_inv_remove)
  with assms l r show "sched_inv ?k"
    by (auto simp: sched_inv_def)
  show "lost ?k \<subseteq> insert t (lost k)"
    using r by (auto simp: lost_def)
  show "cache_inv ?k = cache_inv k"
    by (simp add: cache_inv_def first_ready_def)
  show "\<not> z_is_thread_timeout_active ?k t"
    using l by (simp add: z_is_thread_timeout_active_def)
qed

lemma add_timeout_inv:
  assumes "sched_inv k" and "\<not> is_linked t (tmo k)" and "t \<notin> set (runq k)" and "t \<noteq> idle_thread k"
    and "\<not> bit (thread_state (thrd k t)) 5"
  shows "sched_inv (z_add_thread_timeout t n k)" and "lost (z_add_thread_timeout t n k) \<subseteq> lost k"
    and "cache_inv (z_add_thread_timeout t n k) = cache_inv k"
proof -
  let ?k = "z_add_thread_timeout t n k"
  have l: "is_linked u (tmo ?k) \<longleftrightarrow> (n \<noteq> K_FOREVER \<and> u = t) \<or> is_linked u (tmo k)" for u
    by (cases "n = K_FOREVER") (simp_all add: z_add_thread_timeout_def is_linked_add_iff)
  have r: "z_is_thread_ready ?k u \<longleftrightarrow> z_is_thread_ready k u \<and> \<not> (n \<noteq> K_FOREVER \<and> u = t)" for u
    using l by (auto simp: z_is_thread_ready_def z_is_thread_timeout_active_def z_add_thread_timeout_def)
  have "0 \<le> timeout_ticks n (tmo k) + elapsed (tmo k)"
    using assms(1) by (simp add: sched_inv_def timeout_ticks_def elapsed_def Let_def max_def)
  then have "tlist_inv (timeout_list (tmo ?k))" "clock_elapsed (tmo ?k) = clock_elapsed (tmo k)"
    using assms(1,2)
    by (auto simp: sched_inv_def z_add_thread_timeout_def timeout_list_add is_linked_def
        z_add_timeout_def Let_def intro: tlist_inv_insert)
  with assms l r show "sched_inv ?k"
    by (auto simp: sched_inv_def) (auto simp: z_add_thread_timeout_def)
  show "lost ?k \<subseteq> lost k"
    using r by (auto simp: lost_def z_add_thread_timeout_def)
  show "cache_inv ?k = cache_inv k"
    by (simp add: cache_inv_def first_ready_def z_add_thread_timeout_def)
qed

subsection \<open>Operations\<close>

text \<open>What every operation of the scheduler keeps: no ready thread is lost.\<close>

definition sched_ok :: "kernel \<Rightarrow> bool" where
  "sched_ok k \<longleftrightarrow> sched_inv k \<and> cache_inv k \<and> lost k = {}"

lemma sched_okI: "sched_inv k \<Longrightarrow> cache_inv k \<Longrightarrow> lost k \<subseteq> {} \<Longrightarrow> sched_ok k"
  by (simp add: sched_ok_def)

text \<open>The current thread is a thread of the ready queue, and the kernel runs it.\<close>

definition running :: "kernel \<Rightarrow> bool" where
  "running k \<longleftrightarrow> current k \<in> set (runq k) \<and> pending_abort k = None"

lemma running_facts:
  assumes "sched_inv k" and "running k"
  shows "current k \<noteq> idle_thread k" "pended_on (thrd k (current k)) = None"
    "\<not> is_linked (current k) (tmo k)" "\<not> bit (thread_state (thrd k (current k))) 5"
    "z_is_thread_queued (thrd k (current k))"
    "\<not> z_is_thread_prevented_from_running (thrd k (current k))"
proof -
  have r: "z_is_thread_ready k (current k)" "\<not> bit (thread_state (thrd k (current k))) 5"
    and q: "z_is_thread_queued (thrd k (current k))" and "current k \<noteq> idle_thread k"
    using assms by (auto simp: sched_inv_def running_def)
  then show "current k \<noteq> idle_thread k" "\<not> bit (thread_state (thrd k (current k))) 5"
    "z_is_thread_queued (thrd k (current k))" by auto
  show "\<not> is_linked (current k) (tmo k)"
    "\<not> z_is_thread_prevented_from_running (thrd k (current k))"
    using r by (auto simp: z_is_thread_ready_def z_is_thread_timeout_active_def)
  then show "pended_on (thrd k (current k)) = None"
    using assms(1) pending_prevented by (auto simp: sched_inv_def)
qed

lemma unready_fields [simp]:
  "current (unready_thread t k) = current k" "idle_thread (unready_thread t k) = idle_thread k"
  "pending_abort (unready_thread t k) = pending_abort k" "waitqs (unready_thread t k) = waitqs k"
  "pended_on (thrd (unready_thread t k) u) = pended_on (thrd k u)"
  "timeout_list (tmo (unready_thread t k)) = timeout_list (tmo k)"
  "bit (thread_state (thrd (unready_thread t k) u)) 5 = bit (thread_state (thrd k u)) 5"
  "in_isr (unready_thread t k) = in_isr k" "irqs_on (unready_thread t k) = irqs_on k"
  by (auto simp: unready_thread_def Let_def priq_run_remove_def reaped_bits mark_bits)

text \<open>Pending the current thread on a wait queue, up to the context switch.\<close>

lemma pend_current:
  assumes inv: "sched_inv k" and "lost k = {}" and run: "running k"
  shows "sched_inv (pend (current k) (Some w) n k)" and "cache_inv (pend (current k) (Some w) n k)"
    and "lost (pend (current k) (Some w) n k) = {}"
    and "cache (pend (current k) (Some w) n k) = first_ready (pend (current k) (Some w) n k)"
    and "current (pend (current k) (Some w) n k) = current k"
    and "current k \<notin> set (runq (pend (current k) (Some w) n k))"
    and "pended_on (thrd (pend (current k) (Some w) n k) (current k)) = Some w"
proof -
  let ?c = "current k"
  note cur = running_facts [OF inv run]
  let ?k1 = "unready_thread ?c k"
  note u = unready_thread_inv [OF inv, of ?c]
  have c1: "cache ?k1 = first_ready ?k1"
    using u(5) run by (simp add: running_def)
  let ?k2 = "upd_thread ?c z_mark_thread_as_pending ?k1"
  have k2: "sched_inv ?k2" "lost ?k2 = {}" "cache_inv ?k2"
    using mark_pending_inv [OF u(1,4)] u(2,3) cur(1) c1 assms(2) by auto
  let ?k3 = "join_waitq ?c w ?k2"
  have j: "z_is_thread_pending (thrd ?k2 ?c)" "pended_on (thrd ?k2 ?c) = None"
    "\<not> bit (thread_state (thrd ?k2 ?c)) 5"
    using cur by (simp_all add: state_bits)
  note k3 = join_waitq_inv [OF k2(1) j, of w]
  have eq: "pend ?c (Some w) n k = (if n = K_FOREVER then ?k3 else z_add_thread_timeout ?c n ?k3)"
    by (simp add: pend_def add_to_waitq_locked_def join_waitq_def add_thread_timeout_def Let_def)
  have t: "\<not> is_linked ?c (tmo ?k3)" "?c \<notin> set (runq ?k3)" "?c \<noteq> idle_thread ?k3"
    "\<not> bit (thread_state (thrd ?k3 ?c)) 5"
    using cur u(1,4) by (simp_all add: is_linked_def sched_inv_def join_waitq_def mark_bits)
  note k4 = add_timeout_inv [OF k3(1) t, of n]
  show "sched_inv (pend ?c (Some w) n k)" "cache_inv (pend ?c (Some w) n k)"
    "lost (pend ?c (Some w) n k) = {}"
    using k2 k3 k4 by (auto simp: eq)
  show "cache (pend ?c (Some w) n k) = first_ready (pend ?c (Some w) n k)"
    "current (pend ?c (Some w) n k) = ?c"
    using c1 by (auto simp: eq z_add_thread_timeout_def first_ready_def)
  show "?c \<notin> set (runq (pend ?c (Some w) n k))"
    using t by (auto simp: eq z_add_thread_timeout_def)
  show "pended_on (thrd (pend ?c (Some w) n k) ?c) = Some w"
    by (simp add: eq z_add_thread_timeout_def join_waitq_def)
qed

lemma z_pend_curr_ok:
  assumes "sched_ok k" and "running k"
  shows "sched_ok (z_pend_curr w n k)"
    and "current (z_pend_curr w n k) = first_ready (z_pend_curr w n k)"
    and "pended_on (thrd (z_pend_curr w n k) (current k)) = Some w"
proof -
  let ?k = "k\<lparr>pending_current := Some (current k)\<rparr>"
  have k: "sched_inv ?k" "lost ?k = {}" "running ?k"
    using assms by (simp_all add: sched_ok_def running_def)
  note p = pend_current [OF k, of w n]
  have eq: "z_pend_curr w n k = z_swap (pend (current ?k) (Some w) n ?k)"
    by (simp add: z_pend_curr_def Let_def)
  show "sched_ok (z_pend_curr w n k)"
    unfolding eq sched_ok_def z_swap_inv using p(1-3) z_swap_inv(3) by auto
  show "current (z_pend_curr w n k) = first_ready (z_pend_curr w n k)"
    using p(4) unfolding eq by (simp add: z_swap_def first_ready_def)
  show "pended_on (thrd (z_pend_curr w n k) (current k)) = Some w"
    using p(7) unfolding eq by (simp add: z_swap_def)
qed

lemma first_ready_cases:
  "sched_inv k \<Longrightarrow> first_ready k = idle_thread k \<and> runq k = [] \<or>
     first_ready k \<in> set (runq k) \<and> (\<forall>t\<in>set (runq k). prio (thrd k (first_ready k)) \<le> prio (thrd k t))"
  by (cases "runq k") (auto simp: first_ready_def sched_inv_def dumb_inv_def)

text \<open>Taking the first thread off a wait queue and making it ready.\<close>

lemma unpend_first_None:
  "fst (z_unpend_first_thread w k) = None \<longleftrightarrow> waitqs k w = []"
  "waitqs k w = [] \<Longrightarrow> z_unpend_first_thread w k = (None, k)"
  by (simp_all add: z_unpend_first_thread_def z_unpend1_no_timeout_def
      z_find_first_thread_to_unpend_def dumb_best_hd split: list.splits)

lemma unpend_first_Some:
  assumes "waitqs k w = t # ts"
  shows "z_unpend_first_thread w k =
     (Some t, snd (z_abort_thread_timeout t (unpend_thread_no_timeout t k)))"
  using assms by (simp add: z_unpend_first_thread_def z_unpend1_no_timeout_def
      z_find_first_thread_to_unpend_def)

lemma wake_first_upd_ok:
  assumes ok: "sched_ok k" and w: "waitqs k w = t # ts"
    and f: "\<And>x. thread_state (f x) = thread_state x" "\<And>x. prio_byte (f x) = prio_byte x"
      "\<And>x. pended_on (f x) = pended_on x" "\<And>x. sched_locked (f x) = sched_locked x"
  shows "sched_ok (z_ready_thread t (upd_thread t f (snd (z_unpend_first_thread w k))))"
proof -
  have inv: "sched_inv k" and p: "pended_on (thrd k t) = Some w"
    using ok w by (auto simp: sched_ok_def sched_inv_def) (metis list.set_intros(1))
  note u = unpend_inv [OF inv p]
  let ?k1 = "snd (z_abort_thread_timeout t (unpend_thread_no_timeout t k))"
  note a = abort_timeout_inv [OF u(1), of t]
  let ?k2 = "upd_thread t f ?k1"
  have k2: "sched_inv ?k2" "lost ?k2 \<subseteq> {t}" "cache_inv ?k2"
    using a u ok by (auto simp: upd_harmless [of f, OF f] sched_ok_def)
  have "addable ?k2 t"
    using u(4) by (simp add: addable_def queued_bit f)
  from ready_thread_inv [OF k2(1) this] k2 show ?thesis
    by (intro sched_okI) (auto simp: unpend_first_Some [OF w] z_ready_thread_def)
qed

lemma wake_first_ok:
  assumes "sched_ok k" and "waitqs k w = t # ts"
  shows "sched_ok (z_ready_thread t (arch_thread_return_value_set t v
           (snd (z_unpend_first_thread w k))))"
  unfolding arch_thread_return_value_set_def by (rule wake_first_upd_ok [OF assms]) simp_all

lemma dumb_add_cong:
  "(\<And>u. prio (th u) = prio (th' u)) \<Longrightarrow> z_priq_dumb_add th t pq = z_priq_dumb_add th' t pq"
  by (induction pq) (simp_all add: z_is_t1_higher_prio_than_t2_def)

lemma requeue_marks:
  "z_mark_thread_as_queued (z_mark_thread_as_not_queued x) = z_mark_thread_as_queued x"
proof -
  have "thread_state (z_mark_thread_as_queued (z_mark_thread_as_not_queued x)) =
      thread_state (z_mark_thread_as_queued x)"
    by (rule bit_word_eqI) (auto simp: mark_bits)
  then show ?thesis
    by (simp add: thread_marks)
qed

lemma requeue_eq:
  assumes "sched_inv k" and "z_is_thread_queued (thrd k t)"
  shows "upd_thread t z_mark_thread_as_queued (priq_run_add t (priq_run_remove t k)) =
     enqueue t (dequeue t k)"
proof -
  have "z_priq_dumb_add (thrd (dequeue t k)) t (runq (dequeue t k)) =
      z_priq_dumb_add (thrd (priq_run_remove t k)) t (runq (priq_run_remove t k))"
    by (subst dumb_add_cong [of _ "thrd (priq_run_remove t k)"]) (simp_all add: dequeue_def)
  then show ?thesis
    by (simp add: enqueue_def priq_run_add_def upd_thread_def)
       (simp add: dequeue_def upd_thread_def requeue_marks)
qed

lemma requeue_inv:
  assumes inv: "sched_inv k" and q: "z_is_thread_queued (thrd k t)"
  shows "sched_inv (enqueue t (dequeue t k))" and "lost (enqueue t (dequeue t k)) \<subseteq> lost k"
    and "runq (enqueue t (dequeue t k)) =
      insert_behind (\<lambda>u. prio (thrd k u)) t (remove1 t (runq k))"
proof -
  note d = sched_inv_dequeue [OF inv q]
  have mem: "t \<in> set (runq k)"
    using inv q by (auto simp: sched_inv_def)
  have th: "thrd (dequeue t k) t = z_mark_thread_as_not_queued (thrd k t)" "tmo (dequeue t k) = tmo k"
    "idle_thread (dequeue t k) = idle_thread k"
    by (simp_all add: dequeue_def priq_run_remove_def)
  have add: "addable (dequeue t k) t" "z_is_thread_ready (dequeue t k) t"
    using inv mem
    by (auto simp: addable_def th sched_inv_def z_is_thread_ready_def z_is_thread_timeout_active_def
        state_bits)
  show "sched_inv (enqueue t (dequeue t k))"
    using sched_inv_enqueue [OF d(1) add] .
  show "lost (enqueue t (dequeue t k)) \<subseteq> lost k"
    using lost_enqueue [of t "dequeue t k"] lost_dequeue [of t k] by blast
  have "(\<lambda>u. prio (thrd (dequeue t k) u)) = (\<lambda>u. prio (thrd k u))"
    by (auto simp: dequeue_def priq_run_remove_def)
  then show "runq (enqueue t (dequeue t k)) =
      insert_behind (\<lambda>u. prio (thrd k u)) t (remove1 t (runq k))"
    by (simp add: enqueue_def priq_run_add_def dumb_add_insert d(3))
qed

lemma yield_ok:
  assumes "sched_ok k" and "running k"
  shows "sched_ok (z_impl_k_yield k)"
    and "runq (z_impl_k_yield k) =
      insert_behind (\<lambda>u. prio (thrd k u)) (current k) (remove1 (current k) (runq k))"
    and "current (z_impl_k_yield k) = hd (runq (z_impl_k_yield k))"
proof -
  have inv: "sched_inv k"
    using assms(1) by (simp add: sched_ok_def)
  note cur = running_facts [OF inv assms(2)]
  let ?k = "enqueue (current k) (dequeue (current k) k)"
  have eq: "z_impl_k_yield k = z_swap (update_cache True ?k)"
    using cur(1) requeue_eq [OF inv cur(5)] by (simp add: z_impl_k_yield_def z_is_idle_thread_object_def)
  note r = requeue_inv [OF inv cur(5)]
  show "sched_ok (z_impl_k_yield k)"
    using r(1,2) assms(1) lost_update_cache [of True ?k] sched_inv_update_cache [OF r(1), of True]
    by (auto simp: eq sched_ok_def z_swap_inv)
  show rq: "runq (z_impl_k_yield k) =
      insert_behind (\<lambda>u. prio (thrd k u)) (current k) (remove1 (current k) (runq k))"
    using r(3) by (simp add: eq z_swap_def)
  have "pending_abort ?k = None"
    using assms(2) by (simp add: running_def enqueue_def dequeue_def priq_run_add_def priq_run_remove_def)
  then have "current (z_impl_k_yield k) = first_ready ?k"
    by (simp add: eq z_swap_def cache_first_ready)
  moreover have "runq ?k \<noteq> []"
    using r(3) by (cases "remove1 (current k) (runq k)") auto
  ultimately show "current (z_impl_k_yield k) = hd (runq (z_impl_k_yield k))"
    by (cases "runq ?k") (auto simp: first_ready_def eq z_swap_def)
qed

lemma z_tick_sleep_ok:
  assumes "sched_ok k" and "running k"
  shows "sched_ok (z_tick_sleep n k)"
proof (cases "n = 0")
  case True
  with yield_ok(1) [OF assms] show ?thesis by (simp add: z_tick_sleep_def)
next
  case False
  let ?c = "current k" and ?k = "k\<lparr>pending_current := Some (current k)\<rparr>"
  have k: "sched_inv ?k" "lost ?k = {}" "running ?k"
    using assms by (simp_all add: sched_ok_def running_def)
  note cur = running_facts [OF k(1,3)]
  note u = unready_thread_inv [OF k(1), of ?c]
  let ?k1 = "unready_thread ?c ?k"
  have t: "\<not> is_linked ?c (tmo ?k1)" "?c \<notin> set (runq ?k1)" "?c \<noteq> idle_thread ?k1"
    "\<not> bit (thread_state (thrd ?k1 ?c)) 5"
    using cur u(1,4) by (simp_all add: is_linked_def sched_inv_def)
  note k2 = add_timeout_inv [OF u(1) t, of n]
  let ?k2 = "z_add_thread_timeout ?c n ?k1"
  have f: "\<not> z_is_thread_queued (thrd ?k2 ?c)" "?c \<noteq> idle_thread ?k2" "cache ?k2 = first_ready ?k2"
    using u(4,5) cur(1) k(3) by (simp_all add: z_add_thread_timeout_def running_def first_ready_def)
  note k3 = mark_suspended_inv [OF k2(1) f(1,2)]
  have "cache_inv ?k2"
    using k2(3) u(3) by simp
  then have "sched_ok (upd_thread ?c z_mark_thread_as_suspended ?k2)"
    using k3 k2(2) u(2) k(2) f(3) by (intro sched_okI) auto
  then show ?thesis
    using False by (auto simp: z_tick_sleep_def Let_def sched_ok_def z_swap_inv)
qed

lemma z_thread_timeout_inv:
  assumes inv: "sched_inv k" and "\<not> z_is_thread_queued (thrd k t)" and "t \<noteq> idle_thread k"
    and "\<not> bit (thread_state (thrd k t)) 5"
  shows "sched_inv (z_thread_timeout t k)" and "lost (z_thread_timeout t k) \<subseteq> lost k - {t}"
    and "cache_inv k \<Longrightarrow> cache_inv (z_thread_timeout t k)"
proof -
  let ?k1 = "if pended_on (thrd k t) \<noteq> None then unpend_thread_no_timeout t k else k"
  let ?f = "\<lambda>x. z_mark_thread_as_not_suspended (z_mark_thread_as_started x)"
  have k1: "sched_inv ?k1" "lost ?k1 \<subseteq> insert t (lost k)" "cache_inv k \<Longrightarrow> cache_inv ?k1"
    using unpend_inv [OF inv, of t] inv by (cases "pended_on (thrd k t)"; simp; blast)+
  have a: "\<not> z_is_thread_queued (thrd ?k1 t)" "t \<noteq> idle_thread ?k1"
    "\<not> bit (thread_state (thrd ?k1 t)) 5"
    using unpend_inv(4) [OF inv, of t] assms by (auto simp: addable_def)
  note k2 = unmark_inv [OF k1(1) a(1,2) disjI2 [OF disjI2 [OF refl]]]
  have "addable (upd_thread t ?f ?k1) t"
    using a by (simp add: addable_def state_bits)
  note r = ready_thread_inv [OF k2(1) this]
  have eq: "z_thread_timeout t k = ready_thread t (upd_thread t ?f ?k1)"
    by (simp add: z_thread_timeout_def Let_def)
  show "sched_inv (z_thread_timeout t k)"
    unfolding eq by (rule r(1))
  show "lost (z_thread_timeout t k) \<subseteq> lost k - {t}"
    unfolding eq using r(2) k2(2) k1(2) by blast
  show "cache_inv k \<Longrightarrow> cache_inv (z_thread_timeout t k)"
    unfolding eq using r(3) k2(3) k1(3) by blast
qed

lemma announce_step_tmo:
  assumes "sched_inv k" and "announce_step (tmo k) = Some (t, m)"
  shows "sched_inv (k\<lparr>tmo := m\<rparr>)" and "lost (k\<lparr>tmo := m\<rparr>) \<subseteq> insert t (lost k)"
    and "cache_inv (k\<lparr>tmo := m\<rparr>) = cache_inv k"
    and "\<not> z_is_thread_queued (thrd k t)" "t \<noteq> idle_thread k" "\<not> bit (thread_state (thrd k t)) 5"
proof -
  obtain d l where l: "timeout_list (tmo k) = (t, d) # l"
    and m: "timeout_list m = l" "clock_elapsed m = clock_elapsed (tmo k)"
    using assms(2) by (auto simp: announce_step_def remove_head_zero simp del: remove_timeout.simps
        split: list.splits if_splits prod.splits)
  have t: "is_linked t (tmo k)"
    by (simp add: is_linked_def l)
  have link: "is_linked u m \<longleftrightarrow> u \<noteq> t \<and> is_linked u (tmo k)" for u
    using assms(1) l m by (auto simp: is_linked_def sched_inv_def tlist_inv_def)
  have r: "z_is_thread_ready (k\<lparr>tmo := m\<rparr>) u \<longleftrightarrow>
      z_is_thread_ready k u \<or> (u = t \<and> \<not> z_is_thread_prevented_from_running (thrd k t))" for u
    using link t by (auto simp: z_is_thread_ready_def z_is_thread_timeout_active_def)
  have nr: "\<not> z_is_thread_ready k t"
    using t by (simp add: z_is_thread_ready_def z_is_thread_timeout_active_def)
  then show "\<not> z_is_thread_queued (thrd k t)" "t \<noteq> idle_thread k" "\<not> bit (thread_state (thrd k t)) 5"
    using assms(1) t by (auto simp: sched_inv_def)
  show "sched_inv (k\<lparr>tmo := m\<rparr>)"
    using assms(1) l m link r by (auto simp: sched_inv_def tlist_inv_def)
  show "lost (k\<lparr>tmo := m\<rparr>) \<subseteq> insert t (lost k)"
    using r by (auto simp: lost_def)
  show "cache_inv (k\<lparr>tmo := m\<rparr>) = cache_inv k"
    by (simp add: cache_inv_def first_ready_def)
qed

lemma announce_threads_ok: "sched_ok k \<Longrightarrow> sched_ok (announce_threads k)"
proof (induction k rule: announce_threads.induct)
  case (1 k)
  show ?case
  proof (cases "announce_step (tmo k)")
    case None
    with 1 show ?thesis by (simp add: announce_threads.simps [of k])
  next
    case (Some r)
    obtain t m where tm: "announce_step (tmo k) = Some (t, m)"
      using Some by (cases r) auto
    have inv: "sched_inv k" and ok: "cache_inv k" "lost k = {}"
      using 1(2) by (auto simp: sched_ok_def)
    note s = announce_step_tmo [OF inv tm]
    have "sched_ok (z_thread_timeout t (k\<lparr>tmo := m\<rparr>))"
      using z_thread_timeout_inv [OF s(1), of t] s ok by (intro sched_okI) auto
    from 1(1) [OF tm refl this] tm show ?thesis
      by (simp add: announce_threads.simps [of k])
  qed
qed

lemma sched_ok_tmo:
  assumes "sched_ok k" and "fst ` set (timeout_list m) = fst ` set (timeout_list (tmo k))"
    and "tlist_inv (timeout_list m)" and "0 \<le> clock_elapsed m"
  shows "sched_ok (k\<lparr>tmo := m\<rparr>)"
proof -
  have l: "is_linked t m = is_linked t (tmo k)" for t
    using assms(2) by (simp add: is_linked_def)
  then have r: "z_is_thread_ready (k\<lparr>tmo := m\<rparr>) t = z_is_thread_ready k t" for t
    by (simp add: z_is_thread_ready_def z_is_thread_timeout_active_def)
  have "sched_inv (k\<lparr>tmo := m\<rparr>)"
    using assms l r by (auto simp: sched_ok_def sched_inv_def)
  with assms(1) r show ?thesis
    by (simp add: sched_ok_def cache_inv_def lost_def first_ready_def)
qed

lemma sched_ok_same: "same_threads k' k \<Longrightarrow> cache k' = cache k \<Longrightarrow> sched_ok k \<Longrightarrow> sched_ok k'"
  using same_threads_inv [of k' k] same_threads_lost [of k' k]
  by (simp add: sched_ok_def cache_inv_def first_ready_def same_threads_def)

lemma reset_time_slice_ok [simp]: "sched_ok k \<Longrightarrow> sched_ok (z_reset_time_slice k)"
  by (rule sched_ok_same [OF reset_time_slice_same]) (simp_all add: z_reset_time_slice_def)

lemma sched_ok_pending_current [simp]: "sched_ok (k\<lparr>pending_current := p\<rparr>) = sched_ok k"
  by (simp add: sched_ok_def)

lemma move_to_end_ok:
  assumes "sched_ok k" and "z_is_thread_queued (thrd k t)"
  shows "sched_ok (move_thread_to_end_of_prio_q t k)"
proof -
  have inv: "sched_inv k"
    using assms(1) by (simp add: sched_ok_def)
  let ?k = "enqueue t (dequeue t k)"
  note r = requeue_inv [OF inv assms(2)]
  have "move_thread_to_end_of_prio_q t k = update_cache (t = current ?k) ?k"
    using requeue_eq [OF inv assms(2)] assms(2)
    by (simp add: move_thread_to_end_of_prio_q_def Let_def del: upd_thread_simps)
  then show ?thesis
    using r(1,2) assms(1) sched_inv_update_cache [OF r(1)] lost_update_cache [of _ ?k]
    by (intro sched_okI) (auto simp: sched_ok_def)
qed

text \<open>The current thread is not between adding its timeout and switching away.\<close>

definition settled :: "kernel \<Rightarrow> bool" where
  "settled k \<longleftrightarrow> pending_current k = Some (current k) \<or> \<not> is_linked (current k) (tmo k)"

lemma z_time_slice_ok:
  assumes ok: "sched_ok k" and "settled k"
  shows "sched_ok (z_time_slice n k)"
proof (cases "pending_current k = Some (current k)")
  case True
  with ok show ?thesis by (simp add: z_time_slice_def)
next
  case False
  let ?k = "k\<lparr>pending_current := None\<rparr>"
  have k: "sched_ok ?k"
    using ok by simp
  have slice: "sched_ok (?k\<lparr>tmo := (tmo ?k)\<lparr>slice_ticks := s\<rparr>\<rparr>)" for s
    using k by (intro sched_ok_tmo) (auto simp: sched_ok_def sched_inv_def)
  have "z_is_thread_queued (thrd ?k (current ?k))" if "sliceable ?k (current ?k)"
  proof -
    have "z_is_thread_ready ?k (current ?k)" "current ?k \<noteq> idle_thread ?k"
      using that False assms(2)
      by (auto simp: sliceable_def settled_def z_is_thread_ready_def z_is_thread_timeout_active_def
          z_is_idle_thread_object_def)
    with k show ?thesis by (auto simp: sched_ok_def lost_def)
  qed
  then show ?thesis
    using False k slice move_to_end_ok [OF k] by (simp add: z_time_slice_def Let_def)
qed

lemma announce_threads_None: "announce_step (tmo (announce_threads k)) = None"
proof (induction k rule: announce_threads.induct)
  case (1 k)
  then show ?case
    by (cases "announce_step (tmo k)") (auto simp: announce_threads.simps [of k])
qed

lemma z_clock_announce_ok:
  assumes "sched_ok k" and "settled k"
  shows "sched_ok (z_clock_announce n k)"
proof -
  let ?k1 = "z_time_slice n k"
  let ?k2 = "announce_threads (?k1\<lparr>tmo := announce_begin n (tmo ?k1)\<rparr>)"
  have "sched_ok (?k1\<lparr>tmo := announce_begin n (tmo ?k1)\<rparr>)"
    using z_time_slice_ok [OF assms, of n]
    by (intro sched_ok_tmo) (auto simp: announce_begin_def sched_ok_def sched_inv_def)
  then have k2: "sched_ok ?k2"
    by (rule announce_threads_ok)
  then have "tlist_inv (timeout_list (tmo ?k2))"
    by (simp add: sched_ok_def sched_inv_def)
  then have "tlist_inv (timeout_list (announce_end (tmo ?k2)))"
    "fst ` set (timeout_list (announce_end (tmo ?k2))) = fst ` set (timeout_list (tmo ?k2))"
    using announce_threads_None [of "?k1\<lparr>tmo := announce_begin n (tmo ?k1)\<rparr>"]
    by (auto simp: announce_end_def announce_step_def Let_def tlist_inv_def image_iff
        split: list.splits if_splits)
  with k2 show ?thesis
    by (simp add: z_clock_announce_def Let_def)
       (rule sched_ok_tmo, auto simp: sched_ok_def sched_inv_def announce_end_def Let_def)
qed

subsection \<open>Contract of the scheduler\<close>

text \<open>A kernel with a cooperative thread 2, a preemptible thread 4 and the idle thread 0.\<close>

definition sample_kernel :: kernel where
  "sample_kernel =
     \<lparr>thrd = (\<lambda>t. \<lparr>thread_state = (if t = 0 then 0 else if t = 2 \<or> t = 4 then THREAD_QUEUED else THREAD_DEAD),
        prio_byte = (if t = 2 then 0xf8 else 5), sched_locked = 0, pended_on = None, swap_data = [],
        swap_word = 0, swap_return_value = 0\<rparr>),
      runq = [2, 4], cache = 2, current = 2, idle_thread = 0, pending_abort = None,
      waitqs = (\<lambda>_. []),
      tmo = \<lparr>timeout_list = [], curr_tick = 0, announce_remaining = 0, slice_ticks = 0,
        clock_elapsed = 0, clock_timeout = 0\<rparr>,
      pending_current = None, slice_time = 0, slice_max_prio = 0, in_isr = False, irqs_on = True\<rparr>"

lemma sample_kernel_ok: "sched_ok sample_kernel" "running sample_kernel"
proof -
  have bits: "\<not> bit (0x80 :: u8) 5" "bit (0x80 :: u8) 7" "\<not> bit (0x08 :: u8) 7" "bit (0x08 :: u8) 3"
    "\<not> bit (0x80 :: u8) 0" "\<not> bit (0x80 :: u8) 1" "\<not> bit (0x80 :: u8) 2" "\<not> bit (0x80 :: u8) 3"
    "\<not> bit (0x80 :: u8) 4"
    by (simp_all add: bit_simps)
  show "sched_ok sample_kernel"
    unfolding sched_ok_def
  proof (intro conjI)
    show "sched_inv sample_kernel"
      using bits
      by (auto simp: sched_inv_def sample_kernel_def dumb_inv_def prio_def queued_bit prevented_bits
          z_is_thread_ready_def z_is_thread_timeout_active_def is_linked_def tlist_inv_def)
    show "cache_inv sample_kernel"
      by (simp add: cache_inv_def sample_kernel_def first_ready_def)
    show "lost sample_kernel = {}"
      using bits
      by (auto simp: lost_def sample_kernel_def queued_bit prevented_bits z_is_thread_ready_def
          split: if_splits)
  qed
  show "running sample_kernel"
    by (simp add: running_def sample_kernel_def)
qed

text \<open>
  A thread that blocks hands the processor to the most urgent thread that is ready. After the
  current thread pends itself on a wait queue, with or without a timeout, the thread that runs is the
  first of the ready queue, whose priority no ready thread exceeds, or the idle thread when no thread
  is ready; the thread that blocked is in that wait queue; and no ready thread is missing from the
  ready queue.
\<close>

lemma pend_switches_to_most_urgent:
  assumes "sched_ok k" and "running k" and "z_pend_curr w timeout k = k'"
  shows "sched_ok k' \<and> current k \<in> set (waitqs k' w) \<and>
     (\<forall>t. z_is_thread_ready k' t \<and> t \<noteq> idle_thread k' \<longrightarrow>
        current k' \<noteq> idle_thread k' \<and> prio (thrd k' (current k')) \<le> prio (thrd k' t))"
proof -
  note p = z_pend_curr_ok [OF assms(1,2), of w timeout, unfolded assms(3)]
  have inv: "sched_inv k'" and l: "lost k' = {}"
    using p(1) by (auto simp: sched_ok_def)
  have "current k' \<noteq> idle_thread k' \<and> prio (thrd k' (current k')) \<le> prio (thrd k' t)"
    if "z_is_thread_ready k' t" "t \<noteq> idle_thread k'" for t
  proof -
    have t: "t \<in> set (runq k')"
      using inv l that by (auto simp: sched_inv_def lost_def)
    then have "runq k' \<noteq> []" by auto
    with first_ready_cases [OF inv] t p(2) inv show ?thesis
      by (auto simp: sched_inv_def)
  qed
  with p(1,3) inv show ?thesis
    by (auto simp: sched_inv_def)
qed

text \<open>
  A yield goes round the threads of a priority. The current thread moves behind all threads of
  its priority and in front of the less urgent ones, the head of the ready queue runs next, and the
  scheduler's invariant is kept.
\<close>

lemma yield_rotates_priority:
  assumes "sched_ok k" and "running k"
  shows "sched_ok (z_impl_k_yield k) \<and>
     current (z_impl_k_yield k) = hd (runq (z_impl_k_yield k)) \<and>
     filter (\<lambda>u. prio (thrd k u) = prio (thrd k (current k))) (runq (z_impl_k_yield k)) =
       filter (\<lambda>u. prio (thrd k u) = prio (thrd k (current k))) (remove1 (current k) (runq k)) @
       [current k]"
proof -
  have "sorted (map (\<lambda>u. prio (thrd k u)) (remove1 (current k) (runq k)))"
    using assms(1) by (simp add: sched_ok_def sched_inv_def dumb_inv_def sorted_remove1)
  with yield_ok [OF assms] show ?thesis
    by (simp add: filter_insert_behind)
qed

text \<open>
  The timer interrupt keeps the scheduler's invariant: time slicing, firing any number of thread
  timeouts and waking their threads leave the ready queue ordered, every wait queue consistent and
  no ready thread outside the ready queue. Sleeping does as well.
\<close>

lemma clock_announce_keeps_order:
  assumes "sched_ok k" and "running k"
  shows "sched_ok (z_clock_announce ticks k) \<and> sched_ok (z_tick_sleep n k)"
proof -
  have "settled k"
    using assms running_facts(3) by (simp add: settled_def sched_ok_def)
  with assms show ?thesis
    by (simp add: z_clock_announce_ok z_tick_sleep_ok)
qed

text \<open>
  Waking the first thread of a wait queue, as every kernel object does, removes that thread from
  the wait queue, puts it into the ready queue, cancels its timeout and keeps the invariant.
\<close>

lemma wake_first_thread:
  assumes "sched_ok k" and "waitqs k w = t # ts" and "thread_state (thrd k t) = THREAD_PENDING"
    and "z_ready_thread t (arch_thread_return_value_set t v (snd (z_unpend_first_thread w k))) = k'"
  shows "sched_ok k' \<and> waitqs k' w = ts \<and> t \<in> set (runq k') \<and> \<not> is_linked t (tmo k')"
proof -
  have p: "pended_on (thrd k t) = Some w" and inv: "sched_inv k"
    using assms(1,2) by (auto simp: sched_ok_def sched_inv_def) (metis list.set_intros(1))
  have ok: "sched_ok k'"
    using wake_first_ok [OF assms(1,2), of v] assms(4) by simp
  let ?k1 = "arch_thread_return_value_set t v (snd (z_unpend_first_thread w k))"
  have un: "unpend_thread_no_timeout t k =
      upd_thread t (\<lambda>x. (z_mark_thread_as_not_pending x)\<lparr>pended_on := None\<rparr>) (k\<lparr>waitqs := (waitqs k)(w := ts)\<rparr>)"
    using assms(2) by (simp add: unpend_thread_no_timeout_def p sys_dlist_remove_def)
  have l: "\<not> is_linked t (tmo ?k1)"
    using abort_timeout_inv(4) [OF unpend_inv(1) [OF inv p], of t]
    by (simp add: unpend_first_Some [OF assms(2)] arch_thread_return_value_set_def
        z_is_thread_timeout_active_def)
  moreover have "\<not> z_is_thread_prevented_from_running (thrd ?k1 t)"
    using assms(3) by (simp add: unpend_first_Some [OF assms(2)] arch_thread_return_value_set_def un
        prevented_bits mark_bits bit_simps)
  ultimately have r: "z_is_thread_ready ?k1 t"
    by (simp add: z_is_thread_ready_def z_is_thread_timeout_active_def)
  then have k': "k' = update_cache False (upd_thread t z_mark_thread_as_queued (priq_run_add t ?k1))"
    using assms(4) by (simp add: z_ready_thread_def ready_thread_def)
  have "waitqs ?k1 = (waitqs k)(w := ts)"
    by (simp add: unpend_first_Some [OF assms(2)] arch_thread_return_value_set_def un)
  then show ?thesis
    using ok l by (simp add: k' priq_run_add_def dumb_add_insert is_linked_def)
qed

text \<open>The same kernel with threads 5 and 6 waiting on wait queue 7, thread 5 with a timeout.\<close>

definition waiting_kernel :: kernel where
  "waiting_kernel = sample_kernel
     \<lparr>thrd := (thrd sample_kernel)(5 := \<lparr>thread_state = THREAD_PENDING, prio_byte = 3, sched_locked = 0,
        pended_on = Some 7, swap_data = [], swap_word = 0, swap_return_value = 0\<rparr>,
        6 := \<lparr>thread_state = THREAD_PENDING, prio_byte = 9, sched_locked = 0,
        pended_on = Some 7, swap_data = [], swap_word = 0, swap_return_value = 0\<rparr>),
      waitqs := (\<lambda>w. if w = 7 then [5, 6] else []),
      tmo := (tmo sample_kernel)\<lparr>timeout_list := [(5, 10)]\<rparr>\<rparr>"

lemma waiting_kernel_ok: "sched_ok waiting_kernel"
proof -
  have bits: "\<not> bit (0x80 :: u8) 5" "bit (0x80 :: u8) 7" "\<not> bit (0x08 :: u8) 7" "bit (0x08 :: u8) 3"
    "\<not> bit (0x80 :: u8) 0" "\<not> bit (0x80 :: u8) 1" "\<not> bit (0x80 :: u8) 2" "\<not> bit (0x80 :: u8) 3"
    "\<not> bit (0x80 :: u8) 4" "\<not> bit (0x02 :: u8) 7" "bit (0x02 :: u8) 1" "\<not> bit (0x02 :: u8) 5"
    by (simp_all add: bit_simps)
  show ?thesis
    unfolding sched_ok_def
  proof (intro conjI)
    show "sched_inv waiting_kernel"
      using bits
      by (auto simp: sched_inv_def waiting_kernel_def sample_kernel_def dumb_inv_def prio_def queued_bit
          prevented_bits pending_bit z_is_thread_ready_def z_is_thread_timeout_active_def is_linked_def
          tlist_inv_def)
    show "cache_inv waiting_kernel"
      by (simp add: cache_inv_def waiting_kernel_def sample_kernel_def first_ready_def)
    show "lost waiting_kernel = {}"
      using bits
      by (auto simp: lost_def waiting_kernel_def sample_kernel_def queued_bit prevented_bits
          z_is_thread_ready_def split: if_splits)
  qed
qed

text \<open>
  \<open>z_impl_k_thread_resume\<close> does not check that the thread is suspended, and \<open>ready_thread\<close> does not
  check that it is not queued already.

  Resuming a thread that is ready and in the ready queue, and so was not suspended, inserts it a
  second time: the ready queue has a duplicate.
\<close>

lemma resume_ready_thread_corrupts:
  assumes "sched_ok k" and "t \<in> set (runq k)"
  shows "\<not> distinct (runq (z_impl_k_thread_resume t k)) \<and> \<not> sched_inv (z_impl_k_thread_resume t k)"
proof -
  let ?k = "upd_thread t z_mark_thread_as_not_suspended k"
  have "z_is_thread_ready k t"
    using assms by (auto simp: sched_ok_def sched_inv_def)
  then have "z_is_thread_ready ?k t"
    by (auto simp: ready_upd_thread z_is_thread_ready_def z_is_thread_timeout_active_def state_bits)
  then have "runq (ready_thread t ?k) = insert_behind (\<lambda>u. prio (thrd ?k u)) t (runq k)"
    by (simp add: ready_thread_def priq_run_add_def dumb_add_insert)
  then have "\<not> distinct (runq (ready_thread t ?k))"
    using assms(2) by simp
  moreover have "runq (z_impl_k_thread_resume t k) = runq (ready_thread t ?k)"
    by (simp add: z_impl_k_thread_resume_def z_reschedule_def z_swap_def)
  ultimately show ?thesis
    by (simp add: sched_inv_def dumb_inv_def)
qed

text \<open>
  \<open>z_set_prio\<close> gives a thread that is not ready its new priority where it is.

  Changing the priority of a thread that waits leaves every wait queue as it was, so a thread that
  became more urgent than the head of its wait queue is still woken after it, and the wait queue is
  no longer ordered.
\<close>

lemma set_prio_ignores_wait_queue:
  assumes "sched_ok k" and "waitqs k w = h # ts" and "t \<in> set ts" and "sint p < prio (thrd k h)"
  shows "waitqs (snd (z_set_prio t p k)) w = h # ts \<and>
     z_find_first_thread_to_unpend w (snd (z_set_prio t p k)) = Some h \<and>
     prio (thrd (snd (z_set_prio t p k)) t) < prio (thrd (snd (z_set_prio t p k)) h) \<and>
     \<not> sched_inv (snd (z_set_prio t p k))"
proof -
  have po: "pended_on (thrd k t) = Some w"
    using assms(1-3) by (auto simp: sched_ok_def sched_inv_def) (metis list.set_intros(2))
  have "t \<noteq> h"
    using assms(1-3) by (auto simp: sched_ok_def sched_inv_def dumb_inv_def)
      (metis distinct.simps(2))
  have "\<not> z_is_thread_ready k t"
    using assms(1) po pending_prevented by (auto simp: sched_ok_def sched_inv_def z_is_thread_ready_def)
  then have eq: "snd (z_set_prio t p k) = upd_thread t (\<lambda>x. x\<lparr>prio_byte := p\<rparr>) k"
    by (simp add: z_set_prio_def Let_def)
  have less: "prio (thrd (snd (z_set_prio t p k)) t) < prio (thrd (snd (z_set_prio t p k)) h)"
    using \<open>t \<noteq> h\<close> assms(4) by (simp add: eq prio_def)
  have "\<not> dumb_inv (thrd (snd (z_set_prio t p k))) (h # ts)"
    using less assms(3) by (force simp: dumb_inv_def)
  then have "\<not> sched_inv (snd (z_set_prio t p k))"
    using assms(2) sched_inv_waitq [of "snd (z_set_prio t p k)" w] by (auto simp: eq)
  with less assms(2) show ?thesis
    by (simp add: eq z_find_first_thread_to_unpend_def)
qed

end
