(* ===== verification/Fifo.thy ===== *)
theory Fifo
  imports Prelude
begin

text \<open>
  The interface of a bounded queue: what a client may rely on when it puts elements in at one end
  and takes them out at the other. \<open>enq\<close> fails on a full queue, \<open>deq\<close> on an empty one; \<open>content\<close> is
  the queue as a list, \<open>ok q x\<close> says that \<open>x\<close> is an element of the kind \<open>q\<close> holds.
\<close>

locale bounded_fifo =
  fixes enq :: "'a \<Rightarrow> 'q \<Rightarrow> 'q option" and deq :: "'q \<Rightarrow> ('a \<times> 'q) option"
    and content :: "'q \<Rightarrow> 'a list" and cap :: "'q \<Rightarrow> nat" and inv :: "'q \<Rightarrow> bool"
    and ok :: "'q \<Rightarrow> 'a \<Rightarrow> bool"
  assumes enq_full: "inv q \<Longrightarrow> ok q x \<Longrightarrow> enq x q = None \<longleftrightarrow> length (content q) = cap q"
    and enq_content: "inv q \<Longrightarrow> ok q x \<Longrightarrow> enq x q = Some q' \<Longrightarrow> content q' = content q @ [x]"
    and enq_inv: "inv q \<Longrightarrow> ok q x \<Longrightarrow> enq x q = Some q' \<Longrightarrow> inv q' \<and> cap q' = cap q \<and> ok q' = ok q"
    and deq_empty: "inv q \<Longrightarrow> deq q = None \<longleftrightarrow> content q = []"
    and deq_content: "inv q \<Longrightarrow> deq q = Some (x, q') \<Longrightarrow> content q = x # content q'"
    and deq_inv: "inv q \<Longrightarrow> deq q = Some (x, q') \<Longrightarrow> inv q' \<and> cap q' = cap q \<and> ok q' = ok q"
    and bounded: "inv q \<Longrightarrow> length (content q) \<le> cap q"
begin

primrec enq_all :: "'a list \<Rightarrow> 'q \<Rightarrow> 'q option" where
  "enq_all [] q = Some q"
| "enq_all (x # xs) q = (case enq x q of None \<Rightarrow> None | Some q' \<Rightarrow> enq_all xs q')"

primrec deq_many :: "nat \<Rightarrow> 'q \<Rightarrow> ('a list \<times> 'q) option" where
  "deq_many 0 q = Some ([], q)"
| "deq_many (Suc n) q =
     (case deq q of None \<Rightarrow> None
      | Some (x, q') \<Rightarrow> (case deq_many n q' of None \<Rightarrow> None | Some (xs, q'') \<Rightarrow> Some (x # xs, q'')))"

lemma enq_all_content:
  assumes "inv q" and "list_all (ok q) xs" and "length (content q) + length xs \<le> cap q"
  shows "\<exists>q'. enq_all xs q = Some q' \<and> inv q' \<and> content q' = content q @ xs \<and> cap q' = cap q"
  using assms
proof (induction xs arbitrary: q)
  case (Cons x xs)
  then have "enq x q \<noteq> None"
    by (auto simp: enq_full)
  then obtain q1 where q1: "enq x q = Some q1"
    by auto
  note e = enq_content [OF Cons.prems(1) _ q1] enq_inv [OF Cons.prems(1) _ q1]
  from Cons.prems e have "\<exists>q'. enq_all xs q1 = Some q' \<and> inv q' \<and> content q' = content q1 @ xs \<and> cap q' = cap q1"
    by (intro Cons.IH) auto
  with q1 Cons.prems e show ?case by auto
qed simp

lemma deq_many_content:
  assumes "inv q" and "n \<le> length (content q)"
  shows "\<exists>q'. deq_many n q = Some (take n (content q), q') \<and> inv q' \<and> content q' = drop n (content q)"
  using assms
proof (induction n arbitrary: q)
  case (Suc n)
  then have "deq q \<noteq> None"
    by (auto simp: deq_empty)
  then obtain x q1 where q1: "deq q = Some (x, q1)"
    by auto
  note d = deq_content [OF Suc.prems(1) q1] deq_inv [OF Suc.prems(1) q1]
  from Suc.prems d have "\<exists>q'. deq_many n q1 = Some (take n (content q1), q') \<and> inv q' \<and>
      content q' = drop n (content q1)"
    by (intro Suc.IH) auto
  with q1 d show ?case by auto
qed simp

text \<open>What goes in comes out, in order.\<close>

lemma fifo_order:
  assumes "inv q" and "content q = []" and "list_all (ok q) xs" and "length xs \<le> cap q"
  obtains q1 q2 where "enq_all xs q = Some q1" and "deq_many (length xs) q1 = Some (xs, q2)"
    and "inv q2" and "content q2 = []"
proof -
  obtain q1 where q1: "enq_all xs q = Some q1" "inv q1" "content q1 = xs"
    using enq_all_content [OF assms(1,3)] assms(2,4) by auto
  with deq_many_content [of q1 "length xs"] that show ?thesis by auto
qed

end

end
