(* ===== verification/Msgq.thy ===== *)
theory Msgq
  imports Sched Fifo
begin

text \<open>
  Message queues, \<open>kernel/msg_q.c\<close>: a ring buffer of messages of a fixed size, with one wait queue
  that holds the readers while the queue is empty and the writers while it is full. The pointers of
  the structure are offsets into the buffer. An operation that blocks has put its thread on the wait
  queue and switched away (\<open>Blocked\<close>); what the thread finally returns is its \<open>swap_return_value\<close>,
  and a reader finds the message in its \<open>swap_data\<close>.
\<close>

record k_msgq =
  msg_size :: nat
  max_msgs :: nat
  buffer :: "u8 list"
  read_ptr :: nat
  write_ptr :: nat
  used_msgs :: nat
  mq_flags :: u8
  mq_wait_q :: wqid

datatype outcome = Returned int | Blocked

abbreviation K_MSGQ_FLAG_ALLOC :: u8 where "K_MSGQ_FLAG_ALLOC \<equiv> 1"

definition k_msgq_init :: "u8 list \<Rightarrow> nat \<Rightarrow> nat \<Rightarrow> wqid \<Rightarrow> kernel \<Rightarrow> k_msgq \<times> kernel" where
  "k_msgq_init buf sz n w k =
     (\<lparr>msg_size = sz, max_msgs = n, buffer = buf, read_ptr = 0, write_ptr = 0, used_msgs = 0,
       mq_flags = 0, mq_wait_q = w\<rparr>,
      k\<lparr>waitqs := (waitqs k)(w := [])\<rparr>)"

text \<open>\<open>alloc\<close> is the allocator \<open>z_thread_malloc\<close>: the new block, or None.\<close>

definition size_mul_overflow :: "u32 \<Rightarrow> u32 \<Rightarrow> bool \<times> u32" where
  "size_mul_overflow a b = (let c = a * b in (a \<noteq> 0 \<and> c div a \<noteq> b, c))"

definition z_impl_k_msgq_alloc_init ::
    "(u32 \<Rightarrow> u8 list option) \<Rightarrow> u32 \<Rightarrow> u32 \<Rightarrow> wqid \<Rightarrow> k_msgq \<Rightarrow> kernel \<Rightarrow> int \<times> k_msgq \<times> kernel" where
  "z_impl_k_msgq_alloc_init alloc sz n w q k =
     (case size_mul_overflow sz n of (overflow, total_size) \<Rightarrow>
        if overflow then (- EINVAL, q, k)
        else case alloc total_size of
               None \<Rightarrow> (- ENOMEM, q, k)
             | Some buf \<Rightarrow>
                 (case k_msgq_init buf (unat sz) (unat n) w k of (q', k') \<Rightarrow>
                    (0, q'\<lparr>mq_flags := K_MSGQ_FLAG_ALLOC\<rparr>, k')))"

definition k_msgq_cleanup :: "k_msgq \<Rightarrow> kernel \<Rightarrow> int \<times> k_msgq" where
  "k_msgq_cleanup q k =
     (if waitqs k (mq_wait_q q) \<noteq> [] then (- EBUSY, q)
      else (0, if mq_flags q AND K_MSGQ_FLAG_ALLOC \<noteq> 0
               then q\<lparr>buffer := [], mq_flags := mq_flags q AND NOT K_MSGQ_FLAG_ALLOC\<rparr> else q))"

text \<open>Copying a message in at the write pointer and out at the read pointer.\<close>

definition advance :: "nat \<Rightarrow> k_msgq \<Rightarrow> nat" where
  "advance p q = (if p + msg_size q = max_msgs q * msg_size q then 0 else p + msg_size q)"

definition msgq_write :: "u8 list \<Rightarrow> k_msgq \<Rightarrow> k_msgq" where
  "msgq_write data q =
     q\<lparr>buffer := memcpy_at (buffer q) (write_ptr q) (take (msg_size q) data),
       write_ptr := advance (write_ptr q) q, used_msgs := used_msgs q + 1\<rparr>"

definition msgq_head :: "k_msgq \<Rightarrow> u8 list" where
  "msgq_head q = take (msg_size q) (drop (read_ptr q) (buffer q))"

definition msgq_read :: "k_msgq \<Rightarrow> u8 list \<times> k_msgq" where
  "msgq_read q = (msgq_head q, q\<lparr>read_ptr := advance (read_ptr q) q, used_msgs := used_msgs q - 1\<rparr>)"

definition wake :: "tid \<Rightarrow> int \<Rightarrow> kernel \<Rightarrow> kernel" where
  "wake t v k = z_ready_thread t (arch_thread_return_value_set t v k)"

definition z_impl_k_msgq_put :: "u8 list \<Rightarrow> int \<Rightarrow> k_msgq \<Rightarrow> kernel \<Rightarrow> outcome \<times> k_msgq \<times> kernel" where
  "z_impl_k_msgq_put data timeout q k =
     (if used_msgs q < max_msgs q then
        (case z_unpend_first_thread (mq_wait_q q) k of
           (Some t, k1) \<Rightarrow>
             (Returned 0, q,
              z_reschedule (wake t 0
                (upd_thread t (\<lambda>x. x\<lparr>swap_data := take (msg_size q) data\<rparr>) k1)))
         | (None, k1) \<Rightarrow> (Returned 0, msgq_write data q, k1))
      else if timeout = K_NO_WAIT then (Returned (- ENOMSG), q, k)
      else (Blocked, q,
            z_pend_curr (mq_wait_q q) timeout
              (upd_thread (current k) (\<lambda>x. x\<lparr>swap_data := data\<rparr>) k)))"

definition z_impl_k_msgq_get_attrs :: "k_msgq \<Rightarrow> nat \<times> nat \<times> nat" where
  "z_impl_k_msgq_get_attrs q = (msg_size q, max_msgs q, used_msgs q)"

definition z_impl_k_msgq_get ::
    "int \<Rightarrow> k_msgq \<Rightarrow> kernel \<Rightarrow> outcome \<times> u8 list option \<times> k_msgq \<times> kernel" where
  "z_impl_k_msgq_get timeout q k =
     (if used_msgs q > 0 then
        (case msgq_read q of (data, q1) \<Rightarrow>
           case z_unpend_first_thread (mq_wait_q q) k of
             (Some t, k1) \<Rightarrow>
               (Returned 0, Some data, msgq_write (swap_data (thrd k1 t)) q1, z_reschedule (wake t 0 k1))
           | (None, k1) \<Rightarrow> (Returned 0, Some data, q1, k1))
      else if timeout = K_NO_WAIT then (Returned (- ENOMSG), None, q, k)
      else (Blocked, None, q,
            z_pend_curr (mq_wait_q q) timeout (upd_thread (current k) (\<lambda>x. x\<lparr>swap_data := []\<rparr>) k)))"

definition z_impl_k_msgq_peek :: "k_msgq \<Rightarrow> int \<times> u8 list option" where
  "z_impl_k_msgq_peek q =
     (if used_msgs q > 0 then (0, Some (msgq_head q)) else (- ENOMSG, None))"

text \<open>The loop of \<open>z_impl_k_msgq_purge\<close>; it ends because every turn shortens the wait queue.\<close>

fun purge_waiters :: "tid list \<Rightarrow> wqid \<Rightarrow> kernel \<Rightarrow> kernel" where
  "purge_waiters [] w k = k"
| "purge_waiters (_ # ts) w k =
     (case z_unpend_first_thread w k of
        (Some t, k1) \<Rightarrow> purge_waiters ts w (wake t (- ENOMSG) k1)
      | (None, k1) \<Rightarrow> k1)"

definition z_impl_k_msgq_purge :: "k_msgq \<Rightarrow> kernel \<Rightarrow> k_msgq \<times> kernel" where
  "z_impl_k_msgq_purge q k =
     (let k1 = purge_waiters (waitqs k (mq_wait_q q)) (mq_wait_q q) k
      in (q\<lparr>used_msgs := 0, read_ptr := write_ptr q\<rparr>, z_reschedule k1))"

definition z_impl_k_msgq_num_free_get :: "k_msgq \<Rightarrow> nat" where
  "z_impl_k_msgq_num_free_get q = max_msgs q - used_msgs q"

definition z_impl_k_msgq_num_used_get :: "k_msgq \<Rightarrow> nat" where
  "z_impl_k_msgq_num_used_get q = used_msgs q"

subsection \<open>The ring buffer refines a list\<close>

definition ring_inv :: "k_msgq \<Rightarrow> bool" where
  "ring_inv q \<longleftrightarrow> 0 < max_msgs q \<and> 0 < msg_size q \<and>
     length (buffer q) = max_msgs q * msg_size q \<and> used_msgs q \<le> max_msgs q \<and>
     (\<exists>r<max_msgs q. read_ptr q = r * msg_size q \<and>
        write_ptr q = ((r + used_msgs q) mod max_msgs q) * msg_size q)"

definition messages :: "k_msgq \<Rightarrow> u8 list list" where
  "messages q = map (\<lambda>i. slot (buffer q) (msg_size q)
       ((read_ptr q div msg_size q + i) mod max_msgs q)) [0..<used_msgs q]"

lemma length_messages [simp]: "length (messages q) = used_msgs q"
  by (simp add: messages_def)

lemma advance_slot:
  assumes "0 < msg_size q" and "i < max_msgs q" and "p = i * msg_size q"
  shows "advance p q = ((i + 1) mod max_msgs q) * msg_size q"
proof (cases "i + 1 = max_msgs q")
  case True
  then have "p + msg_size q = max_msgs q * msg_size q"
    using assms(3) by (metis add.commute mult_Suc Suc_eq_plus1)
  with True show ?thesis by (simp add: advance_def)
next
  case False
  with assms(2) have "i + 1 < max_msgs q" by simp
  moreover have p: "p + msg_size q = (i + 1) * msg_size q"
    using assms(3) by simp
  moreover have "(i + 1) * msg_size q \<noteq> max_msgs q * msg_size q"
    using False assms(1) by (simp only: mult_cancel2) auto
  ultimately show ?thesis
    unfolding advance_def p by simp
qed

lemma ring_write:
  assumes inv: "ring_inv q" and "used_msgs q < max_msgs q" and "length data = msg_size q"
  shows "ring_inv (msgq_write data q)" and "messages (msgq_write data q) = messages q @ [data]"
proof -
  obtain r where r: "r < max_msgs q" "read_ptr q = r * msg_size q"
    "write_ptr q = ((r + used_msgs q) mod max_msgs q) * msg_size q"
    and pos: "0 < max_msgs q" "0 < msg_size q" and len: "length (buffer q) = max_msgs q * msg_size q"
    using inv by (auto simp: ring_inv_def)
  let ?w = "(r + used_msgs q) mod max_msgs q"
  have w: "?w < max_msgs q"
    using pos by simp
  have fits: "?w * msg_size q + msg_size q \<le> length (buffer q)"
    using slot_bound [OF w, of "msg_size q"] len by simp
  have "advance (write_ptr q) q = ((r + (used_msgs q + 1)) mod max_msgs q) * msg_size q"
    using advance_slot [OF pos(2) w r(3)] by (simp add: mod_Suc_eq)
  then show "ring_inv (msgq_write data q)"
    using r pos len fits assms(2,3) by (auto simp: ring_inv_def msgq_write_def)
  have old: "slot (memcpy_at (buffer q) (?w * msg_size q) data) (msg_size q) ((r + i) mod max_msgs q) =
      slot (buffer q) (msg_size q) ((r + i) mod max_msgs q)" if "i < used_msgs q" for i
    using that assms(2,3) fits mod_ring_inj [of i "max_msgs q" "used_msgs q" r]
    by (intro slot_memcpy_other) auto
  show "messages (msgq_write data q) = messages q @ [data]"
    using old assms(3) fits pos r(2,3) by (simp add: messages_def msgq_write_def)
qed

lemma ring_read:
  assumes inv: "ring_inv q" and "0 < used_msgs q"
  shows "ring_inv (snd (msgq_read q))"
    and "messages q = fst (msgq_read q) # messages (snd (msgq_read q))"
    and "length (fst (msgq_read q)) = msg_size q"
proof -
  obtain r where r: "r < max_msgs q" "read_ptr q = r * msg_size q"
    "write_ptr q = ((r + used_msgs q) mod max_msgs q) * msg_size q"
    and pos: "0 < max_msgs q" "0 < msg_size q" and len: "length (buffer q) = max_msgs q * msg_size q"
    using inv by (auto simp: ring_inv_def)
  obtain u where u: "used_msgs q = Suc u"
    using assms(2) by (cases "used_msgs q") auto
  let ?r = "(r + 1) mod max_msgs q"
  have adv: "advance (read_ptr q) q = ?r * msg_size q"
    by (rule advance_slot [OF pos(2) r(1,2)])
  have shift: "(?r + i) mod max_msgs q = (r + Suc i) mod max_msgs q" for i
    by (simp add: mod_simps)
  have "?r < max_msgs q"
    using pos by simp
  then show "ring_inv (snd (msgq_read q))"
    unfolding ring_inv_def
    using inv pos len adv shift [of u] r(3) u by (auto simp: ring_inv_def msgq_read_def)
  have "msgq_head q = slot (buffer q) (msg_size q) r"
    by (simp add: msgq_head_def slot_def r(2))
  moreover have "[0..<Suc u] = 0 # map Suc [0..<u]"
    by (simp add: map_Suc_upt upt_conv_Cons del: upt_Suc)
  ultimately show "messages q = fst (msgq_read q) # messages (snd (msgq_read q))"
    using r(1,2) pos adv shift u by (simp add: messages_def msgq_read_def o_def del: upt_Suc)
  show "length (fst (msgq_read q)) = msg_size q"
    using slot_bound [OF r(1), of "msg_size q"] len r(2) by (simp add: msgq_read_def msgq_head_def)
qed

text \<open>The queue without its threads implements the interface of a bounded queue.\<close>

definition ring_enq :: "u8 list \<Rightarrow> k_msgq \<Rightarrow> k_msgq option" where
  "ring_enq data q = (if used_msgs q < max_msgs q then Some (msgq_write data q) else None)"

definition ring_deq :: "k_msgq \<Rightarrow> (u8 list \<times> k_msgq) option" where
  "ring_deq q = (if 0 < used_msgs q then Some (msgq_read q) else None)"

lemma msgq_write_fields [simp]:
  "msg_size (msgq_write d q) = msg_size q" "max_msgs (msgq_write d q) = max_msgs q"
  "mq_wait_q (msgq_write d q) = mq_wait_q q" "used_msgs (msgq_write d q) = used_msgs q + 1"
  by (simp_all add: msgq_write_def)

lemma msgq_read_fields [simp]:
  "msg_size (snd (msgq_read q)) = msg_size q" "max_msgs (snd (msgq_read q)) = max_msgs q"
  "mq_wait_q (snd (msgq_read q)) = mq_wait_q q" "used_msgs (snd (msgq_read q)) = used_msgs q - 1"
  by (simp_all add: msgq_read_def)

interpretation ring: bounded_fifo ring_enq ring_deq messages max_msgs ring_inv
    "\<lambda>q d. length d = msg_size q"
proof unfold_locales
  fix q and x :: "u8 list"
  assume "ring_inv q"
  then have le: "used_msgs q \<le> max_msgs q"
    by (simp add: ring_inv_def)
  then show "length (messages q) \<le> max_msgs q"
    by simp
  from le show "ring_enq x q = None \<longleftrightarrow> length (messages q) = max_msgs q"
    by (auto simp: ring_enq_def)
  show "ring_deq q = None \<longleftrightarrow> messages q = []"
    by (simp add: ring_deq_def messages_def)
next
  fix q q' and x :: "u8 list"
  assume "ring_inv q" "length x = msg_size q" "ring_enq x q = Some q'"
  then show "messages q' = messages q @ [x]"
    and "ring_inv q' \<and> max_msgs q' = max_msgs q \<and> (\<lambda>d. length d = msg_size q') = (\<lambda>d. length d = msg_size q)"
    using ring_write [of q x] by (auto simp: ring_enq_def split: if_splits)
next
  fix q q' and x :: "u8 list"
  assume "ring_inv q" "ring_deq q = Some (x, q')"
  then show "messages q = x # messages q'"
    and "ring_inv q' \<and> max_msgs q' = max_msgs q \<and> (\<lambda>d. length d = msg_size q') = (\<lambda>d. length d = msg_size q)"
    using ring_read [of q] by (auto simp: ring_deq_def split: if_splits) (metis fst_conv snd_conv msgq_read_fields)+
qed

subsection \<open>Operations and the threads that wait\<close>

lemma wake_fields [simp]:
  "waitqs (wake t v k) = waitqs k" "current (wake t v k) = current k" "in_isr (wake t v k) = in_isr k"
  "idle_thread (wake t v k) = idle_thread k" "pending_abort (wake t v k) = pending_abort k"
  "swap_data (thrd (wake t v k) u) = swap_data (thrd k u)"
  "swap_word (thrd (wake t v k) u) = swap_word (thrd k u)"
  "swap_return_value (thrd (wake t v k) u) = (if u = t then v else swap_return_value (thrd k u))"
  "pended_on (thrd (wake t v k) u) = pended_on (thrd k u)"
  by (simp_all add: wake_def z_ready_thread_def ready_thread_def arch_thread_return_value_set_def
      priq_run_add_def)

lemma reschedule_fields [simp]:
  "waitqs (z_reschedule k) = waitqs k" "runq (z_reschedule k) = runq k"
  "idle_thread (z_reschedule k) = idle_thread k"
  "swap_data (thrd (z_reschedule k) u) = swap_data (thrd k u)"
  "swap_word (thrd (z_reschedule k) u) = swap_word (thrd k u)"
  "u \<noteq> current k \<or> in_isr k \<Longrightarrow>
   swap_return_value (thrd (z_reschedule k) u) = swap_return_value (thrd k u)"
  by (auto simp: z_reschedule_def z_swap_def resched_def)

lemma unpended_fields:
  assumes "sched_inv k" and "waitqs k w = t # ts"
  shows "waitqs (snd (z_unpend_first_thread w k)) = (waitqs k)(w := ts)"
    and "swap_data (thrd (snd (z_unpend_first_thread w k)) u) = swap_data (thrd k u)"
    and "swap_return_value (thrd (snd (z_unpend_first_thread w k)) u) = swap_return_value (thrd k u)"
    and "current (snd (z_unpend_first_thread w k)) = current k"
    and "in_isr (snd (z_unpend_first_thread w k)) = in_isr k"
proof -
  have "pended_on (thrd k t) = Some w"
    using assms by (auto simp: sched_inv_def) (metis list.set_intros(1))
  then show "waitqs (snd (z_unpend_first_thread w k)) = (waitqs k)(w := ts)"
    "swap_data (thrd (snd (z_unpend_first_thread w k)) u) = swap_data (thrd k u)"
    "swap_return_value (thrd (snd (z_unpend_first_thread w k)) u) = swap_return_value (thrd k u)"
    "current (snd (z_unpend_first_thread w k)) = current k"
    "in_isr (snd (z_unpend_first_thread w k)) = in_isr k"
    using assms(2)
    by (simp_all add: unpend_first_Some unpend_thread_no_timeout_def sys_dlist_remove_def)
qed

lemma sched_ok_swap_data: "sched_ok (upd_thread t (\<lambda>x. x\<lparr>swap_data := d\<rparr>) k) = sched_ok k"
  by (simp add: sched_ok_def upd_harmless)

lemma sched_ok_reschedule: "sched_ok k \<Longrightarrow> sched_ok (z_reschedule k)"
  by (simp add: sched_ok_def z_reschedule_inv)

lemma running_swap_data: "running (upd_thread t (\<lambda>x. x\<lparr>swap_data := d\<rparr>) k) = running k"
  by (simp add: running_def)

lemma wake_upd:
  "wake t v (upd_thread t f k) = z_ready_thread t (upd_thread t (\<lambda>x. (f x)\<lparr>swap_return_value := v\<rparr>) k)"
  by (simp add: wake_def arch_thread_return_value_set_def upd_thread_def)

lemma wake_first_data_ok:
  assumes "sched_ok k" and "waitqs k w = t # ts"
  shows "sched_ok (wake t v (upd_thread t (\<lambda>x. x\<lparr>swap_data := d\<rparr>) (snd (z_unpend_first_thread w k))))"
  unfolding wake_upd by (rule wake_first_upd_ok [OF assms]) simp_all

text \<open>
  The invariant of a queue with its wait queue: threads wait only at an empty or at a full queue, and
  a writer that waits has a message of the right size.
\<close>

definition msgq_inv :: "k_msgq \<Rightarrow> kernel \<Rightarrow> bool" where
  "msgq_inv q k \<longleftrightarrow> ring_inv q \<and>
     (0 < used_msgs q \<and> used_msgs q < max_msgs q \<longrightarrow> waitqs k (mq_wait_q q) = []) \<and>
     (used_msgs q = max_msgs q \<longrightarrow>
        (\<forall>t\<in>set (waitqs k (mq_wait_q q)). length (swap_data (thrd k t)) = msg_size q))"

lemma msgq_inv_room: "msgq_inv q k \<Longrightarrow> waitqs k (mq_wait_q q) \<noteq> [] \<Longrightarrow> used_msgs q < max_msgs q \<Longrightarrow>
   used_msgs q = 0"
  by (auto simp: msgq_inv_def)

lemma put_stores:
  assumes "used_msgs q < max_msgs q" and "waitqs k (mq_wait_q q) = []"
  shows "z_impl_k_msgq_put data timeout q k = (Returned 0, msgq_write data q, k)"
  using assms by (simp add: z_impl_k_msgq_put_def unpend_first_None)

lemma put_hands_over:
  assumes "used_msgs q < max_msgs q" and "waitqs k (mq_wait_q q) = t # ts"
  shows "z_impl_k_msgq_put data timeout q k =
     (Returned 0, q, z_reschedule (wake t 0 (upd_thread t (\<lambda>x. x\<lparr>swap_data := take (msg_size q) data\<rparr>)
        (snd (z_unpend_first_thread (mq_wait_q q) k)))))"
  using assms by (simp add: z_impl_k_msgq_put_def unpend_first_Some)

lemma get_takes:
  assumes "0 < used_msgs q" and "waitqs k (mq_wait_q q) = []"
  shows "z_impl_k_msgq_get timeout q k = (Returned 0, Some (fst (msgq_read q)), snd (msgq_read q), k)"
  using assms by (simp add: z_impl_k_msgq_get_def unpend_first_None split: prod.splits)

lemma get_refills:
  assumes "0 < used_msgs q" and "waitqs k (mq_wait_q q) = t # ts" and "sched_inv k"
  shows "z_impl_k_msgq_get timeout q k =
     (Returned 0, Some (fst (msgq_read q)), msgq_write (swap_data (thrd k t)) (snd (msgq_read q)),
      z_reschedule (wake t 0 (snd (z_unpend_first_thread (mq_wait_q q) k))))"
  using assms(1,2) unpended_fields(2) [OF assms(3,2)]
  by (simp add: z_impl_k_msgq_get_def unpend_first_Some split: prod.splits)

text \<open>A blocked caller is on the wait queue and the others keep their data.\<close>

lemma pend_curr_fields:
  assumes "sched_ok k" and "running k"
  shows "set (waitqs (z_pend_curr w n k) w) = insert (current k) (set (waitqs k w))"
    and "swap_data (thrd (z_pend_curr w n k) u) = swap_data (thrd k u)"
    and "v \<noteq> w \<Longrightarrow> waitqs (z_pend_curr w n k) v = waitqs k v"
  by (auto simp: z_pend_curr_def pend_def add_to_waitq_locked_def add_thread_timeout_def
      z_add_thread_timeout_def unready_thread_def priq_run_remove_def z_swap_def dumb_add_insert Let_def)

lemma msgq_put_inv:
  assumes ok: "sched_ok k" and inv: "msgq_inv q k" and len: "length data = msg_size q"
    and "timeout = K_NO_WAIT \<or> running k" and put: "z_impl_k_msgq_put data timeout q k = (out, q', k')"
  shows "sched_ok k' \<and> msgq_inv q' k'"
proof -
  let ?w = "mq_wait_q q"
  have ring: "ring_inv q"
    using inv by (simp add: msgq_inv_def)
  consider "used_msgs q < max_msgs q" "waitqs k ?w = []"
    | t ts where "used_msgs q < max_msgs q" "waitqs k ?w = t # ts"
    | "\<not> used_msgs q < max_msgs q" "timeout = K_NO_WAIT"
    | "\<not> used_msgs q < max_msgs q" "timeout \<noteq> K_NO_WAIT" "running k"
    using assms(4) by (cases "waitqs k ?w") auto
  then show ?thesis
  proof cases
    case 1
    with put ok ring_write [OF ring 1(1) len] show ?thesis
      by (auto simp: put_stores msgq_inv_def)
  next
    case (2 t ts)
    have "sched_inv k"
      using ok by (simp add: sched_ok_def)
    note u = unpended_fields [OF this 2(2)]
    have zero: "used_msgs q = 0" "max_msgs q \<noteq> 0"
      using msgq_inv_room [OF inv _ 2(1)] 2 by auto
    have "q' = q" and k': "k' = z_reschedule (wake t 0 (upd_thread t
        (\<lambda>x. x\<lparr>swap_data := take (msg_size q) data\<rparr>) (snd (z_unpend_first_thread ?w k))))"
      using put put_hands_over [OF 2, of data timeout] by auto
    moreover have "sched_ok k'"
      unfolding k' by (intro sched_ok_reschedule wake_first_data_ok [OF ok 2(2)])
    ultimately show ?thesis
      using ring zero by (simp add: msgq_inv_def)
  next
    case 3
    with put ok inv show ?thesis by (auto simp: z_impl_k_msgq_put_def)
  next
    case 4
    let ?k = "upd_thread (current k) (\<lambda>x. x\<lparr>swap_data := data\<rparr>) k"
    have k: "sched_ok ?k" "running ?k"
      using ok 4(3) by (simp_all add: sched_ok_swap_data running_swap_data)
    have "q' = q" "k' = z_pend_curr ?w timeout ?k"
      using put 4 by (auto simp: z_impl_k_msgq_put_def)
    with z_pend_curr_ok(1) [OF k] pend_curr_fields [OF k] inv len 4(1) show ?thesis
      by (auto simp: msgq_inv_def)
  qed
qed

lemma msgq_get_inv:
  assumes ok: "sched_ok k" and inv: "msgq_inv q k"
    and "timeout = K_NO_WAIT \<or> running k" and get: "z_impl_k_msgq_get timeout q k = (out, data, q', k')"
  shows "sched_ok k' \<and> msgq_inv q' k'"
proof -
  let ?w = "mq_wait_q q"
  have ring: "ring_inv q"
    using inv by (simp add: msgq_inv_def)
  consider "0 < used_msgs q" "waitqs k ?w = []"
    | t ts where "0 < used_msgs q" "waitqs k ?w = t # ts"
    | "\<not> 0 < used_msgs q" "timeout = K_NO_WAIT"
    | "\<not> 0 < used_msgs q" "timeout \<noteq> K_NO_WAIT" "running k"
    using assms(3) by (cases "waitqs k ?w") auto
  then show ?thesis
  proof cases
    case 1
    with get ok ring_read [OF ring 1(1)] show ?thesis
      by (auto simp: get_takes msgq_inv_def)
  next
    case (2 t ts)
    have sinv: "sched_inv k"
      using ok by (simp add: sched_ok_def)
    note u = unpended_fields [OF sinv 2(2)]
    have full: "used_msgs q = max_msgs q"
      using inv 2 ring by (auto simp: msgq_inv_def ring_inv_def)
    with inv 2 have len: "length (swap_data (thrd k t)) = msg_size q"
      by (simp add: msgq_inv_def)
    have "ring_inv q'" "used_msgs q' = max_msgs q'" "mq_wait_q q' = ?w" "msg_size q' = msg_size q"
      using get get_refills [OF 2 sinv, of timeout] ring_read(1) [OF ring 2(1)]
        ring_write(1) [of "snd (msgq_read q)" "swap_data (thrd k t)"] len full 2(1) by auto
    moreover have "sched_ok k'" "waitqs k' ?w = ts" "\<And>u. swap_data (thrd k' u) = swap_data (thrd k u)"
      using get get_refills [OF 2 sinv, of timeout] wake_first_ok [OF ok 2(2), of 0]
      by (auto simp: sched_ok_reschedule u wake_def) (auto simp: u simp flip: wake_def)
    ultimately show ?thesis
      using inv full 2(2) by (auto simp: msgq_inv_def)
  next
    case 3
    with get ok inv show ?thesis by (auto simp: z_impl_k_msgq_get_def)
  next
    case 4
    let ?k = "upd_thread (current k) (\<lambda>x. x\<lparr>swap_data := []\<rparr>) k"
    have k: "sched_ok ?k" "running ?k"
      using ok 4(3) by (simp_all add: sched_ok_swap_data running_swap_data)
    have "q' = q" "k' = z_pend_curr ?w timeout ?k"
      using get 4 by (auto simp: z_impl_k_msgq_get_def)
    with z_pend_curr_ok(1) [OF k] ring 4(1) show ?thesis
      by (auto simp: msgq_inv_def ring_inv_def)
  qed
qed

lemma sched_ok_isr: "sched_ok (k\<lparr>in_isr := b\<rparr>) = sched_ok k"
  by (simp add: sched_ok_def sched_inv_def cache_inv_def lost_def first_ready_def
      z_is_thread_ready_def z_is_thread_timeout_active_def)

lemma purge_waiters_ok:
  "sched_ok k \<Longrightarrow> waitqs k w = ts \<Longrightarrow>
   sched_ok (purge_waiters ts w k) \<and> waitqs (purge_waiters ts w k) w = [] \<and>
   current (purge_waiters ts w k) = current k \<and> in_isr (purge_waiters ts w k) = in_isr k \<and>
   (\<forall>u. swap_return_value (thrd (purge_waiters ts w k) u) =
      (if u \<in> set ts then - ENOMSG else swap_return_value (thrd k u)))"
proof (induction ts arbitrary: k)
  case (Cons t ts)
  have inv: "sched_inv k"
    using Cons.prems(1) by (simp add: sched_ok_def)
  note u = unpended_fields [OF inv Cons.prems(2)]
  let ?k = "wake t (- ENOMSG) (snd (z_unpend_first_thread w k))"
  have "sched_ok ?k"
    using wake_first_ok [OF Cons.prems] by (simp add: wake_def)
  from Cons.IH [OF this] u show ?case
    by (simp add: unpend_first_Some [OF Cons.prems(2)])
qed simp

lemma k_msgq_init_inv:
  assumes "0 < sz" and "0 < n" and "length buf = n * sz"
  shows "ring_inv (fst (k_msgq_init buf sz n w k))" and "messages (fst (k_msgq_init buf sz n w k)) = []"
  using assms by (auto simp: k_msgq_init_def ring_inv_def messages_def)

text \<open>The overflow test compares the quotient of the wrapped product.\<close>

lemma size_mul_overflow_iff: "fst (size_mul_overflow a b) \<longleftrightarrow> 2 ^ 32 \<le> unat a * unat b"
proof (cases "a = 0")
  case False
  then have pos: "0 < unat a"
    by (simp add: unat_gt_0)
  have "(a * b) div a = b \<longleftrightarrow> unat (a * b) div unat a = unat b"
    by (metis unat_div word_unat_eq_iff)
  also have "\<dots> \<longleftrightarrow> unat a * unat b < 2 ^ 32"
  proof
    assume *: "unat (a * b) div unat a = unat b"
    have "unat a * unat b = unat a * (unat (a * b) div unat a)"
      by (simp only: *)
    also have "\<dots> \<le> unat (a * b)"
      by simp
    also have "\<dots> < 2 ^ 32"
      using unsigned_less [of "a * b"] by simp
    finally show "unat a * unat b < 2 ^ 32" .
  next
    assume "unat a * unat b < 2 ^ 32"
    with pos show "unat (a * b) div unat a = unat b"
      by (simp add: unat_word_ariths)
  qed
  finally show ?thesis
    using False by (auto simp: size_mul_overflow_def Let_def not_le)
qed (simp add: size_mul_overflow_def)

subsection \<open>Contract of message queues\<close>

text \<open>A thread in the wait queue is not the running one.\<close>

lemma waiter_not_current:
  assumes "sched_ok k" and "running k \<or> in_isr k" and "waitqs k w = t # ts"
  shows "t \<noteq> current k \<or> in_isr k"
proof -
  have "pended_on (thrd k t) = Some w"
    using assms(1,3) by (auto simp: sched_ok_def sched_inv_def) (metis list.set_intros(1))
  with assms running_facts(2) [of k] show ?thesis
    by (auto simp: sched_ok_def)
qed

text \<open>
  C12: what \<open>k_msgq_put\<close> does, on every branch. With room and no reader waiting the message is
  appended. With a reader waiting, the first reader is taken off the wait queue, its buffer receives
  the message and its call will return 0, and the queue stays as it is. A full queue returns -ENOMSG
  without waiting, or blocks the caller on the wait queue. The invariants of the queue and of the
  scheduler are kept.
\<close>

theorem msgq_put_contract:
  assumes "sched_ok k" and "msgq_inv q k" and "length data = msg_size q"
    and "running k \<or> in_isr k \<and> timeout = K_NO_WAIT"
    and "z_impl_k_msgq_put data timeout q k = (out, q', k')"
  shows "sched_ok k' \<and> msgq_inv q' k' \<and>
     (if used_msgs q < max_msgs q then
        out = Returned 0 \<and>
        (case waitqs k (mq_wait_q q) of
           [] \<Rightarrow> messages q' = messages q @ [data] \<and> k' = k
         | t # ts \<Rightarrow> q' = q \<and> waitqs k' (mq_wait_q q) = ts \<and> swap_data (thrd k' t) = data \<and>
             swap_return_value (thrd k' t) = 0)
      else q' = q \<and>
        (if timeout = K_NO_WAIT then out = Returned (- ENOMSG) \<and> k' = k
         else out = Blocked \<and> current k \<in> set (waitqs k' (mq_wait_q q))))"
proof -
  have inv: "sched_ok k' \<and> msgq_inv q' k'"
    using assms by (intro msgq_put_inv [OF assms(1-3) _ assms(5)]) auto
  have ring: "ring_inv q" and s: "sched_inv k"
    using assms(1,2) by (simp_all add: msgq_inv_def sched_ok_def)
  show ?thesis
  proof (cases "used_msgs q < max_msgs q")
    case True
    show ?thesis
    proof (cases "waitqs k (mq_wait_q q)")
      case Nil
      with assms(5) True ring_write [OF ring True assms(3)] inv show ?thesis
        by (simp add: put_stores)
    next
      case (Cons t ts)
      note u = unpended_fields [OF s Cons]
      have "t \<noteq> current k \<or> in_isr k"
        using assms(1,4) Cons by (intro waiter_not_current) auto
      moreover have eq: "out = Returned 0" "q' = q"
        "k' = z_reschedule (wake t 0 (upd_thread t (\<lambda>x. x\<lparr>swap_data := data\<rparr>)
           (snd (z_unpend_first_thread (mq_wait_q q) k))))"
        using assms(3,5) put_hands_over [OF True Cons, of data timeout] by auto
      ultimately show ?thesis
        using True Cons inv [unfolded eq] unfolding eq by (auto simp: u)
    qed
  next
    case False
    show ?thesis
    proof (cases "timeout = K_NO_WAIT")
      case True
      with False assms(5) inv show ?thesis by (auto simp: z_impl_k_msgq_put_def)
    next
      case block: False
      let ?k = "upd_thread (current k) (\<lambda>x. x\<lparr>swap_data := data\<rparr>) k"
      have k: "sched_ok ?k" "running ?k"
        using assms(1,4) block by (auto simp: sched_ok_swap_data running_swap_data)
      have "out = Blocked \<and> q' = q \<and> k' = z_pend_curr (mq_wait_q q) timeout ?k"
        using False block assms(5) by (auto simp: z_impl_k_msgq_put_def)
      with pend_curr_fields(1) [OF k] inv False block show ?thesis by auto
    qed
  qed
qed

definition sample_msgq :: k_msgq where
  "sample_msgq = \<lparr>msg_size = 1, max_msgs = 2, buffer = [0, 0], read_ptr = 1, write_ptr = 1,
     used_msgs = 0, mq_flags = 0, mq_wait_q = 9\<rparr>"

lemma sample_msgq_inv: "msgq_inv sample_msgq sample_kernel"
  by (simp add: msgq_inv_def ring_inv_def sample_msgq_def)

theorem msgq_put_contract_witness:
  "messages (fst (snd (z_impl_k_msgq_put [0x1C] K_NO_WAIT sample_msgq sample_kernel))) = [[0x1C]]"
proof -
  obtain out q' k' where put:
    "z_impl_k_msgq_put [0x1C] K_NO_WAIT sample_msgq sample_kernel = (out, q', k')"
    by (cases "z_impl_k_msgq_put [0x1C] K_NO_WAIT sample_msgq sample_kernel")
  have "length [0x1C :: u8] = msg_size sample_msgq"
    by (simp add: sample_msgq_def)
  from msgq_put_contract [OF sample_kernel_ok(1) sample_msgq_inv this _ put] sample_kernel_ok(2)
  show ?thesis
    by (simp add: put) (simp add: sample_msgq_def sample_kernel_def messages_def)
qed

text \<open>
  C13: what \<open>k_msgq_get\<close> does, on every branch. From a queue that is not empty it returns the oldest
  message; if a writer waits, that writer's message is appended at once and the writer's call will
  return 0, so the queue stays full and no message overtakes another. An empty queue returns -ENOMSG
  without waiting, or blocks the caller. The invariants of the queue and of the scheduler are kept.
\<close>

theorem msgq_get_contract:
  assumes "sched_ok k" and "msgq_inv q k" and "running k \<or> in_isr k \<and> timeout = K_NO_WAIT"
    and "z_impl_k_msgq_get timeout q k = (out, data, q', k')"
  shows "sched_ok k' \<and> msgq_inv q' k' \<and>
     (case messages q of
        m # ms \<Rightarrow> out = Returned 0 \<and> data = Some m \<and>
          (case waitqs k (mq_wait_q q) of
             [] \<Rightarrow> messages q' = ms \<and> k' = k
           | t # ts \<Rightarrow> messages q' = ms @ [swap_data (thrd k t)] \<and> waitqs k' (mq_wait_q q) = ts \<and>
               swap_return_value (thrd k' t) = 0)
      | [] \<Rightarrow> q' = q \<and> data = None \<and>
          (if timeout = K_NO_WAIT then out = Returned (- ENOMSG) \<and> k' = k
           else out = Blocked \<and> current k \<in> set (waitqs k' (mq_wait_q q))))"
proof -
  have inv: "sched_ok k' \<and> msgq_inv q' k'"
    using assms by (intro msgq_get_inv [OF assms(1,2) _ assms(4)]) auto
  have ring: "ring_inv q" and s: "sched_inv k"
    using assms(1,2) by (simp_all add: msgq_inv_def sched_ok_def)
  show ?thesis
  proof (cases "0 < used_msgs q")
    case True
    note r = ring_read [OF ring True]
    show ?thesis
    proof (cases "waitqs k (mq_wait_q q)")
      case Nil
      with assms(4) True r inv show ?thesis
        by (simp add: get_takes)
    next
      case (Cons t ts)
      note u = unpended_fields [OF s Cons]
      have cur: "t \<noteq> current k \<or> in_isr k"
        using assms(1,3) Cons by (intro waiter_not_current) auto
      have full: "used_msgs q = max_msgs q"
        using assms(2) True Cons ring by (auto simp: msgq_inv_def ring_inv_def)
      with assms(2) Cons have "length (swap_data (thrd k t)) = msg_size q"
        by (simp add: msgq_inv_def)
      with ring_write(2) [OF r(1), of "swap_data (thrd k t)"] full True have
        "messages (msgq_write (swap_data (thrd k t)) (snd (msgq_read q))) =
         messages (snd (msgq_read q)) @ [swap_data (thrd k t)]"
        by simp
      moreover have eq: "out = Returned 0" "data = Some (fst (msgq_read q))"
        "q' = msgq_write (swap_data (thrd k t)) (snd (msgq_read q))"
        "k' = z_reschedule (wake t 0 (snd (z_unpend_first_thread (mq_wait_q q) k)))"
        using assms(4) get_refills [OF True Cons s, of timeout] by auto
      ultimately show ?thesis
        using r(2) Cons cur inv [unfolded eq] unfolding eq by (auto simp: u)
    qed
  next
    case False
    then have "messages q = []"
      by (simp add: messages_def)
    show ?thesis
    proof (cases "timeout = K_NO_WAIT")
      case True
      with False assms(4) inv \<open>messages q = []\<close> show ?thesis by (auto simp: z_impl_k_msgq_get_def)
    next
      case block: False
      let ?k = "upd_thread (current k) (\<lambda>x. x\<lparr>swap_data := []\<rparr>) k"
      have k: "sched_ok ?k" "running ?k"
        using assms(1,3) block by (auto simp: sched_ok_swap_data running_swap_data)
      have "out = Blocked \<and> data = None \<and> q' = q \<and> k' = z_pend_curr (mq_wait_q q) timeout ?k"
        using False block assms(4) by (auto simp: z_impl_k_msgq_get_def)
      with pend_curr_fields(1) [OF k] inv block \<open>messages q = []\<close> show ?thesis by auto
    qed
  qed
qed

theorem msgq_get_contract_witness:
  "fst (snd (z_impl_k_msgq_get K_NO_WAIT (msgq_write [0x1C] sample_msgq) sample_kernel)) = Some [0x1C]"
proof -
  let ?q = "msgq_write [0x1C] sample_msgq"
  obtain out data q' k' where get: "z_impl_k_msgq_get K_NO_WAIT ?q sample_kernel = (out, data, q', k')"
    by (cases "z_impl_k_msgq_get K_NO_WAIT ?q sample_kernel")
  have "msgq_inv ?q sample_kernel" "messages ?q = [[0x1C]]"
    by (simp_all add: msgq_inv_def ring_inv_def sample_msgq_def msgq_write_def advance_def memcpy_at_def
        sample_kernel_def messages_def slot_def)
  with msgq_get_contract [OF sample_kernel_ok(1) _ _ get] sample_kernel_ok(2) show ?thesis
    by (simp add: get)
qed

text \<open>
  Purging empties the queue and its wait queue. Every thread that waits, readers included, is
  made ready with the error -ENOMSG, and the invariants hold afterwards.
\<close>

lemma msgq_purge_contract:
  assumes "sched_ok k" and "msgq_inv q k" and "in_isr k" and "z_impl_k_msgq_purge q k = (q', k')"
  shows "sched_ok k' \<and> msgq_inv q' k' \<and> messages q' = [] \<and> waitqs k' (mq_wait_q q) = [] \<and>
     (\<forall>t\<in>set (waitqs k (mq_wait_q q)). swap_return_value (thrd k' t) = - ENOMSG)"
proof -
  let ?k = "purge_waiters (waitqs k (mq_wait_q q)) (mq_wait_q q) k"
  note p = purge_waiters_ok [OF assms(1) refl, of "mq_wait_q q"]
  have eq: "q' = q\<lparr>used_msgs := 0, read_ptr := write_ptr q\<rparr>" "k' = z_reschedule ?k"
    using assms(4) by (auto simp: z_impl_k_msgq_purge_def Let_def)
  have "ring_inv q'"
    using assms(2) by (auto simp: eq(1) msgq_inv_def ring_inv_def)
  then show ?thesis
    using p assms(3) by (auto simp: eq sched_ok_reschedule msgq_inv_def messages_def ring_inv_def)
qed

primrec put_all :: "u8 list list \<Rightarrow> k_msgq \<Rightarrow> kernel \<Rightarrow> k_msgq \<times> kernel" where
  "put_all [] q k = (q, k)"
| "put_all (d # ds) q k = (case z_impl_k_msgq_put d K_NO_WAIT q k of (_, q', k') \<Rightarrow> put_all ds q' k')"

primrec get_all :: "nat \<Rightarrow> k_msgq \<Rightarrow> kernel \<Rightarrow> u8 list option list" where
  "get_all 0 q k = []"
| "get_all (Suc n) q k =
     (case z_impl_k_msgq_get K_NO_WAIT q k of (_, d, q', k') \<Rightarrow> d # get_all n q' k')"

lemma ring_enq_Some: "ring_enq d q = Some q' \<longleftrightarrow> used_msgs q < max_msgs q \<and> q' = msgq_write d q"
  by (auto simp: ring_enq_def)

lemma ring_deq_Some: "ring_deq q = Some r \<longleftrightarrow> 0 < used_msgs q \<and> r = msgq_read q"
  by (auto simp: ring_deq_def)

lemma put_all_ring:
  "waitqs k (mq_wait_q q) = [] \<Longrightarrow> ring.enq_all ds q = Some q' \<Longrightarrow>
   put_all ds q k = (q', k) \<and> mq_wait_q q' = mq_wait_q q"
proof (induction ds arbitrary: q)
  case (Cons d ds)
  then have "used_msgs q < max_msgs q" "ring.enq_all ds (msgq_write d q) = Some q'"
    by (auto simp: ring_enq_Some split: option.splits)
  with Cons.IH [of "msgq_write d q"] Cons.prems(1) show ?case
    by (simp add: put_stores msgq_write_def)
qed simp

lemma get_all_ring:
  "waitqs k (mq_wait_q q) = [] \<Longrightarrow> ring.deq_many n q = Some (ds, q') \<Longrightarrow> get_all n q k = map Some ds"
proof (induction n arbitrary: q ds)
  case (Suc n)
  then obtain xs where "0 < used_msgs q" "ring.deq_many n (snd (msgq_read q)) = Some (xs, q')"
    "ds = fst (msgq_read q) # xs"
    by (auto simp: ring_deq_Some split: option.splits prod.splits)
  with Suc.IH [of "snd (msgq_read q)"] Suc.prems(1) show ?case
    by (simp add: get_takes msgq_read_def)
qed simp

text \<open>
  First in, first out. Any messages that fit, put one after the other into an empty queue nobody
  waits at, come out of as many gets in the same order, wherever in the buffer the pointers start.
\<close>

lemma msgq_fifo:
  assumes "ring_inv q" and "messages q = []" and "waitqs k (mq_wait_q q) = []"
    and "list_all (\<lambda>d. length d = msg_size q) ds" and "length ds \<le> max_msgs q"
    and "put_all ds q k = (q', k')"
  shows "get_all (length ds) q' k' = map Some ds"
proof (rule ring.fifo_order [OF assms(1,2,4,5)])
  fix q1 q2
  assume *: "ring.enq_all ds q = Some q1" "ring.deq_many (length ds) q1 = Some (ds, q2)"
  with put_all_ring [OF assms(3) *(1)] assms(3,6) get_all_ring [of k q1] show ?thesis
    by auto
qed

end
