(* ===== verification/Ps2_Connector.thy ===== *)
theory Ps2_Connector
  imports Gpio Msgq
begin

text \<open>
  The PS/2 connector \<open>ps2_connector.c\<close>: the interrupt handler of the clock line that receives bits
  from the keyboard and puts complete bytes into a message queue, the function that takes the next
  code from the queue, and the blocking function that sends a byte to the keyboard. The connector's
  static variables extend the state of the GPIO driver, together with its message queue and the
  kernel's scheduler. \<open>printk\<close> has no effect on the state.
\<close>

subsection \<open>State\<close>

datatype PS2_state_e = PS2_STATE_IDLE | PS2_STATE_DEV_TO_HOST | PS2_STATE_HOST_TO_DEV

record 'h connector = "'h gpio" +
  current_bit_no :: int
  incoming_data :: u8
  outgoing_data :: u8
  PS2_state :: PS2_state_e
  rx_msg_que :: k_msgq
  kern :: kernel

text \<open>The lines are pins of port 0 of the board.\<close>

abbreviation PS2_PORT :: nat where "PS2_PORT \<equiv> 0"
abbreviation PS2_CLK_GPIO_PIN :: nat where "PS2_CLK_GPIO_PIN \<equiv> 27"
abbreviation PS2_DATA_GPIO_PIN :: nat where "PS2_DATA_GPIO_PIN \<equiv> 26"

definition PS2_GPIO_FLAGS_HIGH :: u32 where
  "PS2_GPIO_FLAGS_HIGH = GPIO_INPUT"

definition PS2_GPIO_FLAGS_LOW :: u32 where
  "PS2_GPIO_FLAGS_LOW = GPIO_OUTPUT OR GPIO_ACTIVE_HIGH OR GPIO_OPEN_DRAIN"

abbreviation PS2_MSG_QUE_SIZE :: nat where "PS2_MSG_QUE_SIZE \<equiv> 20"

definition bit_reverse_table :: "u8 list" where
  "bit_reverse_table =
    [0x00, 0x80, 0x40, 0xC0, 0x20, 0xA0, 0x60, 0xE0, 0x10, 0x90, 0x50, 0xD0, 0x30, 0xB0, 0x70, 0xF0,
     0x08, 0x88, 0x48, 0xC8, 0x28, 0xA8, 0x68, 0xE8, 0x18, 0x98, 0x58, 0xD8, 0x38, 0xB8, 0x78, 0xF8,
     0x04, 0x84, 0x44, 0xC4, 0x24, 0xA4, 0x64, 0xE4, 0x14, 0x94, 0x54, 0xD4, 0x34, 0xB4, 0x74, 0xF4,
     0x0C, 0x8C, 0x4C, 0xCC, 0x2C, 0xAC, 0x6C, 0xEC, 0x1C, 0x9C, 0x5C, 0xDC, 0x3C, 0xBC, 0x7C, 0xFC,
     0x02, 0x82, 0x42, 0xC2, 0x22, 0xA2, 0x62, 0xE2, 0x12, 0x92, 0x52, 0xD2, 0x32, 0xB2, 0x72, 0xF2,
     0x0A, 0x8A, 0x4A, 0xCA, 0x2A, 0xAA, 0x6A, 0xEA, 0x1A, 0x9A, 0x5A, 0xDA, 0x3A, 0xBA, 0x7A, 0xFA,
     0x06, 0x86, 0x46, 0xC6, 0x26, 0xA6, 0x66, 0xE6, 0x16, 0x96, 0x56, 0xD6, 0x36, 0xB6, 0x76, 0xF6,
     0x0E, 0x8E, 0x4E, 0xCE, 0x2E, 0xAE, 0x6E, 0xEE, 0x1E, 0x9E, 0x5E, 0xDE, 0x3E, 0xBE, 0x7E, 0xFE,
     0x01, 0x81, 0x41, 0xC1, 0x21, 0xA1, 0x61, 0xE1, 0x11, 0x91, 0x51, 0xD1, 0x31, 0xB1, 0x71, 0xF1,
     0x09, 0x89, 0x49, 0xC9, 0x29, 0xA9, 0x69, 0xE9, 0x19, 0x99, 0x59, 0xD9, 0x39, 0xB9, 0x79, 0xF9,
     0x05, 0x85, 0x45, 0xC5, 0x25, 0xA5, 0x65, 0xE5, 0x15, 0x95, 0x55, 0xD5, 0x35, 0xB5, 0x75, 0xF5,
     0x0D, 0x8D, 0x4D, 0xCD, 0x2D, 0xAD, 0x6D, 0xED, 0x1D, 0x9D, 0x5D, 0xDD, 0x3D, 0xBD, 0x7D, 0xFD,
     0x03, 0x83, 0x43, 0xC3, 0x23, 0xA3, 0x63, 0xE3, 0x13, 0x93, 0x53, 0xD3, 0x33, 0xB3, 0x73, 0xF3,
     0x0B, 0x8B, 0x4B, 0xCB, 0x2B, 0xAB, 0x6B, 0xEB, 0x1B, 0x9B, 0x5B, 0xDB, 0x3B, 0xBB, 0x7B, 0xFB,
     0x07, 0x87, 0x47, 0xC7, 0x27, 0xA7, 0x67, 0xE7, 0x17, 0x97, 0x57, 0xD7, 0x37, 0xB7, 0x77, 0xF7,
     0x0F, 0x8F, 0x4F, 0xCF, 0x2F, 0xAF, 0x6F, 0xEF, 0x1F, 0x9F, 0x5F, 0xDF, 0x3F, 0xBF, 0x7F, 0xFF]"

definition reverse :: "u8 \<Rightarrow> u8" where
  "reverse x = bit_reverse_table ! unat x"

definition odd_parity_check :: "u8 \<Rightarrow> bool" where
  "odd_parity_check byte =
     (let b1 = byte XOR drop_bit 4 byte;
          b2 = b1 XOR drop_bit 2 b1;
          b3 = b2 XOR drop_bit 1 b2
      in (- uint b3) AND (1 :: int) \<noteq> 0)"

subsection \<open>Lines\<close>

definition set_clk_low :: "'h hal \<Rightarrow> ('h, 'm) gpio_scheme \<Rightarrow> ('h, 'm) gpio_scheme" where
  "set_clk_low hal s =
     snd (gpio_pin_set hal PS2_PORT PS2_CLK_GPIO_PIN
       (uint (GPIO_OUTPUT OR GPIO_OUTPUT_INIT_HIGH OR GPIO_OUTPUT_INIT_LOGICAL))
       (snd (gpio_pin_configure hal PS2_PORT PS2_CLK_GPIO_PIN PS2_GPIO_FLAGS_LOW s)))"

definition set_clk_high_z :: "'h hal \<Rightarrow> ('h, 'm) gpio_scheme \<Rightarrow> ('h, 'm) gpio_scheme" where
  "set_clk_high_z hal s = snd (gpio_pin_configure hal PS2_PORT PS2_CLK_GPIO_PIN PS2_GPIO_FLAGS_HIGH s)"

definition set_data_low :: "'h hal \<Rightarrow> ('h, 'm) gpio_scheme \<Rightarrow> ('h, 'm) gpio_scheme" where
  "set_data_low hal s =
     snd (gpio_pin_set hal PS2_PORT PS2_DATA_GPIO_PIN
       (uint (GPIO_OUTPUT OR GPIO_OUTPUT_INIT_LOW OR GPIO_OUTPUT_INIT_LOGICAL))
       (snd (gpio_pin_configure hal PS2_PORT PS2_DATA_GPIO_PIN PS2_GPIO_FLAGS_LOW s)))"

definition set_data_high_z :: "'h hal \<Rightarrow> ('h, 'm) gpio_scheme \<Rightarrow> ('h, 'm) gpio_scheme" where
  "set_data_high_z hal s = snd (gpio_pin_configure hal PS2_PORT PS2_DATA_GPIO_PIN PS2_GPIO_FLAGS_HIGH s)"

abbreviation GPIO_INT_EDGE_TO_INACTIVE :: u32 where
  "GPIO_INT_EDGE_TO_INACTIVE \<equiv>
     GPIO_INT_ENABLE OR GPIO_INT_LEVELS_LOGICAL OR GPIO_INT_EDGE OR GPIO_INT_LOW_0"

subsection \<open>Interrupt handlers\<close>

text \<open>The C operator \<open>%\<close> on a non-negative number is \<open>mod\<close>.\<close>

definition host_to_dev_serve_falling_clk :: "'h hal \<Rightarrow> 'h connector \<Rightarrow> 'h connector" where
  "host_to_dev_serve_falling_clk hal s =
     (let s1 = s\<lparr>PS2_state := PS2_STATE_DEV_TO_HOST\<rparr>;
          n = current_bit_no s1;
          s2 = (if bit (outgoing_data s1) (nat n) then set_data_high_z hal s1 else set_data_low hal s1);
          s3 = (if n = 8
                then if \<not> odd_parity_check (outgoing_data s2) then set_data_high_z hal s2 else set_data_low hal s2
                else s2);
          s4 = (if n = 8 then set_data_high_z hal s3 else s3);
          s5 = (if n = 9 then (set_data_high_z hal s4)\<lparr>PS2_state := PS2_STATE_IDLE\<rparr> else s4)
      in s5\<lparr>current_bit_no := (n + 1) mod 10\<rparr>)"

definition k_msgq_put_rx :: "'h connector \<Rightarrow> 'h connector" where
  "k_msgq_put_rx s =
     (case z_impl_k_msgq_put [incoming_data s] K_NO_WAIT (rx_msg_que s) (kern s) of (_, q, k) \<Rightarrow>
        s\<lparr>rx_msg_que := q, kern := k\<rparr>)"

definition dev_to_host_serve_falling_clk :: "'h hal \<Rightarrow> 'h connector \<Rightarrow> 'h connector" where
  "dev_to_host_serve_falling_clk hal s =
     (let current_bit = gpio_pin_get hal PS2_PORT PS2_DATA_GPIO_PIN s
      in if current_bit_no s = 0 \<and> current_bit \<noteq> 0 then s\<lparr>current_bit_no := 0\<rparr>
         else
           let s1 = (if current_bit_no s < 9
                     then s\<lparr>incoming_data := (push_bit 1 (incoming_data s) AND 0xFE) OR word_of_int current_bit\<rparr>
                     else s)
           in if current_bit_no s1 = 9 \<and> of_bool (odd_parity_check (incoming_data s1)) = current_bit
              then s1\<lparr>current_bit_no := 0\<rparr>
              else if current_bit_no s1 = 10 \<and> current_bit \<noteq> 1 then s1\<lparr>current_bit_no := 0\<rparr>
              else let s2 = (if current_bit_no s1 = 10 then k_msgq_put_rx s1 else s1)
                   in s2\<lparr>current_bit_no := (current_bit_no s2 + 1) mod 11\<rparr>)"

definition clk_fall_cb :: "'h hal \<Rightarrow> 'h connector \<Rightarrow> 'h connector" where
  "clk_fall_cb hal s =
     (case PS2_state s of
        PS2_STATE_DEV_TO_HOST \<Rightarrow> dev_to_host_serve_falling_clk hal s
      | PS2_STATE_IDLE \<Rightarrow> dev_to_host_serve_falling_clk hal s
      | PS2_STATE_HOST_TO_DEV \<Rightarrow> host_to_dev_serve_falling_clk hal s)"

subsection \<open>Taking codes\<close>

text \<open>
  \<open>None\<close> means that the thread is blocked on the empty queue; when it is resumed, the message is in
  its \<open>swap_data\<close> and the call ends with \<open>resumed_code\<close>.
\<close>

definition ps2_connector_get_next_code :: "'h connector \<Rightarrow> u8 option \<times> 'h connector" where
  "ps2_connector_get_next_code s =
     (case z_impl_k_msgq_get K_FOREVER (rx_msg_que s) (kern s) of (_, data, q, k) \<Rightarrow>
        (map_option (\<lambda>d. reverse (hd d)) data, s\<lparr>rx_msg_que := q, kern := k\<rparr>))"

definition resumed_code :: "tid \<Rightarrow> 'h connector \<Rightarrow> u8" where
  "resumed_code t s = reverse (hd (swap_data (thrd (kern s) t)))"

subsection \<open>Initialisation\<close>

text \<open>
  The loop that waits until both lines are high reads hardware that the environment changes in the
  meantime: \<open>es\<close> lists, turn by turn, what happens to the hardware before the data line is read and
  before the clock line is read. \<open>None\<close> means that the list ended before the loop did.
\<close>

fun wait_lines_high :: "'h hal \<Rightarrow> (('h \<Rightarrow> 'h) \<times> ('h \<Rightarrow> 'h)) list \<Rightarrow> 'h connector \<Rightarrow> 'h connector option" where
  "wait_lines_high hal [] s = None"
| "wait_lines_high hal ((e1, e2) # es) s =
     (let s1 = upd_hw e1 s
      in if gpio_pin_get hal PS2_PORT PS2_DATA_GPIO_PIN s1 = 0 then wait_lines_high hal es s1
         else let s2 = upd_hw e2 s1
              in if gpio_pin_get hal PS2_PORT PS2_CLK_GPIO_PIN s2 = 0 then wait_lines_high hal es s2
                 else Some s2)"

text \<open>\<open>clk_fall_cb_data\<close> and \<open>clk_fall_cb\<close> are the addresses of the callback and of its handler.\<close>

abbreviation clk_fall_cb_data :: nat where "clk_fall_cb_data \<equiv> 1"
abbreviation clk_fall_cb_addr :: nat where "clk_fall_cb_addr \<equiv> 1"

definition ps2_connector_init ::
    "'h hal \<Rightarrow> wqid \<Rightarrow> (('h \<Rightarrow> 'h) \<times> ('h \<Rightarrow> 'h)) list \<Rightarrow> 'h connector \<Rightarrow> 'h connector option" where
  "ps2_connector_init hal w es s =
     (case k_msgq_init (replicate PS2_MSG_QUE_SIZE 0) 1 PS2_MSG_QUE_SIZE w (kern s) of (q, k) \<Rightarrow>
        let s1 = s\<lparr>rx_msg_que := q, kern := k\<rparr>
        in case gpio_pin_configure hal PS2_PORT PS2_CLK_GPIO_PIN GPIO_INPUT s1 of (err, s2) \<Rightarrow>
             if err \<noteq> 0 then Some s2
             else case gpio_pin_configure hal PS2_PORT PS2_DATA_GPIO_PIN GPIO_INPUT s2 of (err, s3) \<Rightarrow>
               if err \<noteq> 0 then Some s3
               else case wait_lines_high hal es s3 of
                      None \<Rightarrow> None
                    | Some s4 \<Rightarrow>
                        let s5 = s4\<lparr>PS2_state := PS2_STATE_DEV_TO_HOST\<rparr>;
                            s6 = snd (z_impl_gpio_pin_interrupt_configure hal PS2_PORT PS2_CLK_GPIO_PIN
                                   GPIO_INT_EDGE_TO_INACTIVE s5);
                            s7 = gpio_init_callback clk_fall_cb_data clk_fall_cb_addr (BIT PS2_CLK_GPIO_PIN) s6
                        in Some (snd (gpio_add_callback PS2_PORT clk_fall_cb_data s7)))"

text \<open>
  The registered handlers: the only callback of the program is the connector's. The interrupt enters
  with \<open>in_isr\<close> set and leaves through the exception exit, which switches to the cached thread.
\<close>

definition gpio_call :: "'h hal \<Rightarrow> nat \<Rightarrow> nat \<Rightarrow> nat \<Rightarrow> u32 \<Rightarrow> 'h connector \<Rightarrow> 'h connector" where
  "gpio_call hal hnd port cb pins s = (if hnd = clk_fall_cb_addr then clk_fall_cb hal s else s)"

definition gpiote_isr :: "'h hal \<Rightarrow> 'h connector \<Rightarrow> 'h connector" where
  "gpiote_isr hal s =
     (let s1 = gpiote_event_handler hal (gpio_call hal) (s\<lparr>kern := (kern s)\<lparr>in_isr := True\<rparr>\<rparr>);
          k = (kern s1)\<lparr>in_isr := False\<rparr>
      in s1\<lparr>kern := k\<lparr>current := cache k\<rparr>\<rparr>)"

subsection \<open>Sending\<close>

text \<open>
  \<open>ps2_connector_send_byte\<close> with \<open>host_to_dev_init_request_to_send\<close>, statement by statement, together
  with the clock interrupts that may come between any two statements. A \<open>send_pc\<close> is the statement the
  thread is about to run. Sleeping lets time pass and changes nothing itself.
\<close>

datatype send_pc =
    At_outgoing | At_state | At_clk_low | At_data_low | At_clk_high | At_bit_no | At_irq
  | At_wait_idle | At_wait_release | Sent

inductive send_step :: "'h hal \<Rightarrow> u8 \<Rightarrow> send_pc \<times> 'h connector \<Rightarrow> send_pc \<times> 'h connector \<Rightarrow> bool" for hal msg where
  "send_step hal msg (At_outgoing, s) (At_state, s\<lparr>outgoing_data := msg\<rparr>)"
| "send_step hal msg (At_state, s) (At_clk_low, s\<lparr>PS2_state := PS2_STATE_HOST_TO_DEV\<rparr>)"
| "send_step hal msg (At_clk_low, s) (At_data_low, set_clk_low hal s)"
| "send_step hal msg (At_data_low, s) (At_clk_high, set_data_low hal s)"
| "send_step hal msg (At_clk_high, s) (At_bit_no, set_clk_high_z hal s)"
| "send_step hal msg (At_bit_no, s) (At_irq, s\<lparr>current_bit_no := 0\<rparr>)"
| "send_step hal msg (At_irq, s) (At_wait_idle,
     snd (z_impl_gpio_pin_interrupt_configure hal PS2_PORT PS2_CLK_GPIO_PIN GPIO_INT_EDGE_TO_INACTIVE s))"
| "PS2_state s \<noteq> PS2_STATE_IDLE \<Longrightarrow> send_step hal msg (At_wait_idle, s) (At_wait_idle, s)"
| "PS2_state s = PS2_STATE_IDLE \<Longrightarrow> send_step hal msg (At_wait_idle, s) (At_wait_release, s)"
| "gpio_pin_get hal PS2_PORT PS2_DATA_GPIO_PIN s = 0 \<or> gpio_pin_get hal PS2_PORT PS2_CLK_GPIO_PIN s = 0 \<Longrightarrow>
   send_step hal msg (At_wait_release, s) (At_wait_release, s)"
| "gpio_pin_get hal PS2_PORT PS2_DATA_GPIO_PIN s \<noteq> 0 \<Longrightarrow> gpio_pin_get hal PS2_PORT PS2_CLK_GPIO_PIN s \<noteq> 0 \<Longrightarrow>
   send_step hal msg (At_wait_release, s) (Sent, s)"
| "send_step hal msg (pc, s) (pc, clk_fall_cb hal (s\<lparr>hw := h\<rparr>))"

inductive_cases send_stepE: "send_step hal msg x y"

subsection \<open>What the driver keeps of the connector\<close>

text \<open>The driver's operations do not touch the variables of its clients.\<close>

lemma more_fields:
  assumes "gpio.more s = gpio.more (s' :: 'h connector)"
  shows "current_bit_no s = current_bit_no s'" "incoming_data s = incoming_data s'"
    "outgoing_data s = outgoing_data s'" "PS2_state s = PS2_state s'" "rx_msg_que s = rx_msg_que s'"
    "kern s = kern s'"
  using assms by (cases s, cases s', simp)+

lemma more_upd_data [simp]: "gpio.more (upd_data p f s) = gpio.more s"
  by (simp add: upd_data_def)

lemma more_channel_alloc [simp]: "gpio.more (snd (channel_alloc_loop hal cs n pol s)) = gpio.more s"
  by (induction cs arbitrary: s) (simp_all add: Let_def)

lemma more_pin_cleanup [simp]: "gpio.more (pin_cleanup_loop hal is n m s) = gpio.more s"
  by (induction "is" arbitrary: s) simp_all

lemma more_pin_int_cfg [simp]: "gpio.more (snd (gpiote_pin_int_cfg hal port pin s)) = gpio.more s"
  by (simp add: gpiote_pin_int_cfg_def gpiote_channel_alloc_def gpiote_pin_cleanup_def Let_def)

lemma more_nrfx_interrupt_configure [simp]:
  "gpio.more (snd (gpio_nrfx_pin_interrupt_configure hal port pin mode trig s)) = gpio.more s"
  by (simp add: gpio_nrfx_pin_interrupt_configure_def Let_def)

lemma more_interrupt_configure [simp]:
  "gpio.more (snd (z_impl_gpio_pin_interrupt_configure hal port pin flags s)) = gpio.more s"
  unfolding z_impl_gpio_pin_interrupt_configure_def Let_def by (rule more_nrfx_interrupt_configure)

lemma more_nrfx_config [simp]: "gpio.more (snd (gpio_nrfx_config hal port pin flags s)) = gpio.more s"
  unfolding gpio_nrfx_config_def Let_def by (cases "drive_of_flags flags") (simp_all only: option.case snd_conv, simp_all)

lemma more_configure [simp]: "gpio.more (snd (gpio_pin_configure hal port pin flags s)) = gpio.more s"
proof -
  define f where "f = (if flags AND GPIO_OUTPUT_INIT_LOGICAL \<noteq> 0 \<and>
      flags AND (GPIO_OUTPUT_INIT_LOW OR GPIO_OUTPUT_INIT_HIGH) \<noteq> 0 \<and> flags AND GPIO_ACTIVE_LOW \<noteq> 0
    then flags XOR (GPIO_OUTPUT_INIT_LOW OR GPIO_OUTPUT_INIT_HIGH OR GPIO_OUTPUT_INIT_LOGICAL) else flags)"
  obtain ret s1 where c: "gpio_nrfx_config hal port pin f s = (ret, s1)"
    by (cases "gpio_nrfx_config hal port pin f s")
  have "gpio.more s1 = gpio.more s"
    using more_nrfx_config [of hal port pin f s] c by simp
  then show ?thesis
    unfolding gpio_pin_configure_def z_impl_gpio_config_def f_def [symmetric] Let_def c prod.case by simp
qed

lemma more_pin_set [simp]: "gpio.more (snd (gpio_pin_set hal port pin v s)) = gpio.more s"
  by (simp add: gpio_pin_set_def gpio_pin_set_raw_def z_impl_gpio_port_set_bits_raw_def
      z_impl_gpio_port_clear_bits_raw_def gpio_nrfx_port_set_bits_raw_def gpio_nrfx_port_clear_bits_raw_def)

lemma more_lines [simp]:
  "gpio.more (set_clk_low hal s) = gpio.more s" "gpio.more (set_clk_high_z hal s) = gpio.more s"
  "gpio.more (set_data_low hal s) = gpio.more s" "gpio.more (set_data_high_z hal s) = gpio.more s"
  by (simp_all add: set_clk_low_def set_clk_high_z_def set_data_low_def set_data_high_z_def)

end
