(* ===== verification/Ps2_Frame.thy ===== *)
theory Ps2_Frame
  imports Ps2_Connector
begin

text \<open>
  What the receiver of \<open>ps2_connector.c\<close> makes of the bits on the line: the reversal table and the
  parity computation, the reception of a frame edge by edge, and the way of a byte through the
  message queue to the thread that takes it.
\<close>

subsection \<open>Bits of a byte\<close>

fun rev_num :: "nat \<Rightarrow> int \<Rightarrow> int \<Rightarrow> int" where
  "rev_num 0 x acc = acc"
| "rev_num (Suc n) x acc = rev_num n (x div 2) (2 * acc + x mod 2)"

lemma bit_rev_num:
  "bit (rev_num n x acc) i \<longleftrightarrow> (if i < n then bit x (n - 1 - i) else bit acc (i - n))"
proof (induction n arbitrary: x acc)
  case (Suc n)
  have low: "bit (2 * acc + x mod 2) j \<longleftrightarrow> (if j = 0 then odd x else bit acc (j - 1))" for j
    by (cases j) (auto simp: bit_0 bit_Suc)
  have "bit (x div 2) m \<longleftrightarrow> bit x (Suc m)" for m
    by (simp add: bit_Suc)
  with Suc low show ?case
    by (auto simp: bit_0 Suc_diff_Suc less_Suc_eq)
qed simp

lemma bit_reverse_table_num: "map uint bit_reverse_table = map (\<lambda>x. rev_num 8 x 0) [0..255]"
  by code_simp

lemma uint_reverse: "uint (reverse x) = rev_num 8 (uint x) 0"
proof -
  have len: "length bit_reverse_table = 256"
    using arg_cong [OF bit_reverse_table_num, of length] by simp
  have x: "unat x < 256"
    using unsigned_less [of x] by simp
  with len have "uint (bit_reverse_table ! unat x) = map uint bit_reverse_table ! unat x"
    by simp
  also have "\<dots> = rev_num 8 ([0..255] ! unat x) 0"
    unfolding bit_reverse_table_num using x by simp
  also have "[0..255] ! unat x = int (unat x)"
  proof -
    have "0 + int (unat x) \<le> 255"
      using x by linarith
    from nth_upto [OF this] show ?thesis by simp
  qed
  finally show ?thesis
    by (simp add: reverse_def)
qed

text \<open>The table reverses the order of the eight bits, so it undoes itself.\<close>

lemma bit_reverse: "bit (reverse x) i \<longleftrightarrow> i < 8 \<and> bit x (7 - i)"
proof -
  have "bit (reverse x) i \<longleftrightarrow> bit (uint (reverse x)) i \<and> i < 8"
    by (auto simp: bit_uint_iff dest: bit_imp_le_length)
  then show ?thesis
    by (auto simp: uint_reverse bit_rev_num bit_uint_iff)
qed

lemma reverse_reverse [simp]: "reverse (reverse x) = x"
  by (rule bit_word_eqI) (auto simp: bit_reverse)

lemma odd_parity_check_bits:
  "odd_parity_check b \<longleftrightarrow> (bit b 0 \<noteq> (bit b 1 \<noteq> (bit b 2 \<noteq> (bit b 3 \<noteq>
     (bit b 4 \<noteq> (bit b 5 \<noteq> (bit b 6 \<noteq> bit b 7)))))))"
proof -
  let ?b1 = "b XOR drop_bit 4 b"
  let ?b2 = "?b1 XOR drop_bit 2 ?b1"
  let ?b3 = "?b2 XOR drop_bit 1 ?b2"
  have "(- uint w) AND (1 :: int) \<noteq> 0 \<longleftrightarrow> bit w 0" for w :: u8
    using bit_uint_iff [of w 0] by (simp add: and_one_eq mod_2_eq_odd flip: bit_0)
  then have "odd_parity_check b \<longleftrightarrow> bit ?b3 0"
    by (simp add: odd_parity_check_def Let_def)
  also have "\<dots> \<longleftrightarrow> (bit b 0 \<noteq> (bit b 1 \<noteq> (bit b 2 \<noteq> (bit b 3 \<noteq>
     (bit b 4 \<noteq> (bit b 5 \<noteq> (bit b 6 \<noteq> bit b 7)))))))"
  proof -
    have b1: "bit ?b1 0 = (bit b 0 \<noteq> bit b 4)" "bit ?b1 1 = (bit b 1 \<noteq> bit b 5)"
      "bit ?b1 2 = (bit b 2 \<noteq> bit b 6)" "bit ?b1 3 = (bit b 3 \<noteq> bit b 7)"
      by (simp_all only: bit_xor_iff bit_drop_bit_eq o_apply) simp_all
    have b2: "bit ?b2 0 = (bit ?b1 0 \<noteq> bit ?b1 2)" "bit ?b2 1 = (bit ?b1 1 \<noteq> bit ?b1 3)"
      by (simp_all only: bit_xor_iff [of ?b1] bit_drop_bit_eq o_apply) (simp_all add: numeral_eq_Suc)
    have "bit ?b3 0 = (bit ?b2 0 \<noteq> bit ?b2 1)"
      by (simp only: bit_xor_iff [of ?b2] bit_drop_bit_eq o_apply) simp
    then show ?thesis
      unfolding b2 b1 by argo
  qed
  finally show ?thesis .
qed

lemma odd_parity_reverse [simp]: "odd_parity_check (reverse b) = odd_parity_check b"
proof -
  have "bit (reverse b) 0 = bit b 7" "bit (reverse b) 1 = bit b 6" "bit (reverse b) 2 = bit b 5"
    "bit (reverse b) 3 = bit b 4" "bit (reverse b) 4 = bit b 3" "bit (reverse b) 5 = bit b 2"
    "bit (reverse b) 6 = bit b 1" "bit (reverse b) 7 = bit b 0"
    by (simp_all add: bit_reverse)
  then show ?thesis
    unfolding odd_parity_check_bits by argo
qed

text \<open>
  The parity computation counts: \<open>odd_parity_check\<close> holds exactly when an odd number of the eight
  bits is set, and the reversal table maps bit \<open>i\<close> to bit \<open>7 - i\<close> and is its own inverse.
\<close>

lemma parity_and_reversal:
  "odd_parity_check b = odd (card {i. i < 8 \<and> bit b i}) \<and> bit (reverse b) i = (i < 8 \<and> bit b (7 - i)) \<and>
   reverse (reverse b) = b"
proof -
  have *: "{i. i < 8 \<and> bit b i} = set (filter (bit b) [0..<8])"
    by auto
  have "card {i. i < 8 \<and> bit b i} = length (filter (bit b) [0..<8])"
    unfolding * by (rule distinct_card) simp
  moreover have "odd (length (filter (bit b) [0..<8])) = odd_parity_check b"
  proof -
    have "odd (length (filter P (x # xs))) = (P x \<noteq> odd (length (filter P xs)))" for P and x :: nat and xs
      by auto
    moreover have "[0..<8] = [0, 1, 2, 3, 4, 5, 6, 7 :: nat]"
      by code_simp
    ultimately show ?thesis
      by (simp only: odd_parity_check_bits) simp
  qed
  ultimately show ?thesis
    by (simp add: bit_reverse)
qed

subsection \<open>Receiving\<close>

text \<open>
  \<open>line b\<close> is the keyboard putting level \<open>b\<close> on the data line before it pulls the clock low. A frame
  is a start bit, eight data bits with the least significant first, a parity bit and a stop bit.
\<close>

definition line_ok :: "'h hal \<Rightarrow> (bool \<Rightarrow> 'h \<Rightarrow> 'h) \<Rightarrow> bool" where
  "line_ok hal line \<longleftrightarrow> (\<forall>b h. bit (nrf_gpio_port_in_read hal PS2_PORT (line b h)) PS2_DATA_GPIO_PIN = b)"

definition edge :: "'h hal \<Rightarrow> (bool \<Rightarrow> 'h \<Rightarrow> 'h) \<Rightarrow> bool \<Rightarrow> 'h connector \<Rightarrow> 'h connector" where
  "edge hal line b s = clk_fall_cb hal (s\<lparr>hw := line b (hw s)\<rparr>)"

definition receive :: "'h hal \<Rightarrow> (bool \<Rightarrow> 'h \<Rightarrow> 'h) \<Rightarrow> bool list \<Rightarrow> 'h connector \<Rightarrow> 'h connector" where
  "receive hal line bs s = fold (edge hal line) bs s"

definition data_bits :: "u8 \<Rightarrow> bool list" where
  "data_bits b = map (bit b) [0..<8]"

definition frame :: "u8 \<Rightarrow> bool list" where
  "frame b = [False] @ data_bits b @ [\<not> odd_parity_check b, True]"

definition shift_in :: "bool \<Rightarrow> u8 \<Rightarrow> u8" where
  "shift_in b w = (push_bit 1 w AND 0xFE) OR of_bool b"

lemma bit_shift_in: "bit (shift_in b w) i \<longleftrightarrow> (if i = 0 then b else i < 8 \<and> bit w (i - 1))"
proof -
  have FE: "(0xFE :: u8) = NOT 1"
    by simp
  have "bit (push_bit 1 w) i \<longleftrightarrow> 0 < i \<and> i < 8 \<and> bit w (i - 1)"
    by (simp only: bit_push_bit_iff) auto
  moreover have "bit (of_bool b :: u8) i \<longleftrightarrow> b \<and> i = 0"
    by (cases b) (auto simp: bit_1_iff)
  moreover have "bit (NOT 1 :: u8) i \<longleftrightarrow> i < 8 \<and> i \<noteq> 0"
    by (auto simp: bit_not_iff bit_1_iff)
  ultimately show ?thesis
    unfolding shift_in_def FE bit_or_iff bit_and_iff by auto
qed

lemma bit_shift_fold:
  "i < 8 \<Longrightarrow> bit (fold shift_in bs w) i \<longleftrightarrow>
     (if i < length bs then bs ! (length bs - 1 - i) else bit w (i - length bs))"
proof (induction bs arbitrary: i rule: rev_induct)
  case (snoc b bs)
  show ?case
  proof (cases i)
    case (Suc j)
    with snoc.IH [of j] snoc.prems show ?thesis
      by (simp add: bit_shift_in nth_append) arith
  qed (simp add: bit_shift_in)
qed simp

text \<open>Shifting in the bits of a byte from the least significant one gives the reversed byte.\<close>

lemma shift_in_data_bits [simp]: "fold shift_in (data_bits b) w = reverse b"
  by (rule bit_word_eqI) (simp add: bit_shift_fold bit_reverse data_bits_def)

text \<open>A clock edge while the connector receives, as a function of the level it reads.\<close>

definition rx_bit :: "bool \<Rightarrow> 'h connector \<Rightarrow> 'h connector" where
  "rx_bit b s =
     (if current_bit_no s = 0 \<and> b then s\<lparr>current_bit_no := 0\<rparr>
      else if current_bit_no s < 9
      then s\<lparr>incoming_data := shift_in b (incoming_data s), current_bit_no := (current_bit_no s + 1) mod 11\<rparr>
      else if current_bit_no s = 9 \<and> odd_parity_check (incoming_data s) = b then s\<lparr>current_bit_no := 0\<rparr>
      else if current_bit_no s = 10 \<and> \<not> b then s\<lparr>current_bit_no := 0\<rparr>
      else if current_bit_no s = 10 then (k_msgq_put_rx s)\<lparr>current_bit_no := 0\<rparr>
      else s\<lparr>current_bit_no := (current_bit_no s + 1) mod 11\<rparr>)"

definition receiving :: "'h connector \<Rightarrow> bool" where
  "receiving s \<longleftrightarrow> PS2_state s \<noteq> PS2_STATE_HOST_TO_DEV \<and>
     \<not> bit (invert (port_data s PS2_PORT)) PS2_DATA_GPIO_PIN"

lemma put_rx_fields [simp]:
  "current_bit_no (k_msgq_put_rx s) = current_bit_no s" "PS2_state (k_msgq_put_rx s) = PS2_state s"
  "port_data (k_msgq_put_rx s) = port_data s" "incoming_data (k_msgq_put_rx s) = incoming_data s"
  "hw (k_msgq_put_rx s) = hw s" "outgoing_data (k_msgq_put_rx s) = outgoing_data s"
  by (simp_all add: k_msgq_put_rx_def split: prod.splits)

lemma clk_fall_receiving:
  assumes "bit (nrf_gpio_port_in_read hal PS2_PORT (hw s)) PS2_DATA_GPIO_PIN = b" and "receiving s"
  shows "clk_fall_cb hal s = rx_bit b s"
proof -
  have bit: "gpio_pin_get hal PS2_PORT PS2_DATA_GPIO_PIN s = of_bool b"
    using assms by (simp add: gpio_pin_get_bit receiving_def)
  have "clk_fall_cb hal s = dev_to_host_serve_falling_clk hal s"
    using assms(2) by (auto simp: clk_fall_cb_def receiving_def split: PS2_state_e.splits)
  also have "\<dots> = rx_bit b s"
    unfolding dev_to_host_serve_falling_clk_def bit rx_bit_def shift_in_def Let_def by (cases b) auto
  finally show ?thesis .
qed

lemma edge_receiving:
  assumes "line_ok hal line" and "receiving s"
  shows "edge hal line b s = rx_bit b (s\<lparr>hw := line b (hw s)\<rparr>)"
  unfolding edge_def using assms by (intro clk_fall_receiving) (simp_all add: line_ok_def receiving_def)

lemma receiving_rx_bit [simp]: "receiving (rx_bit b s) = receiving s"
  by (simp add: receiving_def rx_bit_def)

lemma receiving_hw [simp]: "receiving (s\<lparr>hw := h\<rparr>) = receiving s"
  by (simp add: receiving_def)

lemma receiving_receive [simp]: "line_ok hal line \<Longrightarrow> receiving s \<Longrightarrow> receiving (receive hal line bs s)"
  unfolding receive_def by (induction bs arbitrary: s) (simp_all add: edge_receiving)

lemma receive_append: "receive hal line (bs @ cs) s = receive hal line cs (receive hal line bs s)"
  by (simp add: receive_def)

text \<open>The state with the three variables reception changes.\<close>

definition rx_state :: "'h connector \<Rightarrow> 'h \<Rightarrow> u8 \<Rightarrow> int \<Rightarrow> 'h connector" where
  "rx_state s h i n = s\<lparr>hw := h, incoming_data := i, current_bit_no := n\<rparr>"

lemma rx_state_simps [simp]:
  "(rx_state s h i n)\<lparr>hw := h'\<rparr> = rx_state s h' i n" "(rx_state s h i n)\<lparr>incoming_data := i'\<rparr> = rx_state s h i' n"
  "(rx_state s h i n)\<lparr>current_bit_no := n'\<rparr> = rx_state s h i n'" "receiving (rx_state s h i n) = receiving s"
  "current_bit_no (rx_state s h i n) = n" "incoming_data (rx_state s h i n) = i" "hw (rx_state s h i n) = h"
  by (cases s; simp add: rx_state_def receiving_def)+

lemma rx_state_self: "rx_state s (hw s) (incoming_data s) (current_bit_no s) = s"
  by (cases s) (simp add: rx_state_def)

lemma receive_data:
  assumes "line_ok hal line" and "receiving s" and "1 \<le> n" and "n + int (length bs) \<le> 9"
  shows "receive hal line bs (rx_state s h i n) =
     rx_state s (fold line bs h) (fold shift_in bs i) (n + int (length bs))"
  using assms(3,4)
proof (induction bs arbitrary: h i n)
  case (Cons b bs)
  have "edge hal line b (rx_state s h i n) = rx_state s (line b h) (shift_in b i) (n + 1)"
    using Cons.prems assms(2) by (simp add: edge_receiving [OF assms(1)] rx_bit_def)
  with Cons.IH [of "n + 1"] Cons.prems show ?case
    by (simp add: receive_def algebra_simps)
qed (simp add: receive_def)

lemma length_data_bits [simp]: "length (data_bits b) = 8"
  by (simp add: data_bits_def)

text \<open>The start bit and the data bits of a frame.\<close>

lemma receive_byte:
  assumes "line_ok hal line" and "receiving s"
  shows "receive hal line ([False] @ data_bits b) (rx_state s h i 0) =
    rx_state s (fold line ([False] @ data_bits b) h) (reverse b) 9"
proof -
  have "edge hal line False (rx_state s h i 0) = rx_state s (line False h) (shift_in False i) 1"
    using assms(2) by (simp add: edge_receiving [OF assms(1)] rx_bit_def)
  with receive_data [OF assms, of 1 "data_bits b"] show ?thesis
    by (simp add: receive_def)
qed

lemma put_rx_state: "(k_msgq_put_rx (rx_state s h i n))\<lparr>current_bit_no := m\<rparr> = k_msgq_put_rx (rx_state s h i m)"
  by (cases s) (auto simp: k_msgq_put_rx_def rx_state_def split: prod.splits)

text \<open>The whole frame: the parity bit and the stop bit decide.\<close>

lemma receive_frame:
  assumes "line_ok hal line" and "receiving s"
  shows "receive hal line ([False] @ data_bits b @ [p, stop]) (rx_state s h i 0) =
    (let h' = fold line ([False] @ data_bits b @ [p, stop]) h
     in if p = odd_parity_check b
        then if stop then rx_state s h' (reverse b) 0 else rx_state s h' (shift_in False (reverse b)) 1
        else if stop then k_msgq_put_rx (rx_state s h' (reverse b) 0) else rx_state s h' (reverse b) 0)"
proof -
  let ?h = "fold line ([False] @ data_bits b) h"
  have "receive hal line ([False] @ data_bits b @ [p, stop]) (rx_state s h i 0) =
      edge hal line stop (edge hal line p (rx_state s ?h (reverse b) 9))"
    using receive_byte [OF assms, of b h i] receive_append [of hal line "[False] @ data_bits b" "[p, stop]"]
    by (simp add: receive_def)
  also have "edge hal line p (rx_state s ?h (reverse b) 9) =
      rx_state s (line p ?h) (reverse b) (if p = odd_parity_check b then 0 else 10)"
    using assms(2) by (auto simp: edge_receiving [OF assms(1)] rx_bit_def)
  also have "edge hal line stop \<dots> = (let h' = line stop (line p ?h)
     in if p = odd_parity_check b
        then if stop then rx_state s h' (reverse b) 0 else rx_state s h' (shift_in False (reverse b)) 1
        else if stop then k_msgq_put_rx (rx_state s h' (reverse b) 0) else rx_state s h' (reverse b) 0)"
    using assms(2) by (auto simp: edge_receiving [OF assms(1)] rx_bit_def put_rx_state)
  finally show ?thesis
    by simp
qed

text \<open>
  C14: reception of any eleven bits that begin with a start bit. With correct parity and stop bit the
  reversed byte goes to the message queue and the connector waits for the next start bit. With wrong
  parity or a low stop bit nothing is queued; the connector waits for the next start bit, except that
  after wrong parity a low stop bit is itself taken for a start bit.
\<close>

theorem ps2_frame:
  assumes "line_ok hal line" and "receiving s" and "current_bit_no s = 0"
  shows "let s1 = s\<lparr>hw := fold line ([False] @ data_bits b @ [p, stop]) (hw s), incoming_data := reverse b\<rparr>
   in receive hal line ([False] @ data_bits b @ [p, stop]) s =
    (if p = odd_parity_check b
     then if stop then s1 else s1\<lparr>incoming_data := shift_in False (reverse b), current_bit_no := 1\<rparr>
     else if stop then k_msgq_put_rx s1 else s1)"
proof -
  have "s = rx_state s (hw s) (incoming_data s) 0"
    using rx_state_self [of s] assms(3) by simp
  moreover have "rx_state s h i 0 = s\<lparr>hw := h, incoming_data := i\<rparr>" for h i
    using assms(3) by (cases s) (simp add: rx_state_def)
  moreover have "(s\<lparr>hw := h, incoming_data := i\<rparr>)\<lparr>incoming_data := i', current_bit_no := n\<rparr> = rx_state s h i' n" for h i i' n
    by (cases s) (simp add: rx_state_def)
  ultimately show ?thesis
    using receive_frame [OF assms(1,2), of b p stop "hw s" "incoming_data s"] by (simp add: Let_def)
qed

definition chip_line :: "bool \<Rightarrow> chip \<Rightarrow> chip" where
  "chip_line b h = (fst h, (snd h)(PS2_PORT := if b then BIT PS2_DATA_GPIO_PIN else 0))"

lemma chip_line_ok: "line_ok chip_hal chip_line"
  by (simp add: line_ok_def chip_hal_def chip_line_def)

definition idle_connector :: "'h \<Rightarrow> kernel \<Rightarrow> 'h connector" where
  "idle_connector h k = \<lparr>hw = h, gpiote_alloc_mask = 0,
     port_data = (\<lambda>_. \<lparr>invert = 0, callbacks = [], pin_int_en = 0, int_active_level = 0, trig_edge = 0,
       double_edge = 0\<rparr>),
     callback_at = (\<lambda>_. \<lparr>handler = 0, pin_mask = 0\<rparr>), gpio_initialized = True,
     current_bit_no = 0, incoming_data = 0, outgoing_data = 0, PS2_state = PS2_STATE_DEV_TO_HOST,
     rx_msg_que = \<lparr>msg_size = 1, max_msgs = PS2_MSG_QUE_SIZE, buffer = replicate PS2_MSG_QUE_SIZE 0,
       read_ptr = 0, write_ptr = 0, used_msgs = 0, mq_flags = 0, mq_wait_q = 9\<rparr>,
     kern = k\<rparr>"

lemma idle_connector_facts:
  "receiving (idle_connector h k)" "current_bit_no (idle_connector h k) = 0"
  "ring_inv (rx_msg_que (idle_connector h k))" "msg_size (rx_msg_que (idle_connector h k)) = 1"
  "messages (rx_msg_que (idle_connector h k)) = []" "max_msgs (rx_msg_que (idle_connector h k)) = 20"
  "mq_wait_q (rx_msg_que (idle_connector h k)) = 9" "kern (idle_connector h k) = k"
  by (simp_all add: idle_connector_def receiving_def ring_inv_def messages_def)

theorem ps2_frame_witness:
  "receive chip_hal chip_line ([False] @ data_bits 0x1C @ [odd_parity_check 0x1C, True])
     (idle_connector (reset_regs, \<lambda>_. 0) sample_kernel) =
   (idle_connector (reset_regs, \<lambda>_. 0) sample_kernel)
     \<lparr>hw := fold chip_line ([False] @ data_bits 0x1C @ [odd_parity_check 0x1C, True]) (reset_regs, \<lambda>_. 0),
      incoming_data := reverse 0x1C\<rparr>"
proof -
  let ?s = "idle_connector (reset_regs, \<lambda>_. 0) sample_kernel :: chip connector"
  have "receiving ?s" "current_bit_no ?s = 0" "hw ?s = (reset_regs, \<lambda>_. 0)"
    by (simp_all add: idle_connector_facts) (simp add: idle_connector_def)
  from ps2_frame [OF chip_line_ok this(1,2), where b = "0x1C" and p = "odd_parity_check 0x1C" and stop = True] this(3)
  show ?thesis by simp
qed

subsection \<open>From the line to the thread\<close>

primrec get_codes :: "nat \<Rightarrow> 'h connector \<Rightarrow> u8 option list \<times> 'h connector" where
  "get_codes 0 s = ([], s)"
| "get_codes (Suc n) s =
     (case ps2_connector_get_next_code s of (c, s1) \<Rightarrow>
        case get_codes n s1 of (cs, s2) \<Rightarrow> (c # cs, s2))"

lemma put_rx_rx_state:
  assumes "z_impl_k_msgq_put [i] K_NO_WAIT (rx_msg_que s) (kern s) = (out, q, k)"
  shows "k_msgq_put_rx (rx_state s h i n) = rx_state (s\<lparr>rx_msg_que := q, kern := k\<rparr>) h i n"
  using assms by (cases s) (simp add: k_msgq_put_rx_def rx_state_def)

text \<open>Good frames, one after the other, are puts of the reversed bytes.\<close>

lemma receive_frames:
  assumes "line_ok hal line" and "receiving s"
    and "put_all (map (\<lambda>b. [reverse b]) bs) (rx_msg_que s) (kern s) = (q, k)"
  shows "\<exists>h' i'. receive hal line (concat (map frame bs)) (rx_state s h i 0) =
    rx_state (s\<lparr>rx_msg_que := q, kern := k\<rparr>) h' i' 0"
  using assms(2,3)
proof (induction bs arbitrary: s h i)
  case Nil
  then have "s\<lparr>rx_msg_que := q, kern := k\<rparr> = s"
    by (cases s) simp
  then show ?case by (auto simp: receive_def)
next
  case (Cons b bs)
  obtain out q1 k1 where put: "z_impl_k_msgq_put [reverse b] K_NO_WAIT (rx_msg_que s) (kern s) = (out, q1, k1)"
    by (cases "z_impl_k_msgq_put [reverse b] K_NO_WAIT (rx_msg_que s) (kern s)")
  let ?s = "s\<lparr>rx_msg_que := q1, kern := k1\<rparr>" and ?h = "fold line (frame b) h"
  have "receive hal line (frame b) (rx_state s h i 0) = k_msgq_put_rx (rx_state s ?h (reverse b) 0)"
    using receive_frame [OF assms(1) Cons.prems(1), of b "\<not> odd_parity_check b" True h i]
    by (simp add: frame_def Let_def)
  also have "\<dots> = rx_state ?s ?h (reverse b) 0"
    by (rule put_rx_rx_state [OF put])
  finally have one: "receive hal line (frame b) (rx_state s h i 0) = rx_state ?s ?h (reverse b) 0" .
  have "receiving ?s" "put_all (map (\<lambda>b. [reverse b]) bs) (rx_msg_que ?s) (kern ?s) = (q, k)"
    using Cons.prems put by (simp_all add: receiving_def)
  from Cons.IH [OF this, of ?h "reverse b"] obtain h' i' where
    "receive hal line (concat (map frame bs)) (rx_state ?s ?h (reverse b) 0) =
       rx_state (?s\<lparr>rx_msg_que := q, kern := k\<rparr>) h' i' 0"
    by blast
  with one show ?case
    by (auto simp: receive_append)
qed

lemma get_codes_ring:
  assumes "waitqs (kern s) (mq_wait_q (rx_msg_que s)) = []" and "ring.deq_many n (rx_msg_que s) = Some (ds, q)"
  shows "get_codes n s = (map (\<lambda>d. Some (reverse (hd d))) ds, s\<lparr>rx_msg_que := q\<rparr>)"
  using assms
proof (induction n arbitrary: s ds)
  case 0
  then show ?case by (cases s) simp
next
  case (Suc n)
  let ?r = "msgq_read (rx_msg_que s)"
  let ?s = "s\<lparr>rx_msg_que := snd ?r\<rparr>"
  obtain xs where x: "0 < used_msgs (rx_msg_que s)" "ring.deq_many n (snd ?r) = Some (xs, q)" "ds = fst ?r # xs"
    using Suc.prems(2) by (auto simp: ring_deq_Some split: option.splits prod.splits)
  have "ps2_connector_get_next_code s = (Some (reverse (hd (fst ?r))), s\<lparr>rx_msg_que := snd ?r, kern := kern s\<rparr>)"
    using x(1) Suc.prems(1) by (simp add: ps2_connector_get_next_code_def get_takes)
  also have "s\<lparr>rx_msg_que := snd ?r, kern := kern s\<rparr> = ?s"
    by (cases s) simp
  finally have "ps2_connector_get_next_code s = (Some (reverse (hd (fst ?r))), ?s)" .
  moreover have "get_codes n ?s = (map (\<lambda>d. Some (reverse (hd d))) xs, ?s\<lparr>rx_msg_que := q\<rparr>)"
    using x(2) Suc.prems(1) by (intro Suc.IH) (simp_all add: msgq_read_def)
  ultimately show ?case
    by (simp add: x(3))
qed

lemma enq_all_fields:
  "ring.enq_all ds q = Some q' \<Longrightarrow> msg_size q' = msg_size q \<and> mq_wait_q q' = mq_wait_q q"
  by (induction ds arbitrary: q) (auto simp: ring_enq_Some split: option.splits)

lemma deq_many_fields:
  "ring.deq_many n q = Some (ds, q') \<Longrightarrow>
   msg_size q' = msg_size q \<and> mq_wait_q q' = mq_wait_q q \<and> max_msgs q' = max_msgs q"
proof (induction n arbitrary: q ds)
  case (Suc n)
  then obtain xs where "ring.deq_many n (snd (msgq_read q)) = Some (xs, q')"
    by (auto simp: ring_deq_Some split: option.splits prod.splits)
  from Suc.IH [OF this] show ?case by simp
qed simp

text \<open>
  The way of a batch of bytes: the frames on the line, then the queue, then the thread. The queue is
  empty again afterwards and the connector ready for the next batch.
\<close>

definition rx_ready :: "'h connector \<Rightarrow> bool" where
  "rx_ready s \<longleftrightarrow> receiving s \<and> current_bit_no s = 0 \<and> ring_inv (rx_msg_que s) \<and> msg_size (rx_msg_que s) = 1 \<and>
     messages (rx_msg_que s) = [] \<and> waitqs (kern s) (mq_wait_q (rx_msg_que s)) = []"

lemma receive_batch:
  assumes "line_ok hal line" and "rx_ready s" and "length bs \<le> max_msgs (rx_msg_que s)"
  obtains s' where "get_codes (length bs) (receive hal line (concat (map frame bs)) s) = (map Some bs, s')"
    and "rx_ready s'" and "max_msgs (rx_msg_que s') = max_msgs (rx_msg_que s)" and "kern s' = kern s"
proof -
  note rdy = assms(2) [unfolded rx_ready_def]
  let ?q = "rx_msg_que s" and ?ds = "map (\<lambda>b. [reverse b]) bs"
  obtain q1 where q1: "ring.enq_all ?ds ?q = Some q1" "ring_inv q1" "messages q1 = ?ds" "max_msgs q1 = max_msgs ?q"
    using ring.enq_all_content [of ?q ?ds] rdy assms(3) by (auto simp: list_all_iff)
  obtain q2 where q2: "ring.deq_many (length bs) q1 = Some (?ds, q2)" "ring_inv q2" "messages q2 = []"
    using ring.deq_many_content [of q1 "length bs"] q1 by auto
  have p: "put_all ?ds ?q (kern s) = (q1, kern s)" "mq_wait_q q1 = mq_wait_q ?q"
    using put_all_ring [OF _ q1(1), of "kern s"] rdy by auto
  have s: "rx_state s (hw s) (incoming_data s) 0 = s"
    using rx_state_self [of s] rdy by simp
  obtain h' i' where r: "receive hal line (concat (map frame bs)) s =
      rx_state (s\<lparr>rx_msg_que := q1, kern := kern s\<rparr>) h' i' 0"
    using receive_frames [OF assms(1) _ p(1), of "hw s" "incoming_data s"] rdy by (auto simp: s)
  let ?s = "rx_state (s\<lparr>rx_msg_que := q1, kern := kern s\<rparr>) h' i' 0"
  have f: "rx_msg_que ?s = q1" "kern ?s = kern s" "receiving ?s"
    using rdy by (simp_all add: rx_state_def receiving_def)
  have g: "get_codes (length bs) ?s = (map Some bs, ?s\<lparr>rx_msg_que := q2\<rparr>)"
    using get_codes_ring [of ?s "length bs" ?ds q2] rdy q2(1) f p(2) by (simp add: comp_def)
  have "mq_wait_q q2 = mq_wait_q q1" "msg_size q2 = msg_size q1" "max_msgs q2 = max_msgs q1" "msg_size q1 = msg_size ?q"
    using deq_many_fields [OF q2(1)] enq_all_fields [OF q1(1)] by simp_all
  then have "rx_ready (?s\<lparr>rx_msg_que := q2\<rparr>)"
    using rdy q2 p(2) by (simp add: rx_ready_def receiving_def rx_state_def)
  moreover have "max_msgs q2 = max_msgs ?q" "kern (?s\<lparr>rx_msg_que := q2\<rparr>) = kern s"
    using deq_many_fields [OF q2(1)] q1(4) by (simp_all add: rx_state_def)
  ultimately show ?thesis
    using g by (intro that [of "?s\<lparr>rx_msg_que := q2\<rparr>"]) (simp_all add: r)
qed


lemma idle_connector_ready: "waitqs k 9 = [] \<Longrightarrow> rx_ready (idle_connector h k)"
  by (simp add: rx_ready_def idle_connector_facts)


end
