(* ===== verification/Ps2_Send.thy ===== *)
theory Ps2_Send
  imports Ps2_Frame
begin

text \<open>
  Invariants of the connector under interrupts, and what sending a byte to the keyboard comes to: the
  request never pulls a line low, and once the first clock edge has been served the connector is
  back in the receiving state, so the loop that waits for the end of the transmission does not end.
\<close>

subsection \<open>Invariant of the connector\<close>

definition connector_inv :: "'h connector \<Rightarrow> bool" where
  "connector_inv s \<longleftrightarrow> 0 \<le> current_bit_no s \<and> current_bit_no s \<le> 10 \<and> sched_ok (kern s) \<and>
     msgq_inv (rx_msg_que s) (kern s) \<and> msg_size (rx_msg_que s) = 1"

lemma line_fields [simp]:
  fixes s :: "'h connector"
  shows "current_bit_no (set_data_low hal s) = current_bit_no s" "PS2_state (set_data_low hal s) = PS2_state s"
    "rx_msg_que (set_data_low hal s) = rx_msg_que s" "kern (set_data_low hal s) = kern s"
    "current_bit_no (set_data_high_z hal s) = current_bit_no s" "PS2_state (set_data_high_z hal s) = PS2_state s"
    "rx_msg_que (set_data_high_z hal s) = rx_msg_que s" "kern (set_data_high_z hal s) = kern s"
    "current_bit_no (set_clk_low hal s) = current_bit_no s" "PS2_state (set_clk_low hal s) = PS2_state s"
    "current_bit_no (set_clk_high_z hal s) = current_bit_no s" "PS2_state (set_clk_high_z hal s) = PS2_state s"
  by (auto intro: more_fields)

lemma irq_fields [simp]:
  fixes s :: "'h connector"
  shows "current_bit_no (snd (z_impl_gpio_pin_interrupt_configure hal port pin flags s)) = current_bit_no s"
    "PS2_state (snd (z_impl_gpio_pin_interrupt_configure hal port pin flags s)) = PS2_state s"
  by (auto intro: more_fields)

lemma host_to_dev_fields:
  "PS2_state (host_to_dev_serve_falling_clk hal s) =
     (if current_bit_no s = 9 then PS2_STATE_IDLE else PS2_STATE_DEV_TO_HOST)"
  "current_bit_no (host_to_dev_serve_falling_clk hal s) = (current_bit_no s + 1) mod 10"
  "rx_msg_que (host_to_dev_serve_falling_clk hal s) = rx_msg_que s"
  "kern (host_to_dev_serve_falling_clk hal s) = kern s"
  by (simp_all add: host_to_dev_serve_falling_clk_def Let_def)

lemma dev_to_host_state: "PS2_state (dev_to_host_serve_falling_clk hal s) = PS2_state s"
  by (simp add: dev_to_host_serve_falling_clk_def Let_def)

lemma put_rx_inv:
  assumes "connector_inv s"
  shows "connector_inv (k_msgq_put_rx s)"
proof -
  obtain out q k where put: "z_impl_k_msgq_put [incoming_data s] K_NO_WAIT (rx_msg_que s) (kern s) = (out, q, k)"
    by (cases "z_impl_k_msgq_put [incoming_data s] K_NO_WAIT (rx_msg_que s) (kern s)")
  have "sched_ok k \<and> msgq_inv q k"
    using assms by (intro msgq_put_inv [OF _ _ _ _ put]) (simp_all add: connector_inv_def)
  moreover have "msg_size q = msg_size (rx_msg_que s)"
    using put by (auto simp: z_impl_k_msgq_put_def split: if_splits prod.splits option.splits)
  ultimately show ?thesis
    using assms put by (simp add: k_msgq_put_rx_def connector_inv_def)
qed

text \<open>
  The invariant of the connector survives every clock interrupt, whatever the levels on the lines
  and whatever the connector is doing: the bit counter stays within a frame, the message queue and
  the scheduler stay consistent, and a full queue only loses the new byte.
\<close>

lemma clk_fall_keeps_inv:
  assumes inv: "connector_inv s"
  shows "connector_inv (clk_fall_cb hal s)"
proof (cases "PS2_state s = PS2_STATE_HOST_TO_DEV")
  case True
  then have "clk_fall_cb hal s = host_to_dev_serve_falling_clk hal s"
    by (simp add: clk_fall_cb_def)
  with inv show ?thesis
    by (simp add: connector_inv_def host_to_dev_fields)
next
  case False
  then have eq: "clk_fall_cb hal s = dev_to_host_serve_falling_clk hal s"
    by (simp add: clk_fall_cb_def split: PS2_state_e.splits)
  have inc: "connector_inv (s\<lparr>incoming_data := x\<rparr>)" "connector_inv (s\<lparr>current_bit_no := 0\<rparr>)"
    "connector_inv (s\<lparr>incoming_data := x, current_bit_no := 0\<rparr>)" for x
    using inv by (simp_all add: connector_inv_def)
  have step: "connector_inv (x\<lparr>current_bit_no := (n + 1) mod 11\<rparr>)" if "connector_inv x" for x :: "'a connector" and n
    using that pos_mod_bound [of 11 "n + 1"] pos_mod_sign [of 11 "n + 1"] by (simp add: connector_inv_def)
  have put: "connector_inv (k_msgq_put_rx s)"
    by (rule put_rx_inv [OF inv])
  show ?thesis
    unfolding eq dev_to_host_serve_falling_clk_def Let_def
    using inc step [OF inv] step [OF inc(1)] step [OF put] step [OF put, of 10] by simp
qed

lemma idle_connector_inv:
  assumes "sched_ok k" and "waitqs k 9 = []"
  shows "connector_inv (idle_connector h k)"
  using assms idle_connector_facts [of h k] by (simp add: connector_inv_def msgq_inv_def)

subsection \<open>Sending\<close>

text \<open>The open-drain configuration of a line, and the latch that \<open>gpio_pin_set\<close> leaves behind.\<close>

lemma drive_low: "drive_of_flags PS2_GPIO_FLAGS_LOW = Some NRF_GPIO_PIN_S0D1"
  by (simp add: drive_of_flags_def PS2_GPIO_FLAGS_LOW_def BIT_def push_bit_eq_mult Let_def)

lemma configure_low:
  assumes hal: "hal_ok hal r" and "pin < 32" and cfg: "gpio_pin_configure hal port pin PS2_GPIO_FLAGS_LOW s = (ret, s')"
  shows "snd (snd (pin_cnf (r (hw s')) (32 * port + pin))) = NRF_GPIO_PIN_S0D1"
    and "pin_dir (r (hw s')) (32 * port + pin) = NRF_GPIO_PIN_DIR_OUTPUT"
    and "\<not> bit (invert (port_data s' port)) pin"
proof -
  have bits: "bit PS2_GPIO_FLAGS_LOW n \<longleftrightarrow> n \<in> {1, 2, 9}" for n
    by (auto simp: PS2_GPIO_FLAGS_LOW_def bit_or_iff)
  have "PS2_GPIO_FLAGS_LOW AND (BIT 13 OR BIT 14) = 0"
    by (rule bit_word_eqI) (auto simp: bit_and_iff bit_or_iff bits)
  then have "s' = upd_data port (\<lambda>d. d\<lparr>invert := invert d AND NOT (BIT pin)\<rparr>)
      (upd_hw (nrf_gpio_cfg hal (32 * port + pin) NRF_GPIO_PIN_DIR_OUTPUT NRF_GPIO_PIN_INPUT_DISCONNECT
        NRF_GPIO_PIN_NOPULL NRF_GPIO_PIN_S0D1 NRF_GPIO_PIN_NOSENSE) s)"
    using hal_laws(1) [OF hal] \<open>pin < 32\<close> cfg
    by (simp add: gpio_pin_configure_def z_impl_gpio_config_def gpio_nrfx_config_def drive_low
        and_BIT_eq_0 bits Let_def)
  then show "snd (snd (pin_cnf (r (hw s')) (32 * port + pin))) = NRF_GPIO_PIN_S0D1"
    "pin_dir (r (hw s')) (32 * port + pin) = NRF_GPIO_PIN_DIR_OUTPUT"
    "\<not> bit (invert (port_data s' port)) pin"
    by (simp_all add: hal_laws(9) [OF hal] upd_data_def)
qed

lemma open_drain_set:
  assumes hal: "hal_ok hal r" and "pin < 32" and "v \<noteq> 0"
  shows "let s' = snd (gpio_pin_set hal port pin v (snd (gpio_pin_configure hal port pin PS2_GPIO_FLAGS_LOW s)))
     in bit (out_reg (r (hw s')) port) pin \<and> snd (snd (pin_cnf (r (hw s')) (32 * port + pin))) = NRF_GPIO_PIN_S0D1"
proof -
  obtain ret s1 where c: "gpio_pin_configure hal port pin PS2_GPIO_FLAGS_LOW s = (ret, s1)"
    by (cases "gpio_pin_configure hal port pin PS2_GPIO_FLAGS_LOW s")
  obtain ret' s2 where g: "gpio_pin_set hal port pin v s1 = (ret', s2)"
    by (cases "gpio_pin_set hal port pin v s1")
  note l = configure_low [OF hal \<open>pin < 32\<close> c]
  have "gpio_pin_set_raw hal port pin v s1 = (ret', s2)"
    using g l(3) by (simp add: gpio_pin_set_def and_BIT_eq_0)
  note p = pin_set_raw [OF hal \<open>pin < 32\<close> this]
  have "pin_cnf (r (hw s2)) = pin_cnf (r (hw s1))"
    using p(2) unfolding writes_only_def by (metis nrf_regs.select_convs(3) nrf_regs.surjective nrf_regs.update_convs(1))
  with l p(3) \<open>v \<noteq> 0\<close> show ?thesis
    by (simp add: c g)
qed

text \<open>
  Neither \<open>set_clk_low\<close> nor \<open>set_data_low\<close> pulls its line low: the flags they pass as the level
  are not zero, so the output latch becomes 1, which in the open-drain configuration they choose
  disconnects the pin from the line.
\<close>

lemma set_low_releases_line:
  assumes "hal_ok hal r"
  shows "bit (out_reg (r (hw (set_clk_low hal s))) PS2_PORT) PS2_CLK_GPIO_PIN \<and>
     snd (snd (pin_cnf (r (hw (set_clk_low hal s))) PS2_CLK_GPIO_PIN)) = NRF_GPIO_PIN_S0D1 \<and>
     bit (out_reg (r (hw (set_data_low hal s))) PS2_PORT) PS2_DATA_GPIO_PIN \<and>
     snd (snd (pin_cnf (r (hw (set_data_low hal s))) PS2_DATA_GPIO_PIN)) = NRF_GPIO_PIN_S0D1"
proof -
  have "uint (GPIO_OUTPUT OR x OR GPIO_OUTPUT_INIT_LOGICAL :: u32) \<noteq> 0" for x
  proof -
    have "bit (GPIO_OUTPUT OR x OR GPIO_OUTPUT_INIT_LOGICAL :: u32) 9"
      by (simp add: bit_or_iff)
    then show ?thesis by (metis bit_0_eq bot_apply bot_bool_def uint_0_iff)
  qed
  from open_drain_set [OF assms _ this, of PS2_CLK_GPIO_PIN PS2_PORT GPIO_OUTPUT_INIT_HIGH s]
    open_drain_set [OF assms _ this, of PS2_DATA_GPIO_PIN PS2_PORT GPIO_OUTPUT_INIT_LOW s]
  show ?thesis
    by (simp add: set_clk_low_def set_data_low_def Let_def)
qed

text \<open>
  C25: sending a byte does not end. Once the request is made, unless the connector was at the parity
  bit of an incoming frame, no sequence of steps of the sending thread and of clock interrupts, at
  whatever levels of the lines, brings \<open>ps2_connector_send_byte\<close> to its end: the first edge puts the
  connector back into the receiving state, which no edge ever turns into the idle state waited for.
\<close>

theorem send_never_ends:
  assumes "PS2_state s = PS2_STATE_HOST_TO_DEV" and "current_bit_no s \<noteq> 9"
    and "(send_step hal msg)\<^sup>*\<^sup>* (At_clk_low, s) (pc, t)"
  shows "pc \<noteq> Sent \<and> PS2_state t \<noteq> PS2_STATE_IDLE"
proof -
  define I where "I = (\<lambda>(pc, t :: 'a connector). pc \<notin> {At_outgoing, At_state, At_wait_release, Sent} \<and>
     (PS2_state t = PS2_STATE_DEV_TO_HOST \<or> PS2_state t = PS2_STATE_HOST_TO_DEV \<and> current_bit_no t \<noteq> 9))"
  have step: "I y" if "send_step hal msg x y" "I x" for x y
    using that
    by (cases rule: send_step.cases)
       (auto simp: I_def clk_fall_cb_def dev_to_host_state host_to_dev_fields split: PS2_state_e.splits)
  from assms(3) have "I (pc, t)"
    by (induction rule: rtranclp_induct) (use assms(1,2) step in \<open>auto simp: I_def\<close>)
  then show ?thesis by (auto simp: I_def)
qed

theorem send_never_ends_witness:
  "\<nexists>t. (send_step chip_hal 0xED)\<^sup>*\<^sup>* (At_clk_low, (idle_connector (reset_regs, \<lambda>_. 0) sample_kernel)
     \<lparr>outgoing_data := 0xED, PS2_state := PS2_STATE_HOST_TO_DEV\<rparr>) (Sent, t)"
proof
  let ?s = "(idle_connector (reset_regs, \<lambda>_. 0) sample_kernel)\<lparr>outgoing_data := 0xED, PS2_state := PS2_STATE_HOST_TO_DEV\<rparr>"
  assume "\<exists>t. (send_step chip_hal 0xED)\<^sup>*\<^sup>* (At_clk_low, ?s) (Sent, t)"
  then obtain t where "(send_step chip_hal 0xED)\<^sup>*\<^sup>* (At_clk_low, ?s) (Sent, t)" ..
  from send_never_ends [OF _ _ this] show False
    by (simp add: idle_connector_def)
qed

end
