(* ===== verification/Ps2_Init.thy ===== *)
theory Ps2_Init
  imports Ps2_Frame
begin

text \<open>
  Initialisation of the connector and the way of a clock edge through the GPIO interrupt: after
  \<open>ps2_connector_init\<close> the falling edge of the clock line is the one that is reported, and its event
  runs the connector's handler exactly once.
\<close>

subsection \<open>Configuring an input pin\<close>

lemma configure_input:
  assumes hal: "hal_ok hal r" and "pin < 32"
  shows "gpio_pin_configure hal port pin GPIO_INPUT s =
    (0, upd_data port (\<lambda>d. d\<lparr>invert := invert d AND NOT (BIT pin)\<rparr>)
      (upd_hw (nrf_gpio_cfg hal (32 * port + pin) NRF_GPIO_PIN_DIR_INPUT NRF_GPIO_PIN_INPUT_CONNECT
        NRF_GPIO_PIN_NOPULL NRF_GPIO_PIN_S0S1 NRF_GPIO_PIN_NOSENSE) s))"
proof -
  have drive: "drive_of_flags GPIO_INPUT = Some NRF_GPIO_PIN_S0S1"
    by (simp add: drive_of_flags_def BIT_def push_bit_eq_mult Let_def)
  have "GPIO_INPUT AND (BIT 13 OR BIT 14) = 0"
    by (rule bit_word_eqI) (auto simp: bit_and_iff bit_or_iff)
  moreover have "GPIO_INPUT \<noteq> 0"
    by (simp add: BIT_def push_bit_eq_mult)
  ultimately show ?thesis using hal_laws(1) [OF hal] \<open>pin < 32\<close>
    by (simp add: gpio_pin_configure_def z_impl_gpio_config_def gpio_nrfx_config_def drive and_BIT_eq_0 Let_def)
qed

lemma inv_cfg:
  assumes "hal_ok hal r"
  shows "gpiote_inv hal r (s\<lparr>hw := nrf_gpio_cfg hal n d x u y q h\<rparr>) = gpiote_inv hal r (s\<lparr>hw := h\<rparr>)"
  by (simp add: gpiote_inv_def channel_on_def hal_laws(9) [OF assms])

subsection \<open>Waiting for the lines\<close>

definition env_ok :: "('h \<Rightarrow> nrf_regs) \<Rightarrow> ('h \<Rightarrow> 'h) \<Rightarrow> bool" where
  "env_ok r e \<longleftrightarrow> (\<forall>h. r (e h) = r h)"

definition lines_high :: "'h hal \<Rightarrow> ('h \<Rightarrow> 'h) \<times> ('h \<Rightarrow> 'h) \<Rightarrow> bool" where
  "lines_high hal = (\<lambda>(e1, e2).
     (\<forall>h. bit (nrf_gpio_port_in_read hal PS2_PORT (e1 h)) PS2_DATA_GPIO_PIN) \<and>
     (\<forall>h. bit (nrf_gpio_port_in_read hal PS2_PORT (e2 h)) PS2_CLK_GPIO_PIN))"

lemma wait_lines_high_returns:
  assumes "\<forall>e\<in>set es. env_ok r (fst e) \<and> env_ok r (snd e)" and "\<exists>e\<in>set es. lines_high hal e"
    and "\<not> bit (invert (port_data s PS2_PORT)) PS2_DATA_GPIO_PIN" "\<not> bit (invert (port_data s PS2_PORT)) PS2_CLK_GPIO_PIN"
  shows "\<exists>h. wait_lines_high hal es s = Some (s\<lparr>hw := h\<rparr>) \<and> r h = r (hw s)"
  using assms
proof (induction es arbitrary: s)
  case (Cons e es)
  obtain e1 e2 where e: "e = (e1, e2)" by (cases e)
  have env: "r (e1 h) = r h" "r (e2 h) = r h" for h
    using Cons.prems(1) by (simp_all add: e env_ok_def)
  show ?case
  proof (cases "\<exists>e\<in>set es. lines_high hal e")
    case True
    have IH: "\<exists>h. wait_lines_high hal es (s\<lparr>hw := h'\<rparr>) = Some (s\<lparr>hw := h\<rparr>) \<and> r h = r h'" for h'
      using Cons.IH [OF _ True, of "s\<lparr>hw := h'\<rparr>"] Cons.prems(1,3,4) by auto
    show ?thesis
      using IH [of "e1 (hw s)"] IH [of "e2 (e1 (hw s))"] env by (auto simp: e Let_def)
  next
    case False
    with Cons.prems(2) have "lines_high hal e" by auto
    with Cons.prems(3,4) have "wait_lines_high hal (e # es) s = Some (s\<lparr>hw := e2 (e1 (hw s))\<rparr>)"
      by (simp add: e lines_high_def gpio_pin_get_bit Let_def)
    with env show ?thesis by metis
  qed
qed simp

subsection \<open>What the driver keeps of the registry\<close>

text \<open>Only the registration functions change the callbacks; only the pin configuration changes polarities.\<close>

lemma kept_channel_alloc [simp]:
  "callback_at (snd (channel_alloc_loop hal cs n pol s)) = callback_at s"
  "port_data (snd (channel_alloc_loop hal cs n pol s)) = port_data s"
  by (induction cs arbitrary: s) (simp_all add: Let_def)

lemma kept_pin_cleanup [simp]:
  "callback_at (pin_cleanup_loop hal is n m s) = callback_at s"
  "port_data (pin_cleanup_loop hal is n m s) = port_data s"
  by (induction "is" arbitrary: s) simp_all

lemma kept_pin_int_cfg [simp]:
  "callback_at (snd (gpiote_pin_int_cfg hal port pin s)) = callback_at s"
  "port_data (snd (gpiote_pin_int_cfg hal port pin s)) = port_data s"
  by (simp_all add: gpiote_pin_int_cfg_def gpiote_channel_alloc_def gpiote_pin_cleanup_def Let_def)

lemma kept_interrupt_configure [simp]:
  "callback_at (snd (z_impl_gpio_pin_interrupt_configure hal port pin flags s)) = callback_at s"
  "callbacks (port_data (snd (z_impl_gpio_pin_interrupt_configure hal port pin flags s)) q) = callbacks (port_data s q)"
  "invert (port_data (snd (z_impl_gpio_pin_interrupt_configure hal port pin flags s)) q) = invert (port_data s q)"
  unfolding z_impl_gpio_pin_interrupt_configure_def Let_def gpio_nrfx_pin_interrupt_configure_def
  by (simp_all split del: if_split split: if_split add: upd_data_def)

lemma kept_nrfx_config [simp]:
  "callback_at (snd (gpio_nrfx_config hal port pin flags s)) = callback_at s"
  "port_data (snd (gpio_nrfx_config hal port pin flags s)) = port_data s"
  unfolding gpio_nrfx_config_def Let_def
  by (cases "drive_of_flags flags"; simp_all only: option.case snd_conv; simp_all)+

lemma kept_configure [simp]:
  "callback_at (snd (gpio_pin_configure hal port pin flags s)) = callback_at s"
  "callbacks (port_data (snd (gpio_pin_configure hal port pin flags s)) q) = callbacks (port_data s q)"
proof -
  define f where "f = (if flags AND GPIO_OUTPUT_INIT_LOGICAL \<noteq> 0 \<and>
      flags AND (GPIO_OUTPUT_INIT_LOW OR GPIO_OUTPUT_INIT_HIGH) \<noteq> 0 \<and> flags AND GPIO_ACTIVE_LOW \<noteq> 0
    then flags XOR (GPIO_OUTPUT_INIT_LOW OR GPIO_OUTPUT_INIT_HIGH OR GPIO_OUTPUT_INIT_LOGICAL) else flags)"
  obtain ret s1 where c: "gpio_nrfx_config hal port pin f s = (ret, s1)"
    by (cases "gpio_nrfx_config hal port pin f s")
  have "callback_at s1 = callback_at s" "port_data s1 = port_data s"
    using kept_nrfx_config [of hal port pin f s] c by simp_all
  then show "callback_at (snd (gpio_pin_configure hal port pin flags s)) = callback_at s"
    "callbacks (port_data (snd (gpio_pin_configure hal port pin flags s)) q) = callbacks (port_data s q)"
    unfolding gpio_pin_configure_def z_impl_gpio_config_def f_def [symmetric] Let_def c prod.case
    by (simp_all add: upd_data_def)
qed

lemma kept_pin_set [simp]:
  "callback_at (snd (gpio_pin_set hal port pin v s)) = callback_at s"
  "port_data (snd (gpio_pin_set hal port pin v s)) = port_data s"
  by (simp_all add: gpio_pin_set_def gpio_pin_set_raw_def z_impl_gpio_port_set_bits_raw_def
      z_impl_gpio_port_clear_bits_raw_def gpio_nrfx_port_set_bits_raw_def gpio_nrfx_port_clear_bits_raw_def)

lemma kept_lines [simp]:
  "callback_at (set_data_low hal s) = callback_at s" "callback_at (set_data_high_z hal s) = callback_at s"
  "callbacks (port_data (set_data_low hal s) q) = callbacks (port_data s q)"
  "callbacks (port_data (set_data_high_z hal s) q) = callbacks (port_data s q)"
  by (simp_all add: set_data_low_def set_data_high_z_def)

lemma kept_put_rx [simp]: "callback_at (k_msgq_put_rx s) = callback_at s"
  by (simp add: k_msgq_put_rx_def split: prod.splits)

lemma registry_kept_call: "registry_kept (gpio_call hal)"
proof -
  have "callback_at (clk_fall_cb hal s) = callback_at s \<and>
      (\<forall>q. callbacks (port_data (clk_fall_cb hal s) q) = callbacks (port_data s q))" for s
    by (simp add: clk_fall_cb_def dev_to_host_serve_falling_clk_def host_to_dev_serve_falling_clk_def Let_def
        split: PS2_state_e.splits)
  then show ?thesis
    by (simp add: registry_kept_def gpio_call_def)
qed

subsection \<open>Initialisation\<close>

text \<open>No event is waiting to be served.\<close>

definition quiet :: "'h hal \<Rightarrow> nrf_regs \<Rightarrow> bool" where
  "quiet hal R \<longleftrightarrow> \<not> pending R NRF_GPIOTE_EVENT_PORT \<and>
     (\<forall>i<GPIOTE_CH_NUM hal. bit (inten R) i \<longrightarrow> \<not> pending R (EVENTS_IN i))"

lemma quiet_channel_alloc:
  assumes "hal_ok hal r" and "quiet hal (r (hw s))"
  shows "quiet hal (r (hw (snd (channel_alloc_loop hal cs n pol s))))"
  using assms(2)
proof (induction cs arbitrary: s)
  case (Cons c cs)
  then show ?case
    by (auto simp: Let_def quiet_def hal_laws [OF assms(1)] bit_or_iff)
qed simp

lemma quiet_pin_cleanup:
  assumes "hal_ok hal r" and "quiet hal (r (hw s))"
  shows "quiet hal (r (hw (pin_cleanup_loop hal is n m s)))"
  using assms(2)
proof (induction "is" arbitrary: s)
  case (Cons i "is")
  then show ?case
    by (auto simp: quiet_def hal_laws [OF assms(1)] bit_and_iff)
qed simp

lemma quiet_sense: "hal_ok hal r \<Longrightarrow> quiet hal (r (nrf_gpio_cfg_sense_set hal n q h)) = quiet hal (r h)"
  by (simp add: quiet_def hal_laws(10))

lemma quiet_cfg: "hal_ok hal r \<Longrightarrow> quiet hal (r (nrf_gpio_cfg hal n d x u y q h)) = quiet hal (r h)"
  by (simp add: quiet_def hal_laws(9))

lemma quiet_pin_int_cfg:
  assumes "hal_ok hal r" and "quiet hal (r (hw s))"
  shows "quiet hal (r (hw (snd (gpiote_pin_int_cfg hal port pin s))))"
  using assms quiet_pin_cleanup [OF assms]
  by (simp add: gpiote_pin_int_cfg_def gpiote_channel_alloc_def gpiote_pin_cleanup_def Let_def quiet_sense
      quiet_channel_alloc)

lemma quiet_interrupt_configure:
  assumes "hal_ok hal r" and "quiet hal (r (hw s))"
  shows "quiet hal (r (hw (snd (z_impl_gpio_pin_interrupt_configure hal port pin flags s))))"
  unfolding z_impl_gpio_pin_interrupt_configure_def Let_def gpio_nrfx_pin_interrupt_configure_def
  using assms by (simp add: quiet_pin_int_cfg split del: if_split split: if_split)

text \<open>The falling clock edge raises an interrupt, and the interrupt calls the connector, and nothing else.\<close>

definition attached :: "'h hal \<Rightarrow> ('h \<Rightarrow> nrf_regs) \<Rightarrow> 'h connector \<Rightarrow> bool" where
  "attached hal r s \<longleftrightarrow> gpiote_inv hal r s \<and> quiet hal (r (hw s)) \<and>
     watched hal (r (hw s)) (32 * PS2_PORT + PS2_CLK_GPIO_PIN) = Some NRF_GPIOTE_POLARITY_HITOLO \<and>
     callbacks (port_data s PS2_PORT) = [clk_fall_cb_data] \<and>
     callback_at s clk_fall_cb_data = \<lparr>handler = clk_fall_cb_addr, pin_mask = BIT PS2_CLK_GPIO_PIN\<rparr>"

lemma clk_interrupt:
  assumes hal: "hal_ok hal r" and inv: "gpiote_inv hal r s" and quiet: "quiet hal (r (hw s))"
    and "i < GPIOTE_CH_NUM hal" "\<not> bit (inten (r (hw s))) i"
    and "pin_dir (r (hw s)) (32 * PS2_PORT + PS2_CLK_GPIO_PIN) = NRF_GPIO_PIN_DIR_INPUT"
    and "\<not> bit (invert (port_data s PS2_PORT)) PS2_CLK_GPIO_PIN"
  defines "s' \<equiv> snd (z_impl_gpio_pin_interrupt_configure hal PS2_PORT PS2_CLK_GPIO_PIN GPIO_INT_EDGE_TO_INACTIVE s)"
  shows "gpiote_inv hal r s'" and "quiet hal (r (hw s'))"
    and "watched hal (r (hw s')) (32 * PS2_PORT + PS2_CLK_GPIO_PIN) = Some NRF_GPIOTE_POLARITY_HITOLO"
proof -
  define f :: u32 where "f = GPIO_INT_EDGE_TO_INACTIVE"
  have bits: "\<not> bit f 13" "bit f 14" "bit f 16" "bit f 17" "\<not> bit f 18" "bit f 15"
    by (simp_all add: f_def bit_or_iff)
  then have "valid_int_flags f"
    by (simp add: valid_int_flags_def)
  moreover obtain ret where
    "z_impl_gpio_pin_interrupt_configure hal PS2_PORT PS2_CLK_GPIO_PIN f s = (ret, s')"
    by (cases "z_impl_gpio_pin_interrupt_configure hal PS2_PORT PS2_CLK_GPIO_PIN f s") (simp add: s'_def f_def)
  ultimately show "gpiote_inv hal r s'"
    "watched hal (r (hw s')) (32 * PS2_PORT + PS2_CLK_GPIO_PIN) = Some NRF_GPIOTE_POLARITY_HITOLO"
    using interrupt_map [OF hal inv, of PS2_CLK_GPIO_PIN f PS2_PORT ret s'] bits assms(4-7)
    by (auto simp: wanted_polarity_def)
  show "quiet hal (r (hw s'))"
    unfolding s'_def by (rule quiet_interrupt_configure [OF hal quiet])
qed

lemma input_pins:
  fixes s :: "('h, 'm) gpio_scheme"
  assumes hal: "hal_ok hal r"
  defines "s' \<equiv> snd (gpio_pin_configure hal PS2_PORT PS2_DATA_GPIO_PIN GPIO_INPUT
    (snd (gpio_pin_configure hal PS2_PORT PS2_CLK_GPIO_PIN GPIO_INPUT s)))"
  shows "gpiote_inv hal r s' = gpiote_inv hal r s" and "quiet hal (r (hw s')) = quiet hal (r (hw s))"
    and "inten (r (hw s')) = inten (r (hw s))"
    and "pin_dir (r (hw s')) (32 * PS2_PORT + PS2_CLK_GPIO_PIN) = NRF_GPIO_PIN_DIR_INPUT"
    and "\<not> bit (invert (port_data s' PS2_PORT)) PS2_CLK_GPIO_PIN"
    and "\<not> bit (invert (port_data s' PS2_PORT)) PS2_DATA_GPIO_PIN"
  by (simp_all add: s'_def configure_input [OF hal] inv_cfg [OF hal] quiet_cfg [OF hal] hal_laws(9) [OF hal])
    (simp_all add: upd_data_def bit_and_iff bit_not_iff gpiote_inv_def quiet_def)

text \<open>
  \<open>ps2_connector_init\<close> ends, as soon as the environment gives one turn of its waiting loop in which
  both lines are high, and afterwards the connector is ready: the message queue is empty, the
  state machine receives, the falling edge of the clock line is the edge that is reported, and it is
  the connector's handler, alone, that is called for it. A free channel is needed and the environment
  may change the levels of the lines at every turn.
\<close>

lemma connector_init_ready:
  assumes hal: "hal_ok hal r" and inv: "gpiote_inv hal r s" and quiet: "quiet hal (r (hw s))"
    and free: "i < GPIOTE_CH_NUM hal" "\<not> bit (inten (r (hw s))) i"
    and cbs: "callbacks (port_data s PS2_PORT) = []" and start: "current_bit_no s = 0"
    and env: "\<forall>e\<in>set es. env_ok r (fst e) \<and> env_ok r (snd e)" "\<exists>e\<in>set es. lines_high hal e"
  shows "\<exists>s'. ps2_connector_init hal w es s = Some s' \<and> attached hal r s' \<and> rx_ready s' \<and>
     PS2_state s' = PS2_STATE_DEV_TO_HOST \<and> max_msgs (rx_msg_que s') = PS2_MSG_QUE_SIZE \<and>
     kern s' = (kern s)\<lparr>waitqs := (waitqs (kern s))(w := [])\<rparr>"
proof -
  obtain q k where q: "k_msgq_init (replicate PS2_MSG_QUE_SIZE 0) 1 PS2_MSG_QUE_SIZE w (kern s) = (q, k)"
    by fastforce
  let ?s1 = "s\<lparr>rx_msg_que := q, kern := k\<rparr>"
  define s2 where "s2 = snd (gpio_pin_configure hal PS2_PORT PS2_CLK_GPIO_PIN GPIO_INPUT ?s1)"
  define s3 where "s3 = snd (gpio_pin_configure hal PS2_PORT PS2_DATA_GPIO_PIN GPIO_INPUT s2)"
  have c: "gpio_pin_configure hal PS2_PORT PS2_CLK_GPIO_PIN GPIO_INPUT ?s1 = (0, s2)"
    "gpio_pin_configure hal PS2_PORT PS2_DATA_GPIO_PIN GPIO_INPUT s2 = (0, s3)"
    by (simp_all add: s2_def s3_def configure_input [OF hal])
  note s3 = input_pins [OF hal, of ?s1, folded s2_def, folded s3_def]
  obtain h where h: "wait_lines_high hal es s3 = Some (s3\<lparr>hw := h\<rparr>)" "r h = r (hw s3)"
    using wait_lines_high_returns [OF env s3(6,5)] by blast
  define s5 where "s5 = s3\<lparr>hw := h, PS2_state := PS2_STATE_DEV_TO_HOST\<rparr>"
  define s6 where "s6 = snd (z_impl_gpio_pin_interrupt_configure hal PS2_PORT PS2_CLK_GPIO_PIN
     GPIO_INT_EDGE_TO_INACTIVE s5)"
  have s5: "gpiote_inv hal r s5" "r (hw s5) = r (hw s3)" "port_data s5 = port_data s3"
    using inv s3(1) h(2) by (simp_all add: s5_def gpiote_inv_def)
  have "gpio.more s3 = gpio.more ?s1"
    using c more_configure [of hal PS2_PORT PS2_CLK_GPIO_PIN GPIO_INPUT ?s1]
      more_configure [of hal PS2_PORT PS2_DATA_GPIO_PIN GPIO_INPUT s2] by simp
  note m3 = more_fields [OF this]
  have "gpio.more s6 = gpio.more s5"
    by (simp add: s6_def)
  note m6 = more_fields [OF this]
  have f: "PS2_state s6 = PS2_STATE_DEV_TO_HOST" "current_bit_no s6 = 0" "rx_msg_que s6 = q" "kern s6 = k"
    using start m3 by (simp_all add: m6 s5_def)
  have cb: "callbacks (port_data s6 PS2_PORT) = []" "callback_at s6 = callback_at s"
    "invert (port_data s6 PS2_PORT) = invert (port_data s3 PS2_PORT)"
    using cbs by (simp_all add: s6_def s5_def s3_def s2_def)
  have s6: "gpiote_inv hal r s6" "quiet hal (r (hw s6))"
    "watched hal (r (hw s6)) (32 * PS2_PORT + PS2_CLK_GPIO_PIN) = Some NRF_GPIOTE_POLARITY_HITOLO"
    unfolding s6_def using quiet free s3 by (intro clk_interrupt [OF hal s5(1), where i = i]; simp add: s5)+
  define s7 where "s7 = snd (gpio_add_callback PS2_PORT clk_fall_cb_data
    (gpio_init_callback clk_fall_cb_data clk_fall_cb_addr (BIT PS2_CLK_GPIO_PIN) s6))"
  have "ps2_connector_init hal w es s = Some s7"
    unfolding ps2_connector_init_def q prod.case Let_def c s7_def s6_def s5_def by (simp add: h(1))
  moreover have s7: "hw s7 = hw s6" "gpio.more s7 = gpio.more s6" "callbacks (port_data s7 PS2_PORT) = [clk_fall_cb_data]"
    "invert (port_data s7 PS2_PORT) = invert (port_data s3 PS2_PORT)" "gpiote_inv hal r s7 = gpiote_inv hal r s6"
    "callback_at s7 clk_fall_cb_data = \<lparr>handler = clk_fall_cb_addr, pin_mask = BIT PS2_CLK_GPIO_PIN\<rparr>"
    using cb by (simp_all add: s7_def gpio_add_callback_def gpio_init_callback_def gpio_nrfx_manage_callback_def
        gpio_manage_callback_def) (simp_all add: upd_data_def gpiote_inv_def)
  note m7 = more_fields [OF s7(2)]
  have "attached hal r s7"
    using s6 s7 by (simp add: attached_def)
  moreover have "rx_ready s7" "max_msgs (rx_msg_que s7) = PS2_MSG_QUE_SIZE"
    "kern s7 = (kern s)\<lparr>waitqs := (waitqs (kern s))(w := [])\<rparr>"
    using q s3(6) k_msgq_init_inv [of 1 PS2_MSG_QUE_SIZE "replicate PS2_MSG_QUE_SIZE 0" w "kern s"]
    by (auto simp: rx_ready_def receiving_def m7 f s7(4) k_msgq_init_def)
  ultimately show ?thesis
    by (simp add: m7 f)
qed

definition raise_lines :: "chip \<Rightarrow> chip" where
  "raise_lines h = (fst h, \<lambda>_. BIT PS2_CLK_GPIO_PIN OR BIT PS2_DATA_GPIO_PIN)"

subsection \<open>The way of a clock edge through the interrupt\<close>

text \<open>
  \<open>pulse b\<close> is what a falling clock edge does to the hardware while the data line has level \<open>b\<close>: the
  channels that watch the falling edge of the clock pin raise their events, and the data pin reads
  \<open>b\<close>, also after events have been cleared.
\<close>

definition pulse_ok :: "'h hal \<Rightarrow> ('h \<Rightarrow> nrf_regs) \<Rightarrow> (bool \<Rightarrow> 'h \<Rightarrow> 'h) \<Rightarrow> bool" where
  "pulse_ok hal r pulse \<longleftrightarrow>
     (\<forall>b h. r (pulse b h) = (r h)\<lparr>pending := \<lambda>e. pending (r h) e \<or>
        (\<exists>i<GPIOTE_CH_NUM hal. e = EVENTS_IN i \<and> channel_on (r h) (32 * PS2_PORT + PS2_CLK_GPIO_PIN) i \<and>
           ch_polarity (r h) i \<noteq> NRF_GPIOTE_POLARITY_LOTOHI)\<rparr>) \<and>
     (\<forall>b h. bit (nrf_gpio_port_in_read hal PS2_PORT (pulse b h)) PS2_DATA_GPIO_PIN = b) \<and>
     (\<forall>e h. nrf_gpio_port_in_read hal PS2_PORT (nrf_gpiote_event_clear hal e h) = nrf_gpio_port_in_read hal PS2_PORT h)"

lemma channel_event_loop_in:
  assumes "\<And>e h. nrf_gpio_port_in_read hal p (nrf_gpiote_event_clear hal e h) = nrf_gpio_port_in_read hal p h"
  shows "nrf_gpio_port_in_read hal p (hw (snd (channel_event_loop hal is f s))) = nrf_gpio_port_in_read hal p (hw s)"
  by (induction "is" arbitrary: f s) (simp_all add: assms Let_def)

lemma pulse_events:
  fixes b :: bool
  assumes at: "attached hal r s" and "pulse_ok hal r pulse"
  defines "R \<equiv> r (pulse b (hw s))"
  shows "event_pin hal R n \<longleftrightarrow> n = 32 * PS2_PORT + PS2_CLK_GPIO_PIN"
    and "cleared [0..<GPIOTE_CH_NUM hal] R = r (hw s)" and "\<not> pending R NRF_GPIOTE_EVENT_PORT"
proof -
  let ?n = "32 * PS2_PORT + PS2_CLK_GPIO_PIN" and ?R = "r (hw s)"
  have R: "R = ?R\<lparr>pending := \<lambda>e. pending ?R e \<or> (\<exists>i<GPIOTE_CH_NUM hal. e = EVENTS_IN i \<and>
      channel_on ?R ?n i \<and> ch_polarity ?R i \<noteq> NRF_GPIOTE_POLARITY_LOTOHI)\<rparr>"
    using assms(2) by (simp add: R_def pulse_ok_def)
  have inv: "gpiote_inv hal r s" and quiet: "quiet hal ?R"
    and w: "watched hal ?R ?n = Some NRF_GPIOTE_POLARITY_HITOLO"
    using at by (simp_all add: attached_def)
  obtain i where i: "i < GPIOTE_CH_NUM hal" "channel_on ?R ?n i" "ch_polarity ?R i = NRF_GPIOTE_POLARITY_HITOLO"
    using w by (auto simp: watched_iff [OF inv])
  have on: "channel_on R = channel_on ?R"
    by (simp add: R channel_on_def fun_eq_iff)
  show "event_pin hal R n \<longleftrightarrow> n = ?n"
    unfolding event_pin_def on using i quiet by (auto simp: R quiet_def channel_on_def)
  show "\<not> pending R NRF_GPIOTE_EVENT_PORT"
    using quiet by (simp add: R quiet_def)
  have "(pending R e \<and> \<not> (\<exists>i<GPIOTE_CH_NUM hal. e = EVENTS_IN i \<and> bit (inten ?R) i)) = pending ?R e" for e
    using quiet by (auto simp: R quiet_def channel_on_def)
  then show "cleared [0..<GPIOTE_CH_NUM hal] R = ?R"
    by (simp add: cleared_def R Bex_def)
qed

text \<open>Serving the interrupt is running the connector's handler, once, with the event cleared.\<close>

lemma event_handler_pulse:
  assumes hal: "hal_ok hal r" and at: "attached hal r s" and pulse: "pulse_ok hal r pulse"
  shows "\<exists>h. gpiote_event_handler hal (gpio_call hal) (s\<lparr>hw := pulse b (hw s)\<rparr>) = clk_fall_cb hal (s\<lparr>hw := h\<rparr>) \<and>
     r h = r (hw s) \<and> bit (nrf_gpio_port_in_read hal PS2_PORT h) PS2_DATA_GPIO_PIN = b"
proof -
  let ?s = "s\<lparr>hw := pulse b (hw s)\<rparr>"
  let ?m = "event_mask hal (r (pulse b (hw s)))"
  note ev = pulse_events [OF at pulse, of b]
  have m: "bit (?m p) k \<longleftrightarrow> p = 0 \<and> k = PS2_CLK_GPIO_PIN" for p k
    by (auto simp: bit_event_mask ev(1)) presburger
  have "interested ?s 0 (?m 0) = [clk_fall_cb_data]"
    using at by (simp add: interested_def attached_def BIT_and_eq_0 m)
  moreover have "?m 1 = 0"
    by (rule bit_word_eqI) (simp add: m)
  then have "interested ?s 1 (?m 1) = []"
    by (simp add: interested_def)
  moreover obtain s1 where s1: "s1 = snd (channel_event_loop hal [0..<GPIOTE_CH_NUM hal] (\<lambda>_. 0) ?s)"
      "?s\<lparr>hw := hw s1\<rparr> = s1" "r (hw s1) = cleared [0..<GPIOTE_CH_NUM hal] (r (hw ?s))"
      "gpiote_event_handler hal (gpio_call hal) ?s =
        notify_all (gpio_call hal) (callback_at ?s) 1 (?m 1) (interested ?s 1 (?m 1))
          (notify_all (gpio_call hal) (callback_at ?s) 0 (?m 0) (interested ?s 0 (?m 0)) s1)"
    using events_dispatched [OF hal _ registry_kept_call, of ?s] ev(3) by (auto simp: Let_def)
  moreover have "bit (nrf_gpio_port_in_read hal PS2_PORT (hw s1)) PS2_DATA_GPIO_PIN = b"
    using pulse by (simp add: s1(1) pulse_ok_def channel_event_loop_in)
  ultimately have "gpiote_event_handler hal (gpio_call hal) ?s = clk_fall_cb hal (s\<lparr>hw := hw s1\<rparr>) \<and>
      r (hw s1) = r (hw s) \<and> bit (nrf_gpio_port_in_read hal PS2_PORT (hw s1)) PS2_DATA_GPIO_PIN = b"
    using at ev(2) by (simp add: notify_all_def attached_def gpio_call_def)
  then show ?thesis by blast
qed

lemma attached_rx_bit [simp]: "attached hal r (rx_bit b s) = attached hal r s"
proof -
  have "gpiote_inv hal r (rx_bit b s) = gpiote_inv hal r s"
    by (simp add: rx_bit_def gpiote_inv_def k_msgq_put_rx_def split: prod.splits)
  then show ?thesis
    by (simp add: attached_def rx_bit_def)
qed

lemma isr_edge:
  assumes "hal_ok hal r" and "attached hal r s" and "receiving s" and "pulse_ok hal r pulse"
  shows "\<exists>h s'. s' = rx_bit b (s\<lparr>kern := (kern s)\<lparr>in_isr := True\<rparr>, hw := h\<rparr>) \<and> attached hal r s' \<and>
     gpiote_isr hal (s\<lparr>hw := pulse b (hw s)\<rparr>) = s'\<lparr>kern := (kern s')\<lparr>in_isr := False, current := cache (kern s')\<rparr>\<rparr>"
proof -
  let ?s = "s\<lparr>kern := (kern s)\<lparr>in_isr := True\<rparr>\<rparr>"
  have "attached hal r ?s" "receiving ?s"
    using assms(2,3) by (simp_all add: attached_def gpiote_inv_def receiving_def)
  then obtain h where h: "gpiote_event_handler hal (gpio_call hal) (?s\<lparr>hw := pulse b (hw ?s)\<rparr>) =
      clk_fall_cb hal (?s\<lparr>hw := h\<rparr>)" "r h = r (hw s)"
      "bit (nrf_gpio_port_in_read hal PS2_PORT h) PS2_DATA_GPIO_PIN = b"
    using event_handler_pulse [OF assms(1) _ assms(4), of ?s b] by auto
  define s' where "s' = rx_bit b (s\<lparr>kern := (kern s)\<lparr>in_isr := True\<rparr>, hw := h\<rparr>)"
  have run: "clk_fall_cb hal (?s\<lparr>hw := h\<rparr>) = s'"
    using h(3) assms(3) by (subst clk_fall_receiving [of hal _ b]) (simp_all add: receiving_def s'_def)
  have "s\<lparr>hw := pulse b (hw s), kern := (kern s)\<lparr>in_isr := True\<rparr>\<rparr> = ?s\<lparr>hw := pulse b (hw ?s)\<rparr>"
    by (cases s) simp
  then have "gpiote_event_handler hal (gpio_call hal) (s\<lparr>hw := pulse b (hw s), kern := (kern s)\<lparr>in_isr := True\<rparr>\<rparr>) = s'"
    using h(1) run by argo
  then have "gpiote_isr hal (s\<lparr>hw := pulse b (hw s)\<rparr>) =
      s'\<lparr>kern := (kern s')\<lparr>in_isr := False, current := cache (kern s')\<rparr>\<rparr>"
    by (simp add: gpiote_isr_def Let_def)
  moreover have "attached hal r s'"
    unfolding s'_def attached_rx_bit using assms(2) h(2) by (simp add: attached_def gpiote_inv_def)
  ultimately show ?thesis
    unfolding s'_def by blast
qed
text \<open>
  C15: the interrupt service routine, from the event to the handler. When the connector is attached,
  a falling edge of the clock is served by one run of the receiver on the level of the data line, in
  interrupt context; the event is cleared and the connector stays attached. On return the processor
  runs the thread the scheduler chose.
\<close>

theorem clock_edge_served:
  assumes "hal_ok hal r" and "attached hal r s" and "receiving s" and "pulse_ok hal r pulse"
  shows "\<exists>h s'. s' = rx_bit b (s\<lparr>kern := (kern s)\<lparr>in_isr := True\<rparr>, hw := h\<rparr>) \<and> attached hal r s' \<and>
     gpiote_isr hal (s\<lparr>hw := pulse b (hw s)\<rparr>) = s'\<lparr>kern := (kern s')\<lparr>in_isr := False, current := cache (kern s')\<rparr>\<rparr>"
  using assms by (rule isr_edge)

definition chip_pulse :: "bool \<Rightarrow> chip \<Rightarrow> chip" where
  "chip_pulse b h = ((fst h)\<lparr>pending := \<lambda>e. pending (fst h) e \<or>
      (\<exists>i<8. e = EVENTS_IN i \<and> channel_on (fst h) PS2_CLK_GPIO_PIN i \<and>
         ch_polarity (fst h) i \<noteq> NRF_GPIOTE_POLARITY_LOTOHI)\<rparr>, \<lambda>_. if b then BIT PS2_DATA_GPIO_PIN else 0)"

lemma chip_pulse_ok: "pulse_ok chip_hal fst chip_pulse"
  by (simp add: pulse_ok_def chip_pulse_def chip_hal_def)

definition ready_connector :: "kernel \<Rightarrow> chip connector" where
  "ready_connector k = (idle_connector (reset_regs\<lparr>ch_pin := \<lambda>_. PS2_CLK_GPIO_PIN,
       ch_polarity := \<lambda>_. NRF_GPIOTE_POLARITY_HITOLO, inten := BIT 0\<rparr>, \<lambda>_. 0) k)
     \<lparr>gpiote_alloc_mask := BIT 0,
      port_data := \<lambda>_. \<lparr>invert = 0, callbacks = [clk_fall_cb_data], pin_int_en = BIT PS2_CLK_GPIO_PIN,
        int_active_level = 0, trig_edge = BIT PS2_CLK_GPIO_PIN, double_edge = 0\<rparr>,
      callback_at := \<lambda>_. \<lparr>handler = clk_fall_cb_addr, pin_mask = BIT PS2_CLK_GPIO_PIN\<rparr>\<rparr>"

lemma ready_connector_facts:
  "attached chip_hal fst (ready_connector k)" "receiving (ready_connector k)" "current_bit_no (ready_connector k) = 0"
  "rx_msg_que (ready_connector k) = rx_msg_que (idle_connector h k)" "kern (ready_connector k) = k"
proof -
  have "List.find P [0..<8] = Some 0" if "P 0" for P :: "nat \<Rightarrow> bool"
    using that by (simp add: upt_rec)
  then show "attached chip_hal fst (ready_connector k)"
    by (simp add: attached_def ready_connector_def idle_connector_def gpiote_inv_def quiet_def watched_def chip_channels
        channel_on_def reset_regs_def)
qed (simp_all add: ready_connector_def idle_connector_def receiving_def)

theorem clock_edge_served_witness:
  "current_bit_no (gpiote_isr chip_hal ((ready_connector sample_kernel)
     \<lparr>hw := chip_pulse False (hw (ready_connector sample_kernel))\<rparr>)) = 1"
  using clock_edge_served [OF chip_hal_ok ready_connector_facts(1,2) chip_pulse_ok, of False sample_kernel]
  by (auto simp: rx_bit_def ready_connector_facts)

end
