(* ===== verification/Ps2_Keyboard.thy ===== *)
theory Ps2_Keyboard
  imports Hid_Translator
begin

text \<open>
  The worker thread of \<open>ps2_keyboard.c\<close>: an endless loop that parses one key event and sleeps for a
  millisecond. \<open>ps2_keyboard_thread\<close> runs the loop on the scan codes that have arrived, up to the
  point where the thread blocks for the next one; every turn of the loop takes at least one code.
  The file also states what the scan codes of set 2 mean: \<open>kb_event\<close> is what a keyboard reports,
  \<open>scancodes\<close> its encoding, \<open>effect\<close> what it does to the report.
\<close>

lemma parse_consumes:
  assumes "run ps2_hid_translator_parse_next_scancode cs s = (Done, rest, t)"
  shows "length rest < length cs"
proof (cases cs)
  case Nil
  with assms show ?thesis
    by (simp add: ps2_hid_translator_parse_next_scancode_def)
next
  case Cons
  with assms show ?thesis
    unfolding ps2_hid_translator_parse_next_scancode_def
    by (intro run_Get_code_consumes) (assumption, simp)
qed

function ps2_keyboard_thread :: "u8 list \<Rightarrow> app \<Rightarrow> app prog \<times> u8 list \<times> app" where
  "ps2_keyboard_thread cs s =
     (case run ps2_hid_translator_parse_next_scancode cs s of
        (Done, rest, t) \<Rightarrow> ps2_keyboard_thread rest t
      | r \<Rightarrow> r)"
  by pat_completeness auto
termination
  by (relation "measure (\<lambda>(cs, s). length cs)") (auto dest: parse_consumes [OF sym])

declare ps2_keyboard_thread.simps [simp del]

subsection \<open>What a keyboard sends\<close>

datatype kb_event =
    Key_make u8
  | Key_break u8
  | Ext_make u8
  | Ext_break u8
  | Prtsc_make
  | Prtsc_break
  | Pause

fun scancodes :: "kb_event \<Rightarrow> u8 list" where
  "scancodes (Key_make c) = [c]"
| "scancodes (Key_break c) = [0xF0, c]"
| "scancodes (Ext_make c) = [0xE0, c]"
| "scancodes (Ext_break c) = [0xE0, 0xF0, c]"
| "scancodes Prtsc_make = [0xE0, 0x12, 0xE0, 0x7C]"
| "scancodes Prtsc_break = [0xE0, 0xF0, 0x7C, 0xE0, 0xF0, 0x12]"
| "scancodes Pause = [0xE1, 0x14, 0x77, 0xE1, 0xF0, 0x14, 0xF0, 0x77]"

fun valid_event :: "kb_event \<Rightarrow> bool" where
  "valid_event (Key_make c) = (c \<notin> {0xE0, 0xE1, 0xF0, 0xFF})"
| "valid_event (Key_break c) = (c \<noteq> 0xFF)"
| "valid_event (Ext_make c) = (c \<notin> {0xF0, 0x12})"
| "valid_event (Ext_break c) = (c \<noteq> 0x7C)"
| "valid_event _ = True"

definition base_key :: "u8 \<Rightarrow> u8" where
  "base_key c = ps2_scan_code_to_usb_hid_key ! unat c"

fun effect :: "kb_event \<Rightarrow> app \<Rightarrow> app" where
  "effect (Key_make c) s =
     (if is_mod_code c then press_mod_key (base_key c) s else press_key (base_key c) s)"
| "effect (Key_break c) s =
     (if is_mod_code c then release_mod_key (base_key c) s else release_key (base_key c) s)"
| "effect (Ext_make c) s =
     (if is_mod_key (ps2_extended_code_to_hid_key c)
      then press_mod_key (ps2_extended_code_to_hid_key c) s
      else press_key (ps2_extended_code_to_hid_key c) s)"
| "effect (Ext_break c) s =
     (if is_mod_key (ps2_extended_code_to_hid_key c)
      then release_mod_key (ps2_extended_code_to_hid_key c) s
      else release_key (ps2_extended_code_to_hid_key c) s)"
| "effect Prtsc_make s = press_key KEY_SYSRQ s"
| "effect Prtsc_break s = release_key KEY_SYSRQ s"
| "effect Pause s = release_key KEY_PAUSE (press_key KEY_PAUSE s)"

subsection \<open>The parser decodes every event\<close>

lemma scan_code_key_base: "c \<noteq> 0xFF \<Longrightarrow> scan_code_key c = Some (base_key c)"
  by (simp add: scan_code_key_Some base_key_def)

lemma is_mod_code_not_prefix:
  "is_mod_code c \<Longrightarrow> c \<notin> {0xE0, 0xE1, 0xF0, 0xFF}"
  by (auto simp: is_mod_code_def)

lemma parse_event:
  assumes "valid_event e"
  shows "run ps2_hid_translator_parse_next_scancode (scancodes e @ cs) s = (Done, cs, effect e s)"
proof (cases e)
  case (Key_make c)
  with assms show ?thesis
    by (auto simp: ps2_hid_translator_parse_next_scancode_def scan_code_key_base)
next
  case (Key_break c)
  with assms show ?thesis
    by (auto simp: ps2_hid_translator_parse_next_scancode_def parse_break_def scan_code_key_base
        is_mod_code_def)
next
  case (Ext_make c)
  with assms show ?thesis
    by (auto simp: ps2_hid_translator_parse_next_scancode_def parse_extended_def sys_req_make_def
        is_mod_code_def Let_def)
next
  case (Ext_break c)
  with assms show ?thesis
    by (auto simp: ps2_hid_translator_parse_next_scancode_def parse_extended_def sys_req_break_def
        is_mod_code_def Let_def)
qed (simp_all add: ps2_hid_translator_parse_next_scancode_def parse_extended_def sys_req_make_def
    sys_req_break_def is_mod_code_def pause_break_code_def press_pause_break_def)

lemma thread_event:
  "valid_event e \<Longrightarrow> ps2_keyboard_thread (scancodes e @ cs) s = ps2_keyboard_thread cs (effect e s)"
  by (subst ps2_keyboard_thread.simps) (simp add: parse_event)

lemma thread_events:
  "list_all valid_event es \<Longrightarrow>
   ps2_keyboard_thread (concat (map scancodes es) @ cs) s = ps2_keyboard_thread cs (fold effect es s)"
  by (induction es arbitrary: s) (simp_all add: thread_event)

lemma thread_waits: "ps2_keyboard_thread [] s = (ps2_hid_translator_parse_next_scancode, [], s)"
  by (subst ps2_keyboard_thread.simps) (simp add: ps2_hid_translator_parse_next_scancode_def)

text \<open>
  C3: the keyboard thread decodes every sequence of key events a keyboard can send. On their scan
  codes it makes exactly the updates of the events, in order, loses and invents nothing, and ends
  at the start of the parser, waiting for the next event.
\<close>

theorem keyboard_thread_decodes:
  assumes "list_all valid_event es"
  shows "ps2_keyboard_thread (concat (map scancodes es)) s =
           (ps2_hid_translator_parse_next_scancode, [], fold effect es s)"
  using thread_events [OF assms, of "[]"] by (simp add: thread_waits)

theorem keyboard_thread_decodes_witness:
  "ps2_keyboard_thread [0x1C, 0xF0, 0x1C, 0xE0, 0x75, 0xE0, 0xF0, 0x75] sample_app =
     (ps2_hid_translator_parse_next_scancode, [],
      release_key KEY_UP (press_key KEY_UP (release_key KEY_A (press_key KEY_A sample_app))))"
  using keyboard_thread_decodes [of "[Key_make 0x1C, Key_break 0x1C, Ext_make 0x75, Ext_break 0x75]" sample_app]
  by (simp add: is_mod_code_def is_mod_key_def ps2_extended_code_to_hid_key_def base_key_def
      ps2_scan_code_to_usb_hid_key_def)

subsection \<open>Every input, valid or not\<close>

text \<open>
  The invariant of the application: the report is well formed and the HID service is. \<open>in_sync\<close>
  says that the report the service holds for its peers is the translator's.
\<close>

definition app_inv :: "app \<Rightarrow> bool" where
  "app_inv s \<longleftrightarrow> report_inv (key_report s) \<and> hog_inv (hog_of s)"

definition in_sync :: "app \<Rightarrow> bool" where
  "in_sync s \<longleftrightarrow> input_keyboard (hog_of s) = key_report s"

lemma app_inv_ops:
  "app_inv s \<Longrightarrow> app_inv (press_key k s)"
  "app_inv s \<Longrightarrow> app_inv (release_key k s)"
  "app_inv s \<Longrightarrow> app_inv (press_mod_key m s)"
  "app_inv s \<Longrightarrow> app_inv (release_mod_key m s)"
  by (auto simp: app_inv_def report_inv_press_key report_inv_release_key)
     (auto simp: press_key_def release_key_def press_mod_key_def release_mod_key_def Let_def
       split: option.splits)

lemma in_sync_ops:
  "in_sync s \<Longrightarrow> in_sync (press_key k s)"
  "in_sync s \<Longrightarrow> in_sync (release_key k s)"
  "in_sync (press_mod_key m s)"
  "in_sync (release_mod_key m s)"
  by (simp_all add: in_sync_def press_key_def release_key_def press_mod_key_def
      release_mod_key_def Let_def split: option.splits)

lemma keeps_expect_codes: "keeps I p \<Longrightarrow> keeps I (expect_codes xs p)"
  by (induction xs) auto

lemma parse_keeps: "keeps app_inv ps2_hid_translator_parse_next_scancode"
  by (auto simp: ps2_hid_translator_parse_next_scancode_def parse_extended_def parse_break_def
      press_pause_break_def Let_def app_inv_ops intro!: keeps_expect_codes split: option.splits)

lemma parse_keeps_sync: "keeps in_sync ps2_hid_translator_parse_next_scancode"
  by (auto simp: ps2_hid_translator_parse_next_scancode_def parse_extended_def parse_break_def
      press_pause_break_def Let_def in_sync_ops intro!: keeps_expect_codes split: option.splits)

lemma thread_keeps:
  assumes I: "keeps I ps2_hid_translator_parse_next_scancode"
  shows "ps2_keyboard_thread cs s = (q, rest, t) \<Longrightarrow> I s \<Longrightarrow> I t"
proof (induction cs s rule: ps2_keyboard_thread.induct)
  case (1 cs s)
  obtain q' rest' t' where r: "run ps2_hid_translator_parse_next_scancode cs s = (q', rest', t')"
    by (cases "run ps2_hid_translator_parse_next_scancode cs s") auto
  have "I t'"
    using run_keeps [OF r I] 1(3) by blast
  with r 1 show ?case
    by (cases q') (auto simp: ps2_keyboard_thread.simps [of cs s])
qed

lemma faultless_expect_codes: "faultless C p \<Longrightarrow> faultless C (expect_codes xs p)"
  by (induction xs) auto

lemma parse_faultless: "faultless {c. c \<noteq> 0xFF} ps2_hid_translator_parse_next_scancode"
  by (auto simp: ps2_hid_translator_parse_next_scancode_def parse_extended_def parse_break_def
      press_pause_break_def Let_def scan_code_key_base intro!: faultless_expect_codes)

lemma thread_result:
  assumes "ps2_keyboard_thread cs s = (q, rest, t)"
  shows "q \<noteq> Done \<and> (0xFF \<notin> set cs \<longrightarrow> rest = [] \<and> q \<noteq> Fault)"
  using assms
proof (induction cs s rule: ps2_keyboard_thread.induct)
  case (1 cs s)
  obtain q' rest' t' where r: "run ps2_hid_translator_parse_next_scancode cs s = (q', rest', t')"
    by (cases "run ps2_hid_translator_parse_next_scancode cs s") auto
  have sub: "set rest' \<subseteq> set cs"
    using run_suffix [OF r] by auto
  show ?case
  proof (cases "q' = Done")
    case True
    with r 1 have "q \<noteq> Done \<and> 
        (0xFF \<notin> set rest' \<longrightarrow> rest = [] \<and> q \<noteq> Fault)"
      by (simp add: ps2_keyboard_thread.simps [of cs s])
    with sub show ?thesis by blast
  next
    case False
    with r 1(2) have eq: "(q, rest, t) = (q', rest', t')"
      by (simp add: ps2_keyboard_thread.simps [of cs s] split: prog.splits)
    have "faultless {c. c \<noteq> 0xFF} q'" if "0xFF \<notin> set cs"
      using that by (intro run_faultless [OF r parse_faultless]) auto
    then have "0xFF \<notin> set cs \<longrightarrow> q' \<noteq> Fault"
      by auto
    with eq False run_leftover [OF r] show ?thesis by auto
  qed
qed

text \<open>
  C18: whatever bytes arrive, well-formed or not, the keyboard thread handles them all and keeps the
  invariant of the application; it can only fault when the byte 0xFF is among them, for which the
  scan code table has no entry.
\<close>

theorem keyboard_thread_safe:
  assumes "app_inv s" and "0xFF \<notin> set cs"
  shows "\<exists>k t. ps2_keyboard_thread cs s = (k, [], t) \<and> app_inv t \<and> k \<noteq> Done \<and> k \<noteq> Fault"
  using assms thread_result [of cs s] thread_keeps [OF parse_keeps, of cs s]
  by (cases "ps2_keyboard_thread cs s") auto

theorem keyboard_thread_safe_witness:
  "\<exists>k t. ps2_keyboard_thread [0x1C, 0xE0, 0xF0]
       \<lparr>key_report = empty_report, hog_of = boot_hog []\<rparr> = (k, [], t) \<and>
     app_inv t \<and> k \<noteq> Done \<and> k \<noteq> Fault"
  by (rule keyboard_thread_safe) (simp_all add: app_inv_def)

subsection \<open>The report tracks the keys that are down\<close>

text \<open>
  The abstract keyboard: the set of keys that are down and the modifier byte. \<open>Pause\<close> has no break
  code, so it is pressed and released at once. \<open>peak\<close> is the set of keys that are down while the
  event is handled.
\<close>

fun event_key :: "kb_event \<Rightarrow> u8" where
  "event_key (Key_make c) = (if is_mod_code c then 0 else base_key c)"
| "event_key (Key_break c) = (if is_mod_code c then 0 else base_key c)"
| "event_key (Ext_make c) =
     (if is_mod_key (ps2_extended_code_to_hid_key c) then 0 else ps2_extended_code_to_hid_key c)"
| "event_key (Ext_break c) =
     (if is_mod_key (ps2_extended_code_to_hid_key c) then 0 else ps2_extended_code_to_hid_key c)"
| "event_key Prtsc_make = KEY_SYSRQ"
| "event_key Prtsc_break = KEY_SYSRQ"
| "event_key Pause = KEY_PAUSE"

fun makes :: "kb_event \<Rightarrow> bool" where
  "makes (Key_make c) = True"
| "makes (Ext_make c) = True"
| "makes Prtsc_make = True"
| "makes Pause = True"
| "makes _ = False"

definition peak :: "kb_event \<Rightarrow> u8 set \<Rightarrow> u8 set" where
  "peak e H = (if makes e then insert (event_key e) H - {0} else H)"

definition keys_down :: "kb_event \<Rightarrow> u8 set \<Rightarrow> u8 set" where
  "keys_down e H =
     (if makes e \<and> e \<noteq> Pause then insert (event_key e) H - {0} else H - {event_key e})"

fun six_keys :: "kb_event list \<Rightarrow> u8 set \<Rightarrow> bool" where
  "six_keys [] H = True"
| "six_keys (e # es) H = (card (peak e H) \<le> 6 \<and> six_keys es (keys_down e H))"

lemma pressed_mod_keys [simp]:
  "pressed (key_report (press_mod_key m s)) = pressed (key_report s)"
  "pressed (key_report (release_mod_key m s)) = pressed (key_report s)"
  by (simp_all add: press_mod_key_def release_mod_key_def pressed_def)

lemma finite_pressed [simp]: "finite (pressed r)"
  by (simp add: pressed_def)

lemma zero_not_pressed [simp]: "0 \<notin> pressed r"
  by (simp add: pressed_def)

lemma pressed_press_room:
  assumes "report_inv (key_report s)" and "card (insert k (pressed (key_report s)) - {0}) \<le> 6"
  shows "pressed (key_report (press_key k s)) = insert k (pressed (key_report s)) - {0}"
proof (cases "k = 0 \<or> k \<in> pressed (key_report s)")
  case True
  with assms show ?thesis by (auto simp: pressed_press_key)
next
  case False
  then have "insert k (pressed (key_report s)) - {0} = insert k (pressed (key_report s))"
    by auto
  with assms False have "card (pressed (key_report s)) < 6"
    by (simp add: card_insert_if)
  with assms(1) False show ?thesis
    by (auto simp: pressed_press_key)
qed

lemma effect_tracks:
  assumes "report_inv (key_report s)" and "card (peak e (pressed (key_report s))) \<le> 6"
  shows "pressed (key_report (effect e s)) = keys_down e (pressed (key_report s))"
  using assms
  by (cases e) (auto simp: keys_down_def peak_def pressed_press_room pressed_release_key
      report_inv_press_key)

lemma report_inv_effect: "report_inv (key_report s) \<Longrightarrow> report_inv (key_report (effect e s))"
  by (cases e) (simp_all add: report_inv_press_key report_inv_release_key)

lemma effects_track:
  "report_inv (key_report s) \<Longrightarrow> six_keys es (pressed (key_report s)) \<Longrightarrow>
   pressed (key_report (fold effect es s)) = fold keys_down es (pressed (key_report s))"
  by (induction es arbitrary: s) (simp_all add: effect_tracks report_inv_effect)

text \<open>
  C4: as long as at most six keys are down at a time, the report the service publishes contains
  exactly the keys that are down. For every sequence of key events the set of keys in the report is
  the set the abstract keyboard computes from the make and break events.
\<close>

theorem report_tracks_keys:
  assumes "report_inv (key_report s)" and "in_sync s" and "list_all valid_event es"
    and "six_keys es (pressed (key_report s))"
  shows "pressed (input_keyboard (hog_of (snd (snd
           (ps2_keyboard_thread (concat (map scancodes es)) s))))) =
         fold keys_down es (pressed (key_report s))"
proof -
  have t: "ps2_keyboard_thread (concat (map scancodes es)) s =
      (ps2_hid_translator_parse_next_scancode, [], fold effect es s)"
    using thread_events [OF assms(3), of "[]" s] by (simp add: thread_waits)
  then have "in_sync (fold effect es s)"
    using assms(2) by (rule thread_keeps [OF parse_keeps_sync])
  with t assms(1,4) show ?thesis
    by (simp add: effects_track in_sync_def)
qed

theorem report_tracks_keys_witness:
  "pressed (input_keyboard (hog_of (snd (snd
     (ps2_keyboard_thread
       (concat (map scancodes [Key_make 0x1C, Ext_make 0x75, Key_break 0x1C]))
       \<lparr>key_report = empty_report, hog_of = boot_hog []\<rparr>))))) = {KEY_UP}"
  by (subst report_tracks_keys)
     (auto simp: in_sync_def base_key_def ps2_scan_code_to_usb_hid_key_def
       ps2_extended_code_to_hid_key_def is_mod_code_def is_mod_key_def keys_down_def peak_def
       card_insert_if pressed_def empty_report_def report_inv_def)

text \<open>The modifier byte, for the modifiers that have a code of their own in the base set.\<close>

fun mods_down :: "kb_event \<Rightarrow> u8 \<Rightarrow> u8" where
  "mods_down (Key_make c) m = (if is_mod_code c then m OR base_key c else m)"
| "mods_down (Key_break c) m = (if is_mod_code c then m AND NOT (base_key c) else m)"
| "mods_down _ m = m"

fun base_modifiers :: "kb_event \<Rightarrow> bool" where
  "base_modifiers (Ext_make c) = (\<not> is_mod_key (ps2_extended_code_to_hid_key c))"
| "base_modifiers (Ext_break c) = (\<not> is_mod_key (ps2_extended_code_to_hid_key c))"
| "base_modifiers _ = True"

lemma modifier_keys [simp]:
  "modifier (key_report (press_key k s)) = modifier (key_report s)"
  "modifier (key_report (release_key k s)) = modifier (key_report s)"
  by (simp_all add: press_key_def release_key_def Let_def split: option.splits)

lemma modifier_mod_keys [simp]:
  "modifier (key_report (press_mod_key m s)) = modifier (key_report s) OR m"
  "modifier (key_report (release_mod_key m s)) = modifier (key_report s) AND NOT m"
  by (simp_all add: press_mod_key_def release_mod_key_def)

lemma effects_modifier:
  "list_all base_modifiers es \<Longrightarrow>
   modifier (key_report (fold effect es s)) = fold mods_down es (modifier (key_report s))"
proof (induction es arbitrary: s)
  case (Cons e es)
  then have "modifier (key_report (effect e s)) = mods_down e (modifier (key_report s))"
    by (cases e) simp_all
  with Cons show ?case by simp
qed simp

lemma base_modifier_masks:
  "base_key 0x14 = KEY_MOD_LCTRL" "base_key 0x12 = KEY_MOD_LSHIFT"
  "base_key 0x11 = KEY_MOD_LALT" "base_key 0x59 = KEY_MOD_RSHIFT"
  by (simp_all add: base_key_def ps2_scan_code_to_usb_hid_key_def)

fun last_event :: "u8 \<Rightarrow> bool \<Rightarrow> kb_event list \<Rightarrow> bool" where
  "last_event c b [] = b"
| "last_event c b (Key_make d # es) = last_event c (if d = c then True else b) es"
| "last_event c b (Key_break d # es) = last_event c (if d = c then False else b) es"
| "last_event c b (_ # es) = last_event c b es"

fun modifier_bit :: "u8 \<Rightarrow> nat option" where
  "modifier_bit c =
     (if c = 0x14 then Some 0 else if c = 0x12 then Some 1 else if c = 0x11 then Some 2
      else if c = 0x59 then Some 5 else None)"

lemma modifier_bit_own:
  "is_mod_code d \<Longrightarrow> modifier_bit c = Some n \<Longrightarrow> bit (base_key d) n \<longleftrightarrow> d = c"
  by (auto simp: is_mod_code_def base_modifier_masks bit_simps split: if_splits)

lemma modifier_bit_is_mod: "modifier_bit c = Some n \<Longrightarrow> is_mod_code c"
  by (auto simp: is_mod_code_def split: if_splits)

lemma modifier_bit_width: "modifier_bit c = Some n \<Longrightarrow> n < 8"
  by (auto split: if_splits)

lemma bit_mods_down:
  assumes "modifier_bit c = Some n"
  shows "bit (fold mods_down es m) n = last_event c (bit m n) es"
proof (induction es arbitrary: m)
  case (Cons e es)
  have "bit (mods_down e m) n = last_event c (bit m n) [e]"
    using assms modifier_bit_is_mod [OF assms] modifier_bit_width [OF assms]
    by (cases e) (auto simp: bit_or_iff bit_and_iff bit_not_iff modifier_bit_own)
  with Cons show ?case by (cases e) auto
qed simp

text \<open>
  Left control, left shift, left alt and right shift each own one bit of the modifier byte. For
  every sequence of events without the modifiers of the extended set, the bit of each of the four is
  set exactly when its last event was a make (or, without an event, when it was set before).
\<close>

lemma modifier_bits_track:
  assumes "list_all valid_event es" and "list_all base_modifiers es"
    and "modifier_bit c = Some n"
  shows "bit (modifier (key_report (snd (snd
           (ps2_keyboard_thread (concat (map scancodes es)) s))))) n =
         last_event c (bit (modifier (key_report s)) n) es"
  using assms thread_events [of es "[]" s]
  by (simp add: thread_waits effects_modifier bit_mods_down del: modifier_bit.simps)


end
