(* ===== verification/Adapter.thy ===== *)
theory Adapter
  imports Ps2_Init Ps2_Keyboard "HOL-Library.Sublist"
begin

text \<open>
  The adapter: clock interrupts, the keyboard thread and the kernel between them. A state has the
  connector with the kernel, the code the keyboard thread still has to run, whether it is inside
  \<open>k_msgq_get\<close>, and the application state. The steps are interleaved freely: an interrupt may come
  between any two steps of the thread, and the other threads may move the kernel at any time as long
  as they leave the message queue's waiters alone.
\<close>

subsection \<open>The keyboard thread, resumed in the middle\<close>

definition keyboard_from :: "app prog \<Rightarrow> u8 list \<Rightarrow> app \<Rightarrow> app prog \<times> u8 list \<times> app" where
  "keyboard_from p cs t = (case run p cs t of (Done, rest, u) \<Rightarrow> ps2_keyboard_thread rest u | x \<Rightarrow> x)"

lemma keyboard_thread_from: "ps2_keyboard_thread = keyboard_from ps2_hid_translator_parse_next_scancode"
  by (intro ext) (subst ps2_keyboard_thread.simps, simp add: keyboard_from_def)

lemma thread_append:
  "ps2_keyboard_thread cs s = (q, [], t) \<Longrightarrow> ps2_keyboard_thread (cs @ ds) s = keyboard_from q ds t"
proof (induction cs s rule: ps2_keyboard_thread.induct)
  case (1 cs s)
  obtain q' rest u where r: "run ps2_hid_translator_parse_next_scancode cs s = (q', rest, u)"
    by (cases "run ps2_hid_translator_parse_next_scancode cs s") auto
  note app = run_append [OF r, of ds]
  show ?case
  proof (cases "q' = Done")
    case True
    with r 1(2) have "ps2_keyboard_thread rest u = (q, [], t)"
      by (subst (asm) ps2_keyboard_thread.simps) simp
    moreover have "run ps2_hid_translator_parse_next_scancode (cs @ ds) s = (Done, rest @ ds, u)"
      using app True by auto
    ultimately show ?thesis
      using 1(1) [OF r [symmetric] True] True by (subst ps2_keyboard_thread.simps) simp
  next
    case False
    with r 1(2) have "q' = q \<and> rest = [] \<and> u = t"
      by (simp add: ps2_keyboard_thread.simps [of cs s] split: prog.splits)
    with app show ?thesis
      by (subst ps2_keyboard_thread.simps) (simp add: keyboard_from_def)
  qed
qed

lemma keyboard_from_code: "keyboard_from (Get_code f) [c] t = keyboard_from (f c) [] t"
  by (simp add: keyboard_from_def)

lemma keyboard_from_rest: "keyboard_from p [] t = (q, rest, u) \<Longrightarrow> rest = []"
proof -
  assume *: "keyboard_from p [] t = (q, rest, u)"
  obtain q' rest' u' where r: "run p [] t = (q', rest', u')"
    by (cases "run p [] t") auto
  have "rest' = []"
    using run_suffix [OF r] by simp
  with * r show ?thesis
    by (cases q') (simp_all add: keyboard_from_def thread_waits)
qed

subsection \<open>Bits of a stream of frames\<close>

lemma length_frame [simp]: "length (frame b) = 11"
  by (simp add: frame_def)

lemma length_frames [simp]: "length (concat (map frame cs)) = 11 * length cs"
  by (induction cs) simp_all

lemma nth_frames: "j < 11 * length cs \<Longrightarrow> concat (map frame cs) ! j = frame (cs ! (j div 11)) ! (j mod 11)"
proof (induction cs arbitrary: j)
  case (Cons c cs)
  then show ?case
    by (cases "j < 11") (simp_all add: nth_append le_div_geq le_mod_geq)
qed simp

text \<open>The data the connector has shifted in after \<open>n\<close> bits of the frame of \<open>c\<close>.\<close>

definition partial_data :: "u8 \<Rightarrow> nat \<Rightarrow> u8 \<Rightarrow> u8" where
  "partial_data c n i = fold shift_in (take (min n 9) (frame c)) i"

lemma partial_data_0 [simp]: "partial_data c 0 i = i"
  by (simp add: partial_data_def)

lemma partial_data_full: "9 \<le> n \<Longrightarrow> partial_data c n i = reverse c"
  by (simp add: partial_data_def frame_def min_def)

lemma partial_data_Suc: "n < 9 \<Longrightarrow> partial_data c (Suc n) i = shift_in (frame c ! n) (partial_data c n i)"
  by (simp add: partial_data_def min_def take_Suc_conv_app_nth)

lemma rx_bit_frame:
  assumes "current_bit_no s = int n" and "incoming_data s = partial_data c n i"
  shows "n < 10 \<Longrightarrow> rx_bit (frame c ! n) s =
      s\<lparr>incoming_data := partial_data c (Suc n) i, current_bit_no := int (Suc n)\<rparr>"
    and "n = 10 \<Longrightarrow> rx_bit (frame c ! n) s = (k_msgq_put_rx s)\<lparr>current_bit_no := 0\<rparr>"
proof -
  have p: "frame c ! 0 = False" "frame c ! 9 = (\<not> odd_parity_check c)" "frame c ! 10 = True"
    by (simp_all add: frame_def nth_append nth_Cons')
  show "n = 10 \<Longrightarrow> rx_bit (frame c ! n) s = (k_msgq_put_rx s)\<lparr>current_bit_no := 0\<rparr>"
    using assms by (simp add: rx_bit_def p)
  assume "n < 10"
  show "rx_bit (frame c ! n) s = s\<lparr>incoming_data := partial_data c (Suc n) i, current_bit_no := int (Suc n)\<rparr>"
  proof (cases "n = 9")
    case True
    then show ?thesis
      using assms by (simp add: rx_bit_def p partial_data_full) 
  next
    case False
    then show ?thesis
      using assms p(1) \<open>n < 10\<close> by (auto simp: rx_bit_def partial_data_Suc)
  qed
qed

subsection \<open>Steps\<close>

record 'h adapter =
  conn :: "'h connector"
  worker :: "app prog"
  waiting :: bool
  appl :: app

text \<open>What the other threads, the timer interrupt and the keyboard thread's own sleeping do to the kernel.\<close>

definition kernel_rely :: "tid \<Rightarrow> wqid \<Rightarrow> kernel \<Rightarrow> kernel \<Rightarrow> bool" where
  "kernel_rely W w k k' \<longleftrightarrow> sched_ok k' \<and> \<not> in_isr k' \<and> waitqs k' w = waitqs k w \<and>
     swap_data (thrd k' W) = swap_data (thrd k W)"

text \<open>The queue has room for the code whose last bit comes.\<close>

definition room :: "'h connector \<Rightarrow> bool" where
  "room s \<longleftrightarrow> (current_bit_no s = 10 \<longrightarrow> used_msgs (rx_msg_que s) < max_msgs (rx_msg_que s))"

inductive adapter_step ::
    "'h hal \<Rightarrow> (bool \<Rightarrow> 'h \<Rightarrow> 'h) \<Rightarrow> tid \<Rightarrow> bool list \<Rightarrow> 'h adapter \<Rightarrow> 'h adapter \<Rightarrow> bool" for hal pulse W where
  Clock: "room (conn a) \<Longrightarrow>
    adapter_step hal pulse W [b] a (a\<lparr>conn := gpiote_isr hal ((conn a)\<lparr>hw := pulse b (hw (conn a))\<rparr>)\<rparr>)"
| Take: "current (kern (conn a)) = W \<Longrightarrow> running (kern (conn a)) \<Longrightarrow> \<not> waiting a \<Longrightarrow> worker a = Get_code f \<Longrightarrow>
    ps2_connector_get_next_code (conn a) = (Some c, s') \<Longrightarrow> keyboard_from (f c) [] (appl a) = (p, rest, t) \<Longrightarrow>
    adapter_step hal pulse W [] a (a\<lparr>conn := s', worker := p, appl := t\<rparr>)"
| Block: "current (kern (conn a)) = W \<Longrightarrow> running (kern (conn a)) \<Longrightarrow> \<not> waiting a \<Longrightarrow> worker a = Get_code f \<Longrightarrow>
    ps2_connector_get_next_code (conn a) = (None, s') \<Longrightarrow>
    adapter_step hal pulse W [] a (a\<lparr>conn := s', waiting := True\<rparr>)"
| Resume: "current (kern (conn a)) = W \<Longrightarrow> running (kern (conn a)) \<Longrightarrow> waiting a \<Longrightarrow> worker a = Get_code f \<Longrightarrow>
    keyboard_from (f (resumed_code W (conn a))) [] (appl a) = (p, rest, t) \<Longrightarrow>
    adapter_step hal pulse W [] a (a\<lparr>waiting := False, worker := p, appl := t\<rparr>)"
| Others: "kernel_rely W (mq_wait_q (rx_msg_que (conn a))) (kern (conn a)) k \<Longrightarrow>
    adapter_step hal pulse W [] a (a\<lparr>conn := (conn a)\<lparr>kern := k\<rparr>\<rparr>)"

inductive_cases adapter_stepE: "adapter_step hal pulse W bs a a'"

inductive adapter_run ::
    "'h hal \<Rightarrow> (bool \<Rightarrow> 'h \<Rightarrow> 'h) \<Rightarrow> tid \<Rightarrow> bool list \<Rightarrow> 'h adapter \<Rightarrow> 'h adapter \<Rightarrow> bool" for hal pulse W where
  Start: "adapter_run hal pulse W [] a a"
| Step: "adapter_run hal pulse W bs a a' \<Longrightarrow> adapter_step hal pulse W cs a' a'' \<Longrightarrow>
    adapter_run hal pulse W (bs @ cs) a a''"

subsection \<open>Codes in flight\<close>

text \<open>
  Between the interrupt and the thread a code is either handed over to the thread that waits, or in
  the queue.
\<close>

definition woken :: "tid \<Rightarrow> 'h adapter \<Rightarrow> bool" where
  "woken W a \<longleftrightarrow> waiting a \<and> waitqs (kern (conn a)) (mq_wait_q (rx_msg_que (conn a))) = []"

definition in_flight :: "tid \<Rightarrow> 'h adapter \<Rightarrow> u8 list" where
  "in_flight W a = (if woken W a then [resumed_code W (conn a)] else []) @
     map (\<lambda>d. reverse (hd d)) (messages (rx_msg_que (conn a)))"

definition link_inv :: "'h hal \<Rightarrow> ('h \<Rightarrow> nrf_regs) \<Rightarrow> tid \<Rightarrow> 'h adapter \<Rightarrow> bool" where
  "link_inv hal r W a \<longleftrightarrow>
     (let s = conn a; q = rx_msg_que s; k = kern s
      in attached hal r s \<and> receiving s \<and> sched_ok k \<and> \<not> in_isr k \<and> ring_inv q \<and> msg_size q = 1 \<and>
         (waitqs k (mq_wait_q q) = [] \<or>
          waiting a \<and> waitqs k (mq_wait_q q) = [W] \<and> messages q = []))"

lemma link_inv_msgq: "link_inv hal r W a \<Longrightarrow> msgq_inv (rx_msg_que (conn a)) (kern (conn a))"
  by (auto simp: link_inv_def msgq_inv_def Let_def ring_inv_def messages_def)

lemma sched_ok_current: "sched_ok k \<Longrightarrow> sched_ok (k\<lparr>current := cache k\<rparr>)"
  by (auto simp: sched_ok_def cache_inv_def first_ready_def)

lemma sched_ok_isr_exit: "sched_ok k \<Longrightarrow> sched_ok (k\<lparr>in_isr := False, current := cache k\<rparr>)"
  using sched_ok_current [of "k\<lparr>in_isr := False\<rparr>"] by (simp add: sched_ok_isr)

text \<open>What a put from the interrupt handler does when at most the keyboard thread waits.\<close>

lemma put_outcome:
  assumes ok: "sched_ok k" and ring: "ring_inv q" and "msg_size q = 1" and room: "used_msgs q < max_msgs q"
    and wait: "waitqs k (mq_wait_q q) = [] \<or> waitqs k (mq_wait_q q) = [W] \<and> messages q = []"
    and put: "z_impl_k_msgq_put [d] K_NO_WAIT q k = (out, q', k')"
  shows "sched_ok k'" and "ring_inv q'" and "msg_size q' = 1" and "mq_wait_q q' = mq_wait_q q"
    and "waitqs k' (mq_wait_q q) = []"
    and "waitqs k (mq_wait_q q) = [] \<Longrightarrow> messages q' = messages q @ [[d]] \<and> k' = k"
    and "waitqs k (mq_wait_q q) \<noteq> [] \<Longrightarrow> q' = q \<and> swap_data (thrd k' W) = [d]"
proof -
  have inv: "msgq_inv q k"
    using ring wait room by (auto simp: msgq_inv_def messages_def)
  note put_inv = msgq_put_inv [OF ok inv _ _ put]
  then show "sched_ok k'" "ring_inv q'"
    using \<open>msg_size q = 1\<close> by (simp_all add: msgq_inv_def)
  have *: "msg_size q' = 1 \<and> mq_wait_q q' = mq_wait_q q \<and> waitqs k' (mq_wait_q q) = [] \<and>
      (waitqs k (mq_wait_q q) = [] \<longrightarrow> messages q' = messages q @ [[d]] \<and> k' = k) \<and>
      (waitqs k (mq_wait_q q) \<noteq> [] \<longrightarrow> q' = q \<and> swap_data (thrd k' W) = [d])"
  proof (cases "waitqs k (mq_wait_q q)")
    case Nil
    with put put_stores [OF room Nil, of "[d]" K_NO_WAIT] ring_write [OF ring room, of "[d]"] \<open>msg_size q = 1\<close>
    show ?thesis by auto
  next
    case (Cons t ts)
    then have t: "t = W" "ts = []" using wait by auto
    have "sched_inv k" using ok by (simp add: sched_ok_def)
    note u = unpended_fields [OF this Cons]
    have "q' = q" "k' = z_reschedule (wake W 0 (upd_thread W (\<lambda>x. x\<lparr>swap_data := [d]\<rparr>)
        (snd (z_unpend_first_thread (mq_wait_q q) k))))"
      using put put_hands_over [OF room Cons, of "[d]" K_NO_WAIT] t \<open>msg_size q = 1\<close> by auto
    with Cons t \<open>msg_size q = 1\<close> show ?thesis by (simp add: u)
  qed
  then show "msg_size q' = 1" "mq_wait_q q' = mq_wait_q q" "waitqs k' (mq_wait_q q) = []"
    "waitqs k (mq_wait_q q) = [] \<Longrightarrow> messages q' = messages q @ [[d]] \<and> k' = k"
    "waitqs k (mq_wait_q q) \<noteq> [] \<Longrightarrow> q' = q \<and> swap_data (thrd k' W) = [d]"
    by blast+
qed

lemma attached_kern [simp]:
  "attached hal r (s\<lparr>kern := k\<rparr>) = attached hal r s" "attached hal r (s\<lparr>rx_msg_que := q\<rparr>) = attached hal r s"
  "attached hal r (s\<lparr>current_bit_no := n\<rparr>) = attached hal r s"
  "receiving (s\<lparr>kern := k\<rparr>) = receiving s" "receiving (s\<lparr>rx_msg_que := q\<rparr>) = receiving s"
  "receiving (s\<lparr>current_bit_no := n\<rparr>) = receiving s"
  by (simp_all add: attached_def gpiote_inv_def receiving_def)

text \<open>An interrupt in the middle of a frame changes the shift register only.\<close>

lemma clock_mid_frame:
  assumes hal: "hal_ok hal r" and pulse: "pulse_ok hal r pulse" and inv: "link_inv hal r W a"
    and n: "current_bit_no (conn a) = int n" "incoming_data (conn a) = partial_data c n i" "n < 10"
  defines "s' \<equiv> gpiote_isr hal ((conn a)\<lparr>hw := pulse (frame c ! n) (hw (conn a))\<rparr>)"
  shows "link_inv hal r W (a\<lparr>conn := s'\<rparr>)" and "in_flight W (a\<lparr>conn := s'\<rparr>) = in_flight W a"
    and "current_bit_no s' = int (Suc n)" and "incoming_data s' = partial_data c (Suc n) i"
    and "kern s' = (kern (conn a))\<lparr>in_isr := False, current := cache (kern (conn a))\<rparr>"
    and "rx_msg_que s' = rx_msg_que (conn a)"
proof -
  let ?s = "conn a" and ?b = "frame c ! n"
  have a: "attached hal r ?s" "receiving ?s" "sched_ok (kern ?s)" "\<not> in_isr (kern ?s)"
    using inv by (simp_all add: link_inv_def Let_def)
  obtain h s1 where s1: "s1 = rx_bit ?b (?s\<lparr>kern := (kern ?s)\<lparr>in_isr := True\<rparr>, hw := h\<rparr>)" "attached hal r s1"
      "s' = s1\<lparr>kern := (kern s1)\<lparr>in_isr := False, current := cache (kern s1)\<rparr>\<rparr>"
    using isr_edge [OF hal a(1,2) pulse, of ?b] unfolding s'_def by blast
  have eq: "s1 = ?s\<lparr>kern := (kern ?s)\<lparr>in_isr := True\<rparr>, hw := h, incoming_data := partial_data c (Suc n) i,
      current_bit_no := int (Suc n)\<rparr>"
    unfolding s1(1) using n by (subst rx_bit_frame(1) [where n = n and c = c and i = i]) simp_all
  have k: "kern s' = (kern ?s)\<lparr>in_isr := False, current := cache (kern ?s)\<rparr>" "rx_msg_que s' = rx_msg_que ?s"
    by (simp_all add: s1(3) eq)
  have "sched_ok (kern s')"
    using sched_ok_isr_exit [OF a(3)] by (simp add: k)
  moreover have "receiving s1"
    unfolding s1(1) receiving_rx_bit using a(2) by simp
  then have "attached hal r s'" "receiving s'"
    using s1(2) by (simp_all add: s1(3))
  ultimately show "link_inv hal r W (a\<lparr>conn := s'\<rparr>)"
    using inv by (simp add: link_inv_def Let_def k)
  show "in_flight W (a\<lparr>conn := s'\<rparr>) = in_flight W a"
    by (simp add: in_flight_def woken_def resumed_code_def k)
  show "current_bit_no s' = int (Suc n)" "incoming_data s' = partial_data c (Suc n) i"
    "kern s' = (kern ?s)\<lparr>in_isr := False, current := cache (kern ?s)\<rparr>" "rx_msg_que s' = rx_msg_que ?s"
    by (simp_all add: s1(3) eq)
qed

text \<open>The interrupt of the stop bit puts the code in flight.\<close>

lemma clock_frame_end:
  assumes hal: "hal_ok hal r" and pulse: "pulse_ok hal r pulse" and inv: "link_inv hal r W a"
    and n: "current_bit_no (conn a) = 10" "incoming_data (conn a) = partial_data c 10 i" and room: "room (conn a)"
  defines "s' \<equiv> gpiote_isr hal ((conn a)\<lparr>hw := pulse (frame c ! 10) (hw (conn a))\<rparr>)"
  shows "link_inv hal r W (a\<lparr>conn := s'\<rparr>)" and "in_flight W (a\<lparr>conn := s'\<rparr>) = in_flight W a @ [c]"
    and "current_bit_no s' = 0"
    and "\<not> waiting a \<Longrightarrow> kern s' = (kern (conn a))\<lparr>in_isr := False, current := cache (kern (conn a))\<rparr>"
    and "max_msgs (rx_msg_que s') = max_msgs (rx_msg_que (conn a))"
proof -
  let ?s = "conn a" and ?b = "frame c ! 10"
  have a: "attached hal r ?s" "receiving ?s" "sched_ok (kern ?s)" "\<not> in_isr (kern ?s)" "ring_inv (rx_msg_que ?s)"
    "msg_size (rx_msg_que ?s) = 1"
    "waitqs (kern ?s) (mq_wait_q (rx_msg_que ?s)) = [] \<or> waiting a \<and>
       waitqs (kern ?s) (mq_wait_q (rx_msg_que ?s)) = [W] \<and> messages (rx_msg_que ?s) = []"
    using inv by (simp_all add: link_inv_def Let_def)
  obtain h s1 where s1: "s1 = rx_bit ?b (?s\<lparr>kern := (kern ?s)\<lparr>in_isr := True\<rparr>, hw := h\<rparr>)" "attached hal r s1"
      "s' = s1\<lparr>kern := (kern s1)\<lparr>in_isr := False, current := cache (kern s1)\<rparr>\<rparr>"
    using isr_edge [OF hal a(1,2) pulse, of ?b] unfolding s'_def by blast
  let ?k = "(kern ?s)\<lparr>in_isr := True\<rparr>" and ?q = "rx_msg_que ?s"
  obtain out q' k' where put: "z_impl_k_msgq_put [reverse c] K_NO_WAIT ?q ?k = (out, q', k')"
    by (cases "z_impl_k_msgq_put [reverse c] K_NO_WAIT ?q ?k")
  have eq: "s1 = ?s\<lparr>kern := ?k, hw := h\<rparr>\<lparr>rx_msg_que := q', kern := k', current_bit_no := 0\<rparr>"
    unfolding s1(1) using n put
    by (subst rx_bit_frame(2) [where n = 10 and c = c and i = i]) (simp_all add: k_msgq_put_rx_def partial_data_full)
  have "sched_ok ?k" "used_msgs ?q < max_msgs ?q"
    using a(3) room n(1) by (simp_all add: sched_ok_isr room_def)
  note o = put_outcome [OF this(1) a(5,6) this(2) _ put, of W]
  have k: "kern s' = k'\<lparr>in_isr := False, current := cache k'\<rparr>" "rx_msg_que s' = q'" "current_bit_no s' = 0"
    by (simp_all add: s1(3) eq)
  have "sched_ok (kern s')"
    using sched_ok_isr_exit o(1) a(7) by (auto simp: k)
  moreover have "receiving s1"
    unfolding s1(1) receiving_rx_bit using a(2) by simp
  then have "attached hal r s'" "receiving s'"
    using s1(2) by (simp_all add: s1(3))
  ultimately show "link_inv hal r W (a\<lparr>conn := s'\<rparr>)"
    using a o by (auto simp: link_inv_def Let_def k)
  show "current_bit_no s' = 0" by (fact k(3))
  show "\<not> waiting a \<Longrightarrow> kern s' = (kern ?s)\<lparr>in_isr := False, current := cache (kern ?s)\<rparr>"
    using a(7) o(6) by (simp add: k)
  show "max_msgs (rx_msg_que s') = max_msgs ?q"
    using put by (auto simp: k z_impl_k_msgq_put_def split: if_splits prod.splits option.splits)
  show "in_flight W (a\<lparr>conn := s'\<rparr>) = in_flight W a @ [c]"
    using a(7) o by (auto simp: in_flight_def woken_def resumed_code_def k)
qed

text \<open>The keyboard thread takes the oldest code in flight, or waits when there is none.\<close>

lemma take_code:
  assumes inv: "link_inv hal r W a" and "\<not> waiting a"
    and get: "ps2_connector_get_next_code (conn a) = (Some c, s')"
  shows "link_inv hal r W (a\<lparr>conn := s', worker := p, appl := t\<rparr>)"
    and "in_flight W a = c # in_flight W (a\<lparr>conn := s', worker := p, appl := t\<rparr>)"
    and "current_bit_no s' = current_bit_no (conn a)" and "incoming_data s' = incoming_data (conn a)"
proof -
  let ?q = "rx_msg_que (conn a)" and ?k = "kern (conn a)"
  have w: "waitqs ?k (mq_wait_q ?q) = []" and ring: "ring_inv ?q"
    using inv assms(2) by (auto simp: link_inv_def Let_def)
  have used: "0 < used_msgs ?q"
    using get by (auto simp: ps2_connector_get_next_code_def z_impl_k_msgq_get_def split: if_splits)
  note r = ring_read [OF ring used]
  have c: "c = reverse (hd (fst (msgq_read ?q)))" and s': "s' = (conn a)\<lparr>rx_msg_que := snd (msgq_read ?q)\<rparr>"
    using get by (auto simp: ps2_connector_get_next_code_def get_takes [OF used w])
  show "link_inv hal r W (a\<lparr>conn := s', worker := p, appl := t\<rparr>)"
    using inv r(1) w by (simp add: link_inv_def Let_def s')
  show "in_flight W a = c # in_flight W (a\<lparr>conn := s', worker := p, appl := t\<rparr>)"
    using assms(2) r(2) by (simp add: in_flight_def woken_def s' c)
qed (use get in \<open>auto simp: ps2_connector_get_next_code_def split: prod.splits\<close>)

lemma block_on_queue:
  assumes inv: "link_inv hal r W a" and "\<not> waiting a" and run: "current (kern (conn a)) = W" "running (kern (conn a))"
    and get: "ps2_connector_get_next_code (conn a) = (None, s')"
  shows "link_inv hal r W (a\<lparr>conn := s', waiting := True\<rparr>)"
    and "in_flight W (a\<lparr>conn := s', waiting := True\<rparr>) = []" and "in_flight W a = []"
    and "current_bit_no s' = current_bit_no (conn a)" and "incoming_data s' = incoming_data (conn a)"
proof -
  let ?q = "rx_msg_que (conn a)" and ?k = "kern (conn a)"
  let ?k1 = "upd_thread (current ?k) (\<lambda>x. x\<lparr>swap_data := []\<rparr>) ?k"
  have w: "waitqs ?k (mq_wait_q ?q) = []" and ring: "ring_inv ?q" and ok: "sched_ok ?k"
    using inv assms(2) by (auto simp: link_inv_def Let_def)
  have empty: "used_msgs ?q = 0"
  proof (rule ccontr)
    assume "used_msgs ?q \<noteq> 0"
    with get show False
      using get_takes [of ?q ?k, OF _ w] by (simp add: ps2_connector_get_next_code_def)
  qed
  have s': "s' = (conn a)\<lparr>rx_msg_que := ?q, kern := z_pend_curr (mq_wait_q ?q) K_FOREVER ?k1\<rparr>"
    using get empty by (simp add: ps2_connector_get_next_code_def z_impl_k_msgq_get_def)
  have ok': "sched_ok (kern s')"
  proof -
    obtain out d q' k' where g: "z_impl_k_msgq_get K_FOREVER ?q ?k = (out, d, q', k')"
      by (cases "z_impl_k_msgq_get K_FOREVER ?q ?k")
    with get have "kern s' = k'"
      by (auto simp: ps2_connector_get_next_code_def)
    with msgq_get_inv [OF ok link_inv_msgq [OF inv] _ g] run(2) show ?thesis by simp
  qed
  moreover have wait: "waitqs (kern s') (mq_wait_q ?q) = [W]"
  proof -
    have "set (waitqs (kern s') (mq_wait_q ?q)) = {W}"
      using pend_curr_fields(1) [of ?k1 "mq_wait_q ?q" K_FOREVER] ok run
      by (simp add: s' sched_ok_swap_data running_swap_data w)
    moreover have "distinct (waitqs (kern s') (mq_wait_q ?q))"
      using ok' sched_inv_waitq [of "kern s'"] by (simp add: sched_ok_def dumb_inv_def)
    ultimately show ?thesis
      by (cases "waitqs (kern s') (mq_wait_q ?q)") (auto simp: set_eq_iff, metis list.set_intros(1) neq_Nil_conv)
  qed
  moreover have "\<not> in_isr (kern s')"
    using inv by (simp add: s' link_inv_def z_pend_curr_def pend_def add_to_waitq_locked_def add_thread_timeout_def
        z_add_thread_timeout_def z_swap_def Let_def)
  ultimately show "link_inv hal r W (a\<lparr>conn := s', waiting := True\<rparr>)"
    using inv empty by (simp add: link_inv_def Let_def s' messages_def)
  show "in_flight W (a\<lparr>conn := s', waiting := True\<rparr>) = []"
    using wait empty by (simp add: in_flight_def woken_def s' messages_def)
  show "in_flight W a = []"
    using assms(2) empty by (simp add: in_flight_def woken_def messages_def)
qed (use get in \<open>auto simp: ps2_connector_get_next_code_def split: prod.splits\<close>)

subsection \<open>Every code reaches the thread\<close>

text \<open>
  After the bits \<open>bs\<close> of the frames of \<open>codes\<close>: the connector is at the right place of the right
  frame, and the codes of the complete frames are those the thread has handled, from the start and in
  order, followed by those in flight.
\<close>

definition stream_inv :: "u8 list \<Rightarrow> app \<Rightarrow> tid \<Rightarrow> bool list \<Rightarrow> 'h adapter \<Rightarrow> bool" where
  "stream_inv codes t0 W bs a \<longleftrightarrow>
     current_bit_no (conn a) = int (length bs mod 11) \<and>
     (\<exists>i. incoming_data (conn a) = partial_data (codes ! (length bs div 11)) (length bs mod 11) i) \<and>
     (\<exists>taken. take (length bs div 11) codes = taken @ in_flight W a \<and>
        ps2_keyboard_thread taken t0 = (worker a, [], appl a))"

lemma next_bit:
  assumes "prefix (bs @ [b]) (concat (map frame codes))"
  shows "b = frame (codes ! (length bs div 11)) ! (length bs mod 11)" and "length bs div 11 < length codes"
proof -
  have l: "length bs < 11 * length codes"
    using prefix_length_le [OF assms] by simp
  moreover have "b = concat (map frame codes) ! length bs"
    using assms by (auto simp: prefix_def nth_append)
  ultimately show "b = frame (codes ! (length bs div 11)) ! (length bs mod 11)"
    by (simp add: nth_frames)
  from l show "length bs div 11 < length codes"
    by (simp add: less_mult_imp_div_less mult.commute)
qed

lemma stream_clock:
  assumes hal: "hal_ok hal r" and pulse: "pulse_ok hal r pulse" and inv: "link_inv hal r W a"
    and stream: "stream_inv codes t0 W bs a" and room: "room (conn a)"
    and pre: "prefix (bs @ [b]) (concat (map frame codes))"
  defines "a' \<equiv> a\<lparr>conn := gpiote_isr hal ((conn a)\<lparr>hw := pulse b (hw (conn a))\<rparr>)\<rparr>"
  shows "link_inv hal r W a' \<and> stream_inv codes t0 W (bs @ [b]) a'"
proof -
  let ?m = "length bs div 11" and ?n = "length bs mod 11"
  let ?c = "codes ! ?m"
  note b = next_bit [OF pre]
  obtain i taken where st: "current_bit_no (conn a) = int ?n" "incoming_data (conn a) = partial_data ?c ?n i"
      "take ?m codes = taken @ in_flight W a" "ps2_keyboard_thread taken t0 = (worker a, [], appl a)"
    using stream by (auto simp: stream_inv_def)
  have "?n < 10 \<or> ?n = 10" by linarith
  then show ?thesis
  proof
    assume n: "?n < 10"
    then have l: "length (bs @ [b]) mod 11 = Suc ?n" "length (bs @ [b]) div 11 = ?m"
      by (simp_all add: mod_Suc div_Suc)
    note * = clock_mid_frame [OF hal pulse inv st(1,2) n, folded b(1), folded a'_def]
    have "conn a' = gpiote_isr hal ((conn a)\<lparr>hw := pulse b (hw (conn a))\<rparr>)"
      "worker a' = worker a" "appl a' = appl a"
      by (simp_all add: a'_def)
    with * st(3,4) show ?thesis
      unfolding stream_inv_def l by auto
  next
    assume n: "?n = 10"
    then have l: "length (bs @ [b]) mod 11 = 0" "length (bs @ [b]) div 11 = Suc ?m"
      by (simp_all add: mod_Suc div_Suc)
    have "current_bit_no (conn a) = 10" "incoming_data (conn a) = partial_data ?c 10 i"
      using st(1,2) n by simp_all
    note * = clock_frame_end [OF hal pulse inv this room, folded n, folded b(1), folded a'_def]
    have "conn a' = gpiote_isr hal ((conn a)\<lparr>hw := pulse b (hw (conn a))\<rparr>)"
      "worker a' = worker a" "appl a' = appl a"
      by (simp_all add: a'_def)
    with * st(3,4) b(2) show ?thesis
      unfolding stream_inv_def l by (simp add: take_Suc_conv_app_nth)
  qed
qed

lemma stream_code:
  assumes "stream_inv codes t0 W bs a" and "worker a = Get_code f"
    and "keyboard_from (f c) [] (appl a) = (p, rest, t)"
    and "in_flight W a = c # in_flight W a'" and "worker a' = p" and "appl a' = t"
    and "current_bit_no (conn a') = current_bit_no (conn a)" and "incoming_data (conn a') = incoming_data (conn a)"
  shows "stream_inv codes t0 W bs a'"
proof -
  obtain taken where st: "take (length bs div 11) codes = taken @ in_flight W a"
      "ps2_keyboard_thread taken t0 = (worker a, [], appl a)"
    using assms(1) by (auto simp: stream_inv_def)
  have "ps2_keyboard_thread (taken @ [c]) t0 = (worker a', [], appl a')"
    using thread_append [OF st(2), of "[c]"] assms(2,3,5,6) keyboard_from_rest [OF assms(3)]
    by (simp add: keyboard_from_code)
  with st(1) assms(1,4,7,8) show ?thesis
    by (auto simp: stream_inv_def intro!: exI [of _ "taken @ [c]"])
qed

lemma stream_step:
  assumes hal: "hal_ok hal r" and pulse: "pulse_ok hal r pulse" and inv: "link_inv hal r W a"
    and stream: "stream_inv codes t0 W bs a"
    and step: "adapter_step hal pulse W cs a a'" and pre: "prefix (bs @ cs) (concat (map frame codes))"
  shows "link_inv hal r W a' \<and> stream_inv codes t0 W (bs @ cs) a'"
  using step
proof cases
  case (Clock b)
  with stream_clock [OF hal pulse inv stream] pre show ?thesis by simp
next
  case (Take f c s' p rest t)
  note * = take_code [OF inv Take(5,7)]
  from stream_code [OF stream Take(6,8) *(2)] *(1,3,4) show ?thesis
    by (simp add: Take(1,2))
next
  case (Block f s')
  note * = block_on_queue [OF inv Block(5,3,4,7)]
  with stream show ?thesis
    by (simp add: Block(1,2) stream_inv_def)
next
  case (Resume f p rest t)
  let ?q = "rx_msg_que (conn a)" and ?k = "kern (conn a)"
  have "waitqs ?k (mq_wait_q ?q) = []"
    using waiter_not_current [of ?k "mq_wait_q ?q" W "[]"] inv Resume(3,4) by (auto simp: link_inv_def Let_def)
  then have "in_flight W a = resumed_code W (conn a) # in_flight W a'" "link_inv hal r W a'"
    using Resume(5) inv by (simp_all add: Resume(2) in_flight_def woken_def link_inv_def Let_def)
  from stream_code [OF stream Resume(6,7) this(1)] this(2) show ?thesis
    by (simp add: Resume(1,2))
next
  case (Others k)
  then have "link_inv hal r W a'" "in_flight W a' = in_flight W a"
    using inv by (auto simp: kernel_rely_def link_inv_def Let_def in_flight_def woken_def resumed_code_def)
  with stream show ?thesis
    by (simp add: Others(1,2) stream_inv_def)
qed

lemma stream_run:
  assumes "hal_ok hal r" and "pulse_ok hal r pulse"
    and "adapter_run hal pulse W bs a a'" and "prefix bs (concat (map frame codes))"
    and "link_inv hal r W a" and "stream_inv codes t0 W [] a"
  shows "link_inv hal r W a' \<and> stream_inv codes t0 W bs a'"
  using assms(3-6)
proof (induction rule: adapter_run.induct)
  case (Step bs a a' cs a'')
  then have "link_inv hal r W a' \<and> stream_inv codes t0 W bs a'"
    using append_prefixD by blast
  with Step show ?case
    using stream_step [OF assms(1,2)] by blast
qed simp

text \<open>The adapter right after initialisation, with the keyboard thread at its start.\<close>

definition adapter_ready :: "'h hal \<Rightarrow> ('h \<Rightarrow> nrf_regs) \<Rightarrow> 'h adapter \<Rightarrow> bool" where
  "adapter_ready hal r a \<longleftrightarrow> attached hal r (conn a) \<and> rx_ready (conn a) \<and> sched_ok (kern (conn a)) \<and>
     \<not> in_isr (kern (conn a)) \<and> \<not> waiting a \<and> worker a = ps2_hid_translator_parse_next_scancode"

lemma adapter_ready_inv:
  assumes "adapter_ready hal r a"
  shows "link_inv hal r W a" and "stream_inv codes (appl a) W [] a"
  using assms by (simp_all add: adapter_ready_def rx_ready_def link_inv_def Let_def stream_inv_def in_flight_def
      woken_def thread_waits)

subsection \<open>The thread catches up\<close>

lemma run_stops: "run p cs s = (q, rest, t) \<Longrightarrow> q = Done \<or> q = Fault \<or> (\<exists>f. q = Get_code f)"
proof (induction p arbitrary: cs s)
  case (Get_code k)
  then show ?case by (cases cs) (auto, metis rangeI)
qed auto

lemma thread_stops:
  "ps2_keyboard_thread cs s = (q, rest, t) \<Longrightarrow> q = Fault \<or> (\<exists>f. q = Get_code f)"
proof (induction cs s rule: ps2_keyboard_thread.induct)
  case (1 cs s)
  obtain q' rest' u where r: "run ps2_hid_translator_parse_next_scancode cs s = (q', rest', u)"
    by (cases "run ps2_hid_translator_parse_next_scancode cs s") auto
  show ?case
  proof (cases "q' = Done")
    case True
    with 1(1) [OF r [symmetric] True] 1(2) r show ?thesis
      by (simp add: ps2_keyboard_thread.simps [of cs s])
  next
    case False
    with 1(2) r run_stops [OF r] show ?thesis
      by (auto simp: ps2_keyboard_thread.simps [of cs s])
  qed
qed

lemma worker_waits:
  assumes "stream_inv codes t0 W bs a" and "0xFF \<notin> set codes"
  obtains f where "worker a = Get_code f"
proof -
  obtain taken where st: "take (length bs div 11) codes = taken @ in_flight W a"
      "ps2_keyboard_thread taken t0 = (worker a, [], appl a)"
    using assms(1) by (auto simp: stream_inv_def)
  have "set taken \<subseteq> set codes"
    using arg_cong [OF st(1), of set] set_take_subset [of "length bs div 11" codes] by auto
  with assms(2) have "0xFF \<notin> set taken" by blast
  with thread_result [OF st(2)] thread_stops [OF st(2)] that show ?thesis by blast
qed

lemma take_one:
  assumes inv: "link_inv hal r W a" and stream: "stream_inv codes t0 W bs a" and "0xFF \<notin> set codes"
    and run: "current (kern (conn a)) = W" "running (kern (conn a))" and "in_flight W a \<noteq> []"
  shows "\<exists>a'. adapter_step hal pulse W [] a a' \<and> kern (conn a') = kern (conn a) \<and>
     length (in_flight W a') < length (in_flight W a)"
proof -
  obtain f where f: "worker a = Get_code f"
    using worker_waits [OF stream assms(3)] .
  let ?q = "rx_msg_que (conn a)" and ?k = "kern (conn a)"
  have w: "waitqs ?k (mq_wait_q ?q) = []"
    using waiter_not_current [of ?k "mq_wait_q ?q" W "[]"] inv run by (auto simp: link_inv_def Let_def)
  show ?thesis
  proof (cases "waiting a")
    case True
    obtain p rest t where "keyboard_from (f (resumed_code W (conn a))) [] (appl a) = (p, rest, t)"
      by (cases "keyboard_from (f (resumed_code W (conn a))) [] (appl a)")
    note step = adapter_step.Resume [OF run True f this]
    with True w show ?thesis
      by (intro exI [of _ "a\<lparr>waiting := False, worker := p, appl := t\<rparr>"]) (simp add: in_flight_def woken_def)
  next
    case False
    with assms(6) have used: "0 < used_msgs ?q"
      by (cases "used_msgs ?q") (auto simp: in_flight_def woken_def messages_def)
    define s' where "s' = (conn a)\<lparr>rx_msg_que := snd (msgq_read ?q)\<rparr>"
    obtain c where get: "ps2_connector_get_next_code (conn a) = (Some c, s')"
      by (simp add: ps2_connector_get_next_code_def get_takes [OF used w] s'_def)
    obtain p rest t where "keyboard_from (f c) [] (appl a) = (p, rest, t)"
      by (cases "keyboard_from (f c) [] (appl a)")
    note step = adapter_step.Take [OF run False f get this]
    with take_code(2) [OF inv False get, where p = p and t = t] show ?thesis
      by (intro exI [of _ "a\<lparr>conn := s', worker := p, appl := t\<rparr>"]) (simp add: s'_def)
  qed
qed

lemma drain:
  assumes "hal_ok hal r" and "pulse_ok hal r pulse" and "adapter_ready hal r a"
    and "adapter_run hal pulse W bs a a'" and "prefix bs (concat (map frame codes))" and "0xFF \<notin> set codes"
    and "current (kern (conn a')) = W" and "running (kern (conn a'))"
  shows "\<exists>a''. adapter_run hal pulse W bs a a'' \<and> in_flight W a'' = []"
  using assms(4,7,8)
proof (induction "length (in_flight W a')" arbitrary: a' rule: less_induct)
  case less
  show ?case
  proof (cases "in_flight W a' = []")
    case False
    have "link_inv hal r W a' \<and> stream_inv codes (appl a) W bs a'"
      by (rule stream_run [OF assms(1,2) less(2) assms(5) adapter_ready_inv [OF assms(3)]])
    with take_one [OF _ _ assms(6) less(3,4) False] obtain a1 where a1: "adapter_step hal pulse W [] a' a1"
        "kern (conn a1) = kern (conn a')" "length (in_flight W a1) < length (in_flight W a')"
      by blast
    from adapter_run.Step [OF less(2) a1(1)] less(1) [OF a1(3)] less(3,4) a1(2) show ?thesis
      by simp
  qed (use less in blast)
qed

text \<open>The queue takes as many codes as it has room for without any step of the thread.\<close>

lemma clock_in:
  assumes hal: "hal_ok hal r" and pulse: "pulse_ok hal r pulse" and rdy: "adapter_ready hal r a"
    and cache: "cache (kern (conn a)) = current (kern (conn a))" and "length codes \<le> max_msgs (rx_msg_que (conn a))"
  shows "prefix bs (concat (map frame codes)) \<Longrightarrow> \<exists>a'. adapter_run hal pulse W bs a a' \<and> \<not> waiting a' \<and>
     kern (conn a') = kern (conn a) \<and> max_msgs (rx_msg_que (conn a')) = max_msgs (rx_msg_que (conn a))"
proof (induction bs rule: rev_induct)
  case Nil
  show ?case
    using rdy by (intro exI [of _ a]) (simp add: adapter_ready_def adapter_run.Start)
next
  case (snoc b bs)
  have pre: "prefix bs (concat (map frame codes))"
    using snoc.prems append_prefixD by blast
  then obtain a1 where a1: "adapter_run hal pulse W bs a a1" "\<not> waiting a1" "kern (conn a1) = kern (conn a)"
      "max_msgs (rx_msg_que (conn a1)) = max_msgs (rx_msg_que (conn a))"
    using snoc.IH by blast
  have inv: "link_inv hal r W a1" "stream_inv codes (appl a) W bs a1"
    using stream_run [OF hal pulse a1(1) pre adapter_ready_inv [OF rdy]] by blast+
  note b = next_bit [OF snoc.prems]
  let ?m = "length bs div 11" and ?n = "length bs mod 11"
  obtain i taken where st: "current_bit_no (conn a1) = int ?n" "incoming_data (conn a1) = partial_data (codes ! ?m) ?n i"
      "take ?m codes = taken @ in_flight W a1"
    using inv(2) by (auto simp: stream_inv_def)
  have "used_msgs (rx_msg_que (conn a1)) \<le> length (take ?m codes)"
    using a1(2) by (simp add: st(3) in_flight_def woken_def)
  then have room: "room (conn a1)"
    using b(2) assms(5) by (simp add: room_def a1(4))
  let ?a = "a1\<lparr>conn := gpiote_isr hal ((conn a1)\<lparr>hw := pulse b (hw (conn a1))\<rparr>)\<rparr>"
  have k: "(kern (conn a))\<lparr>in_isr := False, current := cache (kern (conn a))\<rparr> = kern (conn a)"
    using rdy cache by (simp add: adapter_ready_def)
  have "kern (conn ?a) = kern (conn a) \<and> max_msgs (rx_msg_que (conn ?a)) = max_msgs (rx_msg_que (conn a))"
  proof (cases "?n = 10")
    case True
    with clock_frame_end(4,5) [OF hal pulse inv(1) _ _ room, of "codes ! ?m" i] a1 st(1,2) k show ?thesis
      by (simp add: b(1))
  next
    case False
    then have "?n < 10" by linarith
    with clock_mid_frame(5,6) [OF hal pulse inv(1) st(1,2)] a1 k show ?thesis
      by (simp add: b(1))
  qed
  with adapter_run.Step [OF a1(1) adapter_step.Clock [OF room]] a1(2) show ?case
    by (intro exI [of _ ?a]) simp
qed

subsection \<open>From the line to the report\<close>

definition ready_adapter :: "chip adapter" where
  "ready_adapter = \<lparr>conn = ready_connector sample_kernel, worker = ps2_hid_translator_parse_next_scancode,
     waiting = False, appl = \<lparr>key_report = empty_report, hog_of = boot_hog []\<rparr>\<rparr>"

lemma ready_adapter_facts:
  "adapter_ready chip_hal fst ready_adapter" "cache (kern (conn ready_adapter)) = current (kern (conn ready_adapter))"
  "max_msgs (rx_msg_que (conn ready_adapter)) = 20" "current (kern (conn ready_adapter)) = 2"
  "running (kern (conn ready_adapter))" "appl ready_adapter = \<lparr>key_report = empty_report, hog_of = boot_hog []\<rparr>"
proof -
  have k: "waitqs sample_kernel w = []" "\<not> in_isr sample_kernel" "cache sample_kernel = 2" "current sample_kernel = 2" for w
    by (simp_all add: sample_kernel_def)
  have q: "rx_msg_que (ready_connector sample_kernel) =
      rx_msg_que (idle_connector (hw (ready_connector sample_kernel)) sample_kernel)"
    by (rule ready_connector_facts(4))
  show "adapter_ready chip_hal fst ready_adapter"
    using k sample_kernel_ok
    by (simp add: adapter_ready_def ready_adapter_def rx_ready_def ready_connector_facts(1-3,5) q idle_connector_facts)
  show "cache (kern (conn ready_adapter)) = current (kern (conn ready_adapter))"
    "max_msgs (rx_msg_que (conn ready_adapter)) = 20" "current (kern (conn ready_adapter)) = 2"
    "running (kern (conn ready_adapter))"
    using k sample_kernel_ok by (simp_all add: ready_adapter_def ready_connector_facts(5) q idle_connector_facts)
qed (simp add: ready_adapter_def)

lemma ready_adapter_runs:
  assumes "prefix bs (concat (map frame codes))" and "length codes \<le> 20"
  obtains a' where "adapter_run chip_hal chip_pulse 2 bs ready_adapter a'"
    "current (kern (conn a')) = 2" "running (kern (conn a'))"
  using clock_in [OF chip_hal_ok chip_pulse_ok ready_adapter_facts(1,2) _ assms(1), of 2] assms(2)
  by (auto simp: ready_adapter_facts)







end
