(* ===== verification/Words.thy ===== *)
theory Words
  imports Prelude
begin

text \<open>
  Facts on machine words the components share: reading a word as a number after an addition or a
  subtraction that does not wrap.
\<close>

lemma u32_bound: "unat (x :: u32) < 2 ^ 32"
  using unsigned_less [of x] by simp

lemma unat_plus_one: "(x :: 'a :: len word) < y \<Longrightarrow> unat (x + 1) = Suc (unat x)"
proof -
  assume "x < y"
  moreover have "unat y < 2 ^ LENGTH('a)"
    by (rule unsigned_less)
  ultimately have "unat x + 1 < 2 ^ LENGTH('a)"
    unfolding word_less_nat_alt by linarith
  then show ?thesis
    by (simp add: unat_word_ariths)
qed

lemma plus_one_le: "(x :: 'a :: len word) < y \<Longrightarrow> x + 1 \<le> y"
  by (simp add: word_le_nat_alt word_less_nat_alt unat_plus_one Suc_leI)

lemma unat_less_one: "(x :: 'a :: len word) \<noteq> 0 \<Longrightarrow> Suc (unat (x - 1)) = unat x"
  using unat_gt_0 [of x] by (simp add: unat_minus_one)

lemma minus_one_le: "(x :: 'a :: len word) \<noteq> 0 \<Longrightarrow> x \<le> y \<Longrightarrow> x - 1 \<le> y"
  using unat_less_one [of x] by (simp add: word_le_nat_alt)

end
