(* ===== verification/Wait_Object.thy ===== *)
theory Wait_Object
  imports Msgq Words "HOL-Library.Multiset"
begin

text \<open>
  What the kernel objects with a wait queue promise their clients. An object holds units (the count
  of a semaphore, the entries of a stack, the free blocks of a slab); one call gives a unit and one
  takes a unit or waits for it, and a unit given while threads wait goes to the first of them without
  touching the object. The locale \<open>wait_object\<close> states this contract; \<open>wait_run\<close> is a history of
  calls in any order, interleaved with whatever else the kernel does; and the lemmas below show for
  every such object that units are neither lost nor duplicated.
\<close>

definition z_thread_return_value_set_with_data :: "tid \<Rightarrow> int \<Rightarrow> u32 \<Rightarrow> kernel \<Rightarrow> kernel" where
  "z_thread_return_value_set_with_data t value data k =
     upd_thread t (\<lambda>x. x\<lparr>swap_word := data\<rparr>) (arch_thread_return_value_set t value k)"

lemma return_value_harmless:
  "sched_ok (z_thread_return_value_set_with_data t v d k) = sched_ok k"
  "waitqs (z_thread_return_value_set_with_data t v d k) = waitqs k"
  "current (z_thread_return_value_set_with_data t v d k) = current k"
  "in_isr (z_thread_return_value_set_with_data t v d k) = in_isr k"
  by (simp_all add: z_thread_return_value_set_with_data_def arch_thread_return_value_set_def sched_ok_def
      upd_harmless)

lemma ready_thread_fields [simp]:
  "waitqs (z_ready_thread t k) = waitqs k" "current (z_ready_thread t k) = current k"
  "in_isr (z_ready_thread t k) = in_isr k"
  by (simp_all add: z_ready_thread_def ready_thread_def priq_run_add_def)

lemma ready_thread_swap:
  "swap_word (thrd (z_ready_thread t k) u) = swap_word (thrd k u)"
  "swap_return_value (thrd (z_ready_thread t k) u) = swap_return_value (thrd k u)"
  by (simp_all add: z_ready_thread_def ready_thread_def priq_run_add_def)

lemma wake_first_plain_ok:
  assumes "sched_ok k" and "waitqs k w = t # ts"
  shows "sched_ok (z_ready_thread t (snd (z_unpend_first_thread w k)))"
proof -
  have "upd_thread t (\<lambda>x. x) k1 = k1" for k1
    by (simp add: upd_thread_def)
  then show ?thesis
    using wake_first_upd_ok [OF assms, of "\<lambda>x. x"] by simp
qed

text \<open>No thread waits while the object has a unit.\<close>

definition wait_inv ::
    "('o \<Rightarrow> bool) \<Rightarrow> ('o \<Rightarrow> 'd multiset) \<Rightarrow> ('o \<Rightarrow> wqid) \<Rightarrow> 'o \<Rightarrow> kernel \<Rightarrow> bool" where
  "wait_inv valid units wq ob k \<longleftrightarrow>
     sched_ok k \<and> valid ob \<and> (units ob \<noteq> {#} \<longrightarrow> waitqs k (wq ob) = [])"

text \<open>
  A history: \<open>gs\<close> are the units given so far, \<open>ts\<close> those taken, by a call that returned at once or
  handed to a waiting thread. Between two calls other code runs: the kernel reaches any consistent
  state in which no thread has joined the wait queue (threads leave it when their timeouts expire),
  and the clients may touch what \<open>touch\<close> lets them.
\<close>

inductive wait_run ::
    "('d \<Rightarrow> 'o \<Rightarrow> kernel \<Rightarrow> 'o \<times> kernel) \<Rightarrow>
     (int \<Rightarrow> 'o \<Rightarrow> kernel \<Rightarrow> outcome \<times> 'd option \<times> 'o \<times> kernel) \<Rightarrow>
     ('d \<Rightarrow> 'o \<Rightarrow> bool) \<Rightarrow> ('o \<Rightarrow> 'o \<Rightarrow> bool) \<Rightarrow> ('o \<Rightarrow> wqid) \<Rightarrow> 'o \<Rightarrow> kernel \<Rightarrow>
     'd multiset \<Rightarrow> 'd multiset \<Rightarrow> 'o \<Rightarrow> kernel \<Rightarrow> bool"
  for give take_op accepts touch wq ob k where
  run_start: "wait_run give take_op accepts touch wq ob k {#} {#} ob k"
| run_give: "wait_run give take_op accepts touch wq ob k gs ts ob1 k1 \<Longrightarrow> accepts d ob1 \<Longrightarrow>
    running k1 \<or> in_isr k1 \<Longrightarrow> give d ob1 k1 = (ob2, k2) \<Longrightarrow>
    wait_run give take_op accepts touch wq ob k (add_mset d gs)
      (if waitqs k1 (wq ob1) = [] then ts else add_mset d ts) ob2 k2"
| run_take: "wait_run give take_op accepts touch wq ob k gs ts ob1 k1 \<Longrightarrow>
    running k1 \<or> in_isr k1 \<and> n = K_NO_WAIT \<Longrightarrow> take_op n ob1 k1 = (out, r, ob2, k2) \<Longrightarrow>
    wait_run give take_op accepts touch wq ob k gs
      (case r of None \<Rightarrow> ts | Some d \<Rightarrow> add_mset d ts) ob2 k2"
| run_other: "wait_run give take_op accepts touch wq ob k gs ts ob1 k1 \<Longrightarrow> touch ob1 ob2 \<Longrightarrow>
    sched_ok k2 \<Longrightarrow> set (waitqs k2 (wq ob1)) \<subseteq> set (waitqs k1 (wq ob1)) \<Longrightarrow>
    wait_run give take_op accepts touch wq ob k gs ts ob2 k2"

lemma run_one_take:
  assumes "take_op n ob k = (out, Some d, ob', k')" and "running k"
  shows "wait_run give take_op accepts touch wq ob k {#} {#d#} ob' k'"
  using run_take [of give take_op accepts touch wq ob k "{#}" "{#}", OF run_start _ assms(1)] assms(2)
  by simp

locale wait_object =
  fixes give :: "'d \<Rightarrow> 'o \<Rightarrow> kernel \<Rightarrow> 'o \<times> kernel"
    and take_op :: "int \<Rightarrow> 'o \<Rightarrow> kernel \<Rightarrow> outcome \<times> 'd option \<times> 'o \<times> kernel"
    and accepts :: "'d \<Rightarrow> 'o \<Rightarrow> bool"
    and touch :: "'o \<Rightarrow> 'o \<Rightarrow> bool"
    and wq :: "'o \<Rightarrow> wqid"
    and units :: "'o \<Rightarrow> 'd multiset"
    and valid :: "'o \<Rightarrow> bool"
    and got :: "'d \<Rightarrow> thread \<Rightarrow> bool"
  assumes give_waiter: "valid ob \<Longrightarrow> accepts d ob \<Longrightarrow> sched_ok k \<Longrightarrow> waitqs k (wq ob) = t # ts \<Longrightarrow>
      units ob = {#} \<Longrightarrow> give d ob k = (ob', k') \<Longrightarrow>
      ob' = ob \<and> sched_ok k' \<and> waitqs k' = (waitqs k)(wq ob := ts) \<and>
      (t \<noteq> current k \<or> in_isr k \<longrightarrow> got d (thrd k' t))"
    and give_free: "valid ob \<Longrightarrow> accepts d ob \<Longrightarrow> sched_ok k \<Longrightarrow> waitqs k (wq ob) = [] \<Longrightarrow>
      give d ob k = (ob', k') \<Longrightarrow>
      valid ob' \<and> wq ob' = wq ob \<and> units ob' = add_mset d (units ob) \<and> sched_ok k' \<and>
      waitqs k' = waitqs k"
    and take_unit: "valid ob \<Longrightarrow> units ob \<noteq> {#} \<Longrightarrow> take_op n ob k = (out, r, ob', k') \<Longrightarrow>
      out = Returned 0 \<and> (\<exists>d. r = Some d \<and> units ob = add_mset d (units ob')) \<and> valid ob' \<and>
      wq ob' = wq ob \<and> k' = k"
    and take_none: "valid ob \<Longrightarrow> units ob = {#} \<Longrightarrow> take_op n ob k = (out, r, ob', k') \<Longrightarrow>
      r = None \<and> ob' = ob \<and>
      (if n = K_NO_WAIT then (\<exists>e. out = Returned e \<and> e < 0) \<and> k' = k
       else out = Blocked \<and> k' = z_pend_curr (wq ob) n k)"
    and touch_keeps: "valid ob \<Longrightarrow> touch ob ob' \<Longrightarrow> valid ob' \<and> wq ob' = wq ob \<and> units ob' = units ob"
begin

lemma give_step:
  assumes "wait_inv valid units wq ob k" and "accepts d ob" and "give d ob k = (ob', k')"
  shows "wait_inv valid units wq ob' k'" and "wq ob' = wq ob"
    and "units ob' + (if waitqs k (wq ob) = [] then {#} else {#d#}) = add_mset d (units ob)"
proof -
  have ok: "sched_ok k" "valid ob" "units ob \<noteq> {#} \<Longrightarrow> waitqs k (wq ob) = []"
    using assms(1) by (auto simp: wait_inv_def)
  have "wait_inv valid units wq ob' k' \<and> wq ob' = wq ob \<and>
    units ob' + (if waitqs k (wq ob) = [] then {#} else {#d#}) = add_mset d (units ob)"
  proof (cases "waitqs k (wq ob)")
    case Nil
    with give_free [OF ok(2) assms(2) ok(1) _ assms(3)] show ?thesis
      by (simp add: wait_inv_def)
  next
    case (Cons t ts)
    then have "units ob = {#}"
      using ok(3) by auto
    with give_waiter [OF ok(2) assms(2) ok(1) Cons _ assms(3)] Cons ok(2) show ?thesis
      by (simp add: wait_inv_def)
  qed
  then show "wait_inv valid units wq ob' k'" "wq ob' = wq ob"
    "units ob' + (if waitqs k (wq ob) = [] then {#} else {#d#}) = add_mset d (units ob)"
    by blast+
qed

lemma take_step:
  assumes "wait_inv valid units wq ob k" and "running k \<or> in_isr k \<and> n = K_NO_WAIT"
    and "take_op n ob k = (out, r, ob', k')"
  shows "wait_inv valid units wq ob' k'" and "wq ob' = wq ob"
    and "units ob = (case r of None \<Rightarrow> units ob' | Some d \<Rightarrow> add_mset d (units ob'))"
proof -
  have ok: "sched_ok k" "valid ob" "units ob \<noteq> {#} \<Longrightarrow> waitqs k (wq ob) = []"
    using assms(1) by (auto simp: wait_inv_def)
  have "wait_inv valid units wq ob' k' \<and> wq ob' = wq ob \<and>
    units ob = (case r of None \<Rightarrow> units ob' | Some d \<Rightarrow> add_mset d (units ob'))"
  proof (cases "units ob = {#}")
    case True
    with take_none [OF ok(2) True assms(3)] ok assms(2) z_pend_curr_ok(1) [of k "wq ob" n]
    show ?thesis
      by (auto simp: wait_inv_def split: if_splits)
  next
    case False
    with take_unit [OF ok(2) False assms(3)] ok show ?thesis
      by (auto simp: wait_inv_def)
  qed
  then show "wait_inv valid units wq ob' k'" "wq ob' = wq ob"
    "units ob = (case r of None \<Rightarrow> units ob' | Some d \<Rightarrow> add_mset d (units ob'))"
    by blast+
qed

text \<open>Whatever the calls and their order, the units in the object and the units taken are the units
  at the start and the units given.\<close>

lemma conservation:
  assumes "wait_run give take_op accepts touch wq ob k gs ts ob' k'"
    and "wait_inv valid units wq ob k"
  shows "wait_inv valid units wq ob' k' \<and> units ob' + ts = units ob + gs"
  using assms
proof (induction rule: wait_run.induct)
  case run_start
  then show ?case by simp
next
  case (run_give gs ts ob1 k1 d ob2 k2)
  then have IH: "wait_inv valid units wq ob1 k1" "units ob1 + ts = units ob + gs"
    by blast+
  from give_step [OF IH(1) run_give.hyps(2) run_give.hyps(4)] IH(2) show ?case
    by (cases "waitqs k1 (wq ob1)") (auto simp flip: union_mset_add_mset_left)
next
  case (run_take gs ts ob1 k1 n out r ob2 k2)
  then have IH: "wait_inv valid units wq ob1 k1" "units ob1 + ts = units ob + gs"
    by blast+
  from take_step [OF IH(1) run_take.hyps(2) run_take.hyps(3)] IH(2) show ?case
    by (cases r) auto
next
  case (run_other gs ts ob1 k1 ob2 k2)
  then have IH: "wait_inv valid units wq ob1 k1" "units ob1 + ts = units ob + gs"
    by blast+
  then show ?case
    using touch_keeps [of ob1 ob2] run_other.hyps by (auto simp: wait_inv_def)
qed

lemma handed_over:
  assumes "wait_inv valid units wq ob k" and "accepts d ob" and "running k \<or> in_isr k"
    and "waitqs k (wq ob) = t # ts" and "give d ob k = (ob', k')"
  shows "ob' = ob \<and> sched_ok k' \<and> waitqs k' (wq ob) = ts \<and> got d (thrd k' t)"
proof -
  have "units ob = {#}" "sched_ok k" "valid ob"
    using assms(1,4) by (auto simp: wait_inv_def)
  with give_waiter [OF _ assms(2) _ assms(4) _ assms(5)] waiter_not_current [OF _ assms(3,4)]
  show ?thesis by simp
qed

end

end
