(* ===== verification/Thread_Life.thy ===== *)
theory Thread_Life
  imports Wait_Object
begin

text \<open>
  The life of a thread: creation and start (\<open>kernel/thread.c\<close>), joining and abort (\<open>kernel/sched.c\<close>).
  The stack and the initial frame of a thread are not part of the scheduler's state. \<open>jq t\<close> is the
  wait queue \<open>join_waiters\<close> of thread \<open>t\<close>. A join that blocks ends with the value \<open>z_pend_curr\<close> gives.
\<close>

abbreviation EDEADLK :: int where "EDEADLK \<equiv> 33"

definition z_init_thread_base :: "u8 \<Rightarrow> u8 \<Rightarrow> thread \<Rightarrow> thread" where
  "z_init_thread_base priority initial_state x =
     x\<lparr>thread_state := initial_state, prio_byte := priority, sched_locked := 0\<rparr>"

definition z_setup_new_thread :: "(tid \<Rightarrow> wqid) \<Rightarrow> tid \<Rightarrow> u8 \<Rightarrow> kernel \<Rightarrow> kernel" where
  "z_setup_new_thread jq t p k =
     upd_thread t (z_init_thread_base p THREAD_PRESTART) (k\<lparr>waitqs := (waitqs k)(jq t := [])\<rparr>)"

definition z_impl_k_thread_start :: "tid \<Rightarrow> kernel \<Rightarrow> kernel" where
  "z_impl_k_thread_start t k = z_sched_start t k"

definition schedule_new_thread :: "tid \<Rightarrow> int \<Rightarrow> kernel \<Rightarrow> kernel" where
  "schedule_new_thread t delay k =
     (if delay = K_NO_WAIT then z_impl_k_thread_start t k else z_add_thread_timeout t delay k)"

definition z_impl_k_thread_create :: "(tid \<Rightarrow> wqid) \<Rightarrow> tid \<Rightarrow> u8 \<Rightarrow> int \<Rightarrow> kernel \<Rightarrow> kernel" where
  "z_impl_k_thread_create jq t p delay k =
     (let k1 = z_setup_new_thread jq t p k
      in if delay \<noteq> K_FOREVER then schedule_new_thread t delay k1 else k1)"

definition z_impl_k_thread_join :: "(tid \<Rightarrow> wqid) \<Rightarrow> tid \<Rightarrow> int \<Rightarrow> kernel \<Rightarrow> outcome \<times> kernel" where
  "z_impl_k_thread_join jq t timeout k =
     (if pended_on (thrd k t) = Some (jq (current k)) \<or> t = current k then (Returned (- EDEADLK), k)
      else if thread_state (thrd k t) AND THREAD_DEAD \<noteq> 0 then (Returned 0, k)
      else if timeout = K_NO_WAIT then (Returned (- EBUSY), k)
      else (Blocked, z_pend_curr (jq t) timeout k))"

fun wake_joiners :: "tid list \<Rightarrow> wqid \<Rightarrow> kernel \<Rightarrow> kernel" where
  "wake_joiners [] w k = k"
| "wake_joiners (_ # ts) w k =
     (case z_priq_dumb_best (waitqs k w) of
        None \<Rightarrow> k
      | Some u \<Rightarrow> wake_joiners ts w (ready_thread u (arch_thread_return_value_set u 0
          (unpend_thread_no_timeout u (snd (z_abort_thread_timeout u k))))))"

definition z_thread_single_abort :: "(tid \<Rightarrow> wqid) \<Rightarrow> tid \<Rightarrow> kernel \<Rightarrow> kernel" where
  "z_thread_single_abort jq t k =
     (if thread_state (thrd k t) AND (THREAD_ABORTING OR THREAD_DEAD) \<noteq> 0 then k
      else let k1 = snd (z_abort_thread_timeout t (upd_thread t (z_set_thread_states THREAD_ABORTING) k));
               k2 = (if z_is_thread_ready k1 t
                     then update_cache (t = current k1)
                       (if z_is_thread_queued (thrd k1 t)
                        then upd_thread t z_mark_thread_as_not_queued (priq_run_remove t k1) else k1)
                     else if z_is_thread_pending (thrd k1 t) then unpend_thread_no_timeout t k1 else k1);
               k3 = wake_joiners (waitqs k2 (jq t)) (jq t) k2;
               k4 = (if z_is_idle_thread_object k3 (current k3) then update_cache True k3 else k3)
           in upd_thread t (z_set_thread_states THREAD_DEAD) k4)"

text \<open>
  \<open>k_thread_abort\<close> as the architecture defines it. A thread that aborts itself, with interrupts locked
  around the call, leaves the rest to the idle thread: \<open>idle_abort\<close> is a turn of the loop in
  \<open>kernel/idle.c\<close> that finds a thread to abort.
\<close>

definition z_self_abort :: "kernel \<Rightarrow> kernel" where
  "z_self_abort k =
     (z_swap (z_impl_k_thread_suspend (current k)
        (k\<lparr>pending_abort := Some (current k), irqs_on := False\<rparr>)))\<lparr>irqs_on := irqs_on k\<rparr>"

definition z_impl_k_thread_abort :: "(tid \<Rightarrow> wqid) \<Rightarrow> tid \<Rightarrow> kernel \<Rightarrow> kernel" where
  "z_impl_k_thread_abort jq t k =
     (if t = current k \<and> \<not> in_isr k then z_self_abort k
      else z_reschedule_unlocked (z_thread_single_abort jq t k))"

definition idle_abort :: "(tid \<Rightarrow> wqid) \<Rightarrow> kernel \<Rightarrow> kernel" where
  "idle_abort jq k =
     (case pending_abort k of
        None \<Rightarrow> k
      | Some t \<Rightarrow> z_reschedule_unlocked (z_thread_single_abort jq t (k\<lparr>pending_abort := None\<rparr>)))"

subsection \<open>Creation\<close>

text \<open>A thread object that is not in use: in no queue and without a timeout.\<close>

definition unused :: "kernel \<Rightarrow> tid \<Rightarrow> bool" where
  "unused k t \<longleftrightarrow> t \<notin> set (runq k) \<and> pended_on (thrd k t) = None \<and> \<not> is_linked t (tmo k) \<and>
     t \<noteq> idle_thread k \<and> t \<noteq> current k"

lemma unused_upd_inv:
  assumes inv: "sched_inv k" and t: "unused k t"
    and f: "pended_on (f (thrd k t)) = None" "\<not> bit (thread_state (f (thrd k t))) 7"
  shows "sched_inv (upd_thread t f k)" and "lost (upd_thread t f k) \<subseteq> insert t (lost k)"
    and "bit (thread_state (f (thrd k t))) 2 \<or> bit (thread_state (f (thrd k t))) 3 \<Longrightarrow>
      t \<notin> lost (upd_thread t f k)"
    and "cache_inv (upd_thread t f k) = cache_inv k"
proof -
  let ?k = "upd_thread t f k"
  have nq: "t \<notin> set (runq k)" "\<And>w. t \<notin> set (waitqs k w)" "t \<noteq> idle_thread k" "t \<noteq> current k"
    using inv t by (auto simp: unused_def sched_inv_def)
  have r: "z_is_thread_ready ?k u = z_is_thread_ready k u" if "u \<noteq> t" for u
    using that by (simp add: ready_upd_thread)
  have d: "dumb_inv (thrd ?k) pq = dumb_inv (thrd k) pq" if "t \<notin> set pq" for pq
    using that by (intro dumb_inv_cong) auto
  have q: "\<not> z_is_thread_queued (f (thrd k t))" "\<not> z_is_thread_queued (thrd k t)"
    using inv nq(1) f(2) by (simp_all add: queued_bit sched_inv_def)
  have lk: "\<not> is_linked t (tmo k)" "pended_on (thrd k t) = None"
    using t by (simp_all add: unused_def)
  show "sched_inv ?k"
    using inv unfolding sched_inv_def
    using nq r d [of "runq k"] d q f(1) lk by auto
  show "lost ?k \<subseteq> insert t (lost k)"
    by (auto simp: lost_def r)
  show "bit (thread_state (f (thrd k t))) 2 \<or> bit (thread_state (f (thrd k t))) 3 \<Longrightarrow> t \<notin> lost ?k"
    by (auto simp: lost_def ready_upd_thread prevented_bits)
  show "cache_inv ?k = cache_inv k"
    using nq by (simp add: cache_inv_def first_ready_def)
qed

lemma waitqs_idem: "waitqs k w = [] \<Longrightarrow> k\<lparr>waitqs := (waitqs k)(w := [])\<rparr> = k"
  by (simp add: fun_upd_idem)

lemma setup_ok:
  fixes p
  assumes ok: "sched_ok k" and t: "unused k t" and "waitqs k (jq t) = []"
  defines "k1 \<equiv> z_setup_new_thread jq t p k"
  shows "sched_ok k1" and "unused k1 t" and "thrd k1 t = z_init_thread_base p THREAD_PRESTART (thrd k t)"
    and "current k1 = current k" and "waitqs k1 = waitqs k"
proof -
  have k1: "k1 = upd_thread t (z_init_thread_base p THREAD_PRESTART) k"
    using assms(3) by (simp add: k1_def z_setup_new_thread_def waitqs_idem)
  have b: "\<not> bit (0x04 :: u8) 7" "bit (0x04 :: u8) 2"
    by (simp_all add: bit_simps)
  have f: "pended_on (z_init_thread_base p THREAD_PRESTART (thrd k t)) = None"
    "\<not> bit (thread_state (z_init_thread_base p THREAD_PRESTART (thrd k t))) 7"
    "bit (thread_state (z_init_thread_base p THREAD_PRESTART (thrd k t))) 2"
    using t b by (simp_all add: unused_def z_init_thread_base_def)
  have inv: "sched_inv k"
    using ok by (simp add: sched_ok_def)
  note u = unused_upd_inv [where f = "z_init_thread_base p THREAD_PRESTART", OF inv t f(1,2)]
  show "sched_ok k1"
    using u f(3) ok by (auto simp: sched_ok_def k1)
  show "unused k1 t" "thrd k1 t = z_init_thread_base p THREAD_PRESTART (thrd k t)"
    "current k1 = current k" "waitqs k1 = waitqs k"
    using t f(1) by (simp_all add: unused_def k1)
qed

lemma started_bits: "thread_state (z_mark_thread_as_started (z_init_thread_base p THREAD_PRESTART x)) = 0"
  by (simp add: thread_marks z_init_thread_base_def)

text \<open>What becomes of a thread that is created without a delay.\<close>

lemma create_now:
  fixes p
  assumes ok: "sched_ok k" and t: "unused k t" and "waitqs k (jq t) = []"
  defines "k' \<equiv> z_impl_k_thread_create jq t p K_NO_WAIT k"
  shows "sched_ok k'" and "t \<in> set (runq k')" and "prio_byte (thrd k' t) = p" and "waitqs k' = waitqs k"
    and "set (runq k') = insert t (set (runq k))"
    and "current k' = (if resched k \<and> cache k' \<noteq> current k then cache k' else current k)"
    and "in_isr k' = in_isr k"
    and "is_preempt (thrd k (current k)) \<Longrightarrow> pending_abort k = None \<Longrightarrow> cache k' = first_ready k'"
proof -
  note s = setup_ok [where jq = jq and p = p, OF assms(1-3)]
  let ?k1 = "z_setup_new_thread jq t p k"
  let ?k2 = "upd_thread t z_mark_thread_as_started ?k1"
  have inv1: "sched_inv ?k1" "lost ?k1 = {}" "cache_inv ?k1"
    using s(1) by (simp_all add: sched_ok_def)
  have st: "thread_state (thrd ?k2 t) = 0"
    by (simp add: s(3) started_bits)
  have m: "pended_on (z_mark_thread_as_started (thrd ?k1 t)) = None"
    "\<not> bit (thread_state (z_mark_thread_as_started (thrd ?k1 t))) 7"
    using s(2) st by (simp_all add: unused_def)
  note u = unused_upd_inv [where f = z_mark_thread_as_started, OF inv1(1) s(2) m]
  have ready: "z_is_thread_ready ?k2 t" and add: "addable ?k2 t"
    using s(2) st by (simp_all add: z_is_thread_ready_def z_is_thread_timeout_active_def prevented_bits
        unused_def addable_def queued_bit)
  have ns: "\<not> z_has_thread_started (thrd ?k1 t)"
    by (simp add: s(3) z_has_thread_started_def z_init_thread_base_def)
  have k': "k' = z_reschedule (ready_thread t ?k2)"
    using ns by (simp add: k'_def z_impl_k_thread_create_def schedule_new_thread_def
        z_impl_k_thread_start_def z_sched_start_def Let_def)
  note r = ready_thread_inv [OF u(1) add]
  have rt: "ready_thread t ?k2 = update_cache False (upd_thread t z_mark_thread_as_queued (priq_run_add t ?k2))"
    using ready by (simp add: ready_thread_def)
  have okr: "sched_ok (ready_thread t ?k2)"
    using r u inv1 by (intro sched_okI) auto
  then show "sched_ok k'"
    by (simp add: k' sched_ok_reschedule)
  have z: "runq ?k1 = runq k" "irqs_on ?k1 = irqs_on k" "in_isr ?k1 = in_isr k"
    by (simp_all add: z_setup_new_thread_def resched_def)
  show "set (runq k') = insert t (set (runq k))" "waitqs k' = waitqs k"
    by (simp_all add: k' rt priq_run_add_def dumb_add_insert s(5) z)
  then show "t \<in> set (runq k')"
    by simp
  show "prio_byte (thrd k' t) = p"
    by (simp add: k' rt z_reschedule_def z_swap_def priq_run_add_def reaped_def s(3) z_init_thread_base_def)
  show "current k' = (if resched k \<and> cache k' \<noteq> current k then cache k' else current k)"
    "in_isr k' = in_isr k"
    by (simp_all add: k' z_reschedule_def need_swap_def resched_def z_swap_def rt priq_run_add_def s(4) z)
  assume pre: "is_preempt (thrd k (current k))" "pending_abort k = None"
  let ?k3 = "ready_thread t ?k2"
  have c: "current ?k3 = current k" "pending_abort ?k3 = None" "is_preempt (thrd ?k3 (current k))"
    using t pre by (simp_all add: rt priq_run_add_def s(4)) (auto simp: z_setup_new_thread_def unused_def)
  have "cache ?k3 = first_ready ?k3"
    using okr c by (auto simp: sched_ok_def cache_inv_def)
  then show "cache k' = first_ready k'"
    by (simp add: k' z_reschedule_def z_swap_def first_ready_def)
qed


definition sample_jq :: "tid \<Rightarrow> wqid" where
  "sample_jq t = t + 100"


subsection \<open>Abort\<close>

text \<open>Waking one joining thread, and all of them.\<close>

lemma unpend_abort_commute:
  "unpend_thread_no_timeout u (snd (z_abort_thread_timeout u k)) =
   snd (z_abort_thread_timeout u (unpend_thread_no_timeout u k))"
  by (auto simp: z_abort_thread_timeout_def unpend_thread_no_timeout_def upd_thread_def
      split: option.splits prod.splits)

definition wake_joiner :: "tid \<Rightarrow> kernel \<Rightarrow> kernel" where
  "wake_joiner u k = ready_thread u (arch_thread_return_value_set u 0
     (unpend_thread_no_timeout u (snd (z_abort_thread_timeout u k))))"

lemma wake_joiner_inv:
  assumes inv: "sched_inv k" and p: "pended_on (thrd k u) = Some w"
  shows "sched_inv (wake_joiner u k)" and "lost (wake_joiner u k) \<subseteq> lost k - {u}"
    and "cache_inv k \<Longrightarrow> cache_inv (wake_joiner u k)"
    and "waitqs (wake_joiner u k) = (waitqs k)(w := remove1 u (waitqs k w))"
    and "swap_return_value (thrd (wake_joiner u k) v) = (if v = u then 0 else swap_return_value (thrd k v))"
    and "current (wake_joiner u k) = current k" "idle_thread (wake_joiner u k) = idle_thread k"
    and "pending_abort (wake_joiner u k) = pending_abort k" "irqs_on (wake_joiner u k) = irqs_on k"
    and "in_isr (wake_joiner u k) = in_isr k"
    and "v \<noteq> u \<Longrightarrow> pended_on (thrd (wake_joiner u k) v) = pended_on (thrd k v)"
    and "v \<noteq> u \<Longrightarrow> v \<noteq> current k \<Longrightarrow> thread_state (thrd (wake_joiner u k) v) = thread_state (thrd k v)"
    and "is_linked v (tmo (wake_joiner u k)) \<longleftrightarrow> is_linked v (tmo k) \<and> v \<noteq> u"
proof -
  note un = unpend_inv [OF inv p]
  let ?k1 = "snd (z_abort_thread_timeout u (unpend_thread_no_timeout u k))"
  note a = abort_timeout_inv [OF un(1), of u]
  let ?k2 = "arch_thread_return_value_set u 0 ?k1"
  have k2: "sched_inv ?k2" "lost ?k2 \<subseteq> insert u (lost k)" "cache_inv k \<Longrightarrow> cache_inv ?k2"
    using a un by (auto simp: arch_thread_return_value_set_def upd_harmless)
  have add: "addable ?k2 u"
    using un(4) by (simp add: addable_def queued_bit arch_thread_return_value_set_def)
  have wj: "wake_joiner u k = ready_thread u ?k2"
    by (simp add: wake_joiner_def unpend_abort_commute)
  note r = ready_thread_inv [OF k2(1) add]
  show "sched_inv (wake_joiner u k)" "lost (wake_joiner u k) \<subseteq> lost k - {u}"
    "cache_inv k \<Longrightarrow> cache_inv (wake_joiner u k)"
    using r k2 by (auto simp: wj)
  have tl: "tlist_inv (timeout_list (tmo k))"
    using inv by (simp add: sched_inv_def)
  show "waitqs (wake_joiner u k) = (waitqs k)(w := remove1 u (waitqs k w))"
    "swap_return_value (thrd (wake_joiner u k) v) = (if v = u then 0 else swap_return_value (thrd k v))"
    "current (wake_joiner u k) = current k" "idle_thread (wake_joiner u k) = idle_thread k"
    "pending_abort (wake_joiner u k) = pending_abort k" "irqs_on (wake_joiner u k) = irqs_on k"
    "in_isr (wake_joiner u k) = in_isr k"
    "v \<noteq> u \<Longrightarrow> pended_on (thrd (wake_joiner u k) v) = pended_on (thrd k v)"
    "v \<noteq> u \<Longrightarrow> v \<noteq> current k \<Longrightarrow> thread_state (thrd (wake_joiner u k) v) = thread_state (thrd k v)"
    by (simp_all add: wj ready_thread_def priq_run_add_def arch_thread_return_value_set_def
        unpend_thread_no_timeout_def p sys_dlist_remove_def)
       (auto simp: reaped_def)
  have "timeout_list (tmo (wake_joiner u k)) = timeout_list (snd (z_abort_timeout u (tmo k)))"
    by (simp add: wj ready_thread_def priq_run_add_def arch_thread_return_value_set_def
        unpend_thread_no_timeout_def p)
  then show "is_linked v (tmo (wake_joiner u k)) \<longleftrightarrow> is_linked v (tmo k) \<and> v \<noteq> u"
    using is_linked_abort [OF tl, of v u] by (auto simp: is_linked_def)
qed

lemma wake_joiners_inv:
  assumes "sched_inv k" and "waitqs k w = us"
  shows "sched_inv (wake_joiners us w k) \<and> lost (wake_joiners us w k) \<subseteq> lost k \<and>
     (cache_inv k \<longrightarrow> cache_inv (wake_joiners us w k)) \<and>
     waitqs (wake_joiners us w k) = (waitqs k)(w := []) \<and>
     current (wake_joiners us w k) = current k \<and> idle_thread (wake_joiners us w k) = idle_thread k \<and>
     pending_abort (wake_joiners us w k) = pending_abort k \<and>
     irqs_on (wake_joiners us w k) = irqs_on k \<and> in_isr (wake_joiners us w k) = in_isr k \<and>
     (\<forall>v. swap_return_value (thrd (wake_joiners us w k) v) =
        (if v \<in> set us then 0 else swap_return_value (thrd k v))) \<and>
     (\<forall>v. v \<notin> set us \<longrightarrow> pended_on (thrd (wake_joiners us w k) v) = pended_on (thrd k v) \<and>
        (v \<noteq> current k \<longrightarrow> thread_state (thrd (wake_joiners us w k) v) = thread_state (thrd k v)) \<and>
        (is_linked v (tmo (wake_joiners us w k)) \<longrightarrow> is_linked v (tmo k)))"
  using assms
proof (induction us arbitrary: k)
  case Nil
  then show ?case by (simp add: fun_upd_idem)
next
  case (Cons u us)
  have p: "pended_on (thrd k u) = Some w"
    using Cons.prems by (auto simp: sched_inv_def) (metis list.set_intros(1))
  note j = wake_joiner_inv [OF Cons.prems(1) p]
  have w: "waitqs (wake_joiner u k) w = us"
    using Cons.prems(2) by (simp add: j(4))
  have "wake_joiners (u # us) w k = wake_joiners us w (wake_joiner u k)"
    using Cons.prems(2) by (simp add: dumb_best_hd wake_joiner_def)
  with Cons.IH [OF j(1) w] j show ?case
    by auto
qed

text \<open>The thread leaves the queue it is in; the mark it carries meanwhile makes no difference.\<close>

definition take_out :: "tid \<Rightarrow> kernel \<Rightarrow> kernel" where
  "take_out t k =
     (let k1 = snd (z_abort_thread_timeout t k)
      in if z_is_thread_ready k1 t then (if z_is_thread_queued (thrd k1 t) then dequeue t k1 else k1)
         else if z_is_thread_pending (thrd k1 t) then unpend_thread_no_timeout t k1 else k1)"

definition abortable :: "kernel \<Rightarrow> tid \<Rightarrow> bool" where
  "abortable k t \<longleftrightarrow> t \<noteq> idle_thread k \<and> t \<noteq> current k \<and>
     \<not> bit (thread_state (thrd k t)) 3 \<and> \<not> bit (thread_state (thrd k t)) 5 \<and>
     (z_is_thread_pending (thrd k t) \<longrightarrow> pended_on (thrd k t) \<noteq> None)"

lemma take_out_inv:
  assumes inv: "sched_inv k" and t: "abortable k t"
  shows "sched_inv (take_out t k)" and "lost (take_out t k) \<subseteq> insert t (lost k)"
    and "unused (take_out t k) t"
    and "\<not> z_is_thread_ready (snd (z_abort_thread_timeout t k)) t \<Longrightarrow> cache_inv k \<Longrightarrow> cache_inv (take_out t k)"
proof -
  let ?k1 = "snd (z_abort_thread_timeout t k)"
  note a = abort_timeout_inv [OF inv, of t]
  have tl: "tlist_inv (timeout_list (tmo k))"
    using inv by (simp add: sched_inv_def)
  have nl: "\<not> is_linked t (tmo ?k1)"
    using a(4) by (simp add: z_is_thread_timeout_active_def)
  have q: "t \<in> set (runq ?k1) \<longleftrightarrow> z_is_thread_queued (thrd ?k1 t)"
    using a(1) by (simp add: sched_inv_def)
  have qr: "z_is_thread_queued (thrd ?k1 t) \<Longrightarrow> z_is_thread_ready ?k1 t"
    using a(1) q by (auto simp: sched_inv_def)
  have rp: "z_is_thread_ready ?k1 t \<Longrightarrow> pended_on (thrd ?k1 t) = None"
    using a(1) pending_prevented by (auto simp: sched_inv_def z_is_thread_ready_def)
  have pp: "\<not> z_is_thread_pending (thrd ?k1 t) \<Longrightarrow> pended_on (thrd ?k1 t) = None"
    using a(1) by (auto simp: sched_inv_def)
  consider (queued) "z_is_thread_ready ?k1 t" "z_is_thread_queued (thrd ?k1 t)" "take_out t k = dequeue t ?k1"
    | (free) "\<not> z_is_thread_queued (thrd ?k1 t)" "pended_on (thrd ?k1 t) = None" "take_out t k = ?k1"
    | (pending) w where "\<not> z_is_thread_ready ?k1 t" "pended_on (thrd ?k1 t) = Some w"
        "take_out t k = unpend_thread_no_timeout t ?k1"
  proof (cases "z_is_thread_ready ?k1 t")
    case True
    then show ?thesis
      using that(1,2) rp by (cases "z_is_thread_queued (thrd ?k1 t)") (simp_all add: take_out_def Let_def)
  next
    case False
    then have nq: "\<not> z_is_thread_queued (thrd ?k1 t)"
      using qr by blast
    show ?thesis
    proof (cases "pended_on (thrd ?k1 t)")
      case None
      moreover have "\<not> z_is_thread_pending (thrd ?k1 t)"
        using t None by (auto simp: abortable_def)
      ultimately show ?thesis
        using that(2) nq False by (simp add: take_out_def Let_def)
    next
      case (Some w)
      moreover have "z_is_thread_pending (thrd ?k1 t)"
        using pp Some by fastforce
      ultimately show ?thesis
        using that(3) False by (simp add: take_out_def Let_def)
    qed
  qed
  then have "sched_inv (take_out t k) \<and> lost (take_out t k) \<subseteq> insert t (lost k) \<and> unused (take_out t k) t \<and>
    (\<not> z_is_thread_ready ?k1 t \<longrightarrow> cache_inv k \<longrightarrow> cache_inv (take_out t k))"
  proof cases
    case queued
    note d = sched_inv_dequeue [OF a(1) queued(2)]
    have "unused (dequeue t ?k1) t"
      using d t rp [OF queued(1)] nl
      by (auto simp: unused_def abortable_def sched_inv_def) (simp_all add: dequeue_def priq_run_remove_def)
    then show ?thesis
      using queued(1) d(1) lost_dequeue [of t ?k1] a(2) by (auto simp: queued(3))
  next
    case free
    then show ?thesis
      using a t q nl by (auto simp: unused_def abortable_def)
  next
    case pending
    note u = unpend_inv [OF a(1) pending(2)]
    have "unused (unpend_thread_no_timeout t ?k1) t"
      using t nl pending qr q
      by (auto simp: unused_def abortable_def unpend_thread_no_timeout_def)
    then show ?thesis
      using u a(2,3) by (auto simp: pending(3))
  qed
  then show "sched_inv (take_out t k)" "lost (take_out t k) \<subseteq> insert t (lost k)" "unused (take_out t k) t"
    "\<not> z_is_thread_ready ?k1 t \<Longrightarrow> cache_inv k \<Longrightarrow> cache_inv (take_out t k)"
    by blast+
qed

lemma take_out_fields:
  "current (take_out t k) = current k" "idle_thread (take_out t k) = idle_thread k"
  "pending_abort (take_out t k) = pending_abort k" "irqs_on (take_out t k) = irqs_on k"
  "in_isr (take_out t k) = in_isr k"
  "swap_return_value (thrd (take_out t k) v) = swap_return_value (thrd k v)"
  "v \<noteq> t \<Longrightarrow> thrd (take_out t k) v = thrd k v"
  "pended_on (thrd k t) \<noteq> Some w \<Longrightarrow> waitqs (take_out t k) w = waitqs k w"
  by (auto simp: take_out_def Let_def dequeue_def priq_run_remove_def unpend_thread_no_timeout_def
      split: option.splits if_splits)

abbreviation aborting :: "thread \<Rightarrow> thread" where
  "aborting \<equiv> z_set_thread_states THREAD_ABORTING"

lemma aborting_bit: "n < 8 \<Longrightarrow> bit (thread_state (aborting x)) n \<longleftrightarrow> bit (thread_state x) n \<or> n = 5"
  by (cases x, simp_all only: thread_marks thread.simps set_bits)

lemma aborting_same [simp]:
  "z_is_thread_queued (aborting x) = z_is_thread_queued x" "z_is_thread_pending (aborting x) = z_is_thread_pending x"
  "z_is_thread_prevented_from_running (aborting x) = z_is_thread_prevented_from_running x"
  by (simp_all add: queued_bit pending_bit prevented_bits aborting_bit)

lemma aborting_commute:
  "z_mark_thread_as_not_queued (aborting x) = aborting (z_mark_thread_as_not_queued x)"
  "z_mark_thread_as_not_pending (aborting x) = aborting (z_mark_thread_as_not_pending x)"
proof -
  have "thread_state (z_mark_thread_as_not_queued (aborting x)) = thread_state (aborting (z_mark_thread_as_not_queued x))"
    "thread_state (z_mark_thread_as_not_pending (aborting x)) = thread_state (aborting (z_mark_thread_as_not_pending x))"
    by (rule bit_word_eqI; auto simp: mark_bits aborting_bit)+
  then show "z_mark_thread_as_not_queued (aborting x) = aborting (z_mark_thread_as_not_queued x)"
    "z_mark_thread_as_not_pending (aborting x) = aborting (z_mark_thread_as_not_pending x)"
    by (simp_all add: thread_marks)
qed

lemma aborting_pended: "(aborting x)\<lparr>pended_on := w\<rparr> = aborting (x\<lparr>pended_on := w\<rparr>)"
  by (simp add: thread_marks)

lemma single_abort_split:
  assumes "\<not> bit (thread_state (thrd k t)) 3" and "\<not> bit (thread_state (thrd k t)) 5"
  shows "z_thread_single_abort jq t k =
     (let k1 = upd_thread t aborting (take_out t k);
          k2 = (if z_is_thread_ready (snd (z_abort_thread_timeout t k)) t
                then update_cache (t = current k) k1 else k1);
          k3 = wake_joiners (waitqs k2 (jq t)) (jq t) k2;
          k4 = (if z_is_idle_thread_object k3 (current k3) then update_cache True k3 else k3)
      in upd_thread t (z_set_thread_states THREAD_DEAD) k4)"
proof -
  let ?a = "snd (z_abort_thread_timeout t k)"
  have g: "\<not> thread_state (thrd k t) AND (THREAD_ABORTING OR THREAD_DEAD) \<noteq> 0"
    using assms unfolding bit.conj_disj_distrib by (simp add: mask_bits or_eq_0_iff)
  have c: "snd (z_abort_thread_timeout t (upd_thread t aborting k)) = upd_thread t aborting ?a"
    by (simp add: z_abort_thread_timeout_def upd_thread_def split: prod.splits)
  have r: "z_is_thread_ready (upd_thread t aborting ?a) t = z_is_thread_ready ?a t"
    by (simp add: z_is_thread_ready_def z_is_thread_timeout_active_def)
  have d: "upd_thread t z_mark_thread_as_not_queued (priq_run_remove t (upd_thread t aborting ?a)) =
      upd_thread t aborting (dequeue t ?a)"
    by (auto simp: priq_run_remove_def dequeue_def upd_thread_def aborting_commute)
  have u: "unpend_thread_no_timeout t (upd_thread t aborting ?a) =
      upd_thread t aborting (unpend_thread_no_timeout t ?a)"
    by (cases "pended_on (thrd k t)")
       (simp_all add: unpend_thread_no_timeout_def upd_thread_def aborting_commute aborting_pended)
  show ?thesis
    unfolding z_thread_single_abort_def if_not_P [OF g] c
    by (simp add: Let_def r d u take_out_def)
qed

lemma unused_update_cache: "unused (update_cache b k) t = unused k t"
  by (simp add: unused_def is_linked_def)

lemma dead_bit: "bit (thread_state (z_set_thread_states THREAD_DEAD x)) 3"
  by (simp add: mark_bits)

lemma abort_leaves:
  fixes k t
  defines "k1 \<equiv> upd_thread t aborting (take_out t k)"
  defines "k2 \<equiv> (if z_is_thread_ready (snd (z_abort_thread_timeout t k)) t
     then update_cache (t = current k) k1 else k1)"
  assumes inv: "sched_inv k" and t: "abortable k t"
  shows "sched_inv k2" and "lost k2 \<subseteq> insert t (lost k)" and "cache_inv k \<Longrightarrow> cache_inv k2" and "unused k2 t"
    and "waitqs k2 = waitqs (take_out t k)"
    and "swap_return_value (thrd k2 v) = swap_return_value (thrd k v)"
    and "current k2 = current k" and "idle_thread k2 = idle_thread k" and "pending_abort k2 = pending_abort k"
    and "irqs_on k2 = irqs_on k" and "in_isr k2 = in_isr k"
proof -
  note o = take_out_inv [OF inv t]
  have nq: "\<not> bit (thread_state (thrd (take_out t k) t)) 7"
    using o(1,3) by (simp add: unused_def sched_inv_def queued_bit)
  have f: "pended_on (aborting (thrd (take_out t k) t)) = None"
    "\<not> bit (thread_state (aborting (thrd (take_out t k) t))) 7"
    using o(3) nq by (simp_all add: unused_def aborting_bit)
  note u1 = unused_upd_inv [where f = aborting, OF o(1,3) f, folded k1_def]
  have l1: "lost k1 \<subseteq> insert t (lost k)"
    using u1(2) o(2) by blast
  have uk1: "unused k1 t"
    using o(3) by (simp add: k1_def unused_def)
  show "sched_inv k2"
    using u1(1) sched_inv_update_cache by (simp add: k2_def)
  show "lost k2 \<subseteq> insert t (lost k)"
    using l1 lost_update_cache [of "t = current k" k1] by (auto simp: k2_def)
  show "cache_inv k \<Longrightarrow> cache_inv k2"
    using u1(4) o(4) by (simp add: k2_def)
  show "unused k2 t"
    using uk1 by (simp add: k2_def unused_update_cache)
  show "waitqs k2 = waitqs (take_out t k)" "swap_return_value (thrd k2 v) = swap_return_value (thrd k v)"
    "current k2 = current k" "idle_thread k2 = idle_thread k" "pending_abort k2 = pending_abort k"
    "irqs_on k2 = irqs_on k" "in_isr k2 = in_isr k"
    by (simp_all add: k2_def k1_def take_out_fields)
qed

lemma single_abort_inv:
  assumes inv: "sched_inv k" and t: "abortable k t" and w: "pended_on (thrd k t) \<noteq> Some (jq t)"
  defines "k' \<equiv> z_thread_single_abort jq t k"
  shows "sched_inv k'" and "lost k' \<subseteq> lost k - {t}" and "cache_inv k \<Longrightarrow> cache_inv k'"
    and "unused k' t" and "bit (thread_state (thrd k' t)) 3" and "waitqs k' (jq t) = []"
    and "u \<in> set (waitqs k (jq t)) \<Longrightarrow> swap_return_value (thrd k' u) = 0"
    and "current k' = current k" "idle_thread k' = idle_thread k" "pending_abort k' = pending_abort k"
    and "irqs_on k' = irqs_on k" "in_isr k' = in_isr k"
    and "current k = idle_thread k \<Longrightarrow> pending_abort k = None \<Longrightarrow> cache k' = first_ready k'"
proof -
  have bits: "\<not> bit (thread_state (thrd k t)) 3" "\<not> bit (thread_state (thrd k t)) 5" "t \<noteq> current k"
    using t by (simp_all add: abortable_def)
  define k2 where "k2 = (if z_is_thread_ready (snd (z_abort_thread_timeout t k)) t
     then update_cache (t = current k) (upd_thread t aborting (take_out t k))
     else upd_thread t aborting (take_out t k))"
  note k2 = abort_leaves [OF inv t, folded k2_def]
  let ?us = "waitqs k2 (jq t)"
  have us: "?us = waitqs k (jq t)"
    using take_out_fields(8) [OF w] by (simp add: k2(5))
  define k3 where "k3 = wake_joiners ?us (jq t) k2"
  note j = wake_joiners_inv [OF k2(1) refl, of "jq t", folded k3_def]
  have tu: "t \<notin> set ?us"
    using k2(1,4) by (auto simp: sched_inv_def unused_def)
  have jt: "pended_on (thrd k3 t) = pended_on (thrd k2 t)" "thread_state (thrd k3 t) = thread_state (thrd k2 t)"
    "is_linked t (tmo k3) \<Longrightarrow> is_linked t (tmo k2)"
    using j tu bits(3) k2(7) by auto
  have "t \<notin> set (runq k2)"
    using k2(4) by (simp add: unused_def)
  then have "\<not> z_is_thread_queued (thrd k3 t)"
    using k2(1) jt(2) by (simp add: sched_inv_def queued_bit)
  then have "t \<notin> set (runq k3)"
    using conjunct1 [OF j] by (simp add: sched_inv_def)
  then have u3: "unused k3 t"
    using jt k2(4) conjunct2 [OF j] by (auto simp: unused_def)
  define k4 where "k4 = (if z_is_idle_thread_object k3 (current k3) then update_cache True k3 else k3)"
  have k4: "sched_inv k4" "lost k4 \<subseteq> insert t (lost k)" "cache_inv k \<Longrightarrow> cache_inv k4" "unused k4 t"
    using j k2 u3 sched_inv_update_cache [of k3 True] lost_update_cache [of True k3]
    by (auto simp: k4_def unused_update_cache)
  have k': "k' = upd_thread t (z_set_thread_states THREAD_DEAD) k4"
    by (simp add: k'_def single_abort_split [OF bits(1,2)] k2_def k3_def k4_def Let_def)
  have f4: "pended_on (z_set_thread_states THREAD_DEAD (thrd k4 t)) = None"
    "\<not> bit (thread_state (z_set_thread_states THREAD_DEAD (thrd k4 t))) 7"
    using k4(1,4) by (simp_all add: unused_def sched_inv_def queued_bit mark_bits)
  note u4 = unused_upd_inv [where f = "z_set_thread_states THREAD_DEAD", OF k4(1,4) f4, folded k']
  show "sched_inv k'" "lost k' \<subseteq> lost k - {t}" "cache_inv k \<Longrightarrow> cache_inv k'"
    using u4 k4(2,3) dead_bit by auto
  show "unused k' t" "bit (thread_state (thrd k' t)) 3"
    using k4(4) by (simp_all add: k' unused_def dead_bit)
  show "waitqs k' (jq t) = []" "current k' = current k" "idle_thread k' = idle_thread k"
    "pending_abort k' = pending_abort k" "irqs_on k' = irqs_on k" "in_isr k' = in_isr k"
    using j k2(7-11) by (simp_all add: k' k4_def)
  show "u \<in> set (waitqs k (jq t)) \<Longrightarrow> swap_return_value (thrd k' u) = 0"
    using j us tu by (auto simp: k' k4_def)
  show "current k = idle_thread k \<Longrightarrow> pending_abort k = None \<Longrightarrow> cache k' = first_ready k'"
    using j k2(7-9) by (simp add: k' k4_def z_is_idle_thread_object_def cache_first_ready first_ready_def)
qed

lemma field_simps_abort [simp]:
  "sched_inv (k\<lparr>pending_abort := p\<rparr>) = sched_inv k" "lost (k\<lparr>pending_abort := p\<rparr>) = lost k"
  "sched_inv (k\<lparr>irqs_on := b\<rparr>) = sched_inv k" "lost (k\<lparr>irqs_on := b\<rparr>) = lost k"
  "cache_inv (k\<lparr>irqs_on := b\<rparr>) = cache_inv k"
  by (simp_all add: sched_inv_def lost_def z_is_thread_ready_def z_is_thread_timeout_active_def
      cache_inv_def first_ready_def)

lemma unlocked_fields:
  "waitqs (z_reschedule_unlocked k) = waitqs k" "unused (k\<lparr>current := c\<rparr>) t \<longleftrightarrow> t \<noteq> c \<and>
     t \<notin> set (runq k) \<and> pended_on (thrd k t) = None \<and> \<not> is_linked t (tmo k) \<and> t \<noteq> idle_thread k"
  "thread_state (thrd (z_reschedule_unlocked k) u) = thread_state (thrd k u)"
  "pended_on (thrd (z_reschedule_unlocked k) u) = pended_on (thrd k u)"
  "runq (z_reschedule_unlocked k) = runq k" "tmo (z_reschedule_unlocked k) = tmo k"
  "idle_thread (z_reschedule_unlocked k) = idle_thread k"
  "u \<noteq> current k \<Longrightarrow> swap_return_value (thrd (z_reschedule_unlocked k) u) = swap_return_value (thrd k u)"
  by (auto simp: z_reschedule_unlocked_def z_swap_def unused_def)

text \<open>A thread is gone when it is dead and in no queue.\<close>

definition gone :: "kernel \<Rightarrow> tid \<Rightarrow> bool" where
  "gone k t \<longleftrightarrow> thread_state (thrd k t) AND THREAD_DEAD \<noteq> 0 \<and> t \<notin> set (runq k) \<and>
     pended_on (thrd k t) = None \<and> \<not> is_linked t (tmo k)"

lemma gone_bit: "gone k t \<longleftrightarrow> bit (thread_state (thrd k t)) 3 \<and> t \<notin> set (runq k) \<and>
     pended_on (thrd k t) = None \<and> \<not> is_linked t (tmo k)"
  by (simp add: gone_def mask_bits)

lemma abort_other:
  assumes ok: "sched_ok k" and t: "abortable k t" and w: "pended_on (thrd k t) \<noteq> Some (jq t)"
    and c: "current k \<notin> set (waitqs k (jq t))"
  defines "k' \<equiv> z_reschedule_unlocked (z_thread_single_abort jq t k)"
  shows "sched_ok k'" and "gone k' t" and "waitqs k' (jq t) = []"
    and "u \<in> set (waitqs k (jq t)) \<Longrightarrow> swap_return_value (thrd k' u) = 0"
proof -
  have inv: "sched_inv k" "cache_inv k" "lost k = {}"
    using ok by (simp_all add: sched_ok_def)
  note a = single_abort_inv [where jq = jq, OF inv(1) t w]
  show "sched_ok k'"
    using a(1-3) inv z_reschedule_unlocked_inv [of "z_thread_single_abort jq t k"]
    by (auto simp: k'_def sched_ok_def)
  show "gone k' t" "waitqs k' (jq t) = []"
    using a(4-6) by (simp_all add: k'_def gone_bit unlocked_fields unused_def)
  show "u \<in> set (waitqs k (jq t)) \<Longrightarrow> swap_return_value (thrd k' u) = 0"
    using a(7,8) c by (metis k'_def unlocked_fields(8))
qed

lemma self_abort_step:
  assumes ok: "sched_ok k" and run: "running k"
  defines "k1 \<equiv> z_self_abort k"
  shows "sched_inv k1" and "lost k1 = {}" and "current k1 = idle_thread k" and "idle_thread k1 = idle_thread k"
    and "pending_abort k1 = Some (current k)" and "waitqs k1 = waitqs k"
    and "irqs_on k1 = irqs_on k" and "in_isr k1 = in_isr k"
    and "abortable (k1\<lparr>pending_abort := None\<rparr>) (current k)" and "pended_on (thrd k1 (current k)) = None"
proof -
  let ?t = "current k" and ?k0 = "k\<lparr>pending_abort := Some (current k), irqs_on := False\<rparr>"
  have inv: "sched_inv k" "lost k = {}"
    using ok by (simp_all add: sched_ok_def)
  note r = running_facts [OF inv(1) run]
  have inv0: "sched_inv ?k0" "lost ?k0 = {}"
    using inv by simp_all
  let ?a = "snd (z_abort_thread_timeout ?t ?k0)"
  note a = abort_timeout_inv [OF inv0(1), of ?t]
  have q: "z_is_thread_queued (thrd ?a ?t)"
    using r(5) by simp
  note d = sched_inv_dequeue [OF a(1) q]
  let ?d = "dequeue ?t ?a"
  have idle: "?t \<noteq> idle_thread ?d"
    using r(1) by (simp add: dequeue_def priq_run_remove_def)
  note m = mark_suspended_inv [OF d(1,2) idle]
  let ?m = "upd_thread ?t z_mark_thread_as_suspended ?d"
  have f: "current ?m = ?t" "pending_abort ?m = Some ?t" "idle_thread ?m = idle_thread k" "irqs_on ?m = False"
    "waitqs ?m = waitqs k" "in_isr ?m = in_isr k" "pended_on (thrd ?m ?t) = None"
    using r(2) by (simp_all add: dequeue_def priq_run_remove_def)
  have b: "bit (thread_state (thrd ?m ?t)) n \<longleftrightarrow> (bit (thread_state (thrd k ?t)) n \<and> n \<noteq> 7) \<or> n = 4"
    if "n < 8" for n
    using that by (simp add: dequeue_def priq_run_remove_def mark_bits)
  have lm: "lost ?m = {}"
    using m(2) lost_dequeue [of ?t ?a] a(2) inv0(2) by auto
  have s: "z_impl_k_thread_suspend ?t ?k0 = update_cache True ?m"
    using q f(1,4) by (simp add: z_impl_k_thread_suspend_def dequeue_def Let_def z_reschedule_unlocked_def resched_def)
  have c: "cache (update_cache True ?m) = idle_thread k" "thrd (update_cache True ?m) = thrd ?m"
    using f(2,3) by (simp_all add: update_cache_def next_up_def should_preempt_def z_reset_time_slice_def reaped_def)
  have k1: "k1 = (z_swap (update_cache True ?m))\<lparr>irqs_on := irqs_on k\<rparr>"
    by (simp add: k1_def z_self_abort_def s)
  show "sched_inv k1" "lost k1 = {}"
    using sched_inv_update_cache [OF m(1)] lost_update_cache [of True ?m] lm by (auto simp: k1 z_swap_inv)
  show "current k1 = idle_thread k" "idle_thread k1 = idle_thread k" "pending_abort k1 = Some (current k)"
    "waitqs k1 = waitqs k" "irqs_on k1 = irqs_on k" "in_isr k1 = in_isr k"
    "pended_on (thrd k1 (current k)) = None"
    using f c by (simp_all add: k1 z_swap_def)
  have st: "thread_state (thrd k1 ?t) = thread_state (thrd ?m ?t)"
    using c(2) by (simp add: k1 z_swap_def)
  show "abortable (k1\<lparr>pending_abort := None\<rparr>) (current k)"
    using r b \<open>current k1 = idle_thread k\<close> \<open>idle_thread k1 = idle_thread k\<close>
    by (simp add: abortable_def pending_bit st prevented_bits)
qed

text \<open>
  C33: Aborting a thread ends it. Aborting another thread, ready, sleeping, suspended or waiting,
  leaves it dead and in no queue, and every thread that was waiting in \<open>k_thread_join\<close> for it is taken
  off its queue with the result 0, so that a later join returns at once; the kernel stays consistent.
  A thread that aborts itself gives the processor to the idle thread, whose next turn does the same
  for it and then switches to the most urgent ready thread.
\<close>

theorem thread_abort_contract:
  assumes "sched_ok k" and "running k" and "resched k" and "idle_thread k \<notin> set (waitqs k (jq t))"
    and "if t = current k then z_impl_k_thread_abort jq t k = k1 \<and> idle_abort jq k1 = k'
      else abortable k t \<and> pended_on (thrd k t) \<noteq> Some (jq t) \<and> z_impl_k_thread_abort jq t k = k'"
  shows "sched_ok k' \<and> gone k' t \<and> waitqs k' (jq t) = [] \<and>
     (\<forall>u\<in>set (waitqs k (jq t)). swap_return_value (thrd k' u) = 0) \<and>
     (t = current k \<longrightarrow> current k1 = idle_thread k \<and> current k' = first_ready k')"
proof (cases "t = current k")
  case False
  have inv: "sched_inv k"
    using assms(1) by (simp add: sched_ok_def)
  have "current k \<notin> set (waitqs k (jq t))"
    using inv running_facts(2) [OF inv assms(2)] by (auto simp: sched_inv_def)
  moreover have t: "abortable k t" "pended_on (thrd k t) \<noteq> Some (jq t)"
    and "k' = z_reschedule_unlocked (z_thread_single_abort jq t k)"
    using False assms(5) by (simp_all add: z_impl_k_thread_abort_def)
  ultimately show ?thesis
    using abort_other [where jq = jq, OF assms(1) t] False by simp
next
  case True
  note s = self_abort_step [OF assms(1,2)]
  have k1: "k1 = z_self_abort k"
    using True assms(3,5) by (simp add: z_impl_k_thread_abort_def resched_def)
  have "idle_abort jq k1 = k'" "pending_abort k1 = Some t"
    using True assms(5) s(5) by (simp_all add: k1)
  then have k': "k' = z_reschedule_unlocked (z_thread_single_abort jq t (k1\<lparr>pending_abort := None\<rparr>))"
    by (simp add: idle_abort_def)
  let ?k2 = "k1\<lparr>pending_abort := None\<rparr>"
  have ab: "abortable ?k2 t" "pended_on (thrd ?k2 t) \<noteq> Some (jq t)" "sched_inv ?k2" "lost ?k2 = {}"
    "waitqs ?k2 = waitqs k" "current ?k2 = idle_thread ?k2" "pending_abort ?k2 = None"
    "idle_thread ?k2 = idle_thread k" "resched ?k2"
    using s True assms(3) by (simp_all add: k1 resched_def)
  note a = single_abort_inv [where jq = jq, OF ab(3,1,2)]
  let ?k3 = "z_thread_single_abort jq t ?k2"
  have cache: "cache ?k3 = first_ready ?k3"
    using a(13) ab(6,7) by blast
  have r3: "resched ?k3"
    using ab(9) a(11,12) by (simp add: resched_def)
  have "sched_ok k'"
    using a(1,2) ab(4) cache z_reschedule_unlocked_inv [of ?k3]
    by (auto simp: k' sched_ok_def cache_inv_def)
  moreover have "gone k' t" "waitqs k' (jq t) = []"
    using a(4-6) by (simp_all add: k' gone_bit unlocked_fields unused_def)
  moreover have "swap_return_value (thrd k' u) = 0" if "u \<in> set (waitqs k (jq t))" for u
  proof -
    have "u \<noteq> current ?k3"
      using that assms(4) a(8) ab(6,8) by auto
    then show ?thesis
      using a(7) [of u] that ab(5) by (simp add: k' unlocked_fields(8))
  qed
  moreover have "current k' = first_ready k'"
    using r3 cache by (simp add: k' z_reschedule_unlocked_def z_swap_def first_ready_def)
  ultimately show ?thesis
    using s(3) True by (simp add: k1)
qed

theorem thread_abort_contract_witness:
  "gone (z_impl_k_thread_abort sample_jq 4 sample_kernel) 4 \<and>
   current (z_impl_k_thread_abort sample_jq 2 sample_kernel) = 0 \<and>
   gone (idle_abort sample_jq (z_impl_k_thread_abort sample_jq 2 sample_kernel)) 2"
proof -
  have f: "resched sample_kernel" "idle_thread sample_kernel = 0" "current sample_kernel = 2"
    "idle_thread sample_kernel \<notin> set (waitqs sample_kernel w)" "pended_on (thrd sample_kernel 4) = None" for w
    by (simp_all add: sample_kernel_def resched_def)
  have "abortable sample_kernel 4"
    by (simp add: sample_kernel_def abortable_def pending_bit bit_simps)
  then have 4: "if 4 = current sample_kernel
    then z_impl_k_thread_abort sample_jq 4 sample_kernel = sample_kernel \<and>
      idle_abort sample_jq sample_kernel = z_impl_k_thread_abort sample_jq 4 sample_kernel
    else abortable sample_kernel 4 \<and> pended_on (thrd sample_kernel 4) \<noteq> Some (sample_jq 4) \<and>
      z_impl_k_thread_abort sample_jq 4 sample_kernel = z_impl_k_thread_abort sample_jq 4 sample_kernel"
    unfolding f(3) f(5) by simp
  let ?k1 = "z_impl_k_thread_abort sample_jq 2 sample_kernel"
  have 2: "if 2 = current sample_kernel
    then z_impl_k_thread_abort sample_jq 2 sample_kernel = ?k1 \<and> idle_abort sample_jq ?k1 = idle_abort sample_jq ?k1
    else abortable sample_kernel 2 \<and> pended_on (thrd sample_kernel 2) \<noteq> Some (sample_jq 2) \<and>
      z_impl_k_thread_abort sample_jq 2 sample_kernel = idle_abort sample_jq ?k1"
    unfolding f(3) by simp
  have r2: "2 = current sample_kernel"
    by (simp add: f(3))
  note c4 = thread_abort_contract [where jq = sample_jq, OF sample_kernel_ok f(1) f(4) 4]
  note c2 = thread_abort_contract [where jq = sample_jq, OF sample_kernel_ok f(1) f(4) 2]
  have "current ?k1 = 0"
    using c2 r2 unfolding f(2) by blast
  then show ?thesis
    using c4 c2 by blast
qed

subsection \<open>Join\<close>

text \<open>
  Joining a thread never makes two threads wait for each other directly: a join of the calling
  thread itself or of a thread that is waiting to join the caller fails with \<open>-EDEADLK\<close>. A dead thread
  is joined at once, a live one gives \<open>-EBUSY\<close> to a caller that does not want to wait, and otherwise
  the caller waits in the thread's own queue.
\<close>

lemma thread_join_contract:
  assumes "sched_ok k" and "running k" and "z_impl_k_thread_join jq t timeout k = (out, k')"
  shows "sched_ok k' \<and>
     (if t = current k \<or> t \<in> set (waitqs k (jq (current k))) then out = Returned (- EDEADLK) \<and> k' = k
      else if thread_state (thrd k t) AND THREAD_DEAD \<noteq> 0 then out = Returned 0 \<and> k' = k
      else if timeout = K_NO_WAIT then out = Returned (- EBUSY) \<and> k' = k
      else out = Blocked \<and> current k \<in> set (waitqs k' (jq t)) \<and> current k' = first_ready k')"
proof -
  have p: "pended_on (thrd k t) = Some w \<longleftrightarrow> t \<in> set (waitqs k w)" for w
    using assms(1) by (auto simp: sched_ok_def sched_inv_def)
  show ?thesis
    using assms(3) assms(1) z_pend_curr_ok(1,2) [OF assms(1,2), of "jq t" timeout]
      pend_curr_fields(1) [OF assms(1,2), of "jq t" timeout]
    by (auto simp: z_impl_k_thread_join_def p split: if_splits)
qed

end
