(* ===== verification/Keyboard_Init.thy ===== *)
theory Keyboard_Init
  imports Adapter Thread_Life
begin

text \<open>
  The start of the keyboard: \<open>ps2_keyboard_init\<close> of \<open>ps2_keyboard.c\<close> initialises the connector and
  creates the worker thread. \<open>W\<close> is the thread object \<open>ps2_keyboard_thread_data\<close>, \<open>w\<close> the wait queue of
  the connector's message queue, \<open>es\<close> what the environment does to the lines at each turn of the loop
  that waits for them.
\<close>

abbreviation PS2_KEYBOARD_THREAD_PRIORITY :: u8 where "PS2_KEYBOARD_THREAD_PRIORITY \<equiv> 5"

definition ps2_keyboard_start_worker_thread :: "(tid \<Rightarrow> wqid) \<Rightarrow> tid \<Rightarrow> 'h connector \<Rightarrow> 'h connector" where
  "ps2_keyboard_start_worker_thread jq W s =
     s\<lparr>kern := z_impl_k_thread_create jq W PS2_KEYBOARD_THREAD_PRIORITY K_NO_WAIT (kern s)\<rparr>"

definition ps2_keyboard_init ::
    "'h hal \<Rightarrow> (tid \<Rightarrow> wqid) \<Rightarrow> tid \<Rightarrow> wqid \<Rightarrow> (('h \<Rightarrow> 'h) \<times> ('h \<Rightarrow> 'h)) list \<Rightarrow> 'h connector \<Rightarrow>
     'h connector option" where
  "ps2_keyboard_init hal jq W w es s =
     (case ps2_connector_init hal w es s of
        None \<Rightarrow> None
      | Some s1 \<Rightarrow> Some (ps2_keyboard_start_worker_thread jq W s1))"

text \<open>The adapter whose worker is about to run for the first time.\<close>

definition started :: "'h connector \<Rightarrow> app \<Rightarrow> 'h adapter" where
  "started s a = \<lparr>conn = s, worker = ps2_hid_translator_parse_next_scancode, waiting = False, appl = a\<rparr>"

lemma start_worker:
  assumes "attached hal r s" and "rx_ready s" and "sched_ok (kern s)" and "unused (kern s) W"
    and "waitqs (kern s) (jq W) = []" and "\<not> in_isr (kern s)"
  defines "s' \<equiv> ps2_keyboard_start_worker_thread jq W s"
  shows "adapter_ready hal r (started s' a)" and "W \<in> set (runq (kern s'))"
    and "prio (thrd (kern s') W) = 5"
proof -
  note c = create_now [where jq = jq and p = PS2_KEYBOARD_THREAD_PRIORITY, OF assms(3-5)]
  have k: "s' = s\<lparr>kern := z_impl_k_thread_create jq W PS2_KEYBOARD_THREAD_PRIORITY K_NO_WAIT (kern s)\<rparr>"
    by (simp add: s'_def ps2_keyboard_start_worker_thread_def)
  have "attached hal r s'"
    using assms(1) by (simp add: k attached_def gpiote_inv_def)
  moreover have "rx_ready s'"
    using assms(2) c(4) by (simp add: k rx_ready_def receiving_def)
  ultimately show "adapter_ready hal r (started s' a)"
    using c(1,7) assms(6) by (simp add: adapter_ready_def started_def k)
  show "W \<in> set (runq (kern s'))" "prio (thrd (kern s') W) = 5"
    using c(2,3) by (simp_all add: k prio_def)
qed

lemma keyboard_init_gives:
  assumes "ps2_connector_init hal w es s = Some s1" and "attached hal r s1" and "rx_ready s1"
    and "kern s1 = (kern s)\<lparr>waitqs := (waitqs (kern s))(w := [])\<rparr>"
    and "sched_ok (kern s)" and "waitqs (kern s) w = []" and "unused (kern s) W"
    and "waitqs (kern s) (jq W) = []" and "\<not> in_isr (kern s)"
  shows "\<exists>s'. ps2_keyboard_init hal jq W w es s = Some s' \<and> adapter_ready hal r (started s' a) \<and>
     W \<in> set (runq (kern s')) \<and> prio (thrd (kern s') W) = 5"
proof -
  have k: "kern s1 = kern s"
    using assms(4,6) by (simp add: waitqs_idem)
  show ?thesis
    using start_worker [where jq = jq, OF assms(2,3)] assms(1,5,7-9)
    by (simp add: ps2_keyboard_init_def k)
qed

text \<open>
  C26: \<open>ps2_keyboard_init\<close> makes the keyboard ready. It ends as soon as the environment gives one turn
  of its waiting loop in which both lines are high, and afterwards the receiver is attached to the
  falling edge of the clock line, its queue is empty, the scheduler is consistent, and the worker
  thread is in the ready queue at its priority, about to parse the first scan code: the state from
  which keystrokes reach the report.
\<close>

theorem keyboard_init_ready:
  assumes "hal_ok hal r" and "gpiote_inv hal r s" and "quiet hal (r (hw s))"
    and "i < GPIOTE_CH_NUM hal" and "\<not> bit (inten (r (hw s))) i"
    and "callbacks (port_data s PS2_PORT) = []" and "current_bit_no s = 0"
    and "\<forall>e\<in>set es. env_ok r (fst e) \<and> env_ok r (snd e)" and "\<exists>e\<in>set es. lines_high hal e"
    and "sched_ok (kern s)" and "waitqs (kern s) w = []" and "unused (kern s) W"
    and "waitqs (kern s) (jq W) = []" and "\<not> in_isr (kern s)"
  shows "\<exists>s'. ps2_keyboard_init hal jq W w es s = Some s' \<and> adapter_ready hal r (started s' a) \<and>
     W \<in> set (runq (kern s')) \<and> prio (thrd (kern s') W) = 5"
proof -
  obtain s1 where "ps2_connector_init hal w es s = Some s1" "attached hal r s1" "rx_ready s1"
    "kern s1 = (kern s)\<lparr>waitqs := (waitqs (kern s))(w := [])\<rparr>"
    using connector_init_ready [OF assms(1-9), of w] by blast
  from keyboard_init_gives [where jq = jq, OF this assms(10-14)] show ?thesis .
qed

theorem keyboard_init_ready_witness:
  "\<exists>s'. ps2_keyboard_init chip_hal sample_jq 7 9 [(id, id), (raise_lines, id), (raise_lines, raise_lines)]
       (idle_connector (reset_regs, \<lambda>_. 0) sample_kernel) = Some s' \<and>
     adapter_ready chip_hal fst (started s' \<lparr>key_report = empty_report, hog_of = boot_hog []\<rparr>) \<and>
     7 \<in> set (runq (kern s'))"
proof -
  let ?s = "idle_connector (reset_regs, \<lambda>_. 0 :: u32) sample_kernel"
    and ?es = "[(id, id), (raise_lines, id), (raise_lines, raise_lines)]"
  have h: "gpiote_inv chip_hal fst ?s" "quiet chip_hal (fst (hw ?s))" "0 < GPIOTE_CH_NUM chip_hal"
    "\<not> bit (inten (fst (hw ?s))) 0" "callbacks (port_data ?s PS2_PORT) = []" "current_bit_no ?s = 0"
    by (simp_all add: idle_connector_def gpiote_inv_def quiet_def reset_regs_def channel_on_def chip_channels)
  have e: "\<forall>e\<in>set ?es. env_ok fst (fst e) \<and> env_ok fst (snd e)" "\<exists>e\<in>set ?es. lines_high chip_hal e"
    by (auto simp: env_ok_def raise_lines_def lines_high_def chip_hal_def bit_or_iff)
  have k: "kern ?s = sample_kernel"
    by (simp add: idle_connector_def)
  have w: "waitqs (kern ?s) u = []" "unused (kern ?s) 7" "\<not> in_isr (kern ?s)" "sched_ok (kern ?s)" for u
    unfolding k using sample_kernel_ok(1) by (simp_all add: sample_kernel_def unused_def is_linked_def)
  from keyboard_init_ready [where jq = sample_jq and w = 9, OF chip_hal_ok h e w(4,1,2,1,3)] show ?thesis
    by blast
qed

end
