(* ===== verification/Sem.thy ===== *)
theory Sem
  imports Wait_Object
begin

text \<open>
  Semaphores: \<open>kernel/sem.c\<close> and the inline functions of \<open>include/kernel.h\<close>. The count and the limit
  are 32-bit words. \<open>z_impl_k_sem_take\<close> is the part of the call up to the context switch; a thread
  that was blocked returns with \<open>sem_take_resumed\<close>, the value \<open>z_pend_curr\<close> gives it.
\<close>

record k_sem =
  sem_wait_q :: wqid
  sem_count :: u32
  sem_limit :: u32

definition z_impl_k_sem_init :: "u32 \<Rightarrow> u32 \<Rightarrow> k_sem \<Rightarrow> kernel \<Rightarrow> int \<times> k_sem \<times> kernel" where
  "z_impl_k_sem_init initial_count limit sem k =
     (if limit = 0 \<or> initial_count > limit then (- EINVAL, sem, k)
      else (0, sem\<lparr>sem_count := initial_count, sem_limit := limit\<rparr>,
            k\<lparr>waitqs := (waitqs k)(sem_wait_q sem := [])\<rparr>))"

definition z_impl_k_sem_give :: "k_sem \<Rightarrow> kernel \<Rightarrow> k_sem \<times> kernel" where
  "z_impl_k_sem_give sem k =
     (case z_unpend_first_thread (sem_wait_q sem) k of
        (Some t, k1) \<Rightarrow>
          (sem, z_reschedule (z_ready_thread t (arch_thread_return_value_set t 0 k1)))
      | (None, k1) \<Rightarrow>
          (sem\<lparr>sem_count := sem_count sem + (if sem_count sem \<noteq> sem_limit sem then 1 else 0)\<rparr>,
           z_reschedule k1))"

definition z_impl_k_sem_take :: "int \<Rightarrow> k_sem \<Rightarrow> kernel \<Rightarrow> outcome \<times> k_sem \<times> kernel" where
  "z_impl_k_sem_take timeout sem k =
     (if sem_count sem > 0 then (Returned 0, sem\<lparr>sem_count := sem_count sem - 1\<rparr>, k)
      else if timeout = K_NO_WAIT then (Returned (- EBUSY), sem, k)
      else (Blocked, sem, z_pend_curr (sem_wait_q sem) timeout k))"

definition sem_take_resumed :: "tid \<Rightarrow> kernel \<Rightarrow> int" where
  "sem_take_resumed t k = swap_return_value (thrd k t)"

definition z_impl_k_sem_reset :: "k_sem \<Rightarrow> k_sem" where
  "z_impl_k_sem_reset sem = sem\<lparr>sem_count := 0\<rparr>"

definition z_impl_k_sem_count_get :: "k_sem \<Rightarrow> u32" where
  "z_impl_k_sem_count_get sem = sem_count sem"

subsection \<open>The semaphore as an object with a wait queue\<close>

definition sem_inv :: "k_sem \<Rightarrow> bool" where
  "sem_inv sem \<longleftrightarrow> sem_count sem \<le> sem_limit sem \<and> 0 < sem_limit sem"

definition sem_units :: "k_sem \<Rightarrow> unit multiset" where
  "sem_units sem = replicate_mset (unat (sem_count sem)) ()"

definition sem_give_op :: "unit \<Rightarrow> k_sem \<Rightarrow> kernel \<Rightarrow> k_sem \<times> kernel" where
  "sem_give_op u = z_impl_k_sem_give"

definition sem_take_op :: "int \<Rightarrow> k_sem \<Rightarrow> kernel \<Rightarrow> outcome \<times> unit option \<times> k_sem \<times> kernel" where
  "sem_take_op n sem k =
     (case z_impl_k_sem_take n sem k of (out, sem', k') \<Rightarrow>
        (out, if out = Returned 0 then Some () else None, sem', k'))"

definition sem_below_limit :: "unit \<Rightarrow> k_sem \<Rightarrow> bool" where
  "sem_below_limit u sem \<longleftrightarrow> sem_count sem < sem_limit sem"

definition sem_got :: "unit \<Rightarrow> thread \<Rightarrow> bool" where
  "sem_got u t \<longleftrightarrow> swap_return_value t = 0"

lemma sem_give_waiter:
  assumes "waitqs k (sem_wait_q sem) = t # ts"
  shows "z_impl_k_sem_give sem k =
     (sem, z_reschedule (wake t 0 (snd (z_unpend_first_thread (sem_wait_q sem) k))))"
  by (simp add: z_impl_k_sem_give_def unpend_first_Some [OF assms] wake_def)

lemma sem_give_free:
  assumes "waitqs k (sem_wait_q sem) = []"
  shows "z_impl_k_sem_give sem k =
     (sem\<lparr>sem_count := sem_count sem + (if sem_count sem \<noteq> sem_limit sem then 1 else 0)\<rparr>, z_reschedule k)"
  by (simp add: z_impl_k_sem_give_def unpend_first_None(2) [OF assms])

interpretation sem: wait_object sem_give_op sem_take_op sem_below_limit "(=)" sem_wait_q sem_units
    sem_inv sem_got
proof
  fix ob ob' :: k_sem and d k t ts k'
  assume "sched_ok k" and w: "waitqs k (sem_wait_q ob) = t # ts" and "sem_give_op d ob k = (ob', k')"
  then have k': "ob' = ob" "k' = z_reschedule (wake t 0 (snd (z_unpend_first_thread (sem_wait_q ob) k)))"
    by (auto simp: sem_give_op_def sem_give_waiter)
  have inv: "sched_inv k"
    using \<open>sched_ok k\<close> by (simp add: sched_ok_def)
  have "sched_ok k'"
    using wake_first_ok [OF \<open>sched_ok k\<close> w, of 0] by (simp add: k' wake_def sched_ok_reschedule)
  then show "ob' = ob \<and> sched_ok k' \<and> waitqs k' = (waitqs k)(sem_wait_q ob := ts) \<and>
      (t \<noteq> current k \<or> in_isr k \<longrightarrow> sem_got d (thrd k' t))"
    by (auto simp: k' unpended_fields [OF inv w] sem_got_def)
next
  fix ob ob' :: k_sem and d k k'
  assume "sem_inv ob" "sem_below_limit d ob" "sched_ok k" "waitqs k (sem_wait_q ob) = []"
    "sem_give_op d ob k = (ob', k')"
  then show "sem_inv ob' \<and> sem_wait_q ob' = sem_wait_q ob \<and> sem_units ob' = add_mset d (sem_units ob) \<and>
      sched_ok k' \<and> waitqs k' = waitqs k"
    by (auto simp: sem_give_op_def sem_give_free sem_below_limit_def sem_inv_def sem_units_def
        sched_ok_reschedule unat_plus_one plus_one_le)
next
  fix ob ob' :: k_sem and n out r k k'
  assume "sem_inv ob" and u: "sem_units ob \<noteq> {#}" and "sem_take_op n ob k = (out, r, ob', k')"
  then have *: "out = Returned 0" "r = Some ()" "ob' = ob\<lparr>sem_count := sem_count ob - 1\<rparr>" "k' = k"
    "sem_count ob > 0"
    by (auto simp: sem_take_op_def z_impl_k_sem_take_def sem_units_def unat_gt_0 word_neq_0_conv
        split: if_splits)
  have "unat (sem_count ob) = Suc (unat (sem_count ob - 1))"
    using *(5) by (simp add: unat_less_one)
  moreover have "sem_count ob - 1 \<le> sem_limit ob"
    using \<open>sem_inv ob\<close> *(5) by (simp add: sem_inv_def minus_one_le)
  ultimately show "out = Returned 0 \<and> (\<exists>d. r = Some d \<and> sem_units ob = add_mset d (sem_units ob')) \<and>
      sem_inv ob' \<and> sem_wait_q ob' = sem_wait_q ob \<and> k' = k"
    using \<open>sem_inv ob\<close> by (simp add: *(1-4) sem_units_def sem_inv_def)
next
  fix ob ob' :: k_sem and n out r k k'
  assume "sem_inv ob" "sem_units ob = {#}" "sem_take_op n ob k = (out, r, ob', k')"
  then show "r = None \<and> ob' = ob \<and>
      (if n = K_NO_WAIT then (\<exists>e. out = Returned e \<and> e < 0) \<and> k' = k
       else out = Blocked \<and> k' = z_pend_curr (sem_wait_q ob) n k)"
    by (auto simp: sem_take_op_def z_impl_k_sem_take_def sem_units_def unat_eq_0 split: if_splits)
qed auto

subsection \<open>Properties\<close>

lemma sem_give_at_limit:
  assumes "waitqs k (sem_wait_q sem) = []" and "sem_count sem = sem_limit sem"
  shows "z_impl_k_sem_give sem k = (sem, z_reschedule k)"
  by (simp add: sem_give_free [OF assms(1)] assms(2))

lemma sem_reset_inv: "sem_inv sem \<Longrightarrow> sem_inv (z_impl_k_sem_reset sem)"
  by (simp add: sem_inv_def z_impl_k_sem_reset_def)

lemma sem_take_woken:
  assumes "wait_inv sem_inv sem_units sem_wait_q sem k" and "running k \<or> in_isr k"
    and "waitqs k (sem_wait_q sem) = t # ts" and "z_impl_k_sem_give sem k = (sem', k')"
  shows "sem' = sem \<and> waitqs k' (sem_wait_q sem) = ts \<and> sem_take_resumed t k' = 0"
proof -
  have "sem_below_limit () sem"
    using assms(1,3) by (auto simp: wait_inv_def sem_units_def sem_below_limit_def sem_inv_def unat_eq_0)
  from sem.handed_over [OF assms(1) this assms(2,3)] assms(4) show ?thesis
    by (simp add: sem_give_op_def sem_got_def sem_take_resumed_def)
qed

lemma sem_init_wait_inv:
  assumes "z_impl_k_sem_init n limit sem k = (0, sem', k')" and "sched_ok k"
    and "waitqs k (sem_wait_q sem) = []"
  shows "wait_inv sem_inv sem_units sem_wait_q sem' k'" and "unat (sem_count sem') = unat n"
    and "sem_limit sem' = limit"
proof -
  have *: "limit \<noteq> 0" "n \<le> limit" "sem' = sem\<lparr>sem_count := n, sem_limit := limit\<rparr>"
    "k' = k\<lparr>waitqs := (waitqs k)(sem_wait_q sem := [])\<rparr>"
    using assms(1) by (auto simp: z_impl_k_sem_init_def not_less split: if_splits)
  then have "k' = k"
    using assms(3) by (simp add: fun_upd_idem)
  then show "wait_inv sem_inv sem_units sem_wait_q sem' k'" "unat (sem_count sem') = unat n"
    "sem_limit sem' = limit"
    using * assms(2,3) by (simp_all add: wait_inv_def sem_inv_def word_neq_0_conv)
qed

lemma sem_limit_kept:
  assumes "wait_run sem_give_op sem_take_op sem_below_limit (=) sem_wait_q sem k gs ts sem' k'"
  shows "sem_limit sem' = sem_limit sem"
  using assms
  by (induction rule: wait_run.induct)
     (auto simp: sem_give_op_def sem_take_op_def z_impl_k_sem_give_def z_impl_k_sem_take_def
       split: prod.splits option.splits if_splits)


definition sample_sem :: k_sem where
  "sample_sem = \<lparr>sem_wait_q = 9, sem_count = 0, sem_limit = 0\<rparr>"


end
