(* ===== verification/Stack.thy ===== *)
theory Stack
  imports Wait_Object
begin

text \<open>
  Kernel stacks: \<open>kernel/stack.c\<close>. The three pointers are addresses of entries (NULL is 0) and
  \<open>stk_mem\<close> is the memory they point into. \<open>z_thread_malloc\<close> is the parameter \<open>alloc\<close>, from a size in
  bytes to an address. \<open>z_impl_k_stack_pop\<close> is the call up to the context switch; a thread that was
  blocked goes on with \<open>stack_pop_resumed\<close>.
\<close>

record k_stack =
  stk_wait_q :: wqid
  stk_base :: nat
  stk_next :: nat
  stk_top :: nat
  stk_flags :: u8
  stk_mem :: "nat \<Rightarrow> u32"

abbreviation K_STACK_FLAG_ALLOC :: u8 where "K_STACK_FLAG_ALLOC \<equiv> 1"

definition k_stack_init :: "nat \<Rightarrow> u32 \<Rightarrow> k_stack \<Rightarrow> kernel \<Rightarrow> k_stack \<times> kernel" where
  "k_stack_init buf num_entries st k =
     (st\<lparr>stk_base := buf, stk_next := buf, stk_top := buf + unat num_entries\<rparr>,
      k\<lparr>waitqs := (waitqs k)(stk_wait_q st := [])\<rparr>)"

definition z_impl_k_stack_alloc_init ::
    "(u32 \<Rightarrow> nat option) \<Rightarrow> u32 \<Rightarrow> k_stack \<Rightarrow> kernel \<Rightarrow> int \<times> k_stack \<times> kernel" where
  "z_impl_k_stack_alloc_init alloc num_entries st k =
     (case alloc (num_entries * 4) of
        Some buf \<Rightarrow>
          (case k_stack_init buf num_entries st k of (st1, k1) \<Rightarrow>
             (0, st1\<lparr>stk_flags := K_STACK_FLAG_ALLOC\<rparr>, k1))
      | None \<Rightarrow> (- ENOMEM, st, k))"

definition k_stack_cleanup :: "k_stack \<Rightarrow> kernel \<Rightarrow> int \<times> k_stack" where
  "k_stack_cleanup st k =
     (if waitqs k (stk_wait_q st) \<noteq> [] then (- EAGAIN, st)
      else (0, if stk_flags st AND K_STACK_FLAG_ALLOC \<noteq> 0
               then st\<lparr>stk_base := 0, stk_flags := stk_flags st AND NOT K_STACK_FLAG_ALLOC\<rparr> else st))"

definition z_impl_k_stack_push :: "u32 \<Rightarrow> k_stack \<Rightarrow> kernel \<Rightarrow> int \<times> k_stack \<times> kernel" where
  "z_impl_k_stack_push data st k =
     (if stk_next st = stk_top st then (- ENOMEM, st, k)
      else case z_unpend_first_thread (stk_wait_q st) k of
             (Some t, k1) \<Rightarrow>
               (0, st, z_reschedule (z_thread_return_value_set_with_data t 0 data (z_ready_thread t k1)))
           | (None, k1) \<Rightarrow>
               (0, st\<lparr>stk_mem := (stk_mem st)(stk_next st := data), stk_next := stk_next st + 1\<rparr>, k1))"

definition z_impl_k_stack_pop ::
    "int \<Rightarrow> k_stack \<Rightarrow> kernel \<Rightarrow> outcome \<times> u32 option \<times> k_stack \<times> kernel" where
  "z_impl_k_stack_pop timeout st k =
     (if stk_next st > stk_base st
      then (Returned 0, Some (stk_mem st (stk_next st - 1)), st\<lparr>stk_next := stk_next st - 1\<rparr>, k)
      else if timeout = K_NO_WAIT then (Returned (- EBUSY), None, st, k)
      else (Blocked, None, st, z_pend_curr (stk_wait_q st) timeout k))"

definition stack_pop_resumed :: "tid \<Rightarrow> kernel \<Rightarrow> int \<times> u32 option" where
  "stack_pop_resumed t k =
     (if swap_return_value (thrd k t) = - EAGAIN then (- EAGAIN, None)
      else (0, Some (swap_word (thrd k t))))"

subsection \<open>The stack as a list\<close>

definition stack_inv :: "k_stack \<Rightarrow> bool" where
  "stack_inv st \<longleftrightarrow> stk_base st \<le> stk_next st \<and> stk_next st \<le> stk_top st"

text \<open>The entries, the most recent first.\<close>

definition entries :: "k_stack \<Rightarrow> u32 list" where
  "entries st = rev (map (stk_mem st) [stk_base st..<stk_next st])"

lemma entries_push:
  assumes "stack_inv st"
  shows "entries (st\<lparr>stk_mem := (stk_mem st)(stk_next st := d), stk_next := stk_next st + 1\<rparr>) =
     d # entries st"
  using assms by (simp add: entries_def stack_inv_def)

lemma entries_pop:
  assumes "stk_base st < stk_next st"
  shows "entries st = stk_mem st (stk_next st - 1) # entries (st\<lparr>stk_next := stk_next st - 1\<rparr>)"
proof -
  obtain n where n: "stk_next st = Suc n" "stk_base st \<le> n"
    using assms by (cases "stk_next st") auto
  then show ?thesis
    by (simp add: entries_def)
qed

lemma entries_Nil: "stack_inv st \<Longrightarrow> entries st = [] \<longleftrightarrow> \<not> stk_base st < stk_next st"
  by (auto simp: entries_def stack_inv_def)

lemma length_entries: "length (entries st) = stk_next st - stk_base st"
  by (simp add: entries_def)

subsection \<open>The stack as an object with a wait queue\<close>

definition stack_units :: "k_stack \<Rightarrow> u32 multiset" where
  "stack_units st = mset (entries st)"

definition stack_room :: "u32 \<Rightarrow> k_stack \<Rightarrow> bool" where
  "stack_room d st \<longleftrightarrow> stk_next st \<noteq> stk_top st"

definition stack_give_op :: "u32 \<Rightarrow> k_stack \<Rightarrow> kernel \<Rightarrow> k_stack \<times> kernel" where
  "stack_give_op d st k = snd (z_impl_k_stack_push d st k)"

definition stack_got :: "u32 \<Rightarrow> thread \<Rightarrow> bool" where
  "stack_got d t \<longleftrightarrow> swap_return_value t = 0 \<and> swap_word t = d"

lemma push_waiter:
  assumes "sched_ok k" and w: "waitqs k (stk_wait_q st) = t # ts" and "stk_next st \<noteq> stk_top st"
    and "z_impl_k_stack_push d st k = (r, st', k')"
  shows "r = 0 \<and> st' = st \<and> sched_ok k' \<and> waitqs k' = (waitqs k)(stk_wait_q st := ts)"
    and "t \<noteq> current k \<or> in_isr k \<Longrightarrow> stack_got d (thrd k' t)"
proof -
  let ?k1 = "snd (z_unpend_first_thread (stk_wait_q st) k)"
  have inv: "sched_inv k"
    using assms(1) by (simp add: sched_ok_def)
  have "z_impl_k_stack_push d st k =
      (0, st, z_reschedule (z_thread_return_value_set_with_data t 0 d (z_ready_thread t ?k1)))"
    using assms(3) by (simp add: z_impl_k_stack_push_def unpend_first_Some [OF w])
  with assms(4) have k': "r = 0" "st' = st"
      "k' = z_reschedule (z_thread_return_value_set_with_data t 0 d (z_ready_thread t ?k1))"
    by auto
  show "r = 0 \<and> st' = st \<and> sched_ok k' \<and> waitqs k' = (waitqs k)(stk_wait_q st := ts)"
    using wake_first_plain_ok [OF assms(1) w]
    by (simp add: k' sched_ok_reschedule return_value_harmless unpended_fields [OF inv w])
  show "t \<noteq> current k \<or> in_isr k \<Longrightarrow> stack_got d (thrd k' t)"
    by (simp add: k' stack_got_def return_value_harmless unpended_fields [OF inv w])
       (simp add: z_thread_return_value_set_with_data_def arch_thread_return_value_set_def)
qed

lemma push_stores:
  assumes "waitqs k (stk_wait_q st) = []" and "stk_next st \<noteq> stk_top st"
  shows "z_impl_k_stack_push d st k =
     (0, st\<lparr>stk_mem := (stk_mem st)(stk_next st := d), stk_next := stk_next st + 1\<rparr>, k)"
  using assms by (simp add: z_impl_k_stack_push_def unpend_first_None(2))

interpretation stack: wait_object stack_give_op z_impl_k_stack_pop stack_room "(=)" stk_wait_q
    stack_units stack_inv stack_got
proof
  fix ob ob' :: k_stack and d k t ts k'
  assume "stack_room d ob" "sched_ok k" and w: "waitqs k (stk_wait_q ob) = t # ts"
    and g: "stack_give_op d ob k = (ob', k')"
  then obtain r where "z_impl_k_stack_push d ob k = (r, ob', k')"
    by (cases "z_impl_k_stack_push d ob k") (auto simp: stack_give_op_def)
  with push_waiter [OF \<open>sched_ok k\<close> w _ this] \<open>stack_room d ob\<close>
  show "ob' = ob \<and> sched_ok k' \<and> waitqs k' = (waitqs k)(stk_wait_q ob := ts) \<and>
      (t \<noteq> current k \<or> in_isr k \<longrightarrow> stack_got d (thrd k' t))"
    by (auto simp: stack_room_def)
next
  fix ob ob' :: k_stack and d k k'
  assume inv: "stack_inv ob" and "stack_room d ob" "sched_ok k" "waitqs k (stk_wait_q ob) = []"
    "stack_give_op d ob k = (ob', k')"
  then show "stack_inv ob' \<and> stk_wait_q ob' = stk_wait_q ob \<and>
      stack_units ob' = add_mset d (stack_units ob) \<and> sched_ok k' \<and> waitqs k' = waitqs k"
    using entries_push [OF inv, of d]
    by (auto simp: stack_give_op_def push_stores stack_room_def stack_units_def stack_inv_def)
next
  fix ob ob' :: k_stack and n out r k k'
  assume "stack_inv ob" "stack_units ob \<noteq> {#}" "z_impl_k_stack_pop n ob k = (out, r, ob', k')"
  then show "out = Returned 0 \<and> (\<exists>d. r = Some d \<and> stack_units ob = add_mset d (stack_units ob')) \<and>
      stack_inv ob' \<and> stk_wait_q ob' = stk_wait_q ob \<and> k' = k"
    using entries_pop [of ob]
    by (auto simp: stack_units_def entries_Nil z_impl_k_stack_pop_def stack_inv_def)
next
  fix ob ob' :: k_stack and n out r k k'
  assume "stack_inv ob" "stack_units ob = {#}" "z_impl_k_stack_pop n ob k = (out, r, ob', k')"
  then show "r = None \<and> ob' = ob \<and>
      (if n = K_NO_WAIT then (\<exists>e. out = Returned e \<and> e < 0) \<and> k' = k
       else out = Blocked \<and> k' = z_pend_curr (stk_wait_q ob) n k)"
    by (auto simp: stack_units_def entries_Nil z_impl_k_stack_pop_def)
qed auto

subsection \<open>Properties\<close>

text \<open>
  The number of bytes asked for is computed in 32 bits without a check for overflow: the block is
  large enough for the entries exactly when there are fewer than \<open>2 ^ 30\<close> of them.
\<close>

lemma stack_alloc_size: "4 * unat n \<le> unat (n * 4 :: u32) \<longleftrightarrow> unat n < 2 ^ 30"
proof -
  have m: "unat (n * 4) = (unat n * 4) mod 2 ^ 32"
    by (simp add: unat_word_ariths)
  show ?thesis
  proof (cases "unat n < 2 ^ 30")
    case True
    then show ?thesis by (simp add: m)
  next
    case False
    have "unat (n * 4) < 2 ^ 32"
      by (rule u32_bound)
    with False show ?thesis by simp
  qed
qed

lemma stack_alloc_init_overflow:
  assumes "alloc 4 = Some p"
  shows "z_impl_k_stack_alloc_init alloc 0x40000001 st k =
     (0, st\<lparr>stk_base := p, stk_next := p, stk_top := p + 0x40000001, stk_flags := 1\<rparr>,
      k\<lparr>waitqs := (waitqs k)(stk_wait_q st := [])\<rparr>)"
proof -
  have "(0x40000001 * 4 :: u32) = 4"
    by code_simp
  with assms show ?thesis
    by (simp only: z_impl_k_stack_alloc_init_def k_stack_init_def) simp
qed

text \<open>
  C31: A kernel stack is a list with its top first. A push onto a full stack fails and changes
  nothing; when a thread waits, the value goes to the longest waiting of the most urgent threads,
  whose call returns it; otherwise it becomes the new top. A pop returns the top and removes it; on an
  empty stack it fails or blocks the caller. Every call leaves the kernel and the stack consistent,
  and no thread waits while there are entries.
\<close>

theorem stack_contract:
  assumes "wait_inv stack_inv stack_units stk_wait_q st k" and "running k \<or> in_isr k \<and> n = K_NO_WAIT"
  shows "(case z_impl_k_stack_push d st k of (r, st', k') \<Rightarrow>
       wait_inv stack_inv stack_units stk_wait_q st' k' \<and>
       (if stk_next st = stk_top st then r = - ENOMEM \<and> st' = st \<and> k' = k
        else r = 0 \<and>
          (case waitqs k (stk_wait_q st) of
             [] \<Rightarrow> entries st' = d # entries st \<and> k' = k
           | t # ts \<Rightarrow> st' = st \<and> waitqs k' (stk_wait_q st) = ts \<and>
               stack_pop_resumed t k' = (0, Some d)))) \<and>
     (case z_impl_k_stack_pop n st k of (out, r, st', k') \<Rightarrow>
       wait_inv stack_inv stack_units stk_wait_q st' k' \<and>
       (case entries st of
          x # xs \<Rightarrow> out = Returned 0 \<and> r = Some x \<and> entries st' = xs \<and> k' = k
        | [] \<Rightarrow> r = None \<and> st' = st \<and>
            (if n = K_NO_WAIT then out = Returned (- EBUSY) \<and> k' = k
             else out = Blocked \<and> current k \<in> set (waitqs k' (stk_wait_q st)))))"
    (is "?push \<and> ?pop")
proof
  have ok: "sched_ok k" "stack_inv st" and run: "running k \<or> in_isr k"
    using assms by (auto simp: wait_inv_def)
  obtain r st' k' where p: "z_impl_k_stack_push d st k = (r, st', k')"
    by (cases "z_impl_k_stack_push d st k") auto
  show ?push
  proof (cases "stk_next st = stk_top st")
    case True
    then show ?thesis
      using assms(1) by (simp add: z_impl_k_stack_push_def)
  next
    case False
    then have g: "stack_room d st" "stack_give_op d st k = (st', k')"
      by (simp_all add: stack_room_def stack_give_op_def p)
    have inv: "wait_inv stack_inv stack_units stk_wait_q st' k'"
      using stack.give_step(1) [OF assms(1) g] .
    show ?thesis
    proof (cases "waitqs k (stk_wait_q st)")
      case Nil
      then show ?thesis
        using inv False entries_push [OF ok(2), of d] p by (simp add: push_stores)
    next
      case (Cons t ts)
      from stack.handed_over [OF assms(1) g(1) run Cons g(2)]
        push_waiter(1) [OF ok(1) Cons False p] show ?thesis
        using inv False Cons p by (simp add: stack_got_def stack_pop_resumed_def)
    qed
  qed
next
  have ok: "sched_ok k" "stack_inv st"
    using assms by (auto simp: wait_inv_def)
  obtain out r st' k' where p: "z_impl_k_stack_pop n st k = (out, r, st', k')"
    by (cases "z_impl_k_stack_pop n st k") auto
  have inv: "wait_inv stack_inv stack_units stk_wait_q st' k'"
    using stack.take_step(1) [OF assms p] .
  show ?pop
  proof (cases "stk_base st < stk_next st")
    case True
    then show ?thesis
      using inv p entries_pop [OF True] by (simp add: z_impl_k_stack_pop_def)
  next
    case False
    then have "entries st = []"
      by (simp add: entries_Nil [OF ok(2)])
    moreover have "n \<noteq> K_NO_WAIT \<Longrightarrow> running k"
      using assms(2) by auto
    ultimately show ?thesis
      using inv p False pend_curr_fields(1) [OF ok(1), of "stk_wait_q st" n]
      by (auto simp: z_impl_k_stack_pop_def split: if_splits)
  qed
qed

definition sample_stack :: k_stack where
  "sample_stack = \<lparr>stk_wait_q = 9, stk_base = 100, stk_next = 101, stk_top = 102, stk_flags = 0,
     stk_mem = (\<lambda>_. 7)\<rparr>"

theorem stack_contract_witness:
  "entries (fst (snd (z_impl_k_stack_push 8 sample_stack sample_kernel))) = [8, 7] \<and>
   fst (snd (z_impl_k_stack_pop K_FOREVER sample_stack sample_kernel)) = Some 7"
proof -
  have e: "entries sample_stack = [7]"
    by (simp add: entries_def sample_stack_def upt_rec)
  have w: "waitqs sample_kernel (stk_wait_q sample_stack) = []"
    by (simp add: sample_kernel_def)
  have "wait_inv stack_inv stack_units stk_wait_q sample_stack sample_kernel"
    using sample_kernel_ok(1) w by (simp add: wait_inv_def stack_inv_def sample_stack_def)
  from stack_contract [OF this, of K_FOREVER 8] e w sample_kernel_ok(2) show ?thesis
    by (simp add: sample_stack_def split: prod.splits)
qed

end
