(* ===== verification/Mem_Slab.thy ===== *)
theory Mem_Slab
  imports Wait_Object
begin

text \<open>
  Memory slabs: \<open>kernel/mem_slab.c\<close>. A slab cuts a buffer into blocks of one size; the free blocks
  form a list linked through the first word of each block. The memory is an explicit store from
  addresses to words, so that the links of the list and what the owners of allocated blocks write
  share one memory. NULL is 0. \<open>k_mem_slab_alloc\<close> is the call up to the context switch and returns
  what it writes to \<open>*mem\<close>, if anything; a blocked thread goes on with \<open>slab_alloc_resumed\<close>.
\<close>

type_synonym store = "u32 \<Rightarrow> u32"

record k_mem_slab =
  ms_wait_q :: wqid
  num_blocks :: u32
  block_size :: u32
  ms_buffer :: u32
  free_list :: u32
  num_used :: u32

fun free_list_loop :: "nat \<Rightarrow> u32 \<Rightarrow> u32 \<Rightarrow> u32 \<Rightarrow> store \<Rightarrow> u32 \<times> store" where
  "free_list_loop 0 p sz head \<sigma> = (head, \<sigma>)"
| "free_list_loop (Suc j) p sz head \<sigma> = free_list_loop j (p + sz) sz p (\<sigma>(p := head))"

definition create_free_list :: "k_mem_slab \<Rightarrow> store \<Rightarrow> int \<times> k_mem_slab \<times> store" where
  "create_free_list slab \<sigma> =
     (if (block_size slab OR ms_buffer slab) AND (4 - 1) \<noteq> 0 then (- EINVAL, slab, \<sigma>)
      else case free_list_loop (unat (num_blocks slab)) (ms_buffer slab) (block_size slab) 0 \<sigma> of
             (head, \<sigma>') \<Rightarrow> (0, slab\<lparr>free_list := head\<rparr>, \<sigma>'))"

definition k_mem_slab_init ::
    "u32 \<Rightarrow> u32 \<Rightarrow> u32 \<Rightarrow> k_mem_slab \<Rightarrow> store \<Rightarrow> kernel \<Rightarrow> int \<times> k_mem_slab \<times> store \<times> kernel" where
  "k_mem_slab_init buf sz n slab \<sigma> k =
     (case create_free_list (slab\<lparr>num_blocks := n, block_size := sz, ms_buffer := buf, num_used := 0\<rparr>) \<sigma> of
        (rc, slab1, \<sigma>1) \<Rightarrow>
          if rc < 0 then (rc, slab1, \<sigma>1, k)
          else (rc, slab1, \<sigma>1, k\<lparr>waitqs := (waitqs k)(ms_wait_q slab := [])\<rparr>))"

definition k_mem_slab_alloc ::
    "int \<Rightarrow> k_mem_slab \<Rightarrow> store \<Rightarrow> kernel \<Rightarrow> outcome \<times> u32 option \<times> k_mem_slab \<times> kernel" where
  "k_mem_slab_alloc timeout slab \<sigma> k =
     (if free_list slab \<noteq> 0
      then (Returned 0, Some (free_list slab),
            slab\<lparr>free_list := \<sigma> (free_list slab), num_used := num_used slab + 1\<rparr>, k)
      else if timeout = K_NO_WAIT then (Returned (- ENOMEM), Some 0, slab, k)
      else (Blocked, None, slab, z_pend_curr (ms_wait_q slab) timeout k))"

definition slab_alloc_resumed :: "tid \<Rightarrow> kernel \<Rightarrow> int \<times> u32 option" where
  "slab_alloc_resumed t k =
     (swap_return_value (thrd k t),
      if swap_return_value (thrd k t) = 0 then Some (swap_word (thrd k t)) else None)"

definition k_mem_slab_free ::
    "u32 \<Rightarrow> k_mem_slab \<Rightarrow> store \<Rightarrow> kernel \<Rightarrow> k_mem_slab \<times> store \<times> kernel" where
  "k_mem_slab_free mem slab \<sigma> k =
     (case z_unpend_first_thread (ms_wait_q slab) k of
        (Some t, k1) \<Rightarrow>
          (slab, \<sigma>, z_reschedule (z_ready_thread t (z_thread_return_value_set_with_data t 0 mem k1)))
      | (None, k1) \<Rightarrow>
          (slab\<lparr>free_list := mem, num_used := num_used slab - 1\<rparr>, \<sigma>(mem := free_list slab), k1))"

definition k_mem_slab_num_used_get :: "k_mem_slab \<Rightarrow> u32" where
  "k_mem_slab_num_used_get slab = num_used slab"

definition k_mem_slab_num_free_get :: "k_mem_slab \<Rightarrow> u32" where
  "k_mem_slab_num_free_get slab = num_blocks slab - num_used slab"

subsection \<open>The list of free blocks\<close>

definition blocks :: "k_mem_slab \<Rightarrow> u32 list" where
  "blocks slab = map (\<lambda>i. ms_buffer slab + word_of_nat i * block_size slab) [0..<unat (num_blocks slab)]"

text \<open>\<open>path \<sigma> p xs\<close>: following the links from \<open>p\<close> to NULL visits \<open>xs\<close>.\<close>

primrec path :: "store \<Rightarrow> u32 \<Rightarrow> u32 list \<Rightarrow> bool" where
  "path \<sigma> p [] \<longleftrightarrow> p = 0"
| "path \<sigma> p (x # xs) \<longleftrightarrow> p = x \<and> x \<noteq> 0 \<and> path \<sigma> (\<sigma> x) xs"

fun follow :: "nat \<Rightarrow> store \<Rightarrow> u32 \<Rightarrow> u32 list" where
  "follow 0 \<sigma> p = []"
| "follow (Suc n) \<sigma> p = (if p = 0 then [] else p # follow n \<sigma> (\<sigma> p))"

definition free_blocks :: "k_mem_slab \<Rightarrow> store \<Rightarrow> u32 list" where
  "free_blocks slab \<sigma> = follow (unat (num_blocks slab)) \<sigma> (free_list slab)"

lemma path_follow: "path \<sigma> p xs \<Longrightarrow> length xs \<le> n \<Longrightarrow> follow n \<sigma> p = xs"
proof (induction xs arbitrary: p n)
  case Nil
  then show ?case by (cases n) auto
next
  case (Cons x xs)
  then show ?case by (cases n) auto
qed

lemma path_cong: "(\<And>x. x \<in> set xs \<Longrightarrow> \<sigma>' x = \<sigma> x) \<Longrightarrow> path \<sigma>' p xs = path \<sigma> p xs"
  by (induction xs arbitrary: p) auto

lemma path_upd [simp]: "x \<notin> set xs \<Longrightarrow> path (\<sigma>(x := v)) p xs = path \<sigma> p xs"
  by (rule path_cong) auto

text \<open>The geometry of a slab: the blocks do not wrap around the address space, and none of them is
  at address 0.\<close>

definition geometry :: "k_mem_slab \<Rightarrow> bool" where
  "geometry slab \<longleftrightarrow> ms_buffer slab \<noteq> 0 \<and> block_size slab \<noteq> 0 \<and>
     unat (ms_buffer slab) + unat (num_blocks slab) * unat (block_size slab) < 2 ^ 32"

definition slab_inv :: "k_mem_slab \<Rightarrow> store \<Rightarrow> bool" where
  "slab_inv slab \<sigma> \<longleftrightarrow> geometry slab \<and> path \<sigma> (free_list slab) (free_blocks slab \<sigma>) \<and>
     distinct (free_blocks slab \<sigma>) \<and> set (free_blocks slab \<sigma>) \<subseteq> set (blocks slab) \<and>
     length (free_blocks slab \<sigma>) + unat (num_used slab) = unat (num_blocks slab)"

lemma block_address:
  assumes "geometry slab" and "i < unat (num_blocks slab)"
  shows "unat (ms_buffer slab + word_of_nat i * block_size slab) =
     unat (ms_buffer slab) + i * unat (block_size slab)"
proof -
  have "i * unat (block_size slab) \<le> unat (num_blocks slab) * unat (block_size slab)"
    using assms(2) by (intro mult_le_mono1) simp
  with assms(1) have "unat (ms_buffer slab) + i * unat (block_size slab) < 2 ^ 32"
    unfolding geometry_def by linarith
  moreover have "ms_buffer slab + word_of_nat i * block_size slab =
      word_of_nat (unat (ms_buffer slab) + i * unat (block_size slab))"
    by simp
  ultimately show ?thesis
    by (simp only: unsigned_of_nat) (simp add: take_bit_nat_eq_self)
qed

lemma blocks_distinct:
  assumes "geometry slab"
  shows "distinct (blocks slab)" and "0 \<notin> set (blocks slab)"
proof -
  have "i = j" if "i < unat (num_blocks slab)" "j < unat (num_blocks slab)"
    "ms_buffer slab + word_of_nat i * block_size slab = ms_buffer slab + word_of_nat j * block_size slab"
    for i j
  proof -
    have "i * unat (block_size slab) = j * unat (block_size slab)"
      using block_address [OF assms that(1)] block_address [OF assms that(2)] unfolding that(3) by linarith
    moreover have "unat (block_size slab) \<noteq> 0"
      using assms by (simp add: geometry_def unat_eq_0)
    ultimately show ?thesis by simp
  qed
  then show "distinct (blocks slab)"
    unfolding blocks_def distinct_map by (auto simp: inj_on_def)
  show "0 \<notin> set (blocks slab)"
  proof
    assume "0 \<in> set (blocks slab)"
    then obtain i where "i < unat (num_blocks slab)"
      "0 = ms_buffer slab + word_of_nat i * block_size slab"
      by (auto simp: blocks_def)
    with block_address [OF assms this(1)] have "unat (ms_buffer slab) = 0"
      by (metis add_is_0 unsigned_0)
    with assms show False
      by (simp add: geometry_def unat_eq_0)
  qed
qed

lemma length_blocks [simp]: "length (blocks slab) = unat (num_blocks slab)"
  by (simp add: blocks_def)

lemma slab_invI:
  assumes "geometry slab" and "path \<sigma> (free_list slab) xs" and "distinct xs"
    and "set xs \<subseteq> set (blocks slab)" and "length xs + unat (num_used slab) = unat (num_blocks slab)"
  shows "slab_inv slab \<sigma>" and "free_blocks slab \<sigma> = xs"
proof -
  show f: "free_blocks slab \<sigma> = xs"
    unfolding free_blocks_def using assms(2,5) by (intro path_follow) auto
  show "slab_inv slab \<sigma>"
    using assms by (simp add: slab_inv_def f)
qed

primrec chain :: "nat \<Rightarrow> u32 \<Rightarrow> u32 \<Rightarrow> u32 list" where
  "chain 0 p sz = []"
| "chain (Suc n) p sz = p # chain n (p + sz) sz"

lemma chain_map: "chain n p sz = map (\<lambda>i. p + word_of_nat i * sz) [0..<n]"
proof (induction n arbitrary: p)
  case (Suc n)
  have "map (\<lambda>i. p + word_of_nat i * sz) [0..<Suc n] =
      p # map (\<lambda>i. p + word_of_nat (Suc i) * sz) [0..<n]"
    by (simp add: map_upt_Suc del: upt_Suc)
  also have "\<dots> = p # chain n (p + sz) sz"
    by (simp add: Suc algebra_simps)
  finally show ?case by simp
qed simp

lemma free_list_loop_path:
  "path \<sigma> head xs \<Longrightarrow> distinct (chain n p sz) \<Longrightarrow> set (chain n p sz) \<inter> set xs = {} \<Longrightarrow>
   0 \<notin> set (chain n p sz) \<Longrightarrow> free_list_loop n p sz head \<sigma> = (head', \<sigma>') \<Longrightarrow>
   path \<sigma>' head' (rev (chain n p sz) @ xs)"
proof (induction n arbitrary: p head \<sigma> xs)
  case (Suc n)
  have p: "path (\<sigma>(p := head)) p (p # xs)"
    using Suc.prems by auto
  have l: "free_list_loop n (p + sz) sz p (\<sigma>(p := head)) = (head', \<sigma>')"
    using Suc.prems(5) by simp
  have "set (chain n (p + sz) sz) \<inter> set (p # xs) = {}" "distinct (chain n (p + sz) sz)"
    "0 \<notin> set (chain n (p + sz) sz)"
    using Suc.prems(2-4) by auto
  from Suc.IH [OF p this(2,1,3) l] show ?case
    by simp
qed simp

lemma slab_init_inv:
  assumes "k_mem_slab_init buf sz n slab0 \<sigma>0 k0 = (0, slab, \<sigma>, k)"
    and "buf \<noteq> 0" and "sz \<noteq> 0" and "unat buf + unat n * unat sz < 2 ^ 32"
  shows "slab_inv slab \<sigma>" and "set (free_blocks slab \<sigma>) = set (blocks slab)"
    and "num_blocks slab = n" and "k = k0\<lparr>waitqs := (waitqs k0)(ms_wait_q slab0 := [])\<rparr>"
    and "ms_wait_q slab = ms_wait_q slab0" and "num_used slab = 0"
proof -
  obtain head \<sigma>' where l: "free_list_loop (unat n) buf sz 0 \<sigma>0 = (head, \<sigma>')"
    by (cases "free_list_loop (unat n) buf sz 0 \<sigma>0")
  have r: "slab = slab0\<lparr>num_blocks := n, block_size := sz, ms_buffer := buf, num_used := 0, free_list := head\<rparr>"
    "\<sigma> = \<sigma>'" "k = k0\<lparr>waitqs := (waitqs k0)(ms_wait_q slab0 := [])\<rparr>"
    using assms(1) by (auto simp: k_mem_slab_init_def create_free_list_def l split: if_splits)
  have g: "geometry slab"
    using assms(2-4) by (simp add: r geometry_def)
  have c: "chain (unat n) buf sz = blocks slab"
    by (simp add: r blocks_def chain_map)
  have "path \<sigma>0 0 []" by simp
  from free_list_loop_path [OF this, of "unat n" buf sz, unfolded c, OF blocks_distinct(1) [OF g] _
      blocks_distinct(2) [OF g] l]
  have p: "path \<sigma> (free_list slab) (rev (blocks slab))"
    by (simp add: r)
  have len: "length (rev (blocks slab)) + unat (num_used slab) = unat (num_blocks slab)"
    by (simp add: r blocks_def)
  note i = slab_invI [OF g p _ _ len]
  show "slab_inv slab \<sigma>" "set (free_blocks slab \<sigma>) = set (blocks slab)"
    using i blocks_distinct(1) [OF g] by simp_all
  show "num_blocks slab = n" "k = k0\<lparr>waitqs := (waitqs k0)(ms_wait_q slab0 := [])\<rparr>"
    "ms_wait_q slab = ms_wait_q slab0" "num_used slab = 0"
    by (simp_all add: r)
qed

subsection \<open>The slab as an object with a wait queue\<close>

type_synonym slab = "k_mem_slab \<times> store"

definition slab_wq :: "slab \<Rightarrow> wqid" where
  "slab_wq s = ms_wait_q (fst s)"

definition slab_valid :: "slab \<Rightarrow> bool" where
  "slab_valid s \<longleftrightarrow> slab_inv (fst s) (snd s)"

definition slab_units :: "slab \<Rightarrow> u32 multiset" where
  "slab_units s = mset (free_blocks (fst s) (snd s))"

text \<open>A block may be freed when it is a block of the slab and not free.\<close>

definition slab_live :: "u32 \<Rightarrow> slab \<Rightarrow> bool" where
  "slab_live b s \<longleftrightarrow> b \<in> set (blocks (fst s)) \<and> b \<notin> set (free_blocks (fst s) (snd s))"

text \<open>The owners of blocks write what they want outside the free blocks.\<close>

definition slab_writes :: "slab \<Rightarrow> slab \<Rightarrow> bool" where
  "slab_writes s s' \<longleftrightarrow> fst s' = fst s \<and>
     (\<forall>b\<in>set (free_blocks (fst s) (snd s)). snd s' b = snd s b)"

definition slab_give_op :: "u32 \<Rightarrow> slab \<Rightarrow> kernel \<Rightarrow> slab \<times> kernel" where
  "slab_give_op b s k =
     (case k_mem_slab_free b (fst s) (snd s) k of (slab, \<sigma>, k') \<Rightarrow> ((slab, \<sigma>), k'))"

definition slab_take_op :: "int \<Rightarrow> slab \<Rightarrow> kernel \<Rightarrow> outcome \<times> u32 option \<times> slab \<times> kernel" where
  "slab_take_op n s k =
     (case k_mem_slab_alloc n (fst s) (snd s) k of (out, mem, slab, k') \<Rightarrow>
        (out, if out = Returned 0 then mem else None, (slab, snd s), k'))"

definition slab_got :: "u32 \<Rightarrow> thread \<Rightarrow> bool" where
  "slab_got b t \<longleftrightarrow> swap_return_value t = 0 \<and> swap_word t = b"

lemma blocks_fields [simp]:
  "blocks (slab\<lparr>free_list := h\<rparr>) = blocks slab" "blocks (slab\<lparr>num_used := u\<rparr>) = blocks slab"
  "geometry (slab\<lparr>free_list := h\<rparr>) = geometry slab" "geometry (slab\<lparr>num_used := u\<rparr>) = geometry slab"
  by (simp_all add: blocks_def geometry_def)

lemma slab_nonempty:
  "slab_inv slab \<sigma> \<Longrightarrow> free_list slab \<noteq> 0 \<Longrightarrow>
   \<exists>xs. free_blocks slab \<sigma> = free_list slab # xs \<and> path \<sigma> (\<sigma> (free_list slab)) xs"
  by (cases "free_blocks slab \<sigma>") (auto simp: slab_inv_def)

lemma slab_empty: "slab_inv slab \<sigma> \<Longrightarrow> free_blocks slab \<sigma> = [] \<longleftrightarrow> free_list slab = 0"
  by (cases "free_blocks slab \<sigma>") (auto simp: slab_inv_def)

lemma slab_alloc_inv:
  assumes inv: "slab_inv slab \<sigma>" and ne: "free_list slab \<noteq> 0"
  shows "slab_inv (slab\<lparr>free_list := \<sigma> (free_list slab), num_used := num_used slab + 1\<rparr>) \<sigma>"
    and "free_blocks slab \<sigma> = free_list slab #
      free_blocks (slab\<lparr>free_list := \<sigma> (free_list slab), num_used := num_used slab + 1\<rparr>) \<sigma>"
proof -
  let ?s = "slab\<lparr>free_list := \<sigma> (free_list slab), num_used := num_used slab + 1\<rparr>"
  obtain xs where f: "free_blocks slab \<sigma> = free_list slab # xs" "path \<sigma> (\<sigma> (free_list slab)) xs"
    using slab_nonempty [OF assms] by blast
  have n: "Suc (length xs) + unat (num_used slab) = unat (num_blocks slab)"
    using inv f by (simp add: slab_inv_def)
  then have "num_used slab < num_blocks slab"
    by (simp add: word_less_nat_alt)
  note u = unat_plus_one [OF this]
  have g: "geometry ?s" "path \<sigma> (free_list ?s) xs" "distinct xs" "set xs \<subseteq> set (blocks ?s)"
    "length xs + unat (num_used ?s) = unat (num_blocks ?s)"
    using inv f n by (auto simp: slab_inv_def u)
  show "slab_inv ?s \<sigma>" "free_blocks slab \<sigma> = free_list slab # free_blocks ?s \<sigma>"
    using slab_invI [OF g] f(1) by simp_all
qed

lemma slab_free_inv:
  assumes inv: "slab_inv slab \<sigma>" and live: "slab_live b (slab, \<sigma>)"
  shows "slab_inv (slab\<lparr>free_list := b, num_used := num_used slab - 1\<rparr>) (\<sigma>(b := free_list slab))"
    and "free_blocks (slab\<lparr>free_list := b, num_used := num_used slab - 1\<rparr>) (\<sigma>(b := free_list slab)) =
      b # free_blocks slab \<sigma>"
proof -
  let ?s = "slab\<lparr>free_list := b, num_used := num_used slab - 1\<rparr>" and ?xs = "free_blocks slab \<sigma>"
  have b: "b \<in> set (blocks slab)" "b \<notin> set ?xs"
    using live by (simp_all add: slab_live_def)
  have i: "geometry slab" "path \<sigma> (free_list slab) ?xs" "distinct ?xs" "set ?xs \<subseteq> set (blocks slab)"
    "length ?xs + unat (num_used slab) = unat (num_blocks slab)"
    using inv by (simp_all add: slab_inv_def)
  have "card (set (b # ?xs)) \<le> card (set (blocks slab))"
    using b i(4) by (intro card_mono) auto
  then have "Suc (length ?xs) \<le> unat (num_blocks slab)"
    using b i(3) blocks_distinct(1) [OF i(1)] by (simp add: distinct_card)
  with i(5) have "num_used slab \<noteq> 0"
    by auto
  note u = unat_less_one [OF this]
  have "path (\<sigma>(b := free_list slab)) (free_list ?s) (b # ?xs)"
    using b i(1,2) blocks_distinct(2) [OF i(1)] by auto
  moreover have "geometry ?s" "distinct (b # ?xs)" "set (b # ?xs) \<subseteq> set (blocks ?s)"
    "length (b # ?xs) + unat (num_used ?s) = unat (num_blocks ?s)"
    using i b u by auto
  ultimately show "slab_inv ?s (\<sigma>(b := free_list slab))"
    "free_blocks ?s (\<sigma>(b := free_list slab)) = b # ?xs"
    using slab_invI by blast+
qed

lemma slab_writes_inv:
  assumes "slab_inv slab \<sigma>" and "\<forall>b\<in>set (free_blocks slab \<sigma>). \<sigma>' b = \<sigma> b"
  shows "slab_inv slab \<sigma>'" and "free_blocks slab \<sigma>' = free_blocks slab \<sigma>"
proof -
  have "path \<sigma>' (free_list slab) (free_blocks slab \<sigma>)"
    using assms path_cong [of "free_blocks slab \<sigma>" \<sigma>' \<sigma>] by (simp add: slab_inv_def)
  with assms(1) show "slab_inv slab \<sigma>'" "free_blocks slab \<sigma>' = free_blocks slab \<sigma>"
    using slab_invI [of slab \<sigma>' "free_blocks slab \<sigma>"] by (simp_all add: slab_inv_def)
qed

lemma slab_free_waiter:
  assumes "sched_ok k" and w: "waitqs k (ms_wait_q slab) = t # ts"
    and "k_mem_slab_free b slab \<sigma> k = (slab', \<sigma>', k')"
  shows "slab' = slab \<and> \<sigma>' = \<sigma> \<and> sched_ok k' \<and> waitqs k' = (waitqs k)(ms_wait_q slab := ts)"
    and "t \<noteq> current k \<or> in_isr k \<Longrightarrow> slab_got b (thrd k' t)"
proof -
  let ?k1 = "snd (z_unpend_first_thread (ms_wait_q slab) k)"
  let ?k2 = "z_thread_return_value_set_with_data t 0 b ?k1"
  have inv: "sched_inv k"
    using assms(1) by (simp add: sched_ok_def)
  have "k_mem_slab_free b slab \<sigma> k = (slab, \<sigma>, z_reschedule (z_ready_thread t ?k2))"
    by (simp add: k_mem_slab_free_def unpend_first_Some [OF w])
  with assms(3) have k': "slab' = slab" "\<sigma>' = \<sigma>" "k' = z_reschedule (z_ready_thread t ?k2)"
    by auto
  have u: "?k2 = upd_thread t (\<lambda>x. x\<lparr>swap_return_value := 0, swap_word := b\<rparr>) ?k1"
    by (simp add: z_thread_return_value_set_with_data_def arch_thread_return_value_set_def upd_thread_def)
  have "sched_ok (z_ready_thread t ?k2)"
    unfolding u by (rule wake_first_upd_ok [OF assms(1) w]) simp_all
  then show "slab' = slab \<and> \<sigma>' = \<sigma> \<and> sched_ok k' \<and> waitqs k' = (waitqs k)(ms_wait_q slab := ts)"
    by (simp add: k' sched_ok_reschedule return_value_harmless unpended_fields [OF inv w])
  show "t \<noteq> current k \<or> in_isr k \<Longrightarrow> slab_got b (thrd k' t)"
    by (simp add: k' slab_got_def return_value_harmless unpended_fields [OF inv w] ready_thread_swap)
       (simp add: z_thread_return_value_set_with_data_def arch_thread_return_value_set_def)
qed

lemma slab_free_links:
  assumes "waitqs k (ms_wait_q slab) = []"
  shows "k_mem_slab_free b slab \<sigma> k =
     (slab\<lparr>free_list := b, num_used := num_used slab - 1\<rparr>, \<sigma>(b := free_list slab), k)"
  by (simp add: k_mem_slab_free_def unpend_first_None(2) [OF assms])

interpretation slab: wait_object slab_give_op slab_take_op slab_live slab_writes slab_wq slab_units
    slab_valid slab_got
proof
  fix ob ob' :: slab and d k t ts k'
  assume "sched_ok k" and w: "waitqs k (slab_wq ob) = t # ts" and g: "slab_give_op d ob k = (ob', k')"
  have f: "k_mem_slab_free d (fst ob) (snd ob) k = (fst ob', snd ob', k')"
    using g by (auto simp: slab_give_op_def split: prod.splits)
  from slab_free_waiter [OF \<open>sched_ok k\<close> w [unfolded slab_wq_def] f]
  show "ob' = ob \<and> sched_ok k' \<and> waitqs k' = (waitqs k)(slab_wq ob := ts) \<and>
      (t \<noteq> current k \<or> in_isr k \<longrightarrow> slab_got d (thrd k' t))"
    by (auto simp: slab_wq_def prod_eq_iff)
next
  fix ob ob' :: slab and d k k'
  assume "slab_valid ob" "slab_live d ob" "sched_ok k" "waitqs k (slab_wq ob) = []"
    "slab_give_op d ob k = (ob', k')"
  then show "slab_valid ob' \<and> slab_wq ob' = slab_wq ob \<and>
      slab_units ob' = add_mset d (slab_units ob) \<and> sched_ok k' \<and> waitqs k' = waitqs k"
    using slab_free_inv [of "fst ob" "snd ob" d]
    by (auto simp: slab_give_op_def slab_wq_def slab_free_links slab_valid_def slab_units_def)
next
  fix ob ob' :: slab and n out r k k'
  assume v: "slab_valid ob" and "slab_units ob \<noteq> {#}" and t: "slab_take_op n ob k = (out, r, ob', k')"
  then have "free_list (fst ob) \<noteq> 0"
    by (simp add: slab_units_def slab_valid_def slab_empty)
  with slab_alloc_inv [OF v [unfolded slab_valid_def] this] t
  show "out = Returned 0 \<and> (\<exists>d. r = Some d \<and> slab_units ob = add_mset d (slab_units ob')) \<and>
      slab_valid ob' \<and> slab_wq ob' = slab_wq ob \<and> k' = k"
    by (auto simp: slab_take_op_def k_mem_slab_alloc_def slab_units_def slab_valid_def slab_wq_def)
next
  fix ob ob' :: slab and n out r k k'
  assume "slab_valid ob" "slab_units ob = {#}" "slab_take_op n ob k = (out, r, ob', k')"
  then show "r = None \<and> ob' = ob \<and>
      (if n = K_NO_WAIT then (\<exists>e. out = Returned e \<and> e < 0) \<and> k' = k
       else out = Blocked \<and> k' = z_pend_curr (slab_wq ob) n k)"
    by (auto simp: slab_take_op_def k_mem_slab_alloc_def slab_units_def slab_valid_def slab_wq_def
        slab_empty split: if_splits)
next
  fix ob ob' :: slab
  assume "slab_valid ob" "slab_writes ob ob'"
  then show "slab_valid ob' \<and> slab_wq ob' = slab_wq ob \<and> slab_units ob' = slab_units ob"
    using slab_writes_inv [of "fst ob" "snd ob" "snd ob'"]
    by (simp add: slab_valid_def slab_writes_def slab_wq_def slab_units_def)
qed

subsection \<open>Properties\<close>

lemma slab_geometry_kept:
  assumes "wait_run slab_give_op slab_take_op slab_live slab_writes slab_wq s k gs ts s' k'"
  shows "blocks (fst s') = blocks (fst s)" and "num_blocks (fst s') = num_blocks (fst s)"
  using assms
  by (induction rule: wait_run.induct)
     (auto simp: slab_give_op_def slab_take_op_def k_mem_slab_free_def k_mem_slab_alloc_def slab_writes_def
       split: prod.splits option.splits if_splits)

lemma count_distinct: "distinct xs \<Longrightarrow> count (mset xs) x = (if x \<in> set xs then 1 else 0)"
  by (auto simp: count_mset distinct_count_atmost_1)

lemma num_free_length:
  assumes "slab_inv slab \<sigma>"
  shows "unat (k_mem_slab_num_free_get slab) = length (free_blocks slab \<sigma>)"
proof -
  have "length (free_blocks slab \<sigma>) + unat (num_used slab) = unat (num_blocks slab)"
    using assms by (simp add: slab_inv_def)
  then show ?thesis
    by (simp add: k_mem_slab_num_free_get_def unat_sub word_le_nat_alt)
qed

text \<open>
  C29: A memory slab never hands out a block that is in use. After \<open>k_mem_slab_init\<close> on a buffer of
  non-empty blocks, and any sequence of allocations and frees of allocated blocks by threads and
  interrupt handlers, in any order, with threads waiting for blocks and timing out, and with the
  owners writing to their blocks in between: every block of the buffer is either on the free list and
  was given back as often as it was handed out, or is not on it and was handed out exactly once more;
  nothing else is handed out. \<open>k_mem_slab_num_free_get\<close> is the length of the free list, and no thread
  waits while it is positive.
\<close>

theorem slab_no_double_alloc:
  assumes "k_mem_slab_init buf sz n slab0 \<sigma>0 k0 = (0, slab, \<sigma>, k)"
    and "buf \<noteq> 0" and "sz \<noteq> 0" and "unat buf + unat n * unat sz < 2 ^ 32"
    and "sched_ok k0" and "waitqs k0 (ms_wait_q slab0) = []"
    and "wait_run slab_give_op slab_take_op slab_live slab_writes slab_wq (slab, \<sigma>) k gs ts (slab', \<sigma>') k'"
  shows "count ts b =
       count gs b + (if b \<in> set (blocks slab) \<and> b \<notin> set (free_blocks slab' \<sigma>') then 1 else 0) \<and>
     distinct (free_blocks slab' \<sigma>') \<and>
     unat (k_mem_slab_num_free_get slab') = length (free_blocks slab' \<sigma>') \<and>
     (free_blocks slab' \<sigma>' \<noteq> [] \<longrightarrow> waitqs k' (ms_wait_q slab') = [])"
proof -
  note init = slab_init_inv [OF assms(1-4)]
  have "k = k0"
    using init(4) assms(6) by (simp add: fun_upd_idem)
  then have inv: "wait_inv slab_valid slab_units slab_wq (slab, \<sigma>) k"
    using init assms(5,6) by (simp add: wait_inv_def slab_valid_def slab_wq_def)
  have c: "slab_inv slab' \<sigma>'" "slab_units (slab', \<sigma>') + ts = slab_units (slab, \<sigma>) + gs"
    "free_blocks slab' \<sigma>' \<noteq> [] \<longrightarrow> waitqs k' (ms_wait_q slab') = []"
    using slab.conservation [OF assms(7) inv]
    by (auto simp: wait_inv_def slab_valid_def slab_units_def slab_wq_def)
  have d: "distinct (free_blocks slab \<sigma>)" "distinct (free_blocks slab' \<sigma>')"
    "set (free_blocks slab' \<sigma>') \<subseteq> set (blocks slab)"
    using c(1) init(1) slab_geometry_kept(1) [OF assms(7)] by (simp_all add: slab_inv_def)
  have "count (slab_units (slab', \<sigma>') + ts) b = count (slab_units (slab, \<sigma>) + gs) b"
    by (simp only: c(2))
  then have "count ts b =
      count gs b + (if b \<in> set (blocks slab) \<and> b \<notin> set (free_blocks slab' \<sigma>') then 1 else 0)"
    using subsetD [OF d(3), of b] by (auto simp: slab_units_def count_distinct d init(2) split: if_splits)
  then show ?thesis
    using c d(2) num_free_length [OF c(1)] by blast
qed

text \<open>
  With a block size of 0, which the check for word alignment lets through, all blocks are at one
  address and the list of free blocks is a cycle: the same block is handed out again and again.
\<close>

lemma free_list_loop_two: "free_list_loop 2 p sz head \<sigma> = (p + sz, \<sigma>(p := head, p + sz := p))"
  by (simp add: numeral_2_eq_2)

lemma slab_empty_blocks_alias:
  "case k_mem_slab_init 0x100 0 2 slab \<sigma> k of (r, slab1, \<sigma>1, k1) \<Rightarrow>
   case k_mem_slab_alloc n slab1 \<sigma>1 k1 of (out, mem, slab2, k2) \<Rightarrow>
     r = 0 \<and> out = Returned 0 \<and> mem = Some 0x100 \<and>
     fst (k_mem_slab_alloc n slab2 \<sigma>1 k2) = Returned 0 \<and>
     fst (snd (k_mem_slab_alloc n slab2 \<sigma>1 k2)) = Some 0x100"
  by (simp add: k_mem_slab_init_def create_free_list_def k_mem_slab_alloc_def free_list_loop_two)

definition sample_slab :: k_mem_slab where
  "sample_slab = \<lparr>ms_wait_q = 9, num_blocks = 0, block_size = 0, ms_buffer = 0, free_list = 0, num_used = 0\<rparr>"

theorem slab_no_double_alloc_witness:
  "case k_mem_slab_init 0x100 8 2 sample_slab (\<lambda>_. 0) sample_kernel of (r, slab, \<sigma>, k) \<Rightarrow>
   case k_mem_slab_alloc K_FOREVER slab \<sigma> k of (out, mem, slab', k') \<Rightarrow>
     mem = Some 0x108 \<and> 0x108 \<notin> set (free_blocks slab' \<sigma>) \<and>
     unat (k_mem_slab_num_free_get slab') = length (free_blocks slab' \<sigma>)"
proof -
  let ?\<sigma> = "(\<lambda>_. 0)(0x100 := 0, 0x108 := 0x100) :: store"
  let ?slab = "sample_slab\<lparr>num_blocks := 2, block_size := 8, ms_buffer := 0x100, free_list := 0x108\<rparr>"
  let ?slab' = "?slab\<lparr>free_list := 0x100, num_used := 1\<rparr>"
  have w: "waitqs sample_kernel (ms_wait_q sample_slab) = []"
    by (simp add: sample_kernel_def)
  have i: "k_mem_slab_init 0x100 8 2 sample_slab (\<lambda>_. 0) sample_kernel = (0, ?slab, ?\<sigma>, sample_kernel)"
    using w by (simp add: k_mem_slab_init_def create_free_list_def sample_slab_def free_list_loop_two
        fun_upd_idem)
  have a: "k_mem_slab_alloc K_FOREVER ?slab ?\<sigma> sample_kernel =
      (Returned 0, Some 0x108, ?slab', sample_kernel)"
    by (simp add: k_mem_slab_alloc_def sample_slab_def)
  then have "slab_take_op K_FOREVER (?slab, ?\<sigma>) sample_kernel =
      (Returned 0, Some 0x108, (?slab', ?\<sigma>), sample_kernel)"
    by (simp add: slab_take_op_def)
  note run = run_one_take [of slab_take_op, OF this sample_kernel_ok(2)]
  from slab_no_double_alloc [where b = "0x108", OF i _ _ _ sample_kernel_ok(1) w run] i a show ?thesis
    by (simp split: if_splits)
qed

end
