(* ===== verification/Mutex.thy ===== *)
theory Mutex
  imports Wait_Object
begin

text \<open>
  Mutexes with priority inheritance: \<open>kernel/mutex.c\<close> and the helpers of \<open>ksched.h\<close> it calls. The
  priority ceiling is the configuration's 0. \<open>z_impl_k_mutex_lock\<close> is the call up to the context
  switch; its second result is the local variable \<open>resched\<close>, with which a thread that was blocked
  goes on in \<open>mutex_lock_resumed\<close>. The result None is the access through a null \<open>owner\<close> pointer.
\<close>

record k_mutex =
  mtx_wait_q :: wqid
  owner :: "tid option"
  lock_count :: u32
  owner_orig_prio :: int

abbreviation CONFIG_PRIORITY_CEILING :: int where "CONFIG_PRIORITY_CEILING \<equiv> 0"

definition z_is_under_prio_ceiling :: "int \<Rightarrow> bool" where
  "z_is_under_prio_ceiling p \<longleftrightarrow> p \<ge> CONFIG_PRIORITY_CEILING"

definition z_get_new_prio_with_ceiling :: "int \<Rightarrow> int" where
  "z_get_new_prio_with_ceiling p = (if z_is_under_prio_ceiling p then p else CONFIG_PRIORITY_CEILING)"

definition z_is_prio_higher :: "int \<Rightarrow> int \<Rightarrow> bool" where
  "z_is_prio_higher p test_prio \<longleftrightarrow> p < test_prio"

definition z_sched_lock :: "kernel \<Rightarrow> kernel" where
  "z_sched_lock k = upd_thread (current k) (\<lambda>t. t\<lparr>sched_locked := sched_locked t - 1\<rparr>) k"

definition z_impl_k_mutex_init :: "k_mutex \<Rightarrow> kernel \<Rightarrow> int \<times> k_mutex \<times> kernel" where
  "z_impl_k_mutex_init m k =
     (0, m\<lparr>owner := None, lock_count := 0\<rparr>, k\<lparr>waitqs := (waitqs k)(mtx_wait_q m := [])\<rparr>)"

definition new_prio_for_inheritance :: "int \<Rightarrow> int \<Rightarrow> int" where
  "new_prio_for_inheritance target limit =
     z_get_new_prio_with_ceiling (if z_is_prio_higher target limit then target else limit)"

definition adjust_owner_prio :: "k_mutex \<Rightarrow> int \<Rightarrow> kernel \<Rightarrow> (bool \<times> kernel) option" where
  "adjust_owner_prio m new_prio k =
     (case owner m of
        None \<Rightarrow> None
      | Some t \<Rightarrow> Some (if prio (thrd k t) \<noteq> new_prio then z_set_prio t (word_of_int new_prio) k
                       else (False, k)))"

definition z_impl_k_mutex_lock ::
    "int \<Rightarrow> k_mutex \<Rightarrow> kernel \<Rightarrow> (outcome \<times> bool \<times> k_mutex \<times> kernel) option" where
  "z_impl_k_mutex_lock timeout m k =
     (if lock_count m = 0 \<or> owner m = Some (current k) then
        Some (Returned 0, False,
          m\<lparr>owner_orig_prio := (if lock_count m = 0 then prio (thrd k (current k)) else owner_orig_prio m),
            lock_count := lock_count m + 1, owner := Some (current k)\<rparr>, k)
      else if timeout = K_NO_WAIT then Some (Returned (- EBUSY), False, m, k)
      else case owner m of
             None \<Rightarrow> None
           | Some t \<Rightarrow>
               let new_prio = new_prio_for_inheritance (prio (thrd k (current k))) (prio (thrd k t))
               in case (if z_is_prio_higher new_prio (prio (thrd k t)) then adjust_owner_prio m new_prio k
                        else Some (False, k)) of
                    None \<Rightarrow> None
                  | Some (rs, k1) \<Rightarrow>
                      Some (Blocked, rs, m, z_pend_curr (mtx_wait_q m) timeout k1))"

definition mutex_lock_resumed :: "bool \<Rightarrow> k_mutex \<Rightarrow> kernel \<Rightarrow> (int \<times> kernel) option" where
  "mutex_lock_resumed rs m k =
     (if swap_return_value (thrd k (current k)) = 0 then Some (0, k)
      else let new_prio = (case z_priq_dumb_best (waitqs k (mtx_wait_q m)) of
                             Some w \<Rightarrow> new_prio_for_inheritance (prio (thrd k w)) (owner_orig_prio m)
                           | None \<Rightarrow> owner_orig_prio m)
           in case adjust_owner_prio m new_prio k of
                None \<Rightarrow> None
              | Some (r, k1) \<Rightarrow> Some (- EAGAIN, if r \<or> rs then z_reschedule k1 else k1))"

definition z_impl_k_mutex_unlock :: "k_mutex \<Rightarrow> kernel \<Rightarrow> (int \<times> k_mutex \<times> kernel) option" where
  "z_impl_k_mutex_unlock m k =
     (if owner m = None then Some (- EINVAL, m, k)
      else if owner m \<noteq> Some (current k) then Some (- EPERM, m, k)
      else let k1 = z_sched_lock k
           in if lock_count m - 1 \<noteq> 0
              then Some (0, m\<lparr>lock_count := lock_count m - 1\<rparr>, k_sched_unlock k1)
              else case adjust_owner_prio m (owner_orig_prio m) k1 of
                     None \<Rightarrow> None
                   | Some (_, k2) \<Rightarrow>
                       (case z_unpend_first_thread (mtx_wait_q m) k2 of
                          (Some t, k3) \<Rightarrow>
                            Some (0, m\<lparr>owner := Some t, owner_orig_prio := prio (thrd k3 t)\<rparr>,
                              k_sched_unlock (z_reschedule (z_ready_thread t
                                (arch_thread_return_value_set t 0 k3))))
                        | (None, k3) \<Rightarrow>
                            Some (0, m\<lparr>owner := None, lock_count := 0\<rparr>, k_sched_unlock k3)))"

subsection \<open>Changing the priority of a thread\<close>

lemma prio_upd_inv:
  assumes inv: "sched_inv k" and "t \<notin> set (runq k)" and "pended_on (thrd k t) = None"
  shows "sched_inv (upd_thread t (\<lambda>x. x\<lparr>prio_byte := p\<rparr>) k)"
    and "lost (upd_thread t (\<lambda>x. x\<lparr>prio_byte := p\<rparr>) k) = lost k"
proof -
  let ?k = "upd_thread t (\<lambda>x. x\<lparr>prio_byte := p\<rparr>) k"
  have th: "thread_state (thrd ?k u) = thread_state (thrd k u)" "pended_on (thrd ?k u) = pended_on (thrd k u)"
    for u
    by simp_all
  have r: "z_is_thread_ready ?k u = z_is_thread_ready k u" for u
    by (simp add: z_is_thread_ready_def z_is_thread_timeout_active_def prevented_bits)
  have q: "z_is_thread_queued (thrd ?k u) = z_is_thread_queued (thrd k u)"
    "z_is_thread_pending (thrd ?k u) = z_is_thread_pending (thrd k u)" for u
    by (simp_all add: state_bits)
  have "dumb_inv (thrd ?k) (runq k)"
    using inv assms(2) by (subst dumb_inv_cong [of _ _ "thrd k"]) (auto simp: sched_inv_def)
  moreover have "dumb_inv (thrd ?k) (waitqs k w)" for w
  proof -
    have "t \<notin> set (waitqs k w)"
      using inv assms(3) by (auto simp: sched_inv_def)
    then show ?thesis
      using inv by (subst dumb_inv_cong [of _ _ "thrd k"]) (auto simp: sched_inv_def)
  qed
  ultimately show "sched_inv ?k"
    using inv unfolding sched_inv_def r q th by auto
  show "lost ?k = lost k"
    unfolding lost_def r q by simp
qed

lemma set_prio_ok:
  assumes ok: "sched_ok k" and po: "pended_on (thrd k t) = None" and "t \<noteq> idle_thread k"
    and "t = current k \<longrightarrow> z_is_thread_ready k t"
  shows "sched_ok (snd (z_set_prio t p k))"
proof (cases "z_is_thread_ready k t")
  case False
  then have "t \<noteq> current k" using assms(4) by blast
  moreover have "t \<notin> set (runq k)"
    using ok False by (auto simp: sched_ok_def sched_inv_def)
  moreover have eq: "snd (z_set_prio t p k) = upd_thread t (\<lambda>x. x\<lparr>prio_byte := p\<rparr>) k"
    using False by (simp add: z_set_prio_def Let_def)
  ultimately show ?thesis
    using ok prio_upd_inv [of k t p] po
    by (simp add: sched_ok_def cache_inv_def first_ready_def)
next
  case True
  let ?p = "\<lambda>x :: thread. x\<lparr>prio_byte := p\<rparr>"
  have inv: "sched_inv k" and q: "z_is_thread_queued (thrd k t)"
    using ok True assms(3) by (auto simp: sched_ok_def lost_def)
  note d = sched_inv_dequeue [OF inv q]
  let ?k1 = "upd_thread t ?p (dequeue t k)"
  have th: "thrd (dequeue t k) t = z_mark_thread_as_not_queued (thrd k t)" "tmo (dequeue t k) = tmo k"
    "idle_thread (dequeue t k) = idle_thread k"
    by (simp_all add: dequeue_def priq_run_remove_def)
  have "t \<notin> set (runq (dequeue t k))"
    using d by (auto simp: sched_inv_def)
  then have k1: "sched_inv ?k1" "lost ?k1 = lost (dequeue t k)"
    using prio_upd_inv [OF d(1), of t p] po by (simp_all add: th)
  have mem: "t \<in> set (runq k)"
    using inv q by (auto simp: sched_inv_def)
  have add: "addable ?k1 t" "z_is_thread_ready ?k1 t"
    using inv mem by (auto simp: addable_def th sched_inv_def z_is_thread_ready_def
        z_is_thread_timeout_active_def state_bits)
  have "sched_inv (enqueue t ?k1)" "lost (enqueue t ?k1) \<subseteq> lost k"
    using sched_inv_enqueue [OF k1(1) add] lost_enqueue [of t ?k1] lost_dequeue [of t k] k1(2) by auto
  moreover have "enqueue t ?k1 = priq_run_add t (upd_thread t ?p (priq_run_remove t k))"
  proof -
    let ?k2 = "upd_thread t ?p (priq_run_remove t k)"
    have r: "priq_run_remove t k = k\<lparr>runq := remove1 t (runq k)\<rparr>"
      using True by (simp add: priq_run_remove_def z_is_thread_ready_def sys_dlist_remove_def)
    have "z_priq_dumb_add (thrd ?k1) t (runq ?k1) = z_priq_dumb_add (thrd ?k2) t (runq ?k2)"
      by (subst dumb_add_cong [of _ "thrd ?k2"]) (simp_all add: dequeue_def prio_def)
    then have "z_priq_dumb_add (thrd ?k1) t (remove1 t (runq k)) =
        z_priq_dumb_add (thrd ?k2) t (remove1 t (runq k))"
      by (simp add: dequeue_def r)
    moreover have "z_mark_thread_as_queued (?p (z_mark_thread_as_not_queued (thrd k t))) = ?p (thrd k t)"
    proof -
      have "thread_state (z_mark_thread_as_queued (z_mark_thread_as_not_queued (thrd k t))) =
          thread_state (thrd k t)"
        using q by (intro bit_eqI) (auto simp: state_bits)
      then show ?thesis
        by (cases "thrd k t") (simp add: thread_marks)
    qed
    ultimately show ?thesis
      by (simp add: enqueue_def priq_run_add_def upd_thread_def dequeue_def r)
  qed
  ultimately show ?thesis
    using ok True sched_inv_update_cache [of "enqueue t ?k1" True] lost_update_cache [of True "enqueue t ?k1"]
    by (simp add: z_set_prio_def Let_def sched_ok_def)
qed

lemma set_prio_fields:
  fixes p t k
  defines "k' \<equiv> snd (z_set_prio t p k)"
  shows "waitqs k' = waitqs k" "current k' = current k" "idle_thread k' = idle_thread k"
    "pending_abort k' = pending_abort k" "in_isr k' = in_isr k"
    "pended_on (thrd k' u) = pended_on (thrd k u)"
    "sched_locked (thrd k' u) = sched_locked (thrd k u)"
    "swap_return_value (thrd k' u) = swap_return_value (thrd k u)"
    "prio (thrd k' u) = (if u = t then sint p else prio (thrd k u))"
    "z_is_thread_queued (thrd k' u) = z_is_thread_queued (thrd k u)"
    "\<not> bit (thread_state (thrd k (current k))) 5 \<Longrightarrow> thread_state (thrd k' u) = thread_state (thrd k u)"
  unfolding k'_def
  by (auto simp: z_set_prio_def Let_def priq_run_add_def priq_run_remove_def prio_def queued_bit reaped_def
      mark_bits)

lemma sint_of_prio: "- 128 \<le> p \<Longrightarrow> p \<le> 127 \<Longrightarrow> sint (word_of_int p :: u8) = p"
  by (simp add: signed_of_int signed_take_bit_int_eq_self)

lemma prio_range: "- 128 \<le> prio t" "prio t \<le> 127"
  using sint_ge [of "prio_byte t"] sint_lt [of "prio_byte t"] by (simp_all add: prio_def)

lemma ceiling_max: "z_get_new_prio_with_ceiling p = max p 0"
  by (simp add: z_get_new_prio_with_ceiling_def z_is_under_prio_ceiling_def max_def)

lemma inheritance_max: "new_prio_for_inheritance a b = max (min a b) 0"
  by (simp add: new_prio_for_inheritance_def ceiling_max z_is_prio_higher_def min_def)

lemma running_set_prio:
  assumes "sched_ok k" and "running k" and "sched_ok (snd (z_set_prio t p k))"
  shows "running (snd (z_set_prio t p k))"
proof -
  let ?k = "snd (z_set_prio t p k)"
  have "z_is_thread_queued (thrd ?k (current ?k))"
    using assms(1,2) by (simp add: set_prio_fields running_def sched_ok_def sched_inv_def)
  then show ?thesis
    using assms(2,3) by (simp add: running_def set_prio_fields sched_ok_def sched_inv_def)
qed

lemma pend_prio: "prio (thrd (z_pend_curr w n k) u) = prio (thrd k u)"
  by (simp add: z_pend_curr_def pend_def add_to_waitq_locked_def add_thread_timeout_def
      z_add_thread_timeout_def unready_thread_def priq_run_remove_def z_swap_def Let_def)

lemma unpend_prio:
  "prio (thrd (snd (z_unpend_first_thread w k)) u) = prio (thrd k u)"
  "sched_locked (thrd (snd (z_unpend_first_thread w k)) u) = sched_locked (thrd k u)"
  "idle_thread (snd (z_unpend_first_thread w k)) = idle_thread k"
  by (simp_all add: z_unpend_first_thread_def z_unpend1_no_timeout_def unpend_thread_no_timeout_def
      split: option.splits)

lemma ready_thread_idle: "idle_thread (z_ready_thread t k) = idle_thread k"
  by (simp add: z_ready_thread_def ready_thread_def priq_run_add_def)

lemma ready_prio: "prio (thrd (z_ready_thread t k) u) = prio (thrd k u)"
  by (simp add: z_ready_thread_def ready_thread_def priq_run_add_def)

subsection \<open>The scheduler lock\<close>

lemma lock_count_harmless:
  "sched_inv (upd_thread t (\<lambda>x. x\<lparr>sched_locked := f x\<rparr>) k) = sched_inv k"
  "lost (upd_thread t (\<lambda>x. x\<lparr>sched_locked := f x\<rparr>) k) = lost k"
proof -
  let ?k = "upd_thread t (\<lambda>x. x\<lparr>sched_locked := f x\<rparr>) k"
  have r: "z_is_thread_ready ?k u = z_is_thread_ready k u" for u
    by (simp add: z_is_thread_ready_def z_is_thread_timeout_active_def prevented_bits)
  have q: "z_is_thread_queued (thrd ?k u) = z_is_thread_queued (thrd k u)"
    "z_is_thread_pending (thrd ?k u) = z_is_thread_pending (thrd k u)"
    "thread_state (thrd ?k u) = thread_state (thrd k u)" "pended_on (thrd ?k u) = pended_on (thrd k u)" for u
    by (simp_all add: state_bits)
  have d: "dumb_inv (thrd ?k) pq = dumb_inv (thrd k) pq" for pq
    by (rule dumb_inv_cong) (simp add: prio_def)
  show "sched_inv ?k = sched_inv k"
    unfolding sched_inv_def r q d by simp
  show "lost ?k = lost k"
    unfolding lost_def r q by simp
qed

lemma sched_lock_ok:
  assumes "sched_ok k" and "sched_locked (thrd k (current k)) = 0"
  shows "sched_ok (z_sched_lock k)"
  using assms lock_count_harmless [of "current k" "\<lambda>x. sched_locked x - 1" k]
  by (auto simp: sched_ok_def z_sched_lock_def cache_inv_def first_ready_def is_preempt_iff
      prevented_bits)

lemma sched_unlock_ok: "sched_ok k \<Longrightarrow> sched_ok (k_sched_unlock k)"
proof -
  let ?k = "upd_thread (current k) (\<lambda>t. t\<lparr>sched_locked := sched_locked t + 1\<rparr>) k"
  assume "sched_ok k"
  then have "sched_inv ?k" "lost ?k = {}"
    using lock_count_harmless [of "current k" "\<lambda>x. sched_locked x + 1" k] by (simp_all add: sched_ok_def)
  then have "sched_inv (update_cache False ?k)" "lost (update_cache False ?k) = {}"
    using sched_inv_update_cache lost_update_cache [of False ?k] by auto
  then show ?thesis
    using z_reschedule_unlocked_inv [of "update_cache False ?k"]
    by (simp add: sched_ok_def k_sched_unlock_def)
qed

lemma sched_lock_fields:
  "waitqs (z_sched_lock k) = waitqs k" "current (z_sched_lock k) = current k"
  "idle_thread (z_sched_lock k) = idle_thread k" "prio (thrd (z_sched_lock k) u) = prio (thrd k u)"
  "pended_on (thrd (z_sched_lock k) u) = pended_on (thrd k u)"
  "swap_return_value (thrd (z_sched_lock k) u) = swap_return_value (thrd k u)"
  "thread_state (thrd (z_sched_lock k) u) = thread_state (thrd k u)"
  "running (z_sched_lock k) = running k"
  by (simp_all add: z_sched_lock_def running_def prio_def)

lemma sched_unlock_fields:
  "waitqs (k_sched_unlock k) = waitqs k" "idle_thread (k_sched_unlock k) = idle_thread k"
  "prio (thrd (k_sched_unlock k) u) = prio (thrd k u)"
  "u \<noteq> current k \<Longrightarrow> swap_return_value (thrd (k_sched_unlock k) u) = swap_return_value (thrd k u)"
  by (auto simp: k_sched_unlock_def z_reschedule_unlocked_def z_swap_def prio_def reaped_def)

text \<open>A thread that holds the scheduler lock stays current.\<close>

lemma locked_no_switch:
  assumes inv: "sched_inv k" and "running k" and "sched_locked (thrd k (current k)) \<noteq> 0"
  shows "cache (update_cache False k) = current k"
proof -
  have b: "\<not> bit (thread_state (thrd k (current k))) 5"
    "\<not> z_is_thread_prevented_from_running (thrd k (current k))"
    using running_facts [OF assms(1,2)] by blast+
  then have r: "reaped k = k"
    by (simp add: reaped_def)
  have "first_ready k \<in> insert (idle_thread k) (set (runq k))"
    using first_ready_cases [OF inv] by auto
  then have "\<not> z_is_thread_timeout_active k (first_ready k)"
    using inv by (auto simp: sched_inv_def z_is_thread_ready_def)
  then show ?thesis
    using assms(2,3) b
    by (simp add: cache_update_cache running_def r should_preempt_def is_preempt_iff)
qed

subsection \<open>The invariant\<close>

text \<open>
  A mutex has an owner exactly when its lock count is positive, and without an owner nobody waits.
  The owner does not wait for its own mutex, and its priority is inherited: it is at least as urgent
  as that of every waiting thread, up to the ceiling.
\<close>

definition inherits :: "k_mutex \<Rightarrow> kernel \<Rightarrow> bool" where
  "inherits m k \<longleftrightarrow>
     (case owner m of
        None \<Rightarrow> waitqs k (mtx_wait_q m) = []
      | Some t \<Rightarrow> \<forall>u\<in>set (waitqs k (mtx_wait_q m)).
          u \<noteq> t \<and> prio (thrd k t) \<le> z_get_new_prio_with_ceiling (prio (thrd k u)))"

definition mutex_inv :: "k_mutex \<Rightarrow> kernel \<Rightarrow> bool" where
  "mutex_inv m k \<longleftrightarrow>
     (owner m = None \<longleftrightarrow> lock_count m = 0) \<and> inherits m k \<and> owner m \<noteq> Some (idle_thread k) \<and>
     (owner m \<noteq> None \<longrightarrow> - 128 \<le> owner_orig_prio m \<and> owner_orig_prio m \<le> 127)"

lemma inherits_cong:
  assumes "waitqs k' = waitqs k" and "\<And>u. prio (thrd k' u) = prio (thrd k u)" and "owner m' = owner m"
    and "mtx_wait_q m' = mtx_wait_q m"
  shows "inherits m' k' = inherits m k"
  by (simp only: inherits_def assms)

text \<open>A thread the owner gives way to lends it its priority.\<close>

lemma lend_prio:
  fixes k m
  assumes ok: "sched_ok k" and run: "running k" and m: "owner m = Some t" and "t \<noteq> current k"
    and "t \<noteq> idle_thread k" and po: "pended_on (thrd k t) = None"
    and new: "new_prio = new_prio_for_inheritance (prio (thrd k (current k))) (prio (thrd k t))"
  obtains rs k1 where
    "(if z_is_prio_higher new_prio (prio (thrd k t)) then adjust_owner_prio m new_prio k
      else Some (False, k)) = Some (rs, k1)"
    "sched_ok k1" "running k1" "current k1 = current k" "waitqs k1 = waitqs k"
    "idle_thread k1 = idle_thread k"
    "\<And>u. u \<noteq> t \<Longrightarrow> prio (thrd k1 u) = prio (thrd k u)"
    "prio (thrd k1 t) = min (prio (thrd k t)) (max (prio (thrd k (current k))) 0)"
proof (cases "z_is_prio_higher new_prio (prio (thrd k t))")
  case False
  then have "prio (thrd k t) = min (prio (thrd k t)) (max (prio (thrd k (current k))) 0)"
    unfolding new inheritance_max z_is_prio_higher_def by linarith
  then show ?thesis
    using that [of False k] False ok run by simp
next
  case True
  let ?k1 = "snd (z_set_prio t (word_of_int new_prio) k)"
  have less: "new_prio < prio (thrd k t)"
    using True by (simp add: z_is_prio_higher_def)
  have np: "new_prio = min (prio (thrd k t)) (max (prio (thrd k (current k))) 0)"
    using less unfolding new inheritance_max by linarith
  have "- 128 \<le> new_prio" "new_prio \<le> 127"
    using less prio_range(2) [of "thrd k t"] by (simp_all add: new inheritance_max)
  note p = sint_of_prio [OF this]
  have k1: "sched_ok ?k1"
    using set_prio_ok [OF ok po assms(5)] assms(4) by simp
  have "(if z_is_prio_higher new_prio (prio (thrd k t)) then adjust_owner_prio m new_prio k
      else Some (False, k)) = Some (fst (z_set_prio t (word_of_int new_prio) k), ?k1)"
    using True less by (simp add: adjust_owner_prio_def m)
  from that [OF this k1 running_set_prio [OF ok run k1]] show ?thesis
    by (simp add: set_prio_fields p np [symmetric])
qed

lemma mutex_lock_free:
  assumes "mutex_inv m k" and "lock_count m + 1 \<noteq> 0" and "running k" and "sched_ok k"
    and "owner m = None \<or> owner m = Some (current k)"
  shows "\<exists>m'. z_impl_k_mutex_lock timeout m k = Some (Returned 0, False, m', k) \<and> mutex_inv m' k \<and>
     owner m' = Some (current k) \<and> lock_count m' = lock_count m + 1"
proof -
  let ?m = "m\<lparr>owner_orig_prio := (if lock_count m = 0 then prio (thrd k (current k)) else owner_orig_prio m),
            lock_count := lock_count m + 1, owner := Some (current k)\<rparr>"
  have "z_impl_k_mutex_lock timeout m k = Some (Returned 0, False, ?m, k)"
    using assms(1,5) by (auto simp: z_impl_k_mutex_lock_def mutex_inv_def)
  moreover have "mutex_inv ?m k"
    using assms prio_range [of "thrd k (current k)"] running_facts(1) [of k]
    by (auto simp: mutex_inv_def inherits_def sched_ok_def split: option.splits)
  ultimately show ?thesis
    by (intro exI [of _ ?m]) (simp only: k_mutex.simps, simp)
qed

lemma mutex_lock_waits:
  assumes ok: "sched_ok k" and run: "running k" and inv: "mutex_inv m k" and m: "owner m = Some t"
    and "t \<noteq> current k" and po: "pended_on (thrd k t) = None" and "timeout \<noteq> K_NO_WAIT"
  shows "\<exists>rs k'. z_impl_k_mutex_lock timeout m k = Some (Blocked, rs, m, k') \<and> sched_ok k' \<and>
     mutex_inv m k' \<and> current k \<in> set (waitqs k' (mtx_wait_q m)) \<and>
     prio (thrd k' t) = min (prio (thrd k t)) (z_get_new_prio_with_ceiling (prio (thrd k (current k))))"
proof -
  let ?c = "current k" and ?w = "mtx_wait_q m"
  have idle: "t \<noteq> idle_thread k"
    using inv m by (auto simp: mutex_inv_def)
  obtain rs k1 where l:
    "(if z_is_prio_higher (new_prio_for_inheritance (prio (thrd k ?c)) (prio (thrd k t))) (prio (thrd k t))
      then adjust_owner_prio m (new_prio_for_inheritance (prio (thrd k ?c)) (prio (thrd k t))) k
      else Some (False, k)) = Some (rs, k1)"
    and k1: "sched_ok k1" "running k1" "current k1 = ?c" "waitqs k1 = waitqs k"
      "idle_thread k1 = idle_thread k"
    and p: "\<And>u. u \<noteq> t \<Longrightarrow> prio (thrd k1 u) = prio (thrd k u)"
      "prio (thrd k1 t) = min (prio (thrd k t)) (max (prio (thrd k ?c)) 0)"
    using lend_prio [OF ok run m assms(5) idle po refl] by blast
  let ?k' = "z_pend_curr ?w timeout k1"
  have eq: "z_impl_k_mutex_lock timeout m k = Some (Blocked, rs, m, ?k')"
    using assms(5,7) inv m by (simp add: z_impl_k_mutex_lock_def mutex_inv_def Let_def l)
  have w: "set (waitqs ?k' ?w) = insert ?c (set (waitqs k ?w))"
    using pend_curr_fields(1) [OF k1(1,2)] by (simp add: k1)
  have "inherits m ?k'"
    unfolding inherits_def m option.case w pend_prio
  proof (intro ballI)
    fix u
    assume u: "u \<in> insert ?c (set (waitqs k ?w))"
    then have "u \<noteq> t"
      using inv m assms(5) by (auto simp: mutex_inv_def inherits_def)
    moreover have "prio (thrd k1 t) \<le> max (prio (thrd k u)) 0"
      using u inv m unfolding p(2) by (auto simp: mutex_inv_def inherits_def ceiling_max)
    ultimately show "u \<noteq> t \<and> prio (thrd k1 t) \<le> z_get_new_prio_with_ceiling (prio (thrd k1 u))"
      by (simp add: p(1) ceiling_max)
  qed
  moreover have "idle_thread ?k' = idle_thread k"
    by (simp add: z_pend_curr_def pend_def add_to_waitq_locked_def add_thread_timeout_def
        z_add_thread_timeout_def z_swap_def Let_def k1)
  ultimately have "mutex_inv m ?k'"
    using inv m by (simp add: mutex_inv_def)
  then show ?thesis
    using eq w z_pend_curr_ok(1) [OF k1(1,2)] by (auto simp: pend_prio p(2) ceiling_max)
qed


subsection \<open>Unlocking\<close>

lemma wake_locked:
  assumes ok: "sched_ok k" and run: "running k" and "sched_locked (thrd k (current k)) \<noteq> 0"
    and w: "waitqs k w = t # ts" and st: "thread_state (thrd k t) = THREAD_PENDING"
  shows "cache (z_ready_thread t (arch_thread_return_value_set t v (snd (z_unpend_first_thread w k)))) =
     current k"
proof -
  have inv: "sched_inv k" and p: "pended_on (thrd k t) = Some w"
    using ok w by (auto simp: sched_ok_def sched_inv_def) (metis list.set_intros(1))
  have c: "t \<noteq> current k"
    using running_facts(2) [OF inv run] p by auto
  note u = unpend_inv [OF inv p]
  let ?k1 = "snd (z_abort_thread_timeout t (unpend_thread_no_timeout t k))"
  let ?f = "\<lambda>x :: thread. x\<lparr>swap_return_value := v\<rparr>"
  let ?k2 = "upd_thread t ?f ?k1"
  note a = abort_timeout_inv [OF u(1), of t]
  have k2: "sched_inv ?k2"
    using a(1) by (simp add: upd_harmless)
  have add: "addable ?k2 t"
    using u(4) by (simp add: addable_def queued_bit)
  have "thread_state (thrd ?k1 t) = 0"
    using p st by (simp add: unpend_thread_no_timeout_def thread_marks)
  then have "z_is_thread_ready ?k2 t"
    using a(4) by (simp add: z_is_thread_ready_def prevented_bits z_is_thread_timeout_active_def)
  then have e: "sched_inv (enqueue t ?k2)" "z_ready_thread t ?k2 = update_cache False (enqueue t ?k2)"
    using sched_inv_enqueue [OF k2 add] by (simp_all add: z_ready_thread_def ready_thread_def enqueue_def)
  have f: "current (enqueue t ?k2) = current k" "pending_abort (enqueue t ?k2) = pending_abort k"
    "sched_locked (thrd (enqueue t ?k2) (current k)) = sched_locked (thrd k (current k))"
    "set (runq (enqueue t ?k2)) = insert t (set (runq k))"
    using c p by (simp_all add: enqueue_def priq_run_add_def unpend_thread_no_timeout_def dumb_add_insert)
  have "running (enqueue t ?k2)"
    using run f by (simp add: running_def)
  then show ?thesis
    using locked_no_switch [OF e(1)] assms(3) f
    by (simp add: unpend_first_Some [OF w] arch_thread_return_value_set_def e(2))
qed

text \<open>The owner gets its original priority back.\<close>

lemma restore_prio:
  assumes ok: "sched_ok k" and run: "running k" and m: "owner m = Some (current k)"
    and p: "- 128 \<le> owner_orig_prio m" "owner_orig_prio m \<le> 127"
  obtains rs k1 where "adjust_owner_prio m (owner_orig_prio m) k = Some (rs, k1)"
    "sched_ok k1" "running k1" "current k1 = current k" "waitqs k1 = waitqs k"
    "idle_thread k1 = idle_thread k" "sched_locked (thrd k1 (current k)) = sched_locked (thrd k (current k))"
    "\<And>u. u \<noteq> current k \<Longrightarrow> prio (thrd k1 u) = prio (thrd k u)"
    "prio (thrd k1 (current k)) = owner_orig_prio m"
    "\<And>u. thread_state (thrd k1 u) = thread_state (thrd k u)"
    "\<And>u. swap_return_value (thrd k1 u) = swap_return_value (thrd k u)"
proof (cases "prio (thrd k (current k)) = owner_orig_prio m")
  case True
  then show ?thesis
    using that [of False k] ok run by (simp add: adjust_owner_prio_def m)
next
  case False
  let ?k1 = "snd (z_set_prio (current k) (word_of_int (owner_orig_prio m)) k)"
  have inv: "sched_inv k"
    using ok by (simp add: sched_ok_def)
  note r = running_facts [OF inv run]
  have ready: "z_is_thread_ready k (current k)"
    using run inv by (auto simp: running_def sched_inv_def)
  have k1: "sched_ok ?k1"
    using set_prio_ok [OF ok r(2,1)] ready by simp
  have "adjust_owner_prio m (owner_orig_prio m) k =
      Some (fst (z_set_prio (current k) (word_of_int (owner_orig_prio m)) k), ?k1)"
    using False by (simp add: adjust_owner_prio_def m)
  from that [OF this k1 running_set_prio [OF ok run k1]] r(4) show ?thesis
    by (simp add: set_prio_fields sint_of_prio p)
qed

lemma most_urgent_first:
  "sched_ok k \<Longrightarrow> waitqs k w = t # ts \<Longrightarrow> u \<in> set ts \<Longrightarrow> u \<noteq> t \<and> prio (thrd k t) \<le> prio (thrd k u)"
  using sched_inv_waitq [of k w] by (auto simp: sched_ok_def dumb_inv_def)

lemma hand_over:
  fixes k w t
  defines "k4 \<equiv> z_ready_thread t (arch_thread_return_value_set t 0 (snd (z_unpend_first_thread w k)))"
  assumes ok: "sched_ok k" and run: "running k" and "sched_locked (thrd k (current k)) \<noteq> 0"
    and w: "waitqs k w = t # ts" and "thread_state (thrd k t) = THREAD_PENDING"
  shows "z_reschedule k4 = k4" and "sched_ok (k_sched_unlock k4)" and "t \<noteq> idle_thread k"
    and "waitqs (k_sched_unlock k4) = (waitqs k)(w := ts)"
    and "idle_thread (k_sched_unlock k4) = idle_thread k"
    and "prio (thrd (k_sched_unlock k4) u) = prio (thrd k u)"
    and "swap_return_value (thrd (k_sched_unlock k4) t) = 0"
proof -
  have inv: "sched_inv k"
    using ok by (simp add: sched_ok_def)
  note u = unpended_fields [OF inv w]
  have p: "pended_on (thrd k t) = Some w"
    using inv w by (auto simp: sched_inv_def) (metis list.set_intros(1))
  have tc: "t \<noteq> current k"
    using running_facts(2) [OF inv run] p by auto
  show "t \<noteq> idle_thread k"
    using inv p by (auto simp: sched_inv_def z_is_thread_ready_def) (metis option.distinct(1) pending_prevented)
  have "cache k4 = current k4" "current k4 = current k"
    using wake_locked [OF ok run assms(4) w assms(6)] by (simp_all add: k4_def arch_thread_return_value_set_def u)
  then show "z_reschedule k4 = k4"
    by (simp add: z_reschedule_def need_swap_def)
  show "sched_ok (k_sched_unlock k4)"
    unfolding k4_def by (rule sched_unlock_ok [OF wake_first_ok [OF ok w]])
  show "waitqs (k_sched_unlock k4) = (waitqs k)(w := ts)"
    "idle_thread (k_sched_unlock k4) = idle_thread k"
    "prio (thrd (k_sched_unlock k4) u) = prio (thrd k u)"
    by (simp_all add: k4_def sched_unlock_fields arch_thread_return_value_set_def u unpend_prio
        ready_thread_idle ready_prio)
  show "swap_return_value (thrd (k_sched_unlock k4) t) = 0"
    using tc \<open>current k4 = current k\<close>
    by (simp add: sched_unlock_fields) (simp add: k4_def arch_thread_return_value_set_def ready_thread_swap)
qed

lemma mutex_unlock_last:
  assumes ok: "sched_ok k" and run: "running k" and inv: "mutex_inv m k"
    and m: "owner m = Some (current k)" "lock_count m = 1" and l: "sched_locked (thrd k (current k)) = 0"
    and st: "\<forall>t\<in>set (waitqs k (mtx_wait_q m)). thread_state (thrd k t) = THREAD_PENDING"
  shows "\<exists>m' k'. z_impl_k_mutex_unlock m k = Some (0, m', k') \<and> sched_ok k' \<and> mutex_inv m' k' \<and>
     mtx_wait_q m' = mtx_wait_q m \<and> prio (thrd k' (current k)) = owner_orig_prio m \<and>
     (case waitqs k (mtx_wait_q m) of
        [] \<Rightarrow> owner m' = None \<and> (\<forall>u. u \<noteq> current k \<longrightarrow> swap_return_value (thrd k' u) = swap_return_value (thrd k u))
      | t # ts \<Rightarrow> owner m' = Some t \<and> lock_count m' = 1 \<and> waitqs k' (mtx_wait_q m) = ts \<and>
          swap_return_value (thrd k' t) = 0 \<and> (\<forall>u\<in>set ts. prio (thrd k' t) \<le> prio (thrd k' u)))"
proof -
  let ?c = "current k" and ?w = "mtx_wait_q m" and ?k1 = "z_sched_lock k"
  have ok1: "sched_ok ?k1" "running ?k1"
    using sched_lock_ok [OF ok l] run by (simp_all add: sched_lock_fields)
  have p: "- 128 \<le> owner_orig_prio m" "owner_orig_prio m \<le> 127"
    using inv m by (simp_all add: mutex_inv_def)
  have cur: "current ?k1 = ?c"
    by (simp add: sched_lock_fields)
  obtain rs k2 where a: "adjust_owner_prio m (owner_orig_prio m) ?k1 = Some (rs, k2)"
    and k2: "sched_ok k2" "running k2" "current k2 = ?c" "waitqs k2 = waitqs k" "idle_thread k2 = idle_thread k"
      "sched_locked (thrd k2 ?c) \<noteq> 0"
    and p2: "\<And>u. u \<noteq> ?c \<Longrightarrow> prio (thrd k2 u) = prio (thrd k u)" "prio (thrd k2 ?c) = owner_orig_prio m"
    and s2: "\<And>u. thread_state (thrd k2 u) = thread_state (thrd k u)"
      "\<And>u. swap_return_value (thrd k2 u) = swap_return_value (thrd k u)"
  proof -
    have "sched_locked (thrd ?k1 ?c) \<noteq> 0"
      using l by (simp add: z_sched_lock_def)
    then show ?thesis
      using restore_prio [OF ok1 _ p, unfolded cur] m(1) that by (metis sched_lock_fields)
  qed
  have cnt: "lock_count m - 1 = 0"
    using m(2) by simp
  show ?thesis
  proof (cases "waitqs k ?w")
    case Nil
    let ?m = "m\<lparr>owner := None, lock_count := 0\<rparr>" and ?k' = "k_sched_unlock k2"
    have "z_impl_k_mutex_unlock m k = Some (0, ?m, ?k')"
      using Nil k2(4) by (simp add: z_impl_k_mutex_unlock_def m(1) Let_def cnt a unpend_first_None(2))
    moreover have "mutex_inv ?m ?k'"
      using Nil by (simp add: mutex_inv_def inherits_def sched_unlock_fields k2(4))
    ultimately show ?thesis
      using Nil sched_unlock_ok [OF k2(1)] p2 s2 k2(3)
      by (intro exI [of _ ?m] exI [of _ ?k']) (simp add: sched_unlock_fields)
  next
    case (Cons t ts)
    have w2: "waitqs k2 ?w = t # ts"
      using Cons k2(4) by simp
    have "thread_state (thrd k2 t) = THREAD_PENDING" "sched_locked (thrd k2 (current k2)) \<noteq> 0"
      using st Cons k2(3,6) by (simp_all add: s2)
    note h = hand_over [OF k2(1,2) this(2) w2 this(1)]
    let ?k3 = "snd (z_unpend_first_thread ?w k2)"
    let ?m = "m\<lparr>owner := Some t, owner_orig_prio := prio (thrd ?k3 t)\<rparr>"
    let ?k' = "k_sched_unlock (z_ready_thread t (arch_thread_return_value_set t 0 ?k3))"
    have eq: "z_impl_k_mutex_unlock m k = Some (0, ?m, ?k')"
      using h(1) by (simp add: z_impl_k_mutex_unlock_def m(1) Let_def cnt a unpend_first_Some [OF w2])
    have le: "prio (thrd k2 t) \<le> prio (thrd k2 x)" "x \<noteq> t" if "x \<in> set ts" for x
      using most_urgent_first [OF k2(1) w2 that] by simp_all
    have "mutex_inv ?m ?k'"
      using le h(3) m(2) prio_range [of "thrd k2 t"]
      by (auto simp: mutex_inv_def inherits_def h(4-6) unpend_prio ceiling_max le_max_iff_disj)
    then show ?thesis
      using Cons eq m(2) h le p2(2)
      by (intro exI [of _ ?m] exI [of _ ?k']) (simp add: h(6))
  qed
qed

text \<open>
  C28: Unlocking a mutex keeps the kernel and the mutex consistent and follows its contract. Without an
  owner, or with another one, it fails and changes nothing. A mutex locked several times by its owner
  is locked once less. The last unlock gives the owner its original priority back and hands the mutex
  to the first of the most urgent waiting threads, whose call returns 0 and which inherits no less
  than the priority of those still waiting; with nobody waiting the mutex is free.
\<close>

theorem mutex_unlock_contract:
  assumes "sched_ok k" and "running k" and "mutex_inv m k" and "sched_locked (thrd k (current k)) = 0"
    and "\<forall>t\<in>set (waitqs k (mtx_wait_q m)). thread_state (thrd k t) = THREAD_PENDING"
  shows "\<exists>r m' k'. z_impl_k_mutex_unlock m k = Some (r, m', k') \<and> sched_ok k' \<and> mutex_inv m' k' \<and>
     (if owner m = None then r = - EINVAL \<and> m' = m \<and> k' = k
      else if owner m \<noteq> Some (current k) then r = - EPERM \<and> m' = m \<and> k' = k
      else if lock_count m \<noteq> 1
      then r = 0 \<and> owner m' = owner m \<and> lock_count m' = lock_count m - 1 \<and> waitqs k' = waitqs k
      else r = 0 \<and> prio (thrd k' (current k)) = owner_orig_prio m \<and>
        (case waitqs k (mtx_wait_q m) of
           [] \<Rightarrow> owner m' = None
         | t # ts \<Rightarrow> owner m' = Some t \<and> lock_count m' = 1 \<and> waitqs k' (mtx_wait_q m) = ts \<and>
             swap_return_value (thrd k' t) = 0 \<and> (\<forall>u\<in>set ts. prio (thrd k' t) \<le> prio (thrd k' u))))"
proof -
  consider "owner m \<noteq> Some (current k)"
    | "owner m = Some (current k)" "lock_count m \<noteq> 1"
    | "owner m = Some (current k)" "lock_count m = 1"
    by blast
  then show ?thesis
  proof cases
    case 1
    then show ?thesis
      using assms(1,3) by (auto simp: z_impl_k_mutex_unlock_def)
  next
    case 2
    let ?m = "m\<lparr>lock_count := lock_count m - 1\<rparr>" and ?k' = "k_sched_unlock (z_sched_lock k)"
    have "z_impl_k_mutex_unlock m k = Some (0, ?m, ?k')"
      using 2 by (simp add: z_impl_k_mutex_unlock_def Let_def)
    moreover have "inherits ?m ?k' = inherits m k"
      by (rule inherits_cong) (simp_all add: sched_unlock_fields sched_lock_fields)
    then have "mutex_inv ?m ?k'"
      using assms(3) 2 by (simp add: mutex_inv_def sched_unlock_fields sched_lock_fields)
    moreover have "sched_ok ?k'"
      using sched_unlock_ok [OF sched_lock_ok [OF assms(1,4)]] .
    ultimately show ?thesis
      using 2 by (intro exI [of _ 0] exI [of _ ?m] exI [of _ ?k'])
        (simp add: sched_unlock_fields sched_lock_fields)
  next
    case 3
    from mutex_unlock_last [OF assms(1-3) 3 assms(4,5)] 3 show ?thesis
      by (fastforce split: list.splits)
  qed
qed

subsection \<open>Timing out\<close>

lemma reschedule_prio: "prio (thrd (z_reschedule k) u) = prio (thrd k u)"
  by (simp add: z_reschedule_def z_swap_def)

text \<open>
  A thread whose wait for a mutex timed out reads through a null pointer when the owner has
  unlocked the mutex before that thread runs again. The timeout takes the waiting thread off the
  queue, so the owner's last unlock finds nobody waiting and clears \<open>owner\<close>; when the timed-out thread
  goes on in \<open>k_mutex_lock\<close>, \<open>adjust_owner_prio\<close> dereferences \<open>owner\<close> without a check.
\<close>

lemma mutex_timeout_after_unlock_faults:
  assumes "sched_ok k" and "running k" and "mutex_inv m k" and "sched_locked (thrd k (current k)) = 0"
    and "owner m = Some (current k)" and "lock_count m = 1" and "waitqs k (mtx_wait_q m) = []"
    and "t \<noteq> current k" and "swap_return_value (thrd k t) = - EAGAIN"
    and "z_impl_k_mutex_unlock m k = Some (r, m', k')"
  shows "r = 0 \<and> mutex_lock_resumed rs m' (k'\<lparr>current := t\<rparr>) = None"
proof -
  have "r = 0" "owner m' = None" "swap_return_value (thrd k' t) = - EAGAIN"
    using mutex_unlock_last [OF assms(1-3,5,6,4)] assms(7-10) by auto
  then show ?thesis
    by (simp add: mutex_lock_resumed_def adjust_owner_prio_def Let_def)
qed

text \<open>
  A cooperative thread that owns a mutex becomes preemptible when one of several threads waiting
  for it times out. The priority to go back to is clipped at the ceiling, although the owner's own
  priority was above it: \<open>k_mutex_lock\<close> sets the owner's priority to 0.
\<close>

lemma mutex_timeout_demotes_owner:
  assumes "owner m = Some t" and "owner_orig_prio m = prio (thrd k t)" and "prio (thrd k t) < 0"
    and "waitqs k (mtx_wait_q m) = u # us" and "swap_return_value (thrd k (current k)) = - EAGAIN"
  shows "\<exists>k'. mutex_lock_resumed rs m k = Some (- EAGAIN, k') \<and> prio (thrd k' t) = 0"
proof -
  have n: "new_prio_for_inheritance (prio (thrd k u)) (owner_orig_prio m) = 0"
    using assms(2,3) by (simp add: inheritance_max)
  have "adjust_owner_prio m 0 k = Some (z_set_prio t (word_of_int 0) k)"
    using assms(1,3) by (simp add: adjust_owner_prio_def)
  then show ?thesis
    using assms(4,5) n
    by (simp add: mutex_lock_resumed_def Let_def dumb_best_hd reschedule_prio set_prio_fields
        split: prod.splits) (metis set_prio_fields(9) sint_0 snd_conv word_of_int_0 reschedule_prio)
qed

subsection \<open>Witnesses\<close>

definition sample_mutex :: "tid option \<Rightarrow> k_mutex" where
  "sample_mutex t = \<lparr>mtx_wait_q = 9, owner = t, lock_count = (if t = None then 0 else 1),
     owner_orig_prio = (if t = Some 2 then - 8 else 5)\<rparr>"

lemma sample_mutex_inv:
  "mutex_inv (sample_mutex (Some 2)) sample_kernel" "mutex_inv (sample_mutex (Some 4)) sample_kernel"
  by (simp_all add: mutex_inv_def inherits_def sample_mutex_def sample_kernel_def)


theorem mutex_unlock_contract_witness:
  "\<exists>m' k'. z_impl_k_mutex_unlock (sample_mutex (Some 2)) sample_kernel = Some (0, m', k') \<and> owner m' = None"
proof -
  have f: "owner (sample_mutex (Some 2)) = Some 2" "current sample_kernel = 2" "lock_count (sample_mutex (Some 2)) = 1"
    "sched_locked (thrd sample_kernel 2) = 0" "waitqs sample_kernel w = []" for w
    by (simp_all add: sample_mutex_def sample_kernel_def)
  show ?thesis
    using mutex_unlock_contract [OF sample_kernel_ok sample_mutex_inv(1)] by (auto simp: f)
qed

end
