(* ===== verification/Lll_Chan.thy ===== *)
theory Lll_Chan
  imports Words
begin

text \<open>
  Choice of the data channel of a Bluetooth connection event: \<open>lll_chan.c\<close> of the controller, with both
  channel selection algorithms. A channel map is an array of five bytes, one bit for each of the 37
  data channels. The intermediate products are computed at the width C computes them in.
\<close>

unbundle bit_operations_syntax

definition chan_used :: "u8 list \<Rightarrow> u8 \<Rightarrow> bool" where
  "chan_used chan_map c \<longleftrightarrow>
     (chan_map ! unat (drop_bit 3 c)) AND push_bit (unat (c mod 8)) 1 \<noteq> 0"

fun remap_bits :: "nat \<Rightarrow> u8 \<Rightarrow> u8 \<Rightarrow> u8 \<Rightarrow> bool \<times> u8 \<times> u8" where
  "remap_bits 0 bite chan_index chan_next = (False, chan_index, chan_next)"
| "remap_bits (Suc bit_count) bite chan_index chan_next =
     (if bite AND 0x01 \<noteq> 0
      then if chan_index = 0 then (True, chan_index, chan_next)
           else remap_bits bit_count (drop_bit 1 bite) (chan_index - 1) (chan_next + 1)
      else remap_bits bit_count (drop_bit 1 bite) chan_index (chan_next + 1))"

fun remap_bytes :: "nat \<Rightarrow> u8 list \<Rightarrow> u8 \<Rightarrow> u8 \<Rightarrow> u8" where
  "remap_bytes 0 chan_map chan_index chan_next = chan_next"
| "remap_bytes (Suc byte_count) chan_map chan_index chan_next =
     (case remap_bits 8 (hd chan_map) chan_index chan_next of
        (found, chan_index', chan_next') \<Rightarrow>
          if found then chan_next' else remap_bytes byte_count (tl chan_map) chan_index' chan_next')"

definition chan_sel_remap :: "u8 list \<Rightarrow> u8 \<Rightarrow> u8" where
  "chan_sel_remap chan_map chan_index = remap_bytes 5 chan_map chan_index 0"

definition lll_chan_sel_1 :: "u8 \<Rightarrow> u8 \<Rightarrow> u16 \<Rightarrow> u8 list \<Rightarrow> u8 \<Rightarrow> u8 \<times> u8" where
  "lll_chan_sel_1 chan_use hop latency chan_map chan_count =
     (let chan_next = word_of_nat ((unat chan_use + unat hop * (1 + unat latency)) mod 37)
      in (chan_next,
          if \<not> chan_used chan_map chan_next
          then chan_sel_remap chan_map (chan_next mod chan_count) else chan_next))"

definition chan_rev_8 :: "u8 \<Rightarrow> u8" where
  "chan_rev_8 b =
     ucast (drop_bit 16 ((((ucast b :: u32) * 0x0802 AND 0x22110) OR
       ((ucast b :: u32) * 0x8020 AND 0x88440)) * 0x10101))"

definition chan_perm :: "u16 \<Rightarrow> u16" where
  "chan_perm i =
     push_bit 8 (ucast (chan_rev_8 (ucast (drop_bit 8 i AND 0xFF)))) OR ucast (chan_rev_8 (ucast (i AND 0xFF)))"

definition chan_mam :: "u16 \<Rightarrow> u16 \<Rightarrow> u16" where
  "chan_mam a b = ucast (((ucast a :: u32) * 17 + ucast b) AND 0xFFFF)"

definition chan_prn :: "u16 \<Rightarrow> u16 \<Rightarrow> u16" where
  "chan_prn counter chan_id =
     (((\<lambda>prn_e. chan_mam (chan_perm prn_e) chan_id) ^^ 3) (counter XOR chan_id)) XOR chan_id"

definition lll_chan_sel_2 :: "u16 \<Rightarrow> u16 \<Rightarrow> u8 list \<Rightarrow> u8 \<Rightarrow> u8" where
  "lll_chan_sel_2 counter chan_id chan_map chan_count =
     (let prn_e = chan_prn counter chan_id;
          chan_next = ucast (prn_e mod 37)
      in if \<not> chan_used chan_map chan_next
         then chan_sel_remap chan_map (ucast (drop_bit 16 ((ucast chan_count :: u32) * ucast prn_e)))
         else chan_next)"

subsection \<open>The generator of pseudo-random numbers\<close>

text \<open>What the multiplications compute: the byte with its bits in reverse order.\<close>

definition rev_byte :: "u8 \<Rightarrow> u8" where
  "rev_byte b = horner_sum of_bool 2 (rev (map (bit b) [0..<8]))"

lemma chan_rev_8_table:
  "list_all (\<lambda>n. chan_rev_8 (word_of_nat n) = rev_byte (word_of_nat n)) [0..<256]"
  by code_simp

lemma chan_rev_8_rev: "chan_rev_8 b = rev_byte b"
proof -
  have "unat b \<in> set [0..<256]"
    using unsigned_less [of b] by simp
  then have "chan_rev_8 (word_of_nat (unat b)) = rev_byte (word_of_nat (unat b))"
    using chan_rev_8_table unfolding list_all_iff by blast
  then show ?thesis
    by simp
qed

lemma rev_byte_bit: "n < 8 \<Longrightarrow> bit (rev_byte b) n = bit b (7 - n)"
  by (simp add: rev_byte_def bit_horner_sum_bit_word_iff rev_nth)

lemma rev_byte_rev_byte: "rev_byte (rev_byte b) = b"
  by (rule bit_word_eqI) (simp add: rev_byte_bit)

text \<open>
  C40: The trick with three multiplications reverses the bits of a byte: bit \<open>n\<close> of the result is bit
  \<open>7 - n\<close> of the argument, for all 256 bytes.
\<close>

theorem chan_rev_8_reverses: "n < 8 \<Longrightarrow> bit (chan_rev_8 b) n = bit b (7 - n)"
  by (simp add: chan_rev_8_rev rev_byte_bit)

theorem chan_rev_8_reverses_witness: "bit (chan_rev_8 0x01) 7 \<and> \<not> bit (chan_rev_8 0x80) 7"
  using chan_rev_8_reverses [of 7 "0x01"] chan_rev_8_reverses [of 7 "0x80"] by (simp add: bit_simps)

lemma low_byte: "(i :: u16) AND 0xFF = take_bit 8 i"
  by (simp add: take_bit_eq_mask mask_eq_exp_minus_1)

lemma chan_perm_bit:
  assumes "n < 16"
  shows "bit (chan_perm i) n = bit i (if n < 8 then 7 - n else 23 - n)"
proof -
  have lo: "bit (chan_rev_8 (ucast (i AND 0xFF))) m = bit i (7 - m)" if "m < 8" for m
  proof -
    have "7 - m < 8" by linarith
    then show ?thesis
      using that by (simp add: chan_rev_8_rev rev_byte_bit low_byte bit_unsigned_iff bit_take_bit_iff)
  qed
  have hi: "bit (chan_rev_8 (ucast (drop_bit 8 i AND 0xFF))) m = bit i (15 - m)" if "m < 8" for m
  proof -
    have "8 + (7 - m) = 15 - m" "7 - m < 8"
      using that by linarith+
    then show ?thesis
      using that by (simp add: chan_rev_8_rev rev_byte_bit low_byte bit_unsigned_iff bit_take_bit_iff
          bit_drop_bit_eq)
  qed
  show ?thesis
  proof (cases "n < 8")
    case True
    then show ?thesis
      using lo [of n] by (simp add: chan_perm_def bit_or_iff bit_push_bit_iff bit_unsigned_iff)
  next
    case False
    moreover have "15 - (n - 8) = 23 - n" "n - 8 < 16"
      using False assms by linarith+
    moreover have "\<not> bit (chan_rev_8 x) n" for x
      using False by (auto dest: bit_imp_le_length)
    ultimately show ?thesis
      using hi [of "n - 8"] assms by (simp add: chan_perm_def bit_or_iff bit_push_bit_iff bit_unsigned_iff)
  qed
qed

lemma chan_perm_perm: "chan_perm (chan_perm i) = i"
proof (rule bit_word_eqI)
  fix n
  assume "n < LENGTH(16)"
  then have n: "n < 16" by simp
  show "bit (chan_perm (chan_perm i)) n = bit i n"
  proof (cases "n < 8")
    case True
    then have "7 - n < 16" "7 - n < 8" "7 - (7 - n) = n" by auto
    with True n show ?thesis by (simp add: chan_perm_bit)
  next
    case False
    then have "23 - n < 16" "\<not> 23 - n < 8" "23 - (23 - n) = n" using n by auto
    with False n show ?thesis by (simp add: chan_perm_bit)
  qed
qed

lemma chan_mam_eq: "chan_mam a b = a * 17 + b"
proof -
  let ?x = "unat a * 17 + unat b" and ?w = "(ucast a :: u32) * 17 + ucast b"
  have "unat a < 2 ^ 16" "unat b < 2 ^ 16"
    using unsigned_less [of a] unsigned_less [of b] by simp_all
  then have x: "?x < 2 ^ LENGTH(32)"
    by simp
  have "?w = word_of_nat ?x"
    by simp
  then have "unat ?w = ?x"
    using x by (simp only: unsigned_of_nat take_bit_nat_eq_self of_nat_id)
  moreover have "?w AND 0xFFFF = take_bit 16 ?w"
    by (simp add: take_bit_eq_mask mask_eq_exp_minus_1)
  ultimately have u: "unat (?w AND 0xFFFF) = take_bit 16 ?x"
    by (simp only: unsigned_take_bit_eq)
  have "chan_mam a b = word_of_nat (unat (?w AND 0xFFFF))"
    by (simp only: chan_mam_def of_nat_unat)
  also have "\<dots> = word_of_nat (take_bit 16 ?x)"
    by (simp only: u)
  also have "\<dots> = word_of_nat ?x"
    by (simp only: of_nat_take_bit) (simp add: take_bit_word_eq_self)
  also have "\<dots> = a * 17 + b"
    by simp
  finally show ?thesis .
qed

lemma chan_mam_inj: "chan_mam a b = chan_mam a' b \<longleftrightarrow> a = a'"
proof
  assume "chan_mam a b = chan_mam a' b"
  then have "a * 17 * 61681 = a' * 17 * 61681"
    by (simp add: chan_mam_eq)
  moreover have "(17 * 61681 :: u16) = 1"
    by code_simp
  ultimately show "a = a'"
    by (simp only: mult.assoc mult_1_right)
qed simp

lemma chan_round_inj: "inj (\<lambda>prn_e. chan_mam (chan_perm prn_e) chan_id)"
  by (rule injI) (metis chan_mam_inj chan_perm_perm)

text \<open>
  C39: The numbers that choose the channel are a permutation of the event counter: for every channel
  identifier, no two of the 65536 event counters give the same number, so every number comes exactly
  once in the cycle of the counter.
\<close>

theorem chan_prn_permutation: "bij (\<lambda>counter. chan_prn counter chan_id)"
proof -
  have "inj (\<lambda>counter. chan_prn counter chan_id)"
  proof (rule injI)
    fix x y
    let ?r = "\<lambda>prn_e. chan_mam (chan_perm prn_e) chan_id"
    assume "chan_prn x chan_id = chan_prn y chan_id"
    then have "chan_prn x chan_id XOR chan_id = chan_prn y chan_id XOR chan_id"
      by simp
    then have "(?r ^^ 3) (x XOR chan_id) = (?r ^^ 3) (y XOR chan_id)"
      by (simp only: chan_prn_def xor.assoc xor_self_eq xor.right_neutral)
    then have "x XOR chan_id = y XOR chan_id"
      using chan_round_inj [of chan_id] by (simp add: inj_fn inj_eq)
    then have "(x XOR chan_id) XOR chan_id = (y XOR chan_id) XOR chan_id"
      by (rule arg_cong [where f = "\<lambda>v. v XOR chan_id"])
    then show "x = y"
      by (simp only: xor.assoc xor_self_eq xor.right_neutral)
  qed
  then show ?thesis
    by (simp add: bij_def finite_UNIV_inj_surj)
qed

subsection \<open>Remapping to a used channel\<close>

definition byte_channels :: "nat \<Rightarrow> u8 \<Rightarrow> nat list" where
  "byte_channels n b = filter (bit b) [0..<n]"

lemma byte_channels_Suc:
  "byte_channels (Suc n) b = (if bit b 0 then [0] else []) @ map Suc (byte_channels n (drop_bit 1 b))"
proof -
  have "filter (bit b) [0..<Suc n] = filter (bit b) (0 # map Suc [0..<n])"
    by (simp add: map_Suc_upt upt_conv_Cons del: upt_Suc)
  also have "\<dots> = (if bit b 0 then [0] else []) @ map Suc (filter (bit b \<circ> Suc) [0..<n])"
    by (simp add: filter_map)
  finally show ?thesis
    by (simp add: byte_channels_def bit_drop_bit_eq comp_def)
qed

lemma remap_bits_spec:
  assumes "unat c + n < 256"
  shows "remap_bits n b i c =
     (if unat i < length (byte_channels n b)
      then (True, 0, c + word_of_nat (byte_channels n b ! unat i))
      else (False, i - word_of_nat (length (byte_channels n b)), c + word_of_nat n))"
  using assms
proof (induction n arbitrary: b i c)
  case 0
  then show ?case by (simp add: byte_channels_def)
next
  case (Suc n)
  have c1: "unat (c + 1) + n < 256"
    using Suc.prems by (simp add: unat_word_ariths)
  note IH = Suc.IH [OF c1]
  have odd: "b AND 1 \<noteq> 0 \<longleftrightarrow> bit b 0"
    by (simp add: bit_0 and_one_eq odd_iff_mod_2_eq_one)
  consider "bit b 0" "i \<noteq> 0" | "bit b 0" "i = 0" | "\<not> bit b 0"
    by blast
  then show ?case
  proof cases
    case 1
    have i: "unat i = Suc (unat (i - 1))"
      using unat_less_one [of i] 1 by simp
    show ?thesis
      using 1 by (simp add: odd IH byte_channels_Suc i nth_append)
  next
    case 2
    then show ?thesis
      by (simp add: odd byte_channels_Suc)
  next
    case 3
    then show ?thesis
      by (simp add: odd IH byte_channels_Suc add.assoc)
  qed
qed

text \<open>The channels of a map, in order.\<close>

fun channels :: "u8 list \<Rightarrow> nat list" where
  "channels [] = []"
| "channels (b # m) = byte_channels 8 b @ map (\<lambda>c. c + 8) (channels m)"

lemma channels_iff: "c \<in> set (channels m) \<longleftrightarrow> c < 8 * length m \<and> bit (m ! (c div 8)) (c mod 8)"
proof (induction m arbitrary: c)
  case (Cons b m)
  show ?case
  proof (cases "c < 8")
    case True
    then show ?thesis
      by (auto simp: byte_channels_def)
  next
    case False
    then obtain d where d: "c = d + 8"
      by (metis add.commute le_add_diff_inverse not_less)
    have e: "(d + 8) div 8 = Suc (d div 8)"
      by simp
    show ?thesis
      using Cons [of d] by (auto simp: byte_channels_def d e simp del: div_add_self2)
  qed
qed simp

lemma length_byte_channels: "length (byte_channels n b) \<le> n"
  unfolding byte_channels_def by (metis length_filter_le length_upt minus_nat.diff_0)

lemma byte_channels_less: "i < length (byte_channels n b) \<Longrightarrow> byte_channels n b ! i < n"
  using nth_mem [of i "byte_channels n b"] by (auto simp: byte_channels_def)

lemma remap_bytes_spec:
  assumes "length m = n" and "unat c + 8 * n < 256" and "unat i < length (channels m)"
  shows "remap_bytes n m i c = c + word_of_nat (channels m ! unat i)"
  using assms
proof (induction n arbitrary: m i c)
  case (Suc n)
  then obtain b m' where m: "m = b # m'" "length m' = n"
    by (cases m) auto
  have c8: "unat c + 8 < 256" "unat (c + 8) + 8 * n < 256"
    using Suc.prems(2) by (simp_all add: unat_word_ariths)
  note r = remap_bits_spec [OF c8(1), of b i]
  show ?case
  proof (cases "unat i < length (byte_channels 8 b)")
    case True
    then show ?thesis
      using r by (simp add: m(1) nth_append)
  next
    case False
    let ?l = "length (byte_channels 8 b)"
    have l: "?l < 256"
      using length_byte_channels [of 8 b] by simp
    have "word_of_nat ?l \<le> i"
      using False l by (simp add: word_le_nat_alt unsigned_of_nat take_bit_nat_eq_self)
    then have i: "unat (i - word_of_nat ?l) = unat i - ?l"
      using l by (simp add: unat_sub unsigned_of_nat take_bit_nat_eq_self)
    have "unat (i - word_of_nat ?l) < length (channels m')"
      using Suc.prems(3) False by (simp add: m(1) i)
    from Suc.IH [OF m(2) c8(2) this] False r Suc.prems(3) show ?thesis
      by (simp add: m(1) i nth_append)
  qed
qed simp

lemma chan_used_iff:
  assumes "unat c < 8 * length m"
  shows "chan_used m c \<longleftrightarrow> unat c \<in> set (channels m)"
proof -
  have d: "unat (drop_bit 3 c) = unat c div 8" "unat (c mod 8) = unat c mod 8"
    by (simp_all add: drop_bit_eq_div unat_div unat_mod)
  have "push_bit k (1 :: u8) = 2 ^ k" for k
    by (simp add: push_bit_eq_mult)
  then show ?thesis
    using assms by (simp add: chan_used_def channels_iff d and_exp_eq_0_iff_not_bit)
qed

subsection \<open>The selected channel\<close>

text \<open>A channel map of the link layer: five bytes, at least one channel, none above 36.\<close>

definition valid_map :: "u8 list \<Rightarrow> bool" where
  "valid_map m \<longleftrightarrow> length m = 5 \<and> channels m \<noteq> [] \<and> list_all (\<lambda>c. c < 37) (channels m)"

definition map_count :: "u8 list \<Rightarrow> u8" where
  "map_count m = word_of_nat (length (channels m))"

lemma length_channels: "length (channels m) \<le> 8 * length m"
  by (induction m) (auto intro: order_trans [OF add_mono [OF length_byte_channels]])

lemma map_count_unat: "valid_map m \<Longrightarrow> unat (map_count m) = length (channels m)"
  using length_channels [of m]
  by (simp add: map_count_def valid_map_def unsigned_of_nat take_bit_nat_eq_self)

lemma unat_small: "n < 256 \<Longrightarrow> unat (word_of_nat n :: u8) = n"
  by (simp add: unsigned_of_nat take_bit_nat_eq_self)

lemma remap_in_map:
  assumes "valid_map m" and "unat i < length (channels m)"
  shows "unat (chan_sel_remap m i) = channels m ! unat i"
proof -
  have "channels m ! unat i < 37"
    using assms by (simp add: valid_map_def list_all_iff)
  moreover have "chan_sel_remap m i = word_of_nat (channels m ! unat i)"
    using remap_bytes_spec [of m 5 0 i] assms by (simp add: chan_sel_remap_def valid_map_def)
  ultimately show ?thesis
    by (simp add: unat_small)
qed

lemma selected:
  assumes "valid_map m" and "unat c < 37" and "unat i < length (channels m)"
  shows "unat (if \<not> chan_used m c then chan_sel_remap m i else c) =
     (if unat c \<in> set (channels m) then unat c else channels m ! unat i)"
proof -
  have "unat c < 8 * length m"
    using assms(1,2) by (simp add: valid_map_def)
  then show ?thesis
    using remap_in_map [OF assms(1,3)] by (simp add: chan_used_iff)
qed

lemma sel_2_index:
  assumes "valid_map m"
  shows "unat (ucast (drop_bit 16 ((ucast (map_count m) :: u32) * ucast (p :: u16))) :: u8) =
     length (channels m) * unat p div 2 ^ 16" (is ?A)
    and "length (channels m) * unat p div 2 ^ 16 < length (channels m)" (is ?B)
proof -
  let ?n = "length (channels m)"
  have n: "?n \<le> 40" "0 < ?n"
    using length_channels [of m] assms by (auto simp: valid_map_def)
  have p: "unat p < 2 ^ 16"
    using unsigned_less [of p] by simp
  have less: "?n * unat p < ?n * 2 ^ 16"
    using p n(2) by simp
  then show B: ?B
    by (simp add: less_mult_imp_div_less)
  have "(ucast (map_count m) :: u32) * ucast p = word_of_nat (unat (map_count m) * unat p)"
    by simp
  also have "\<dots> = word_of_nat (?n * unat p)"
    by (simp only: map_count_unat [OF assms])
  finally have e: "(ucast (map_count m) :: u32) * ucast p = word_of_nat (?n * unat p)" .
  have "?n * 2 ^ 16 \<le> 40 * 2 ^ 16"
    using n(1) by (rule mult_le_mono1)
  with less have "?n * unat p < 40 * 2 ^ 16"
    by (rule less_le_trans)
  then have "?n * unat p < 2 ^ LENGTH(32)"
    by simp
  then have "unat (drop_bit 16 ((ucast (map_count m) :: u32) * ucast p)) = ?n * unat p div 2 ^ 16"
    unfolding e by (simp only: unsigned_drop_bit_eq unsigned_of_nat take_bit_nat_eq_self of_nat_id)
      (simp only: drop_bit_eq_div)
  moreover have "?n * unat p div 2 ^ 16 < 2 ^ LENGTH(8)"
    using B n(1) by simp
  ultimately show ?A
    by (simp only: unsigned_ucast_eq take_bit_nat_eq_self)
qed

lemma sel_1_allowed:
  fixes chan_use hop latency
  assumes "valid_map m"
  defines "n \<equiv> (unat chan_use + unat hop * (1 + unat latency)) mod 37"
  shows "case lll_chan_sel_1 chan_use hop latency m (map_count m) of (chan_use', c) \<Rightarrow>
     unat chan_use' = n \<and>
     unat c = (if n \<in> set (channels m) then n else channels m ! (n mod length (channels m)))"
proof -
  have pos: "0 < length (channels m)"
    using assms(1) by (simp add: valid_map_def)
  have n: "unat (word_of_nat n :: u8) = n" "n < 37"
    by (simp_all add: unat_small n_def)
  have i: "unat ((word_of_nat n :: u8) mod map_count m) = n mod length (channels m)"
    by (simp only: unat_mod n map_count_unat [OF assms(1)])
  have "lll_chan_sel_1 chan_use hop latency m (map_count m) = (word_of_nat n,
      if \<not> chan_used m (word_of_nat n) then chan_sel_remap m (word_of_nat n mod map_count m)
      else word_of_nat n)"
    by (simp only: lll_chan_sel_1_def Let_def n_def)
  then show ?thesis
    using selected [OF assms(1), of "word_of_nat n" "word_of_nat n mod map_count m"] pos n i by simp
qed

lemma sel_2_allowed:
  fixes counter chan_id
  assumes "valid_map m"
  defines "p \<equiv> chan_prn counter chan_id"
  shows "unat (lll_chan_sel_2 counter chan_id m (map_count m)) =
     (if unat p mod 37 \<in> set (channels m) then unat p mod 37
      else channels m ! (length (channels m) * unat p div 2 ^ 16))"
proof -
  have "unat (p mod 37) = unat p mod 37" "unat p mod 37 < 37"
    by (simp_all add: unat_mod)
  moreover from this(2) have "unat p mod 37 < 2 ^ LENGTH(8)"
    by simp
  ultimately have c: "unat (ucast (p mod 37) :: u8) = unat p mod 37" "unat p mod 37 < 37"
    by (simp_all only: unsigned_ucast_eq take_bit_nat_eq_self)
  note x = sel_2_index [OF assms(1), of p]
  have "lll_chan_sel_2 counter chan_id m (map_count m) =
      (if \<not> chan_used m (ucast (p mod 37))
       then chan_sel_remap m (ucast (drop_bit 16 ((ucast (map_count m) :: u32) * ucast p)))
       else ucast (p mod 37))"
    by (simp only: lll_chan_sel_2_def Let_def p_def)
  then show ?thesis
    using selected [OF assms(1), of "ucast (p mod 37)"
        "ucast (drop_bit 16 ((ucast (map_count m) :: u32) * ucast p))"] x c
    by (simp only:)
qed

text \<open>
  C37: The selected channel is always one of the 37 data channels and allowed by the channel map. For
  a valid map and its number of channels, algorithm 1 hops from the last unmapped channel by the hop
  increment for every event since, and algorithm 2 takes the pseudo-random number of the event, modulo
  37; a channel the map allows is used itself, any other is replaced by the channel with the index
  the algorithm computes in the ordered list of allowed channels.
\<close>

theorem selected_channel_allowed:
  assumes "valid_map m"
  shows "(case lll_chan_sel_1 chan_use hop latency m (map_count m) of (chan_use', c) \<Rightarrow>
       unat chan_use' = (unat chan_use + unat hop * (1 + unat latency)) mod 37 \<and>
       unat c < 37 \<and> unat c \<in> set (channels m) \<and>
       unat c = (if unat chan_use' \<in> set (channels m) then unat chan_use'
                 else channels m ! (unat chan_use' mod length (channels m)))) \<and>
     (let c = lll_chan_sel_2 counter chan_id m (map_count m); prn_e = unat (chan_prn counter chan_id) in
       unat c < 37 \<and> unat c \<in> set (channels m) \<and>
       unat c = (if prn_e mod 37 \<in> set (channels m) then prn_e mod 37
                 else channels m ! (length (channels m) * prn_e div 2 ^ 16)))"
proof -
  have ch: "\<And>c. c \<in> set (channels m) \<Longrightarrow> c < 37" and pos: "0 < length (channels m)"
    using assms by (auto simp: valid_map_def list_all_iff)
  have mem: "channels m ! i \<in> set (channels m)" if "i < length (channels m)" for i
    using that by simp
  obtain u c where s: "lll_chan_sel_1 chan_use hop latency m (map_count m) = (u, c)"
    by fastforce
  have "unat c = (if unat u \<in> set (channels m) then unat u
                 else channels m ! (unat u mod length (channels m)))"
    "unat u = (unat chan_use + unat hop * (1 + unat latency)) mod 37"
    using sel_1_allowed [OF assms, of chan_use hop latency] by (simp_all add: s)
  moreover from this(1) have "unat c \<in> set (channels m)"
    using mem [of "unat u mod length (channels m)"] pos by (simp split: if_splits)
  moreover have "unat (lll_chan_sel_2 counter chan_id m (map_count m)) \<in> set (channels m)"
    using mem [OF sel_2_index(2) [OF assms, of "chan_prn counter chan_id"]]
    by (simp only: sel_2_allowed [OF assms] split: if_splits) simp
  ultimately show ?thesis
    using sel_2_allowed [OF assms, of counter chan_id] ch by (simp only: s prod.case Let_def)
qed

text \<open>The map and the values of the unit test in \<open>lll_chan.c\<close>.\<close>

definition chan_map_2 :: "u8 list" where
  "chan_map_2 = [0x00, 0x06, 0xE0, 0x00, 0x1E]"

lemma chan_map_2_channels: "channels chan_map_2 = [9, 10, 21, 22, 23, 33, 34, 35, 36]"
  by code_simp

lemma unit_test_values:
  "lll_chan_sel_2 1 0x305F [0xFF, 0xFF, 0xFF, 0xFF, 0x1F] 37 = 20"
  "lll_chan_sel_2 2 0x305F [0xFF, 0xFF, 0xFF, 0xFF, 0x1F] 37 = 6"
  "lll_chan_sel_2 3 0x305F [0xFF, 0xFF, 0xFF, 0xFF, 0x1F] 37 = 21"
  "lll_chan_sel_2 6 0x305F chan_map_2 9 = 23"
  "lll_chan_sel_2 7 0x305F chan_map_2 9 = 9"
  "lll_chan_sel_2 8 0x305F chan_map_2 9 = 34"
  by code_simp+

theorem selected_channel_allowed_witness:
  "unat (lll_chan_sel_2 6 0x305F chan_map_2 9) \<in> set (channels chan_map_2) \<and>
   unat (snd (lll_chan_sel_1 30 7 0 chan_map_2 9)) \<in> set (channels chan_map_2)"
proof -
  have "valid_map chan_map_2" "map_count chan_map_2 = 9"
    by (simp_all add: valid_map_def map_count_def chan_map_2_channels) (simp add: chan_map_2_def)
  then have "(case lll_chan_sel_1 30 7 0 chan_map_2 9 of (_, c) \<Rightarrow> unat c \<in> set (channels chan_map_2)) \<and>
      unat (lll_chan_sel_2 6 0x305F chan_map_2 9) \<in> set (channels chan_map_2)"
    using selected_channel_allowed [of chan_map_2 30 7 0 6 "0x305F"] unfolding Let_def by auto
  then show ?thesis
    by (auto split: prod.splits)
qed

subsection \<open>Hopping over all channels\<close>

definition next_use :: "u8 \<Rightarrow> u8 list \<Rightarrow> u8 \<Rightarrow> u8" where
  "next_use hop m chan_use = fst (lll_chan_sel_1 chan_use hop 0 m (map_count m))"

lemma next_use_unat: "unat (next_use hop m c) = (unat c + unat hop) mod 37"
  by (simp add: next_use_def lll_chan_sel_1_def Let_def unat_small)

lemma next_use_iterate: "unat c < 37 \<Longrightarrow> unat ((next_use hop m ^^ n) c) = (unat c + n * unat hop) mod 37"
  by (induction n) (simp_all add: next_use_unat mod_simps algebra_simps)

lemma prime_37: "0 < (h :: nat) \<Longrightarrow> h < 37 \<Longrightarrow> coprime h 37"
proof -
  have "list_all (\<lambda>h. gcd h 37 = (1 :: nat)) [1..<37]"
    by code_simp
  then show "0 < h \<Longrightarrow> h < 37 \<Longrightarrow> coprime h 37"
    by (simp add: list_all_iff coprime_iff_gcd_eq_1)
qed

lemma hop_apart:
  assumes "0 < h" and "h < 37" and "x < y" and "y < (37 :: nat)"
  shows "(c + x * h) mod 37 \<noteq> (c + y * h) mod 37"
proof
  assume "(c + x * h) mod 37 = (c + y * h) mod 37"
  then have "37 dvd (c + y * h) - (c + x * h)"
    using assms(3) mod_eq_dvd_iff_nat [of "c + x * h" "c + y * h" 37] by simp
  then have "37 dvd (y - x) * h"
    by (simp add: diff_mult_distrib)
  then have "37 dvd y - x"
    using prime_37 [OF assms(1,2)] by (metis coprime_commute coprime_dvd_mult_left_iff)
  with assms(3,4) show False
    by (auto dest: dvd_imp_le)
qed



end
