(* ===== verification/Ring_Buffer.thy ===== *)
theory Ring_Buffer
  imports Words Fifo
begin

text \<open>
  Ring buffers: \<open>lib/os/ring_buffer.c\<close> and \<open>include/sys/ring_buffer.h\<close>, in byte mode and in item mode.
  The buffer is the array the structure points to, of bytes or of 32-bit words. The first word of the
  union \<open>misc\<close> is \<open>tmp_tail\<close> in byte mode and the count of dropped items in item mode. Indices are
  natural numbers: with a buffer that fits into the address space no sum of them reaches \<open>2 ^ 32\<close>.
\<close>

record 'a ring_buf =
  rb_head :: nat
  rb_tail :: nat
  tmp_tail :: nat
  tmp_head :: nat
  rb_size :: nat
  rb_buf :: "'a list"
  rb_mask :: nat

abbreviation EMSGSIZE :: int where "EMSGSIZE \<equiv> 36"

definition is_power_of_two :: "u32 \<Rightarrow> bool" where
  "is_power_of_two x \<longleftrightarrow> x \<noteq> 0 \<and> x AND (x - 1) = 0"

definition ring_buf_init :: "u32 \<Rightarrow> 'a list \<Rightarrow> 'a ring_buf" where
  "ring_buf_init sz data =
     \<lparr>rb_head = 0, rb_tail = 0, tmp_tail = 0, tmp_head = 0, rb_size = unat sz, rb_buf = data,
      rb_mask = (if is_power_of_two sz then unat (sz - 1) else 0)\<rparr>"

definition z_ring_buf_custom_space_get :: "nat \<Rightarrow> nat \<Rightarrow> nat \<Rightarrow> nat" where
  "z_ring_buf_custom_space_get sz head tail =
     (if tail < head then head - tail - 1 else (sz - tail) + head - 1)"

definition ring_buf_is_empty :: "'a ring_buf \<Rightarrow> bool" where
  "ring_buf_is_empty b \<longleftrightarrow> rb_head b = rb_tail b"

definition ring_buf_reset :: "'a ring_buf \<Rightarrow> 'a ring_buf" where
  "ring_buf_reset b = b\<lparr>rb_head := 0, rb_tail := 0, tmp_tail := 0, tmp_head := 0\<rparr>"

definition ring_buf_space_get :: "'a ring_buf \<Rightarrow> nat" where
  "ring_buf_space_get b = z_ring_buf_custom_space_get (rb_size b) (rb_head b) (rb_tail b)"

definition ring_buf_capacity_get :: "'a ring_buf \<Rightarrow> nat" where
  "ring_buf_capacity_get b = rb_size b - 1"

definition wrap :: "nat \<Rightarrow> nat \<Rightarrow> nat" where
  "wrap val limit = (if val \<ge> limit then val - limit else val)"

definition ring_buf_put_claim :: "nat \<Rightarrow> 'a ring_buf \<Rightarrow> nat \<times> nat \<times> 'a ring_buf" where
  "ring_buf_put_claim sz b =
     (let space = z_ring_buf_custom_space_get (rb_size b) (rb_head b) (tmp_tail b);
          trail_size = rb_size b - tmp_tail b;
          allocated = min trail_size (min sz space)
      in (allocated, tmp_tail b, b\<lparr>tmp_tail := wrap (tmp_tail b + allocated) (rb_size b)\<rparr>))"

definition ring_buf_put_finish :: "nat \<Rightarrow> 'a ring_buf \<Rightarrow> int \<times> 'a ring_buf" where
  "ring_buf_put_finish sz b =
     (if sz > ring_buf_space_get b then (- EINVAL, b)
      else let t = wrap (rb_tail b + sz) (rb_size b) in (0, b\<lparr>rb_tail := t, tmp_tail := t\<rparr>))"

lemma put_claim_le: "ring_buf_put_claim sz b = (n, off, b') \<Longrightarrow> n \<le> sz"
  by (auto simp: ring_buf_put_claim_def Let_def)

function ring_buf_put_loop :: "u8 list \<Rightarrow> nat \<Rightarrow> nat \<Rightarrow> u8 ring_buf \<Rightarrow> nat \<times> u8 ring_buf" where
  "ring_buf_put_loop data sz total_size b =
     (case ring_buf_put_claim sz b of (partial_size, dst, b1) \<Rightarrow>
        let b2 = b1\<lparr>rb_buf := memcpy_at (rb_buf b1) dst (take partial_size data)\<rparr>
        in if sz - partial_size \<noteq> 0 \<and> partial_size \<noteq> 0
           then ring_buf_put_loop (drop partial_size data) (sz - partial_size) (total_size + partial_size) b2
           else (total_size + partial_size, b2))"
  by pat_completeness auto
termination
  by (relation "measure (\<lambda>(data, sz, tot, b). sz)") auto

declare ring_buf_put_loop.simps [simp del]

definition ring_buf_put :: "u8 list \<Rightarrow> nat \<Rightarrow> u8 ring_buf \<Rightarrow> nat \<times> u8 ring_buf" where
  "ring_buf_put data sz b =
     (case ring_buf_put_loop data sz 0 b of (total_size, b1) \<Rightarrow>
        (total_size, snd (ring_buf_put_finish total_size b1)))"

definition ring_buf_get_claim :: "nat \<Rightarrow> 'a ring_buf \<Rightarrow> nat \<times> nat \<times> 'a ring_buf" where
  "ring_buf_get_claim sz b =
     (let space = (rb_size b - 1) - z_ring_buf_custom_space_get (rb_size b) (tmp_head b) (rb_tail b);
          trail_size = rb_size b - tmp_head b;
          granted_size = min trail_size (min sz space)
      in (granted_size, tmp_head b, b\<lparr>tmp_head := wrap (tmp_head b + granted_size) (rb_size b)\<rparr>))"

definition ring_buf_get_finish :: "nat \<Rightarrow> 'a ring_buf \<Rightarrow> int \<times> 'a ring_buf" where
  "ring_buf_get_finish sz b =
     (if sz > (rb_size b - 1) - ring_buf_space_get b then (- EINVAL, b)
      else let h = wrap (rb_head b + sz) (rb_size b) in (0, b\<lparr>rb_head := h, tmp_head := h\<rparr>))"

function ring_buf_get_loop :: "nat \<Rightarrow> u8 list \<Rightarrow> u8 ring_buf \<Rightarrow> u8 list \<times> u8 ring_buf" where
  "ring_buf_get_loop sz data b =
     (case ring_buf_get_claim sz b of (partial_size, src, b1) \<Rightarrow>
        let data1 = data @ take partial_size (drop src (rb_buf b1))
        in if sz - partial_size \<noteq> 0 \<and> partial_size \<noteq> 0
           then ring_buf_get_loop (sz - partial_size) data1 b1 else (data1, b1))"
  by pat_completeness auto
termination
  by (relation "measure (\<lambda>(sz, data, b). sz)") auto

declare ring_buf_get_loop.simps [simp del]

text \<open>The bytes written to the caller's array; their number is the value the C function returns.\<close>

definition ring_buf_get :: "nat \<Rightarrow> u8 ring_buf \<Rightarrow> u8 list \<times> u8 ring_buf" where
  "ring_buf_get sz b =
     (case ring_buf_get_loop sz [] b of (data, b1) \<Rightarrow>
        (data, snd (ring_buf_get_finish (length data) b1)))"


text \<open>
  In item mode an item is a header word followed by its data words. The header is a bit field: 16
  bits of type, 8 bits of length and 8 bits of value, from the low end, as the compiler for a little
  endian ARM core lays it out.
\<close>

definition ring_element :: "u16 \<Rightarrow> u8 \<Rightarrow> u8 \<Rightarrow> u32" where
  "ring_element ty len val =
     (ucast ty OR push_bit 16 (ucast len)) OR push_bit 24 (ucast val)"

definition element_type :: "u32 \<Rightarrow> u16" where
  "element_type header = ucast header"

definition element_length :: "u32 \<Rightarrow> u8" where
  "element_length header = ucast (drop_bit 16 header)"

definition element_value :: "u32 \<Rightarrow> u8" where
  "element_value header = ucast (drop_bit 24 header)"

definition item_index :: "'a ring_buf \<Rightarrow> nat \<Rightarrow> nat" where
  "item_index b i = (if rb_mask b \<noteq> 0 then i AND rb_mask b else i mod rb_size b)"

fun put_words :: "u32 ring_buf \<Rightarrow> nat \<Rightarrow> u32 list \<Rightarrow> u32 list \<Rightarrow> u32 list" where
  "put_words b i [] buf = buf"
| "put_words b i (d # data) buf =
     put_words b (i + 1) data (buf[item_index b (i + rb_tail b + 1) := d])"

definition ring_buf_item_put ::
  "u16 \<Rightarrow> u8 \<Rightarrow> u32 list \<Rightarrow> u8 \<Rightarrow> u32 ring_buf \<Rightarrow> int \<times> u32 ring_buf" where
  "ring_buf_item_put ty val data size32 b =
     (if ring_buf_space_get b \<ge> unat size32 + 1
      then let buf = (rb_buf b)[rb_tail b := ring_element ty size32 val]
           in (0, b\<lparr>rb_buf := put_words b 0 (take (unat size32) data) buf,
                    rb_tail := item_index b (rb_tail b + unat size32 + 1)\<rparr>)
      else (- EMSGSIZE, b\<lparr>tmp_tail := (tmp_tail b + 1) mod 2 ^ 32\<rparr>))"

text \<open>The outcome of a read: nothing there, a caller's array that is too small, or an item.\<close>

datatype item_result =
    Item_None
  | Item_Too_Big (needed: u8)
  | Item_Read (read_type: u16) (read_value: u8) (read_data: "u32 list") (read_size: u8)

definition ring_buf_item_get :: "u8 \<Rightarrow> u32 ring_buf \<Rightarrow> item_result \<times> u32 ring_buf" where
  "ring_buf_item_get size32 b =
     (if ring_buf_is_empty b then (Item_None, b)
      else let header = rb_buf b ! rb_head b; n = unat (element_length header)
           in if n > unat size32 then (Item_Too_Big (element_length header), b)
              else (Item_Read (element_type header) (element_value header)
                      (map (\<lambda>i. rb_buf b ! item_index b (i + rb_head b + 1)) [0..<n]) (element_length header),
                    b\<lparr>rb_head := item_index b (rb_head b + n + 1)\<rparr>))"

definition item_result_code :: "item_result \<Rightarrow> int" where
  "item_result_code r =
     (case r of Item_None \<Rightarrow> - EAGAIN | Item_Too_Big _ \<Rightarrow> - EMSGSIZE | Item_Read _ _ _ _ \<Rightarrow> 0)"

subsection \<open>The ring as a sequence\<close>

definition used :: "nat \<Rightarrow> nat \<Rightarrow> nat \<Rightarrow> nat" where
  "used N h t = (if t < h then t + N - h else t - h)"

definition ring_seq :: "'a list \<Rightarrow> nat \<Rightarrow> nat \<Rightarrow> 'a list" where
  "ring_seq buf h n = map (\<lambda>i. buf ! ((h + i) mod length buf)) [0..<n]"

lemma length_ring_seq [simp]: "length (ring_seq buf h n) = n"
  by (simp add: ring_seq_def)

lemma used_less: "h < N \<Longrightarrow> t < N \<Longrightarrow> used N h t < N"
  by (auto simp: used_def)

lemma used_place: "h < N \<Longrightarrow> t < N \<Longrightarrow> (h + used N h t) mod N = t"
  by (auto simp: used_def)

lemma used_eq:
  assumes "h < N" and "u < N"
  shows "used N h ((h + u) mod N) = u"
proof (cases "h + u < N")
  case False
  with assms have "(h + u) mod N = h + u - N"
    by (simp add: le_mod_geq)
  with assms False show ?thesis by (auto simp: used_def)
qed (simp add: used_def)

lemma used_back:
  assumes "h < N" and "t < N" and "n \<le> used N h t"
  shows "used N ((h + n) mod N) t = used N h t - n"
proof -
  have "((h + n) mod N + (used N h t - n)) mod N = (h + used N h t) mod N"
    using assms(3) by (simp only: mod_add_left_eq add.assoc le_add_diff_inverse)
  then have "((h + n) mod N + (used N h t - n)) mod N = t"
    by (simp add: used_place assms)
  moreover have "used N h t - n < N"
    using used_less [OF assms(1,2)] by simp
  ultimately show ?thesis
    using used_eq [of "(h + n) mod N" N "used N h t - n"] assms(1) by simp
qed

lemma custom_space:
  "h < N \<Longrightarrow> t < N \<Longrightarrow> z_ring_buf_custom_space_get N h t = N - 1 - used N h t"
  by (auto simp: z_ring_buf_custom_space_get_def used_def)

lemma wrap_mod: "v < 2 * N \<Longrightarrow> wrap v N = v mod N"
  by (simp add: wrap_def le_mod_geq)

lemma nth_memcpy_at:
  assumes "off + length data \<le> length buf" and "i < length buf"
  shows "memcpy_at buf off data ! i =
    (if off \<le> i \<and> i < off + length data then data ! (i - off) else buf ! i)"
  using assms by (auto simp: memcpy_at_def nth_append)

lemma nth_ring_seq [simp]: "i < n \<Longrightarrow> ring_seq buf h n ! i = buf ! ((h + i) mod length buf)"
  by (simp add: ring_seq_def)

lemma ring_seq_drop: "drop k (ring_seq buf h n) = ring_seq buf ((h + k) mod length buf) (n - k)"
  by (rule nth_equalityI) (simp_all add: mod_add_left_eq add.assoc)

lemma ring_seq_take: "k \<le> n \<Longrightarrow> take k (ring_seq buf h n) = ring_seq buf h k"
  by (rule nth_equalityI) simp_all

lemma ring_seq_straight:
  assumes "h + n \<le> length buf"
  shows "ring_seq buf h n = take n (drop h buf)"
  using assms by (intro nth_equalityI) simp_all

lemma ring_seq_write:
  assumes "u + length data \<le> length buf" and "(h + u) mod length buf + length data \<le> length buf"
    and "0 < length buf"
  shows "ring_seq (memcpy_at buf ((h + u) mod length buf) data) h (u + length data) = ring_seq buf h u @ data"
proof (rule nth_equalityI)
  fix i
  assume "i < length (ring_seq (memcpy_at buf ((h + u) mod length buf) data) h (u + length data))"
  then have i: "i < u + length data" by simp
  let ?N = "length buf" and ?t = "(h + u) mod length buf"
  have place: "?t + j = (h + (u + j)) mod ?N" if "j < length data" for j
  proof -
    have "?t + j = (?t + j) mod ?N" using that assms(2) by simp
    then show ?thesis by (simp add: mod_add_left_eq add.assoc)
  qed
  show "ring_seq (memcpy_at buf ?t data) h (u + length data) ! i = (ring_seq buf h u @ data) ! i"
  proof (cases "i < u")
    case True
    have "(h + i) mod ?N \<noteq> ?t + j" if "j < length data" for j
      using mod_ring_inj [of i ?N "u + j" h] place [OF that] True that assms(1) by simp
    then have "\<not> (?t \<le> (h + i) mod ?N \<and> (h + i) mod ?N < ?t + length data)"
      by (metis le_add_diff_inverse nat_add_left_cancel_less)
    with True i assms show ?thesis
      by (auto simp: nth_append nth_memcpy_at)
  next
    case False
    then obtain j where j: "i = u + j"
      by (metis le_iff_add not_le)
    with i place [of j] have "(h + i) mod ?N = ?t + j"
      by simp
    with i j assms show ?thesis
      by (simp add: nth_append nth_memcpy_at)
  qed
qed simp

subsection \<open>Byte mode\<close>

definition ring_ok :: "'a ring_buf \<Rightarrow> bool" where
  "ring_ok b \<longleftrightarrow> 0 < rb_size b \<and> length (rb_buf b) = rb_size b \<and>
     rb_head b < rb_size b \<and> rb_tail b < rb_size b"

definition byte_ring :: "'a ring_buf \<Rightarrow> bool" where
  "byte_ring b \<longleftrightarrow> ring_ok b \<and> tmp_tail b = rb_tail b \<and> tmp_head b = rb_head b"

definition ring_used :: "'a ring_buf \<Rightarrow> nat" where
  "ring_used b = used (rb_size b) (rb_head b) (rb_tail b)"

definition ring_contents :: "'a ring_buf \<Rightarrow> 'a list" where
  "ring_contents b = ring_seq (rb_buf b) (rb_head b) (ring_used b)"

lemma ring_space: "ring_ok b \<Longrightarrow> ring_buf_space_get b = rb_size b - 1 - ring_used b"
  by (simp add: ring_buf_space_get_def ring_ok_def custom_space ring_used_def)

lemma ring_used_less: "ring_ok b \<Longrightarrow> ring_used b < rb_size b"
  by (simp add: ring_ok_def ring_used_def used_less)

lemma length_ring_contents [simp]: "length (ring_contents b) = ring_used b"
  by (simp add: ring_contents_def)

lemma put_claim:
  assumes "ring_ok b" and "tmp_tail b < rb_size b"
    and u: "u = used (rb_size b) (rb_head b) (tmp_tail b)"
    and n: "n = min (rb_size b - tmp_tail b) (min sz (rb_size b - 1 - u))"
  shows "ring_buf_put_claim sz b =
    (n, (rb_head b + u) mod rb_size b, b\<lparr>tmp_tail := (rb_head b + (u + n)) mod rb_size b\<rparr>)"
proof -
  have t: "(rb_head b + u) mod rb_size b = tmp_tail b"
    using assms(1,2) by (simp add: ring_ok_def u used_place)
  then have "(rb_head b + (u + n)) mod rb_size b = (tmp_tail b + n) mod rb_size b"
    by (metis add.assoc mod_add_left_eq)
  moreover have "tmp_tail b + n < 2 * rb_size b"
    using assms(2) n by simp
  ultimately show ?thesis
    using assms(1) t n by (simp add: ring_buf_put_claim_def Let_def ring_ok_def assms(2) custom_space u wrap_mod)
qed

lemma put_loop:
  assumes "ring_ok b" and "tmp_tail b < rb_size b" and "sz \<le> length data"
    and "u = used (rb_size b) (rb_head b) (tmp_tail b)" and "n = min sz (rb_size b - 1 - u)"
  shows "\<exists>buf. ring_buf_put_loop data sz tot b =
      (tot + n, b\<lparr>tmp_tail := (rb_head b + (u + n)) mod rb_size b, rb_buf := buf\<rparr>) \<and>
    length buf = rb_size b \<and> ring_seq buf (rb_head b) (u + n) = ring_seq (rb_buf b) (rb_head b) u @ take n data"
  using assms
proof (induction data sz tot b arbitrary: u n rule: ring_buf_put_loop.induct)
  case (1 data sz tot b)
  let ?N = "rb_size b" and ?h = "rb_head b"
  define m where "m = min (?N - tmp_tail b) (min sz (?N - 1 - u))"
  define buf where "buf = memcpy_at (rb_buf b) ((?h + u) mod ?N) (take m data)"
  define b2 where "b2 = b\<lparr>tmp_tail := (?h + (u + m)) mod ?N, rb_buf := buf\<rparr>"
  note claim = put_claim [OF 1(2,3,5) m_def]
  have N: "0 < ?N" "length (rb_buf b) = ?N" "?h < ?N" and u: "u < ?N" and t: "(?h + u) mod ?N = tmp_tail b"
    using 1(2,3,5) by (auto simp: ring_ok_def used_less used_place)
  have m: "m \<le> sz" "u + m < ?N" "m \<le> n" "length (take m data) = m" "tmp_tail b + m \<le> ?N"
    using 1(3,4,6) u by (auto simp: m_def)
  have step: "length buf = ?N" "ring_seq buf ?h (u + m) = ring_seq (rb_buf b) ?h u @ take m data"
    using ring_seq_write [of u "take m data" "rb_buf b" ?h] N m t by (simp_all add: buf_def)
  show ?case
  proof (cases "sz - m \<noteq> 0 \<and> m \<noteq> 0")
    case False
    then have "m = n" using m(1) 1(3,6) by (auto simp: m_def)
    with False claim have "ring_buf_put_loop data sz tot b =
        (tot + n, b\<lparr>tmp_tail := (?h + (u + n)) mod ?N, rb_buf := buf\<rparr>)"
      by (subst ring_buf_put_loop.simps) (auto simp: Let_def buf_def)
    with step show ?thesis by (auto simp: \<open>m = n\<close>)
  next
    case True
    have used2: "u + m = used (rb_size b2) (rb_head b2) (tmp_tail b2)"
      using N m by (simp add: b2_def used_eq)
    have ok2: "ring_ok b2" "tmp_tail b2 < rb_size b2"
      using 1(2) N step(1) by (simp_all add: b2_def ring_ok_def)
    have n2: "n - m = min (sz - m) (rb_size b2 - 1 - (u + m))"
      unfolding b2_def 1(6) by (auto simp: min_def)
    have "\<exists>buf'. ring_buf_put_loop (drop m data) (sz - m) (tot + m) b2 =
        (tot + m + (n - m), b2\<lparr>tmp_tail := (rb_head b2 + (u + m + (n - m))) mod rb_size b2, rb_buf := buf'\<rparr>) \<and>
      length buf' = rb_size b2 \<and> ring_seq buf' (rb_head b2) (u + m + (n - m)) =
        ring_seq (rb_buf b2) (rb_head b2) (u + m) @ take (n - m) (drop m data)"
      using True 1(4) m by (intro 1(1) [OF claim [symmetric] refl _ _ ok2 _ used2 n2]) (simp_all add: b2_def buf_def)
    moreover have "take m data @ take (n - m) (drop m data) = take n data"
      using m(3) by (metis le_add_diff_inverse take_add)
    ultimately show ?thesis
      using True claim step m(3) by (subst ring_buf_put_loop.simps) (auto simp: Let_def b2_def buf_def)
  qed
qed

lemma ring_buf_put:
  assumes "byte_ring b" and "sz \<le> length data" and n: "n = min sz (rb_size b - 1 - ring_used b)"
  shows "fst (ring_buf_put data sz b) = n" and "byte_ring (snd (ring_buf_put data sz b))"
    and "ring_contents (snd (ring_buf_put data sz b)) = ring_contents b @ take n data"
    and "rb_size (snd (ring_buf_put data sz b)) = rb_size b"
proof -
  let ?N = "rb_size b" and ?h = "rb_head b" and ?u = "ring_used b"
  have ok: "ring_ok b" "tmp_tail b < ?N" "?u = used ?N ?h (tmp_tail b)"
    and N: "0 < ?N" "?h < ?N" "length (rb_buf b) = ?N" "rb_tail b < ?N" "tmp_head b = ?h"
    using assms(1) by (auto simp: byte_ring_def ring_ok_def ring_used_def)
  have u: "?u + n < ?N" using ring_used_less [OF ok(1)] n by simp
  obtain buf where buf: "ring_buf_put_loop data sz 0 b =
      (n, b\<lparr>tmp_tail := (?h + (?u + n)) mod ?N, rb_buf := buf\<rparr>)" "length buf = ?N"
    "ring_seq buf ?h (?u + n) = ring_contents b @ take n data"
    using put_loop [OF ok(1,2) assms(2) ok(3) n, of 0] by (auto simp: ring_contents_def)
  let ?b1 = "b\<lparr>tmp_tail := (?h + (?u + n)) mod ?N, rb_buf := buf\<rparr>"
    and ?b2 = "b\<lparr>rb_tail := (?h + (?u + n)) mod ?N, tmp_tail := (?h + (?u + n)) mod ?N, rb_buf := buf\<rparr>"
  have "(?h + ?u) mod ?N = rb_tail b"
    using N by (simp add: ring_used_def used_place)
  then have "(?h + (?u + n)) mod ?N = (rb_tail b + n) mod ?N"
    by (metis add.assoc mod_add_left_eq)
  also have "\<dots> = wrap (rb_tail b + n) ?N"
    using N u by (intro wrap_mod [symmetric]) simp
  finally have w: "wrap (rb_tail b + n) ?N = (?h + (?u + n)) mod ?N" ..
  have "ring_buf_space_get ?b1 = ?N - 1 - ?u" and "n \<le> ?N - 1 - ?u"
    using ring_space [OF ok(1)] n by (simp_all add: ring_buf_space_get_def)
  then have "ring_buf_put_finish n ?b1 = (0, ?b2)"
    by (simp add: ring_buf_put_finish_def Let_def w)
  then have put: "ring_buf_put data sz b = (n, ?b2)"
    by (simp add: ring_buf_put_def buf)
  have "ring_used ?b2 = ?u + n"
    using N u by (simp add: ring_used_def used_eq)
  then show "fst (ring_buf_put data sz b) = n" "byte_ring (snd (ring_buf_put data sz b))"
    "ring_contents (snd (ring_buf_put data sz b)) = ring_contents b @ take n data"
    "rb_size (snd (ring_buf_put data sz b)) = rb_size b"
    using N buf by (simp_all add: put byte_ring_def ring_ok_def ring_contents_def)
qed

lemma get_claim:
  assumes "ring_ok b" and "tmp_head b < rb_size b"
    and u: "u = used (rb_size b) (tmp_head b) (rb_tail b)"
    and n: "n = min (rb_size b - tmp_head b) (min sz u)"
  shows "ring_buf_get_claim sz b =
    (n, tmp_head b, b\<lparr>tmp_head := (tmp_head b + n) mod rb_size b\<rparr>)"
proof -
  have "u < rb_size b"
    using assms(1,2) by (simp add: ring_ok_def u used_less)
  then have "rb_size b - Suc 0 - (rb_size b - Suc (used (rb_size b) (tmp_head b) (rb_tail b))) = u"
    by (simp add: u)
  moreover have "tmp_head b + n < 2 * rb_size b"
    using assms(2) n by simp
  ultimately show ?thesis
    using assms(1) n by (simp add: ring_buf_get_claim_def Let_def ring_ok_def assms(2) custom_space wrap_mod)
qed

lemma get_loop:
  assumes "ring_ok b" and "tmp_head b < rb_size b"
    and "u = used (rb_size b) (tmp_head b) (rb_tail b)" and "n = min sz u"
  shows "ring_buf_get_loop sz data b =
    (data @ ring_seq (rb_buf b) (tmp_head b) n, b\<lparr>tmp_head := (tmp_head b + n) mod rb_size b\<rparr>)"
  using assms
proof (induction sz data b arbitrary: u n rule: ring_buf_get_loop.induct)
  case (1 sz data b)
  let ?N = "rb_size b" and ?h = "tmp_head b"
  define m where "m = min (?N - ?h) (min sz u)"
  define b2 where "b2 = b\<lparr>tmp_head := (?h + m) mod ?N\<rparr>"
  note claim = get_claim [OF 1(2,3,4) m_def]
  have N: "0 < ?N" "length (rb_buf b) = ?N" "rb_tail b < ?N"
    using 1(2) by (auto simp: ring_ok_def)
  have m: "m \<le> sz" "m \<le> u" "m \<le> n" "?h + m \<le> ?N"
    using 1(3,5) by (auto simp: m_def)
  have read: "take m (drop ?h (rb_buf b)) = ring_seq (rb_buf b) ?h m"
    using m N by (simp add: ring_seq_straight)
  show ?case
  proof (cases "sz - m \<noteq> 0 \<and> m \<noteq> 0")
    case False
    then have "m = n" using m(1) 1(3,5) by (auto simp: m_def)
    with False claim read show ?thesis
      by (subst ring_buf_get_loop.simps) (auto simp: Let_def)
  next
    case True
    have used2: "u - m = used (rb_size b2) (tmp_head b2) (rb_tail b2)"
      using used_back [OF 1(3) N(3), of m] m(2) 1(4) by (simp add: b2_def)
    have ok2: "ring_ok b2" "tmp_head b2 < rb_size b2"
      using 1(2) N(1) by (simp_all add: b2_def ring_ok_def)
    have n2: "n - m = min (sz - m) (u - m)"
      unfolding 1(5) by (auto simp: min_def)
    have "ring_buf_get_loop (sz - m) (data @ ring_seq (rb_buf b) ?h m) b2 =
      ((data @ ring_seq (rb_buf b) ?h m) @ ring_seq (rb_buf b2) (tmp_head b2) (n - m),
       b2\<lparr>tmp_head := (tmp_head b2 + (n - m)) mod rb_size b2\<rparr>)"
      using True by (intro 1(1) [OF claim [symmetric, folded b2_def] refl _ _ ok2 used2 n2]) (simp_all add: b2_def read)
    moreover have "(tmp_head b2 + (n - m)) mod rb_size b2 = (?h + n) mod ?N"
      using m(3) by (simp add: b2_def mod_add_left_eq add.assoc del: add_diff_assoc)
    moreover have "ring_seq (rb_buf b) ?h m @ ring_seq (rb_buf b) ((?h + m) mod ?N) (n - m) =
        ring_seq (rb_buf b) ?h n"
      using m(3) N by (metis append_take_drop_id ring_seq_drop ring_seq_take)
    ultimately show ?thesis
      using True claim read by (subst ring_buf_get_loop.simps) (auto simp: Let_def b2_def)
  qed
qed

lemma ring_buf_get:
  assumes "byte_ring b" and n: "n = min sz (ring_used b)"
  shows "fst (ring_buf_get sz b) = take n (ring_contents b)" and "byte_ring (snd (ring_buf_get sz b))"
    and "ring_contents (snd (ring_buf_get sz b)) = drop n (ring_contents b)"
    and "rb_size (snd (ring_buf_get sz b)) = rb_size b"
proof -
  let ?N = "rb_size b" and ?h = "rb_head b" and ?u = "ring_used b"
  have ok: "ring_ok b" "tmp_head b < ?N" "?u = used ?N (tmp_head b) (rb_tail b)"
    and N: "0 < ?N" "?h < ?N" "length (rb_buf b) = ?N" "rb_tail b < ?N" "tmp_head b = ?h" "tmp_tail b = rb_tail b"
    using assms(1) by (auto simp: byte_ring_def ring_ok_def ring_used_def)
  have u: "?u < ?N" "n \<le> ?u" using ring_used_less [OF ok(1)] n by simp_all
  have loop: "ring_buf_get_loop sz [] b = (ring_seq (rb_buf b) ?h n, b\<lparr>tmp_head := (?h + n) mod ?N\<rparr>)"
    using get_loop [OF ok n] N(5) by simp
  let ?b1 = "b\<lparr>tmp_head := (?h + n) mod ?N\<rparr>"
    and ?b2 = "b\<lparr>rb_head := (?h + n) mod ?N, tmp_head := (?h + n) mod ?N\<rparr>"
  have w: "wrap (?h + n) ?N = (?h + n) mod ?N"
    using N u by (intro wrap_mod) simp
  have "?N - Suc 0 - ring_buf_space_get ?b1 = ?u"
    using ring_space [OF ok(1)] u by (simp add: ring_buf_space_get_def)
  then have "ring_buf_get_finish n ?b1 = (0, ?b2)"
    using u by (simp add: ring_buf_get_finish_def Let_def w)
  then have get: "ring_buf_get sz b = (ring_seq (rb_buf b) ?h n, ?b2)"
    by (simp add: ring_buf_get_def loop)
  have "ring_used ?b2 = ?u - n"
    using used_back [OF N(2,4), of n] u by (simp add: ring_used_def)
  then show "fst (ring_buf_get sz b) = take n (ring_contents b)" "byte_ring (snd (ring_buf_get sz b))"
    "ring_contents (snd (ring_buf_get sz b)) = drop n (ring_contents b)"
    "rb_size (snd (ring_buf_get sz b)) = rb_size b"
    using N u by (simp_all add: get byte_ring_def ring_ok_def ring_contents_def ring_seq_take ring_seq_drop)
qed

text \<open>A ring of bytes as a bounded queue: a byte goes in, a byte comes out.\<close>

definition put_byte :: "u8 \<Rightarrow> u8 ring_buf \<Rightarrow> u8 ring_buf option" where
  "put_byte x b = (case ring_buf_put [x] 1 b of (n, b1) \<Rightarrow> if n = 1 then Some b1 else None)"

definition get_byte :: "u8 ring_buf \<Rightarrow> (u8 \<times> u8 ring_buf) option" where
  "get_byte b = (case ring_buf_get 1 b of (data, b1) \<Rightarrow> if data = [] then None else Some (hd data, b1))"

lemma put_byte_Some:
  assumes "byte_ring b"
  shows "put_byte x b = (if ring_used b < rb_size b - 1 then Some (snd (ring_buf_put [x] 1 b)) else None)"
  using ring_buf_put(1) [OF assms, of 1 "[x]"] by (auto simp: put_byte_def split: prod.splits)

lemma get_byte_Some:
  assumes "byte_ring b"
  shows "get_byte b =
    (if ring_contents b = [] then None else Some (hd (ring_contents b), snd (ring_buf_get 1 b)))"
proof -
  have "ring_contents b = [] \<longleftrightarrow> ring_used b = 0"
    by (metis length_0_conv length_ring_contents)
  then show ?thesis
    using ring_buf_get(1) [OF assms refl, of 1] by (cases "ring_contents b") (auto simp: get_byte_def split: prod.splits)
qed

lemma put_byte_step:
  assumes "byte_ring b" and "put_byte x b = Some b'"
  shows "byte_ring b'" and "rb_size b' = rb_size b" and "ring_contents b' = ring_contents b @ [x]"
proof -
  have "b' = snd (ring_buf_put [x] 1 b)" and "min 1 (rb_size b - 1 - ring_used b) = 1"
    using assms(2) by (auto simp: put_byte_Some [OF assms(1)] split: if_splits)
  with ring_buf_put(2-4) [OF assms(1), of 1 "[x]"]
  show "byte_ring b'" "rb_size b' = rb_size b" "ring_contents b' = ring_contents b @ [x]"
    by simp_all
qed

lemma get_byte_step:
  assumes "byte_ring b" and "get_byte b = Some (x, b')"
  shows "byte_ring b'" and "rb_size b' = rb_size b" and "ring_contents b = x # ring_contents b'"
proof -
  have b': "b' = snd (ring_buf_get 1 b)" and x: "ring_contents b \<noteq> []" "x = hd (ring_contents b)"
    using assms(2) by (auto simp: get_byte_Some [OF assms(1)] split: if_splits)
  from x(1) have "ring_used b \<noteq> 0"
    by (metis length_0_conv length_ring_contents)
  then have "min 1 (ring_used b) = 1"
    by simp
  with ring_buf_get(2-4) [OF assms(1) refl, of 1] b' x
  show "byte_ring b'" "rb_size b' = rb_size b" "ring_contents b = x # ring_contents b'"
    by (simp_all add: drop_Suc)
qed

interpretation bytes: bounded_fifo put_byte get_byte ring_contents ring_buf_capacity_get byte_ring "\<lambda>b x. True"
proof
  fix b :: "u8 ring_buf" and x
  assume b: "byte_ring b"
  have u: "ring_used b < rb_size b"
    using b by (simp add: byte_ring_def ring_used_less)
  then show "length (ring_contents b) \<le> ring_buf_capacity_get b"
    by (simp add: ring_buf_capacity_get_def)
  from u show "put_byte x b = None \<longleftrightarrow> length (ring_contents b) = ring_buf_capacity_get b"
    by (auto simp: put_byte_Some [OF b] ring_buf_capacity_get_def)
  show "get_byte b = None \<longleftrightarrow> ring_contents b = []"
    by (simp add: get_byte_Some [OF b])
qed (auto simp: ring_buf_capacity_get_def dest: put_byte_step get_byte_step)

subsection \<open>Item mode\<close>

lemma and_pred_power:
  "0 < (n :: nat) \<Longrightarrow> n AND (n - 1) = 0 \<Longrightarrow> \<exists>k. n = 2 ^ k"
proof (induction n rule: less_induct)
  case (less n)
  show ?case
  proof (cases "even n")
    case True
    then obtain m where m: "n = 2 * m" by blast
    with less.prems have "0 < m" by simp
    then have "n - 1 = 2 * (m - 1) + 1" using m by simp
    then have "n AND (n - 1) = 2 * (m AND (m - 1))"
      by (simp add: m and_rec [of "2 * m"])
    with less.prems(2) have "m AND (m - 1) = 0" by simp
    with less.IH [of m] m \<open>0 < m\<close> obtain k where "m = 2 ^ k" by auto
    with m show ?thesis by (metis power_Suc)
  next
    case False
    then obtain m where m: "n = 2 * m + 1" by (blast elim: oddE)
    then have "n AND (n - 1) = 2 * (m AND m)"
      by (simp add: and_rec [of "Suc (2 * m)"])
    with less.prems m have "n = 2 ^ 0" by simp
    then show ?thesis by blast
  qed
qed

lemma is_power_of_two_exp:
  assumes "is_power_of_two x"
  shows "\<exists>k. unat x = 2 ^ k"
proof -
  have x: "x \<noteq> 0" using assms by (simp add: is_power_of_two_def)
  then have "0 < unat x" "unat (x - 1) = unat x - 1"
    by (simp_all add: unat_gt_0 unat_minus_one)
  moreover have "unat x AND unat (x - 1) = unat (x AND (x - 1))"
    by (simp add: unsigned_and_eq)
  then have "unat x AND unat (x - 1) = 0"
    using assms by (simp add: is_power_of_two_def)
  ultimately show ?thesis by (intro and_pred_power) simp_all
qed

definition item_ok :: "'a ring_buf \<Rightarrow> bool" where
  "item_ok b \<longleftrightarrow> ring_ok b \<and> (rb_mask b \<noteq> 0 \<longrightarrow> (\<exists>k. rb_size b = 2 ^ k \<and> rb_mask b = 2 ^ k - 1))"

lemma item_index_mod [simp]: "item_ok b \<Longrightarrow> item_index b i = i mod rb_size b"
  by (auto simp: item_ok_def item_index_def take_bit_eq_mask mask_eq_exp_minus_1 simp flip: take_bit_eq_mod)

lemma init_ok:
  assumes "0 < sz" and "length data = unat sz"
  shows "item_ok (ring_buf_init sz data)" and "byte_ring (ring_buf_init sz data)"
    and "ring_contents (ring_buf_init sz data) = []"
proof -
  have z: "sz \<noteq> 0" using assms(1) by auto
  then have "unat (sz - 1) = unat sz - 1" "0 < unat sz"
    by (simp_all add: unat_gt_0 unat_minus_one)
  with assms(2) show "item_ok (ring_buf_init sz data)" "byte_ring (ring_buf_init sz data)"
    "ring_contents (ring_buf_init sz data) = []"
    using is_power_of_two_exp [of sz]
    by (auto simp: item_ok_def ring_ok_def byte_ring_def ring_buf_init_def ring_contents_def ring_seq_def
      ring_used_def used_def)
qed

lemma element_fields [simp]:
  "element_type (ring_element ty len val) = ty"
  "element_length (ring_element ty len val) = len"
  "element_value (ring_element ty len val) = val"
  unfolding element_type_def element_length_def element_value_def ring_element_def
  by (rule bit_word_eqI; auto simp: bit_simps dest: bit_imp_le_length)+

lemma ring_seq_update:
  assumes "v < length buf"
  shows "ring_seq (buf[(h + v) mod length buf := d]) h (Suc v) = ring_seq buf h v @ [d]"
proof (rule nth_equalityI)
  fix i
  assume "i < length (ring_seq (buf[(h + v) mod length buf := d]) h (Suc v))"
  then have "i < Suc v" by simp
  moreover have "(h + i) mod length buf \<noteq> (h + v) mod length buf" if "i < v"
    using mod_ring_inj [of i "length buf" v h] that assms by simp
  moreover have "(h + v) mod length buf < length buf"
    using assms by (intro mod_less_divisor) linarith
  ultimately show "ring_seq (buf[(h + v) mod length buf := d]) h (Suc v) ! i = (ring_seq buf h v @ [d]) ! i"
    by (cases "i < v") (auto simp: nth_append less_Suc_eq)
qed simp

lemma put_words_seq:
  assumes "item_ok b" and "(h + u) mod rb_size b = rb_tail b" and "length buf = rb_size b"
    and "u + 1 + i + length data \<le> rb_size b"
  shows "ring_seq (put_words b i data buf) h (u + 1 + i + length data) = ring_seq buf h (u + 1 + i) @ data
    \<and> length (put_words b i data buf) = rb_size b"
  using assms(3,4)
proof (induction data arbitrary: i buf)
  case (Cons d data)
  have "(i + rb_tail b + 1) mod rb_size b = (rb_tail b + (1 + i)) mod rb_size b"
    by (simp add: ac_simps)
  also have "\<dots> = (h + (u + 1 + i)) mod rb_size b"
    by (metis add.assoc assms(2) mod_add_left_eq)
  finally have "item_index b (i + rb_tail b + 1) = (h + (u + 1 + i)) mod length buf"
    using Cons.prems assms(1) by simp
  moreover have "ring_seq (buf[(h + (u + 1 + i)) mod length buf := d]) h (Suc (u + 1 + i)) =
      ring_seq buf h (u + 1 + i) @ [d]"
    using Cons.prems by (intro ring_seq_update) simp
  ultimately show ?case
    using Cons.IH [of "buf[(h + (u + 1 + i)) mod length buf := d]" "i + 1"] Cons.prems by simp
qed simp

text \<open>The items a buffer holds, oldest first: type, value and data words.\<close>

type_synonym item = "u16 \<times> u8 \<times> u32 list"

definition item_words :: "item \<Rightarrow> u32 list" where
  "item_words it = (case it of (ty, val, ws) \<Rightarrow> ring_element ty (of_nat (length ws)) val # ws)"

definition fits_length :: "item \<Rightarrow> bool" where
  "fits_length it \<longleftrightarrow> length (snd (snd it)) < 256"

definition holds_items :: "u32 ring_buf \<Rightarrow> item list \<Rightarrow> bool" where
  "holds_items b items \<longleftrightarrow>
     item_ok b \<and> ring_contents b = concat (map item_words items) \<and> list_all fits_length items"

lemma item_put_seq:
  assumes "item_ok b" and "unat size32 \<le> length data" and "unat size32 + 1 \<le> ring_buf_space_get b"
    and "b' = snd (ring_buf_item_put ty val data size32 b)"
  shows "fst (ring_buf_item_put ty val data size32 b) = 0" and "item_ok b'" and "rb_size b' = rb_size b"
    and "ring_contents b' = ring_contents b @ ring_element ty size32 val # take (unat size32) data"
proof -
  let ?N = "rb_size b" and ?h = "rb_head b" and ?u = "ring_used b" and ?n = "unat size32"
  have ok: "ring_ok b" using assms(1) by (simp add: item_ok_def)
  then have N: "0 < ?N" "length (rb_buf b) = ?N" "?h < ?N" "rb_tail b < ?N"
    by (simp_all add: ring_ok_def)
  have room: "?u + 1 + ?n < ?N"
    using assms(3) ring_used_less [OF ok] by (simp add: ring_space [OF ok])
  have tail: "(?h + ?u) mod ?N = rb_tail b"
    using N by (simp add: ring_used_def used_place)
  define buf where "buf = (rb_buf b)[rb_tail b := ring_element ty size32 val]"
  have buf: "length buf = ?N" "ring_seq buf ?h (?u + 1) = ring_contents b @ [ring_element ty size32 val]"
    using ring_seq_update [of ?u "rb_buf b" ?h] N tail ring_used_less [OF ok]
    by (simp_all add: buf_def ring_contents_def)
  define words where "words = put_words b 0 (take ?n data) buf"
  have words: "ring_seq words ?h (?u + 1 + ?n) = ring_contents b @ ring_element ty size32 val # take ?n data"
    "length words = ?N"
    using put_words_seq [OF assms(1) tail buf(1), of 0 "take ?n data"] room assms(2) buf
    by (simp_all add: words_def)
  have "(rb_tail b + ?n + 1) mod ?N = (?h + (?u + 1 + ?n)) mod ?N"
    using mod_add_left_eq [of "?h + ?u" ?N "?n + 1"] tail by (simp add: add.assoc)
  then have put: "ring_buf_item_put ty val data size32 b =
      (0, b\<lparr>rb_buf := words, rb_tail := (?h + (?u + 1 + ?n)) mod ?N\<rparr>)"
    using assms(1,3) by (simp add: ring_buf_item_put_def Let_def words_def buf_def)
  then have b': "b' = b\<lparr>rb_buf := words, rb_tail := (?h + (?u + 1 + ?n)) mod ?N\<rparr>"
    using assms(4) by simp
  have "ring_used b' = ?u + 1 + ?n"
    using used_eq [OF N(3) room] by (simp add: b' ring_used_def)
  then show "item_ok b'" "rb_size b' = rb_size b"
    "ring_contents b' = ring_contents b @ ring_element ty size32 val # take ?n data"
    using assms(1) N words by (simp_all add: b' item_ok_def ring_ok_def ring_contents_def)
  show "fst (ring_buf_item_put ty val data size32 b) = 0"
    by (simp add: put)
qed

lemma item_get_seq:
  assumes "item_ok b" and "ring_contents b = ring_element ty len val # ws @ rest" and "length ws = unat len"
    and "unat len \<le> unat size32" and "b' = snd (ring_buf_item_get size32 b)"
  shows "fst (ring_buf_item_get size32 b) = Item_Read ty val ws len" and "item_ok b'"
    and "rb_size b' = rb_size b" and "ring_contents b' = rest"
proof -
  let ?N = "rb_size b" and ?h = "rb_head b" and ?n = "unat len" and ?u = "ring_used b"
  have ok: "ring_ok b" using assms(1) by (simp add: item_ok_def)
  then have N: "0 < ?N" "length (rb_buf b) = ?N" "?h < ?N" "rb_tail b < ?N"
    by (simp_all add: ring_ok_def)
  have u: "?u = 1 + ?n + length rest"
    using arg_cong [OF assms(2), of length] assms(3) by simp
  have nth: "rb_buf b ! ((?h + i) mod ?N) = (ring_element ty len val # ws @ rest) ! i" if "i < ?u" for i
    using nth_ring_seq [OF that, of "rb_buf b" ?h] assms(2) N(2) by (simp add: ring_contents_def)
  have header: "rb_buf b ! ?h = ring_element ty len val"
    using nth [of 0] u N by simp
  have "rb_buf b ! item_index b (i + ?h + 1) = ws ! i" if "i < ?n" for i
    using nth [of "Suc i"] that u assms(1,3) by (simp add: nth_append add.commute)
  then have data: "map (\<lambda>i. rb_buf b ! item_index b (i + ?h + 1)) [0..<?n] = ws"
    using assms(3) by (intro nth_equalityI) simp_all
  have ne: "\<not> ring_buf_is_empty b"
    using u by (auto simp: ring_buf_is_empty_def ring_used_def used_def)
  have get: "ring_buf_item_get size32 b = (Item_Read ty val ws len, b\<lparr>rb_head := (?h + ?n + 1) mod ?N\<rparr>)"
    using ne header data assms(1,4) by (simp add: ring_buf_item_get_def Let_def)
  then have b': "b' = b\<lparr>rb_head := (?h + (?n + 1)) mod ?N\<rparr>"
    using assms(5) by simp
  have "ring_used b' = length rest"
    using used_back [OF N(3,4), of "?n + 1"] u by (simp add: b' ring_used_def)
  moreover have "drop (?n + 1) (ring_contents b) = rest"
    using assms(2,3) by simp
  ultimately show "item_ok b'" "rb_size b' = rb_size b" "ring_contents b' = rest"
    using assms(1) N u ring_seq_drop [of "?n + 1" "rb_buf b" ?h ?u]
    by (simp_all add: b' item_ok_def ring_ok_def ring_contents_def)
  show "fst (ring_buf_item_get size32 b) = Item_Read ty val ws len"
    by (simp add: get)
qed

subsection \<open>What the ring buffer promises\<close>

text \<open>
  C34: in byte mode a write accepts as many bytes as there is room for and appends exactly those to
  the contents, a read returns the oldest bytes, at most as many as asked for, and removes exactly
  those, wherever the indices stand and however the copy wraps around the end of the array. Both keep
  the buffer well formed and its capacity.
\<close>

theorem ring_bytes_contract:
  assumes "byte_ring b" and "sz \<le> length data"
  shows "(case ring_buf_put data sz b of (n, b1) \<Rightarrow>
      n = min sz (ring_buf_space_get b) \<and> byte_ring b1 \<and> ring_buf_capacity_get b1 = ring_buf_capacity_get b \<and>
      ring_contents b1 = ring_contents b @ take n data) \<and>
    (case ring_buf_get sz b of (bytes, b2) \<Rightarrow>
      bytes = take sz (ring_contents b) \<and> byte_ring b2 \<and> ring_buf_capacity_get b2 = ring_buf_capacity_get b \<and>
      ring_contents b2 = drop sz (ring_contents b))"
proof -
  have "ring_ok b" using assms(1) by (simp add: byte_ring_def)
  moreover have "take (min sz (ring_used b)) (ring_contents b) = take sz (ring_contents b)"
    and "drop (min sz (ring_used b)) (ring_contents b) = drop sz (ring_contents b)"
    by (simp_all add: min_def)
  ultimately show ?thesis
    using ring_buf_put [OF assms refl] ring_buf_get [OF assms(1) refl, of sz]
    by (cases "ring_buf_put data sz b"; cases "ring_buf_get sz b")
      (simp add: ring_space ring_buf_capacity_get_def)
qed

definition sample_ring :: "u8 ring_buf" where
  "sample_ring = \<lparr>rb_head = 3, rb_tail = 1, tmp_tail = 1, tmp_head = 3, rb_size = 5,
     rb_buf = [12, 0, 0, 10, 11], rb_mask = 0\<rparr>"

theorem ring_bytes_contract_witness:
  "(case ring_buf_put [7, 8] 2 sample_ring of (n, b1) \<Rightarrow> n = 1 \<and> ring_contents b1 = [10, 11, 12, 7]) \<and>
   (case ring_buf_get 2 sample_ring of (bytes, b2) \<Rightarrow> bytes = [10, 11] \<and> ring_contents b2 = [12])"
proof -
  have "byte_ring sample_ring" and c: "ring_contents sample_ring = [10, 11, 12]"
    and "ring_buf_space_get sample_ring = 1"
    by code_simp+
  with ring_bytes_contract [of sample_ring 2 "[7, 8]"] show ?thesis
    by (auto simp: c split: prod.splits)
qed

datatype ring_op = Put (put_data: "u8 list") | Get (get_size: nat)

text \<open>A run of writes and reads: the bytes accepted, the bytes returned, and the buffer afterwards.\<close>

primrec ring_run :: "ring_op list \<Rightarrow> u8 ring_buf \<Rightarrow> u8 list \<times> u8 list \<times> u8 ring_buf" where
  "ring_run [] b = ([], [], b)"
| "ring_run (op # ops) b =
     (case op of
        Put data \<Rightarrow> (case ring_buf_put data (length data) b of (n, b1) \<Rightarrow>
          (case ring_run ops b1 of (acc, rd, b2) \<Rightarrow> (take n data @ acc, rd, b2)))
      | Get sz \<Rightarrow> (case ring_buf_get sz b of (bytes, b1) \<Rightarrow>
          (case ring_run ops b1 of (acc, rd, b2) \<Rightarrow> (acc, bytes @ rd, b2))))"

lemma put_step:
  assumes "byte_ring b" and "ring_buf_put data (length data) b = (n, b1)"
  shows "byte_ring b1" and "ring_contents b1 = ring_contents b @ take n data"
  using ring_buf_put [OF assms(1) order_refl [of "length data"] refl] assms(2) by simp_all

lemma get_step:
  assumes "byte_ring b" and "ring_buf_get sz b = (bytes, b1)"
  shows "byte_ring b1" and "ring_contents b = bytes @ ring_contents b1"
  using ring_buf_get [OF assms(1) refl, of sz] assms(2) by simp_all

text \<open>
  C35: whatever the writes and reads and however they alternate, the bytes returned followed by the
  bytes still in the buffer are the bytes that were in the buffer followed by the bytes accepted: no
  byte is lost, repeated or overtaken.
\<close>

theorem ring_stream:
  assumes "byte_ring b" and "ring_run ops b = (acc, rd, b')"
  shows "byte_ring b' \<and> rd @ ring_contents b' = ring_contents b @ acc"
  using assms
proof (induction ops arbitrary: b acc rd)
  case (Cons op ops)
  show ?case
  proof (cases op)
    case (Put data)
    obtain n b1 where p: "ring_buf_put data (length data) b = (n, b1)" by fastforce
    with Cons Put put_step [OF Cons.prems(1) p] show ?thesis by (fastforce split: prod.splits)
  next
    case (Get sz)
    obtain bytes b1 where g: "ring_buf_get sz b = (bytes, b1)" by fastforce
    with Cons Get get_step [OF Cons.prems(1) g] show ?thesis by (fastforce split: prod.splits)
  qed
qed simp

theorem ring_stream_witness:
  "\<exists>acc rd b'. ring_run [Put [1, 2], Get 3, Put [3, 4, 5], Get 1] sample_ring = (acc, rd, b') \<and>
     byte_ring b' \<and> rd @ ring_contents b' = [10, 11, 12] @ acc"
proof -
  obtain acc rd b' where run: "ring_run [Put [1, 2], Get 3, Put [3, 4, 5], Get 1] sample_ring = (acc, rd, b')"
    using prod_cases3 by blast
  have "byte_ring sample_ring" and c: "ring_contents sample_ring = [10, 11, 12]"
    by code_simp+
  with ring_stream [OF _ run] run show ?thesis by auto
qed

definition item_sizes :: "item list \<Rightarrow> nat" where
  "item_sizes items = (\<Sum>it\<leftarrow>items. length (snd (snd it)) + 1)"

lemma length_item_words [simp]: "length (item_words it) = length (snd (snd it)) + 1"
  by (cases it) (simp add: item_words_def)

lemma holds_items_space:
  "holds_items b items \<Longrightarrow> ring_buf_space_get b = ring_buf_capacity_get b - item_sizes items"
  by (simp add: holds_items_def item_ok_def ring_space ring_buf_capacity_get_def item_sizes_def
    length_concat comp_def flip: length_ring_contents)

lemma item_get_first:
  assumes "holds_items b ((ty, val, ws) # items)"
  shows "unat size32 < length ws \<Longrightarrow> ring_buf_item_get size32 b = (Item_Too_Big (of_nat (length ws)), b)"
    and "length ws \<le> unat size32 \<Longrightarrow>
      fst (ring_buf_item_get size32 b) = Item_Read ty val ws (of_nat (length ws)) \<and>
      holds_items (snd (ring_buf_item_get size32 b)) items"
proof -
  let ?len = "of_nat (length ws) :: u8" and ?rest = "concat (map item_words items)"
  have b: "item_ok b" "ring_contents b = ring_element ty ?len val # ws @ ?rest" "list_all fits_length items"
    and len: "unat ?len = length ws"
    using assms by (simp_all add: holds_items_def item_words_def fits_length_def unat_of_nat take_bit_nat_eq_self)
  note get = item_get_seq [OF b(1,2) _ _ refl, of size32]
  show "fst (ring_buf_item_get size32 b) = Item_Read ty val ws ?len \<and>
      holds_items (snd (ring_buf_item_get size32 b)) items" if "length ws \<le> unat size32"
    using get len that b(3) by (simp add: holds_items_def)
  have "ring_used b > 0" using arg_cong [OF b(2), of length] by simp
  then have ne: "\<not> ring_buf_is_empty b"
    by (auto simp: ring_buf_is_empty_def ring_used_def used_def)
  have "rb_head b < length (rb_buf b)" using b(1) by (simp add: item_ok_def ring_ok_def)
  then have "rb_buf b ! rb_head b = ring_element ty ?len val"
    using nth_ring_seq [OF \<open>ring_used b > 0\<close>, of "rb_buf b" "rb_head b"] b(2) by (simp add: ring_contents_def)
  then show "ring_buf_item_get size32 b = (Item_Too_Big ?len, b)" if "unat size32 < length ws"
    using that len ne by (simp add: ring_buf_item_get_def Let_def)
qed

text \<open>
  C36: in item mode the buffer is a queue of items. A write succeeds exactly when the header and the
  data fit into the free space, and then appends the item, otherwise it returns an error, counts the
  drop and keeps the items. A read of an empty buffer reports that there is nothing, a read into an
  array that is too small reports the size needed and keeps the item, and any other read returns the
  oldest item with its type, value and data and removes it. This holds with the mask of a buffer whose
  size is a power of two as it does with the remainder.
\<close>

theorem ring_item_contract:
  assumes "holds_items b items" and "unat size32 \<le> length data"
  shows "(case ring_buf_item_put ty val data size32 b of (rc, b1) \<Rightarrow>
      if item_sizes items + unat size32 + 1 \<le> ring_buf_capacity_get b
      then rc = 0 \<and> holds_items b1 (items @ [(ty, val, take (unat size32) data)])
      else rc = - EMSGSIZE \<and> tmp_tail b1 = (tmp_tail b + 1) mod 2 ^ 32 \<and> holds_items b1 items) \<and>
    (case ring_buf_item_get size32 b of (r, b2) \<Rightarrow>
      (case items of
         [] \<Rightarrow> item_result_code r = - EAGAIN \<and> b2 = b
       | (ty', val', ws) # rest \<Rightarrow>
           if unat size32 < length ws then r = Item_Too_Big (of_nat (length ws)) \<and> b2 = b
           else r = Item_Read ty' val' ws (of_nat (length ws)) \<and> holds_items b2 rest))"
proof
  let ?put = "ring_buf_item_put ty val data size32 b"
  have b: "item_ok b" "ring_contents b = concat (map item_words items)" "list_all fits_length items"
    using assms(1) by (simp_all add: holds_items_def)
  have "unat size32 < 256" using unsigned_less [of size32] by simp
  then have it: "fits_length (ty, val, take (unat size32) data)"
    "item_words (ty, val, take (unat size32) data) = ring_element ty size32 val # take (unat size32) data"
    using assms(2) by (simp_all add: fits_length_def item_words_def)
  have "fst ?put = 0 \<and> holds_items (snd ?put) (items @ [(ty, val, take (unat size32) data)])"
    if "unat size32 + 1 \<le> ring_buf_space_get b"
    using item_put_seq [OF b(1) assms(2) that refl] b it by (simp add: holds_items_def)
  moreover have "fst ?put = - EMSGSIZE \<and> tmp_tail (snd ?put) = (tmp_tail b + 1) mod 2 ^ 32 \<and>
      holds_items (snd ?put) items" if "\<not> unat size32 + 1 \<le> ring_buf_space_get b"
    using that b
    by (simp add: ring_buf_item_put_def holds_items_def item_ok_def ring_ok_def ring_contents_def ring_used_def)
  ultimately show "case ?put of (rc, b1) \<Rightarrow>
      if item_sizes items + unat size32 + 1 \<le> ring_buf_capacity_get b
      then rc = 0 \<and> holds_items b1 (items @ [(ty, val, take (unat size32) data)])
      else rc = - EMSGSIZE \<and> tmp_tail b1 = (tmp_tail b + 1) mod 2 ^ 32 \<and> holds_items b1 items"
    using holds_items_space [OF assms(1)] by (cases ?put) auto
next
  show "case ring_buf_item_get size32 b of (r, b2) \<Rightarrow>
      (case items of
         [] \<Rightarrow> item_result_code r = - EAGAIN \<and> b2 = b
       | (ty', val', ws) # rest \<Rightarrow>
           if unat size32 < length ws then r = Item_Too_Big (of_nat (length ws)) \<and> b2 = b
           else r = Item_Read ty' val' ws (of_nat (length ws)) \<and> holds_items b2 rest)"
  proof (cases items)
    case Nil
    then have "ring_used b = 0"
      using assms(1) by (simp add: holds_items_def flip: length_ring_contents)
    then have "ring_buf_is_empty b"
      using assms(1) by (auto simp: ring_buf_is_empty_def ring_used_def used_def holds_items_def item_ok_def ring_ok_def
        split: if_splits)
    with Nil show ?thesis by (simp add: ring_buf_item_get_def item_result_code_def)
  next
    case (Cons it rest)
    obtain ty' val' ws where it: "it = (ty', val', ws)" using prod_cases3 by blast
    have "holds_items b ((ty', val', ws) # rest)" using assms(1) Cons it by simp
    from item_get_first [OF this, of size32] show ?thesis
      unfolding Cons it by (cases "ring_buf_item_get size32 b") auto
  qed
qed

definition sample_items :: "u32 ring_buf" where
  "sample_items = \<lparr>rb_head = 2, rb_tail = 1, tmp_tail = 0, tmp_head = 0, rb_size = 4,
     rb_buf = [9, 0, ring_element 5 2 7, 8], rb_mask = 3\<rparr>"

theorem ring_item_contract_witness:
  "fst (ring_buf_item_put 1 2 [3] 1 sample_items) = - EMSGSIZE \<and>
   fst (ring_buf_item_get 2 sample_items) = Item_Read 5 7 [8, 9] 2 \<and>
   holds_items (snd (ring_buf_item_get 2 sample_items)) []"
proof -
  have "rb_size sample_items = 2 ^ 2 \<and> rb_mask sample_items = 2 ^ 2 - 1"
    by (simp add: sample_items_def)
  then have "item_ok sample_items"
    unfolding item_ok_def by (intro conjI impI exI [of _ 2]) (simp_all add: sample_items_def ring_ok_def)
  moreover have "ring_contents sample_items = [ring_element 5 2 7, 8, 9]"
    by code_simp
  ultimately have h: "holds_items sample_items [(5, 7, [8, 9])]"
    by (simp add: holds_items_def item_words_def fits_length_def)
  have "ring_buf_capacity_get sample_items = 3" "item_sizes [(5, 7, [8, 9])] = 3"
    by (simp_all add: ring_buf_capacity_get_def sample_items_def item_sizes_def)
  with ring_item_contract [OF h, of 1 "[3]" 1 2] ring_item_contract [OF h, of 2 "[3, 3]" 0 0]
  show ?thesis
    by (simp add: case_prod_beta)
qed

end
