(* ===== verification/Uuid.thy ===== *)
theory Uuid
  imports Gatt
begin

text \<open>
  Bluetooth UUIDs, \<open>subsys/bluetooth/host/uuid.c\<close>: short UUIDs stand for 128-bit ones on a common
  base, and comparing two UUIDs of different length compares the long forms. A UUID is little endian.
\<close>

datatype bt_uuid = UUID_16 (val16: u16) | UUID_32 (val32: u32) | UUID_128 (val128: "u8 list")

definition uuid128_base :: "u8 list" where
  "uuid128_base = [0xFB, 0x34, 0x9B, 0x5F, 0x80, 0x00, 0x00, 0x80, 0x00, 0x10, 0x00, 0x00,
     0x00, 0x00, 0x00, 0x00]"

abbreviation UUID_16_BASE_OFFSET :: nat where "UUID_16_BASE_OFFSET \<equiv> 12"

definition uuid_to_uuid128 :: "bt_uuid \<Rightarrow> u8 list" where
  "uuid_to_uuid128 src =
     (case src of
        UUID_16 v \<Rightarrow> memcpy_at uuid128_base UUID_16_BASE_OFFSET (sys_put_le16 v)
      | UUID_32 v \<Rightarrow> memcpy_at uuid128_base UUID_16_BASE_OFFSET (sys_put_le32 v)
      | UUID_128 v \<Rightarrow> v)"

text \<open>The order that \<open>memcmp\<close> gives; only whether it is zero is used.\<close>

fun memcmp :: "u8 list \<Rightarrow> u8 list \<Rightarrow> int" where
  "memcmp (x # xs) (y # ys) = (if x = y then memcmp xs ys else uint x - uint y)"
| "memcmp _ _ = 0"

definition uuid128_cmp :: "bt_uuid \<Rightarrow> bt_uuid \<Rightarrow> int" where
  "uuid128_cmp u1 u2 = memcmp (uuid_to_uuid128 u1) (uuid_to_uuid128 u2)"

definition bt_uuid_cmp :: "bt_uuid \<Rightarrow> bt_uuid \<Rightarrow> int" where
  "bt_uuid_cmp u1 u2 =
     (case (u1, u2) of
        (UUID_16 a, UUID_16 b) \<Rightarrow> uint a - uint b
      | (UUID_32 a, UUID_32 b) \<Rightarrow> sint a - sint b
      | (UUID_128 a, UUID_128 b) \<Rightarrow> memcmp a b
      | _ \<Rightarrow> uuid128_cmp u1 u2)"

definition bt_uuid_create :: "u8 list \<Rightarrow> bt_uuid option" where
  "bt_uuid_create data =
     (if length data = 2 then Some (UUID_16 (sys_get_le16 data))
      else if length data = 4 then Some (UUID_32 (sys_get_le32 data))
      else if length data = 16 then Some (UUID_128 data)
      else None)"

subsection \<open>Comparison\<close>

definition uuid_ok :: "bt_uuid \<Rightarrow> bool" where
  "uuid_ok u \<longleftrightarrow> (case u of UUID_128 v \<Rightarrow> length v = 16 | _ \<Rightarrow> True)"

lemma memcmp_zero: "length xs = length ys \<Longrightarrow> memcmp xs ys = 0 \<longleftrightarrow> xs = ys"
  by (induction xs ys rule: memcmp.induct) (auto simp: word_uint_eq_iff)

lemma length_uuid128 [simp]: "uuid_ok u \<Longrightarrow> length (uuid_to_uuid128 u) = 16"
  by (cases u) (auto simp: uuid_ok_def uuid_to_uuid128_def uuid128_base_def memcpy_at_def)

lemma uuid_cmp_zero:
  assumes "uuid_ok u1" and "uuid_ok u2"
  shows "bt_uuid_cmp u1 u2 = 0 \<longleftrightarrow> uuid_to_uuid128 u1 = uuid_to_uuid128 u2"
proof -
  have i16: "sys_put_le16 a = sys_put_le16 b \<longleftrightarrow> a = b" for a b
    by (metis sys_get_put_le16)
  have i32: "sys_put_le32 a = sys_put_le32 b \<longleftrightarrow> a = b" for a b
    by (metis sys_get_put_le32)
  have s32: "sint a = sint b \<longleftrightarrow> a = b" for a b :: u32
    by (auto intro: signed_word_eqI)
  have long: "uuid128_cmp u1 u2 = 0 \<longleftrightarrow> uuid_to_uuid128 u1 = uuid_to_uuid128 u2"
    using assms by (simp add: uuid128_cmp_def memcmp_zero)
  show ?thesis
  proof (cases u1; cases u2)
    fix a b assume "u1 = UUID_16 a" "u2 = UUID_16 b"
    then show ?thesis by (simp add: bt_uuid_cmp_def uuid_to_uuid128_def memcpy_at_def i16 word_uint_eq_iff)
  next
    fix a b assume "u1 = UUID_32 a" "u2 = UUID_32 b"
    then show ?thesis by (simp add: bt_uuid_cmp_def uuid_to_uuid128_def memcpy_at_def i32 s32)
  next
    fix a b assume "u1 = UUID_128 a" "u2 = UUID_128 b"
    with assms show ?thesis by (simp add: bt_uuid_cmp_def uuid_to_uuid128_def uuid_ok_def memcmp_zero)
  qed (use long in \<open>simp_all add: bt_uuid_cmp_def\<close>)
qed

lemma uuid_create_ok: "bt_uuid_create data = Some u \<Longrightarrow> uuid_ok u"
  by (auto simp: bt_uuid_create_def uuid_ok_def split: if_splits)

lemma uuid_cmp_16 [simp]: "bt_uuid_cmp (UUID_16 a) (UUID_16 b) = 0 \<longleftrightarrow> a = b"
  by (simp add: bt_uuid_cmp_def word_uint_eq_iff)

end
