(* ===== verification/Att.thy ===== *)
theory Att
  imports Uuid
begin

text \<open>
  The attribute protocol server of \<open>subsys/bluetooth/host/att.c\<close>: every request a client may send,
  from the packet received to the packet sent back.

  The fixed channel of a connection is the record \<open>att_chan\<close>. A response is handed to the link or
  waits on the channel's queue; \<open>tx_pdus\<close> is the list of the packets in either place, oldest first.
  \<open>no_bufs\<close> says that the pool gives no buffer in time. A buffer of the pool holds a packet of the
  largest MTU the channel can agree on, so a packet never needs a second fragment. What the program
  brings in is the record \<open>att_env\<close>: the database, the connection, the MTU of the build, and the
  callbacks of the attributes with the state \<open>srv\<close> they work on, with the robust caching check.
  Enhanced bearers, long writes and signed writes are not enabled in this build, attribute types are
  16-bit UUIDs, and no indication is outstanding, so that a confirmation is only logged.
\<close>

abbreviation BT_ATT_OP_ERROR_RSP :: u8 where "BT_ATT_OP_ERROR_RSP \<equiv> 0x01"
abbreviation BT_ATT_OP_MTU_REQ :: u8 where "BT_ATT_OP_MTU_REQ \<equiv> 0x02"
abbreviation BT_ATT_OP_MTU_RSP :: u8 where "BT_ATT_OP_MTU_RSP \<equiv> 0x03"
abbreviation BT_ATT_OP_FIND_INFO_REQ :: u8 where "BT_ATT_OP_FIND_INFO_REQ \<equiv> 0x04"
abbreviation BT_ATT_OP_FIND_INFO_RSP :: u8 where "BT_ATT_OP_FIND_INFO_RSP \<equiv> 0x05"
abbreviation BT_ATT_OP_FIND_TYPE_REQ :: u8 where "BT_ATT_OP_FIND_TYPE_REQ \<equiv> 0x06"
abbreviation BT_ATT_OP_FIND_TYPE_RSP :: u8 where "BT_ATT_OP_FIND_TYPE_RSP \<equiv> 0x07"
abbreviation BT_ATT_OP_READ_TYPE_REQ :: u8 where "BT_ATT_OP_READ_TYPE_REQ \<equiv> 0x08"
abbreviation BT_ATT_OP_READ_TYPE_RSP :: u8 where "BT_ATT_OP_READ_TYPE_RSP \<equiv> 0x09"
abbreviation BT_ATT_OP_READ_REQ :: u8 where "BT_ATT_OP_READ_REQ \<equiv> 0x0a"
abbreviation BT_ATT_OP_READ_RSP :: u8 where "BT_ATT_OP_READ_RSP \<equiv> 0x0b"
abbreviation BT_ATT_OP_READ_BLOB_REQ :: u8 where "BT_ATT_OP_READ_BLOB_REQ \<equiv> 0x0c"
abbreviation BT_ATT_OP_READ_BLOB_RSP :: u8 where "BT_ATT_OP_READ_BLOB_RSP \<equiv> 0x0d"
abbreviation BT_ATT_OP_READ_MULT_REQ :: u8 where "BT_ATT_OP_READ_MULT_REQ \<equiv> 0x0e"
abbreviation BT_ATT_OP_READ_MULT_RSP :: u8 where "BT_ATT_OP_READ_MULT_RSP \<equiv> 0x0f"
abbreviation BT_ATT_OP_READ_GROUP_REQ :: u8 where "BT_ATT_OP_READ_GROUP_REQ \<equiv> 0x10"
abbreviation BT_ATT_OP_READ_GROUP_RSP :: u8 where "BT_ATT_OP_READ_GROUP_RSP \<equiv> 0x11"
abbreviation BT_ATT_OP_WRITE_REQ :: u8 where "BT_ATT_OP_WRITE_REQ \<equiv> 0x12"
abbreviation BT_ATT_OP_WRITE_RSP :: u8 where "BT_ATT_OP_WRITE_RSP \<equiv> 0x13"
abbreviation BT_ATT_OP_PREPARE_WRITE_REQ :: u8 where "BT_ATT_OP_PREPARE_WRITE_REQ \<equiv> 0x16"
abbreviation BT_ATT_OP_PREPARE_WRITE_RSP :: u8 where "BT_ATT_OP_PREPARE_WRITE_RSP \<equiv> 0x17"
abbreviation BT_ATT_OP_EXEC_WRITE_REQ :: u8 where "BT_ATT_OP_EXEC_WRITE_REQ \<equiv> 0x18"
abbreviation BT_ATT_OP_EXEC_WRITE_RSP :: u8 where "BT_ATT_OP_EXEC_WRITE_RSP \<equiv> 0x19"
abbreviation BT_ATT_OP_NOTIFY :: u8 where "BT_ATT_OP_NOTIFY \<equiv> 0x1b"
abbreviation BT_ATT_OP_INDICATE :: u8 where "BT_ATT_OP_INDICATE \<equiv> 0x1d"
abbreviation BT_ATT_OP_CONFIRM :: u8 where "BT_ATT_OP_CONFIRM \<equiv> 0x1e"
abbreviation BT_ATT_OP_WRITE_CMD :: u8 where "BT_ATT_OP_WRITE_CMD \<equiv> 0x52"
abbreviation BT_ATT_OP_SIGNED_WRITE_CMD :: u8 where "BT_ATT_OP_SIGNED_WRITE_CMD \<equiv> 0xd2"

abbreviation BT_ATT_ERR_INVALID_HANDLE :: u8 where "BT_ATT_ERR_INVALID_HANDLE \<equiv> 0x01"
abbreviation BT_ATT_ERR_INVALID_PDU :: u8 where "BT_ATT_ERR_INVALID_PDU \<equiv> 0x04"
abbreviation BT_ATT_ERR_NOT_SUPPORTED :: u8 where "BT_ATT_ERR_NOT_SUPPORTED \<equiv> 0x06"
abbreviation BT_ATT_ERR_ATTRIBUTE_NOT_FOUND :: u8 where "BT_ATT_ERR_ATTRIBUTE_NOT_FOUND \<equiv> 0x0a"
abbreviation BT_ATT_ERR_UNLIKELY :: u8 where "BT_ATT_ERR_UNLIKELY \<equiv> 0x0e"
abbreviation BT_ATT_ERR_UNSUPPORTED_GROUP_TYPE :: u8 where "BT_ATT_ERR_UNSUPPORTED_GROUP_TYPE \<equiv> 0x10"
abbreviation BT_ATT_ERR_DB_OUT_OF_SYNC :: u8 where "BT_ATT_ERR_DB_OUT_OF_SYNC \<equiv> 0x12"

abbreviation BT_ATT_DEFAULT_LE_MTU :: u16 where "BT_ATT_DEFAULT_LE_MTU \<equiv> 23"
abbreviation BT_ATT_INFO_16 :: u8 where "BT_ATT_INFO_16 \<equiv> 0x01"
abbreviation BT_GATT_WRITE_FLAG_CMD :: u8 where "BT_GATT_WRITE_FLAG_CMD \<equiv> 0x02"
abbreviation BT_UUID_GATT_SECONDARY :: u16 where "BT_UUID_GATT_SECONDARY \<equiv> 0x2801"
abbreviation ATT_CMD_MASK :: u8 where "ATT_CMD_MASK \<equiv> 0x40"

subsection \<open>State\<close>

record 's att_env =
  env_db :: "service list"
  env_conn :: bt_conn
  env_mtu :: u16
  env_read :: "bt_gatt_attr \<Rightarrow> nat \<Rightarrow> u16 \<Rightarrow> u16 \<Rightarrow> 's \<Rightarrow> (int + u8 list) \<times> 's"
  env_write :: "bt_gatt_attr \<Rightarrow> nat \<Rightarrow> u8 list \<Rightarrow> u16 \<Rightarrow> u8 \<Rightarrow> 's \<Rightarrow> int \<times> 's"
  env_aware :: "bool \<Rightarrow> 's \<Rightarrow> bool \<times> 's"

record 's att_chan =
  tx_mtu :: nat
  pending_rsp :: bool
  no_bufs :: bool
  tx_pdus :: "u8 list list"
  srv :: 's

subsection \<open>Sending\<close>

definition bt_att_chan_create_pdu :: "u8 \<Rightarrow> nat \<Rightarrow> 's att_chan \<Rightarrow> u8 list option" where
  "bt_att_chan_create_pdu op len c =
     (if len + 1 > tx_mtu c then None else if no_bufs c then None else Some [op])"

definition bt_att_chan_send_rsp :: "u8 list \<Rightarrow> 's att_chan \<Rightarrow> 's att_chan" where
  "bt_att_chan_send_rsp buf c = c\<lparr>tx_pdus := tx_pdus c @ [buf]\<rparr>"

definition chan_rsp_sent :: "'s att_chan \<Rightarrow> 's att_chan" where
  "chan_rsp_sent c = c\<lparr>pending_rsp := False\<rparr>"

definition send_err_rsp :: "u8 \<Rightarrow> u16 \<Rightarrow> u8 \<Rightarrow> 's att_chan \<Rightarrow> 's att_chan" where
  "send_err_rsp req handle err c =
     (if req = 0 then c
      else case bt_att_chan_create_pdu BT_ATT_OP_ERROR_RSP 4 c of
             None \<Rightarrow> c
           | Some buf \<Rightarrow> bt_att_chan_send_rsp (buf @ [req] @ sys_put_le16 handle @ [err]) c)"

subsection \<open>Exchange MTU\<close>

definition att_mtu_req :: "'s att_env \<Rightarrow> u8 list \<Rightarrow> 's att_chan \<Rightarrow> u8 \<times> 's att_chan" where
  "att_mtu_req env buf c =
     (let mtu_client = sys_get_le16 buf
      in if mtu_client < BT_ATT_DEFAULT_LE_MTU then (BT_ATT_ERR_INVALID_PDU, c)
         else case bt_att_chan_create_pdu BT_ATT_OP_MTU_RSP 2 c of
                None \<Rightarrow> (BT_ATT_ERR_UNLIKELY, c)
              | Some pdu \<Rightarrow>
                  let mtu_server = env_mtu env; c1 = bt_att_chan_send_rsp (pdu @ sys_put_le16 mtu_server) c
                  in (0, c1\<lparr>tx_mtu := unat (min mtu_client mtu_server)\<rparr>))"

definition range_is_valid :: "u16 \<Rightarrow> u16 \<Rightarrow> bool \<times> u16" where
  "range_is_valid start en =
     (if start = 0 \<or> en = 0 then (False, 0) else if start > en then (False, start) else (True, 0))"

subsection \<open>Find information\<close>

text \<open>The state of the iteration is whether the format byte is there, and the buffer.\<close>

definition find_info_cb ::
    "nat \<Rightarrow> bt_gatt_attr \<Rightarrow> nat \<Rightarrow> bool \<times> u8 list \<Rightarrow> iter \<times> bool \<times> u8 list" where
  "find_info_cb mtu attr handle data =
     (let buf = (if fst data then snd data else snd data @ [BT_ATT_INFO_16]);
          buf1 = buf @ sys_put_le16 (of_nat handle) @ sys_put_le16 (attr_uuid attr)
      in (if mtu - length buf1 > 4 then BT_GATT_ITER_CONTINUE else BT_GATT_ITER_STOP, True, buf1))"

definition bt_gatt_foreach_attr ::
    "'s att_env \<Rightarrow> u16 \<Rightarrow> u16 \<Rightarrow> (bt_gatt_attr \<Rightarrow> nat \<Rightarrow> 'd \<Rightarrow> iter \<times> 'd) \<Rightarrow> 'd \<Rightarrow> 'd" where
  "bt_gatt_foreach_attr env start en func data =
     bt_gatt_foreach_attr_type (env_db env) (unat start) (unat en) None None 0 func data"

definition att_find_info_rsp ::
    "'s att_env \<Rightarrow> u16 \<Rightarrow> u16 \<Rightarrow> 's att_chan \<Rightarrow> u8 \<times> 's att_chan" where
  "att_find_info_rsp env start_handle end_handle c =
     (case bt_att_chan_create_pdu BT_ATT_OP_FIND_INFO_RSP 0 c of
        None \<Rightarrow> (BT_ATT_ERR_UNLIKELY, c)
      | Some pdu \<Rightarrow>
          (case bt_gatt_foreach_attr env start_handle end_handle (find_info_cb (tx_mtu c)) (False, pdu) of
             (rsp, buf) \<Rightarrow>
               if \<not> rsp
               then (0, send_err_rsp BT_ATT_OP_FIND_INFO_REQ start_handle BT_ATT_ERR_ATTRIBUTE_NOT_FOUND c)
               else (0, bt_att_chan_send_rsp buf c)))"

definition att_find_info_req :: "'s att_env \<Rightarrow> u8 list \<Rightarrow> 's att_chan \<Rightarrow> u8 \<times> 's att_chan" where
  "att_find_info_req env buf c =
     (let start_handle = sys_get_le16 buf; end_handle = sys_get_le16 (drop 2 buf)
      in case range_is_valid start_handle end_handle of (valid, err_handle) \<Rightarrow>
           if \<not> valid
           then (0, send_err_rsp BT_ATT_OP_FIND_INFO_REQ err_handle BT_ATT_ERR_INVALID_HANDLE c)
           else att_find_info_rsp env start_handle end_handle c)"

subsection \<open>Find by type and value\<close>

text \<open>A group is the place in the buffer of the handle range that is being extended.\<close>

record 's find_type_data =
  ft_buf :: "u8 list"
  ft_group :: "nat option"
  ft_err :: u8
  ft_srv :: 's

definition uuid_values_match :: "u8 list \<Rightarrow> u8 list \<Rightarrow> bool" where
  "uuid_values_match value uuid =
     (if length uuid \<noteq> length value
      then case (bt_uuid_create value, bt_uuid_create uuid) of
             (Some recvd_uuid, Some ref_uuid) \<Rightarrow> bt_uuid_cmp recvd_uuid ref_uuid = 0
           | _ \<Rightarrow> False
      else value = uuid)"

definition extend_group :: "nat option \<Rightarrow> nat \<Rightarrow> u8 list \<Rightarrow> u8 list" where
  "extend_group grp handle buf =
     (case grp of
        None \<Rightarrow> buf
      | Some g \<Rightarrow> if handle > unat (sys_get_le16 (drop (g + 2) buf))
                  then memcpy_at buf (g + 2) (sys_put_le16 (of_nat handle)) else buf)"

definition find_type_cb ::
    "'s att_env \<Rightarrow> nat \<Rightarrow> u8 list \<Rightarrow> bt_gatt_attr \<Rightarrow> nat \<Rightarrow> 's find_type_data \<Rightarrow> iter \<times> 's find_type_data" where
  "find_type_cb env mtu value attr handle data =
     (if attr_uuid attr = BT_UUID_GATT_SECONDARY then (BT_GATT_ITER_CONTINUE, data\<lparr>ft_group := None\<rparr>)
      else if attr_uuid attr \<noteq> BT_UUID_GATT_PRIMARY
      then (BT_GATT_ITER_CONTINUE, data\<lparr>ft_buf := extend_group (ft_group data) handle (ft_buf data)\<rparr>)
      else if mtu - length (ft_buf data) < 4 then (BT_GATT_ITER_STOP, data)
      else case env_read env attr handle 16 0 (ft_srv data) of (read, s) \<Rightarrow>
             let data1 = data\<lparr>ft_srv := s\<rparr>; skip = (BT_GATT_ITER_CONTINUE, data1\<lparr>ft_group := None\<rparr>)
             in case read of
                  Inl _ \<Rightarrow> skip
                | Inr uuid \<Rightarrow>
                    if \<not> uuid_values_match value uuid then skip
                    else (BT_GATT_ITER_CONTINUE,
                          data1\<lparr>ft_err := 0, ft_group := Some (length (ft_buf data)),
                            ft_buf := ft_buf data @ sys_put_le16 (of_nat handle) @ sys_put_le16 (of_nat handle)\<rparr>))"

definition att_find_type_rsp ::
    "'s att_env \<Rightarrow> u16 \<Rightarrow> u16 \<Rightarrow> u8 list \<Rightarrow> 's att_chan \<Rightarrow> u8 \<times> 's att_chan" where
  "att_find_type_rsp env start_handle end_handle value c =
     (case bt_att_chan_create_pdu BT_ATT_OP_FIND_TYPE_RSP 0 c of
        None \<Rightarrow> (BT_ATT_ERR_UNLIKELY, c)
      | Some pdu \<Rightarrow>
          let data = bt_gatt_foreach_attr env start_handle end_handle
                (find_type_cb env (tx_mtu c) value)
                \<lparr>ft_buf = pdu, ft_group = None, ft_err = BT_ATT_ERR_ATTRIBUTE_NOT_FOUND, ft_srv = srv c\<rparr>;
              c1 = c\<lparr>srv := ft_srv data\<rparr>
          in if ft_err data \<noteq> 0
             then (0, send_err_rsp BT_ATT_OP_FIND_TYPE_REQ start_handle (ft_err data) c1)
             else (0, bt_att_chan_send_rsp (ft_buf data) c1))"

definition att_find_type_req :: "'s att_env \<Rightarrow> u8 list \<Rightarrow> 's att_chan \<Rightarrow> u8 \<times> 's att_chan" where
  "att_find_type_req env buf c =
     (let start_handle = sys_get_le16 buf; end_handle = sys_get_le16 (drop 2 buf);
          ty = sys_get_le16 (drop 4 buf); value = drop 6 buf
      in case range_is_valid start_handle end_handle of (valid, err_handle) \<Rightarrow>
           if \<not> valid
           then (0, send_err_rsp BT_ATT_OP_FIND_TYPE_REQ err_handle BT_ATT_ERR_INVALID_HANDLE c)
           else if bt_uuid_cmp (UUID_16 ty) (UUID_16 BT_UUID_GATT_PRIMARY) \<noteq> 0
           then (0, send_err_rsp BT_ATT_OP_FIND_TYPE_REQ start_handle BT_ATT_ERR_ATTRIBUTE_NOT_FOUND c)
           else att_find_type_rsp env start_handle end_handle value c)"

subsection \<open>Reading into a packet\<close>

definition err_to_att :: "int \<Rightarrow> u8" where
  "err_to_att err = (if err < 0 \<and> err \<ge> - 0xff then of_int (- err) else BT_ATT_ERR_UNLIKELY)"

text \<open>
  \<open>cb\<close> sees the number of bytes read. It refuses them (\<open>Inl\<close>, with the buffer it leaves) or accepts
  them, and keeps data of its own.
\<close>

type_synonym 's reader = "u16 \<Rightarrow> u16 \<Rightarrow> 's \<Rightarrow> (int + u8 list) \<times> 's"
type_synonym 'd read_fold = "nat \<Rightarrow> u8 list \<Rightarrow> 'd \<Rightarrow> (u8 list \<times> 'd) + 'd"

function att_chan_read_loop ::
    "'s reader \<Rightarrow> nat \<Rightarrow> 'd read_fold \<Rightarrow> u16 \<Rightarrow> nat \<Rightarrow> u8 list \<Rightarrow> 'd \<Rightarrow> 's \<Rightarrow> int \<times> u8 list \<times> 'd \<times> 's" where
  "att_chan_read_loop rd mtu cb offset tot buf d s =
     (case fst (rd (of_nat (mtu - length buf)) offset s) of
        Inl err \<Rightarrow> (if tot \<noteq> 0 then int tot else err, buf, d, snd (rd (of_nat (mtu - length buf)) offset s))
      | Inr bytes \<Rightarrow>
          (case cb (length bytes) buf d of
             Inl refused \<Rightarrow>
               (int tot, fst refused, snd refused, snd (rd (of_nat (mtu - length buf)) offset s))
           | Inr d1 \<Rightarrow>
               if mtu > length buf + length bytes \<and> length bytes = mtu - length buf
               then att_chan_read_loop rd mtu cb (offset + of_nat (length bytes)) (tot + length bytes)
                      (buf @ bytes) d1 (snd (rd (of_nat (mtu - length buf)) offset s))
               else (int (tot + length bytes), buf @ bytes, d1,
                     snd (rd (of_nat (mtu - length buf)) offset s))))"
  by pat_completeness auto
termination
  by (relation "measure (\<lambda>(rd, mtu, cb, offset, tot, buf, d, s). mtu - length buf)") auto

declare att_chan_read_loop.simps [simp del]

definition att_chan_read ::
    "'s reader \<Rightarrow> nat \<Rightarrow> 'd read_fold \<Rightarrow> u16 \<Rightarrow> u8 list \<Rightarrow> 'd \<Rightarrow> 's \<Rightarrow> int \<times> u8 list \<times> 'd \<times> 's" where
  "att_chan_read rd mtu cb offset buf d s =
     (if mtu \<le> length buf then (0, buf, d, s) else att_chan_read_loop rd mtu cb offset 0 buf d s)"

text \<open>The callback of a reader that passes none.\<close>

definition no_cb :: "'d read_fold" where
  "no_cb n buf d = Inr d"

subsection \<open>Read by type\<close>

text \<open>
  \<open>rt_len\<close> is the length byte of the response, which is in the buffer at place 1 and is filled in
  when the packet is complete; \<open>rt_item\<close> says whether the item pointer is set.
\<close>

record 's read_type_data =
  rt_buf :: "u8 list"
  rt_len :: u8
  rt_item :: bool
  rt_err :: u8
  rt_srv :: 's

definition attr_read_type_cb ::
    "(u8 \<times> bool) read_fold" where
  "attr_read_type_cb n buf d =
     (if fst d = 0 then Inr (of_nat (n + 2), snd d)
      else if unat (fst d) \<noteq> n + 2 then Inl (take (length buf - 2) buf, fst d, False)
      else Inr d)"

definition read_type_cb ::
    "'s att_env \<Rightarrow> nat \<Rightarrow> bt_uuid \<Rightarrow> bt_gatt_attr \<Rightarrow> nat \<Rightarrow> 's read_type_data \<Rightarrow> iter \<times> 's read_type_data" where
  "read_type_cb env mtu uuid attr handle data =
     (if bt_uuid_cmp (UUID_16 (attr_uuid attr)) uuid \<noteq> 0 then (BT_GATT_ITER_CONTINUE, data)
      else let err = of_int (bt_gatt_check_perm (env_conn env) attr BT_GATT_PERM_READ_MASK) :: u8
           in if err \<noteq> 0
              then (BT_GATT_ITER_STOP, data\<lparr>rt_err := (if rt_len data \<noteq> 0 then 0 else err)\<rparr>)
              else case att_chan_read (env_read env attr handle) mtu attr_read_type_cb 0
                     (rt_buf data @ sys_put_le16 (of_nat handle)) (rt_len data, True) (rt_srv data) of
                     (read, buf, (len, item), s) \<Rightarrow>
                       let data1 = data\<lparr>rt_err := 0, rt_buf := buf, rt_len := len, rt_item := item, rt_srv := s\<rparr>
                       in if read < 0 then (BT_GATT_ITER_STOP, data1\<lparr>rt_err := err_to_att read\<rparr>)
                          else if \<not> item then (BT_GATT_ITER_STOP, data1)
                          else (if mtu - length buf > unat len
                                then BT_GATT_ITER_CONTINUE else BT_GATT_ITER_STOP, data1))"

definition att_read_type_rsp ::
    "'s att_env \<Rightarrow> bt_uuid \<Rightarrow> u16 \<Rightarrow> u16 \<Rightarrow> 's att_chan \<Rightarrow> u8 \<times> 's att_chan" where
  "att_read_type_rsp env uuid start_handle end_handle c =
     (case bt_att_chan_create_pdu BT_ATT_OP_READ_TYPE_RSP 1 c of
        None \<Rightarrow> (BT_ATT_ERR_UNLIKELY, c)
      | Some pdu \<Rightarrow>
          let data = bt_gatt_foreach_attr env start_handle end_handle
                (read_type_cb env (tx_mtu c) uuid)
                \<lparr>rt_buf = pdu @ [0], rt_len = 0, rt_item = False, rt_err = BT_ATT_ERR_ATTRIBUTE_NOT_FOUND,
                  rt_srv = srv c\<rparr>;
              c1 = c\<lparr>srv := rt_srv data\<rparr>
          in if rt_err data \<noteq> 0
             then (0, send_err_rsp BT_ATT_OP_READ_TYPE_REQ start_handle (rt_err data) c1)
             else (0, bt_att_chan_send_rsp ((rt_buf data)[1 := rt_len data]) c1))"

definition att_read_type_req :: "'s att_env \<Rightarrow> u8 list \<Rightarrow> 's att_chan \<Rightarrow> u8 \<times> 's att_chan" where
  "att_read_type_req env buf c =
     (let uuid_len = of_nat (length buf - 4) :: u8
      in if uuid_len \<noteq> 2 \<and> uuid_len \<noteq> 16 then (BT_ATT_ERR_INVALID_PDU, c)
         else let start_handle = sys_get_le16 buf; end_handle = sys_get_le16 (drop 2 buf)
              in case bt_uuid_create (take (unat uuid_len) (drop 4 buf)) of
                   None \<Rightarrow> (BT_ATT_ERR_UNLIKELY, c)
                 | Some uuid \<Rightarrow>
                     (case range_is_valid start_handle end_handle of (valid, err_handle) \<Rightarrow>
                        if \<not> valid
                        then (0, send_err_rsp BT_ATT_OP_READ_TYPE_REQ err_handle BT_ATT_ERR_INVALID_HANDLE c)
                        else att_read_type_rsp env uuid start_handle end_handle c))"

subsection \<open>Read\<close>

record 's read_data =
  rd_buf :: "u8 list"
  rd_err :: u8
  rd_srv :: 's

definition read_cb ::
    "'s att_env \<Rightarrow> nat \<Rightarrow> u16 \<Rightarrow> bt_gatt_attr \<Rightarrow> nat \<Rightarrow> 's read_data \<Rightarrow> iter \<times> 's read_data" where
  "read_cb env mtu offset attr handle data =
     (let err = of_int (bt_gatt_check_perm (env_conn env) attr BT_GATT_PERM_READ_MASK) :: u8
      in if err \<noteq> 0 then (BT_GATT_ITER_STOP, data\<lparr>rd_err := err\<rparr>)
         else case att_chan_read (env_read env attr handle) mtu no_cb offset (rd_buf data) () (rd_srv data) of
                (ret, buf, _, s) \<Rightarrow>
                  if ret < 0 then (BT_GATT_ITER_STOP, data\<lparr>rd_err := err_to_att ret, rd_srv := s\<rparr>)
                  else (BT_GATT_ITER_CONTINUE, data\<lparr>rd_err := 0, rd_buf := buf, rd_srv := s\<rparr>))"

definition att_read_rsp ::
    "'s att_env \<Rightarrow> u8 \<Rightarrow> u8 \<Rightarrow> u16 \<Rightarrow> u16 \<Rightarrow> 's att_chan \<Rightarrow> u8 \<times> 's att_chan" where
  "att_read_rsp env op rsp handle offset c =
     (case env_aware env True (srv c) of (aware, s1) \<Rightarrow>
        let c1 = c\<lparr>srv := s1\<rparr>
        in if \<not> aware then (BT_ATT_ERR_DB_OUT_OF_SYNC, c1)
           else if handle = 0 then (BT_ATT_ERR_INVALID_HANDLE, c1)
           else case bt_att_chan_create_pdu rsp 0 c1 of
                  None \<Rightarrow> (BT_ATT_ERR_UNLIKELY, c1)
                | Some pdu \<Rightarrow>
                    let data = bt_gatt_foreach_attr env handle handle (read_cb env (tx_mtu c1) offset)
                          \<lparr>rd_buf = pdu, rd_err = BT_ATT_ERR_INVALID_HANDLE, rd_srv = s1\<rparr>;
                        c2 = c1\<lparr>srv := rd_srv data\<rparr>
                    in if rd_err data \<noteq> 0 then (0, send_err_rsp op handle (rd_err data) c2)
                       else (0, bt_att_chan_send_rsp (rd_buf data) c2))"

definition att_read_req :: "'s att_env \<Rightarrow> u8 list \<Rightarrow> 's att_chan \<Rightarrow> u8 \<times> 's att_chan" where
  "att_read_req env buf c =
     att_read_rsp env BT_ATT_OP_READ_REQ BT_ATT_OP_READ_RSP (sys_get_le16 buf) 0 c"

definition att_read_blob_req :: "'s att_env \<Rightarrow> u8 list \<Rightarrow> 's att_chan \<Rightarrow> u8 \<times> 's att_chan" where
  "att_read_blob_req env buf c =
     att_read_rsp env BT_ATT_OP_READ_BLOB_REQ BT_ATT_OP_READ_BLOB_RSP (sys_get_le16 buf)
       (sys_get_le16 (drop 2 buf)) c"

fun read_mult_loop ::
    "'s att_env \<Rightarrow> u8 list \<Rightarrow> u8 list \<Rightarrow> 's att_chan \<Rightarrow> u8 \<times> 's att_chan" where
  "read_mult_loop env (lo # hi # buf) pdu c =
     (let handle = sys_get_le16 [lo, hi];
          data = bt_gatt_foreach_attr env handle handle (read_cb env (tx_mtu c) 0)
            \<lparr>rd_buf = pdu, rd_err = BT_ATT_ERR_INVALID_HANDLE, rd_srv = srv c\<rparr>;
          c1 = c\<lparr>srv := rd_srv data\<rparr>
      in if rd_err data \<noteq> 0 then (0, send_err_rsp BT_ATT_OP_READ_MULT_REQ handle (rd_err data) c1)
         else read_mult_loop env buf (rd_buf data) c1)"
| "read_mult_loop env _ pdu c = (0, bt_att_chan_send_rsp pdu c)"

definition att_read_mult_req :: "'s att_env \<Rightarrow> u8 list \<Rightarrow> 's att_chan \<Rightarrow> u8 \<times> 's att_chan" where
  "att_read_mult_req env buf c =
     (case bt_att_chan_create_pdu BT_ATT_OP_READ_MULT_RSP 0 c of
        None \<Rightarrow> (BT_ATT_ERR_UNLIKELY, c)
      | Some pdu \<Rightarrow> read_mult_loop env buf pdu c)"

subsection \<open>Read by group type\<close>

record 's read_group_data =
  rg_buf :: "u8 list"
  rg_len :: u8
  rg_group :: "nat option"
  rg_srv :: 's

definition attr_read_group_cb ::
    "(u8 \<times> nat option) read_fold" where
  "attr_read_group_cb n buf d =
     (if fst d = 0 then Inr (of_nat (n + 4), snd d)
      else if unat (fst d) \<noteq> n + 4 then Inl (take (length buf - 4) buf, fst d, None)
      else Inr d)"

definition read_group_cb ::
    "'s att_env \<Rightarrow> nat \<Rightarrow> bt_uuid \<Rightarrow> bt_gatt_attr \<Rightarrow> nat \<Rightarrow> 's read_group_data \<Rightarrow> iter \<times> 's read_group_data" where
  "read_group_cb env mtu uuid attr handle data =
     (if attr_uuid attr \<noteq> BT_UUID_GATT_PRIMARY \<and> attr_uuid attr \<noteq> BT_UUID_GATT_SECONDARY
      then (BT_GATT_ITER_CONTINUE, data\<lparr>rg_buf := extend_group (rg_group data) handle (rg_buf data)\<rparr>)
      else if bt_uuid_cmp (UUID_16 (attr_uuid attr)) uuid \<noteq> 0
      then (BT_GATT_ITER_CONTINUE, data\<lparr>rg_group := None\<rparr>)
      else if rg_len data \<noteq> 0 \<and> mtu - length (rg_buf data) < unat (rg_len data)
      then (BT_GATT_ITER_STOP, data)
      else case att_chan_read (env_read env attr handle) mtu attr_read_group_cb 0
             (rg_buf data @ sys_put_le16 (of_nat handle) @ sys_put_le16 (of_nat handle))
             (rg_len data, Some (length (rg_buf data))) (rg_srv data) of
             (read, buf, (len, grp), s) \<Rightarrow>
               let data1 = data\<lparr>rg_buf := buf, rg_len := len, rg_group := grp, rg_srv := s\<rparr>
               in if read < 0 then (BT_GATT_ITER_STOP, data1)
                  else if grp = None then (BT_GATT_ITER_STOP, data1)
                  else (BT_GATT_ITER_CONTINUE, data1))"

definition att_read_group_rsp ::
    "'s att_env \<Rightarrow> bt_uuid \<Rightarrow> u16 \<Rightarrow> u16 \<Rightarrow> 's att_chan \<Rightarrow> u8 \<times> 's att_chan" where
  "att_read_group_rsp env uuid start_handle end_handle c =
     (case bt_att_chan_create_pdu BT_ATT_OP_READ_GROUP_RSP 1 c of
        None \<Rightarrow> (BT_ATT_ERR_UNLIKELY, c)
      | Some pdu \<Rightarrow>
          let data = bt_gatt_foreach_attr env start_handle end_handle
                (read_group_cb env (tx_mtu c) uuid)
                \<lparr>rg_buf = pdu @ [0], rg_len = 0, rg_group = None, rg_srv = srv c\<rparr>;
              c1 = c\<lparr>srv := rg_srv data\<rparr>
          in if rg_len data = 0
             then (0, send_err_rsp BT_ATT_OP_READ_GROUP_REQ start_handle BT_ATT_ERR_ATTRIBUTE_NOT_FOUND c1)
             else (0, bt_att_chan_send_rsp ((rg_buf data)[1 := rg_len data]) c1))"

definition att_read_group_req :: "'s att_env \<Rightarrow> u8 list \<Rightarrow> 's att_chan \<Rightarrow> u8 \<times> 's att_chan" where
  "att_read_group_req env buf c =
     (let uuid_len = of_nat (length buf - 4) :: u8
      in if uuid_len \<noteq> 2 \<and> uuid_len \<noteq> 16 then (BT_ATT_ERR_INVALID_PDU, c)
         else let start_handle = sys_get_le16 buf; end_handle = sys_get_le16 (drop 2 buf)
              in case bt_uuid_create (take (unat uuid_len) (drop 4 buf)) of
                   None \<Rightarrow> (BT_ATT_ERR_UNLIKELY, c)
                 | Some uuid \<Rightarrow>
                     (case range_is_valid start_handle end_handle of (valid, err_handle) \<Rightarrow>
                        if \<not> valid
                        then (0, send_err_rsp BT_ATT_OP_READ_GROUP_REQ err_handle BT_ATT_ERR_INVALID_HANDLE c)
                        else if bt_uuid_cmp uuid (UUID_16 BT_UUID_GATT_PRIMARY) \<noteq> 0 \<and>
                          bt_uuid_cmp uuid (UUID_16 BT_UUID_GATT_SECONDARY) \<noteq> 0
                        then (0, send_err_rsp BT_ATT_OP_READ_GROUP_REQ start_handle
                                BT_ATT_ERR_UNSUPPORTED_GROUP_TYPE c)
                        else att_read_group_rsp env uuid start_handle end_handle c))"

subsection \<open>Write\<close>

definition write_cb ::
    "'s att_env \<Rightarrow> u8 \<Rightarrow> u8 list \<Rightarrow> u16 \<Rightarrow> bt_gatt_attr \<Rightarrow> nat \<Rightarrow> u8 \<times> 's \<Rightarrow> iter \<times> u8 \<times> 's" where
  "write_cb env req value offset attr handle data =
     (let err = of_int (bt_gatt_check_perm (env_conn env) attr BT_GATT_PERM_WRITE_MASK) :: u8
      in if err \<noteq> 0 then (BT_GATT_ITER_STOP, err, snd data)
         else let flags = (if req = 0 then BT_GATT_WRITE_FLAG_CMD else 0)
              in case env_write env attr handle value offset flags (snd data) of (write, s1) \<Rightarrow>
                   if write < 0 \<or> write \<noteq> int (length value)
                   then (BT_GATT_ITER_STOP, err_to_att write, s1)
                   else (BT_GATT_ITER_CONTINUE, 0, s1))"

definition att_write_rsp ::
    "'s att_env \<Rightarrow> u8 \<Rightarrow> u8 \<Rightarrow> u16 \<Rightarrow> u16 \<Rightarrow> u8 list \<Rightarrow> 's att_chan \<Rightarrow> u8 \<times> 's att_chan" where
  "att_write_rsp env req rsp handle offset value c =
     (case env_aware env (req \<noteq> 0) (srv c) of (aware, s1) \<Rightarrow>
        let c1 = c\<lparr>srv := s1\<rparr>
        in if \<not> aware then (BT_ATT_ERR_DB_OUT_OF_SYNC, c1)
           else if handle = 0 then (BT_ATT_ERR_INVALID_HANDLE, c1)
           else if rsp \<noteq> 0 \<and> bt_att_chan_create_pdu rsp 0 c1 = None then (BT_ATT_ERR_UNLIKELY, c1)
           else case bt_gatt_foreach_attr env handle handle (write_cb env req value offset)
                  (BT_ATT_ERR_INVALID_HANDLE, s1) of
                  (err, s2) \<Rightarrow>
                    let c2 = c1\<lparr>srv := s2\<rparr>
                    in if err \<noteq> 0
                       then (if req = BT_ATT_OP_EXEC_WRITE_REQ then err else 0,
                             if rsp \<noteq> 0 then send_err_rsp req handle err c2 else c2)
                       else (0, if rsp \<noteq> 0 then bt_att_chan_send_rsp [rsp] c2 else c2))"

definition att_write_req :: "'s att_env \<Rightarrow> u8 list \<Rightarrow> 's att_chan \<Rightarrow> u8 \<times> 's att_chan" where
  "att_write_req env buf c =
     att_write_rsp env BT_ATT_OP_WRITE_REQ BT_ATT_OP_WRITE_RSP (sys_get_le16 buf) 0 (drop 2 buf) c"

definition att_prepare_write_req :: "'s att_env \<Rightarrow> u8 list \<Rightarrow> 's att_chan \<Rightarrow> u8 \<times> 's att_chan" where
  "att_prepare_write_req env buf c = (BT_ATT_ERR_NOT_SUPPORTED, c)"

definition att_exec_write_req :: "'s att_env \<Rightarrow> u8 list \<Rightarrow> 's att_chan \<Rightarrow> u8 \<times> 's att_chan" where
  "att_exec_write_req env buf c = (BT_ATT_ERR_NOT_SUPPORTED, c)"

definition att_write_cmd :: "'s att_env \<Rightarrow> u8 list \<Rightarrow> 's att_chan \<Rightarrow> u8 \<times> 's att_chan" where
  "att_write_cmd env buf c = att_write_rsp env 0 0 (sys_get_le16 buf) 0 (drop 2 buf) c"

definition att_confirm :: "'s att_env \<Rightarrow> u8 list \<Rightarrow> 's att_chan \<Rightarrow> u8 \<times> 's att_chan" where
  "att_confirm env buf c = (0, c)"

subsection \<open>Reception\<close>

datatype att_type = ATT_COMMAND | ATT_REQUEST | ATT_RESPONSE | ATT_NOTIFICATION | ATT_CONFIRMATION
  | ATT_INDICATION | ATT_UNKNOWN

definition handlers ::
    "(u8 \<times> nat \<times> att_type \<times> ('s att_env \<Rightarrow> u8 list \<Rightarrow> 's att_chan \<Rightarrow> u8 \<times> 's att_chan)) list" where
  "handlers =
     [(BT_ATT_OP_MTU_REQ, 2, ATT_REQUEST, att_mtu_req),
      (BT_ATT_OP_FIND_INFO_REQ, 4, ATT_REQUEST, att_find_info_req),
      (BT_ATT_OP_FIND_TYPE_REQ, 6, ATT_REQUEST, att_find_type_req),
      (BT_ATT_OP_READ_TYPE_REQ, 4, ATT_REQUEST, att_read_type_req),
      (BT_ATT_OP_READ_REQ, 2, ATT_REQUEST, att_read_req),
      (BT_ATT_OP_READ_BLOB_REQ, 4, ATT_REQUEST, att_read_blob_req),
      (BT_ATT_OP_READ_MULT_REQ, 4, ATT_REQUEST, att_read_mult_req),
      (BT_ATT_OP_READ_GROUP_REQ, 4, ATT_REQUEST, att_read_group_req),
      (BT_ATT_OP_WRITE_REQ, 2, ATT_REQUEST, att_write_req),
      (BT_ATT_OP_PREPARE_WRITE_REQ, 4, ATT_REQUEST, att_prepare_write_req),
      (BT_ATT_OP_EXEC_WRITE_REQ, 1, ATT_REQUEST, att_exec_write_req),
      (BT_ATT_OP_CONFIRM, 0, ATT_CONFIRMATION, att_confirm),
      (BT_ATT_OP_WRITE_CMD, 2, ATT_COMMAND, att_write_cmd)]"

definition att_op_get_type :: "u8 \<Rightarrow> att_type" where
  "att_op_get_type op =
     (if op \<in> {BT_ATT_OP_MTU_REQ, BT_ATT_OP_FIND_INFO_REQ, BT_ATT_OP_FIND_TYPE_REQ,
        BT_ATT_OP_READ_TYPE_REQ, BT_ATT_OP_READ_REQ, BT_ATT_OP_READ_BLOB_REQ, BT_ATT_OP_READ_MULT_REQ,
        BT_ATT_OP_READ_GROUP_REQ, BT_ATT_OP_WRITE_REQ, BT_ATT_OP_PREPARE_WRITE_REQ,
        BT_ATT_OP_EXEC_WRITE_REQ} then ATT_REQUEST
      else if op = BT_ATT_OP_CONFIRM then ATT_CONFIRMATION
      else if op \<in> {BT_ATT_OP_WRITE_CMD, BT_ATT_OP_SIGNED_WRITE_CMD} then ATT_COMMAND
      else if op \<in> {BT_ATT_OP_ERROR_RSP, BT_ATT_OP_MTU_RSP, BT_ATT_OP_FIND_INFO_RSP,
        BT_ATT_OP_FIND_TYPE_RSP, BT_ATT_OP_READ_TYPE_RSP, BT_ATT_OP_READ_RSP, BT_ATT_OP_READ_BLOB_RSP,
        BT_ATT_OP_READ_MULT_RSP, BT_ATT_OP_READ_GROUP_RSP, BT_ATT_OP_WRITE_RSP,
        BT_ATT_OP_PREPARE_WRITE_RSP, BT_ATT_OP_EXEC_WRITE_RSP} then ATT_RESPONSE
      else if op = BT_ATT_OP_NOTIFY then ATT_NOTIFICATION
      else if op = BT_ATT_OP_INDICATE then ATT_INDICATION
      else if op AND ATT_CMD_MASK \<noteq> 0 then ATT_COMMAND
      else ATT_UNKNOWN)"

definition bt_att_recv :: "'s att_env \<Rightarrow> u8 list \<Rightarrow> 's att_chan \<Rightarrow> 's att_chan" where
  "bt_att_recv env pdu c =
     (case pdu of
        [] \<Rightarrow> c
      | code # buf \<Rightarrow>
          (case find (\<lambda>h. fst h = code) handlers of
             None \<Rightarrow> if att_op_get_type code \<noteq> ATT_COMMAND
                     then send_err_rsp code 0 BT_ATT_ERR_NOT_SUPPORTED c else c
           | Some (op, expect_len, ty, func) \<Rightarrow>
               if ty = ATT_REQUEST \<and> pending_rsp c then c
               else let c1 = (if ty = ATT_REQUEST then c\<lparr>pending_rsp := True\<rparr> else c)
                    in case if length buf < expect_len then (BT_ATT_ERR_INVALID_PDU, c1)
                            else func env buf c1 of
                         (err, c2) \<Rightarrow>
                           if ty = ATT_REQUEST \<and> err \<noteq> 0 then send_err_rsp code 0 err c2 else c2))"

end
