(* ===== verification/Gatt_Svc.thy ===== *)
theory Gatt_Svc
  imports Hog Att
begin

text \<open>
  The services that every peripheral of this configuration has beside the HID service, and the state
  they keep: Generic Attribute and Generic Access of \<open>subsys/bluetooth/host/gatt.c\<close> with the client
  supported features, the change-aware state of robust caching, the pending Service Changed ranges and
  the database hash, and the battery and device information services of
  \<open>subsys/bluetooth/services\<close>.

  \<open>gatt_server\<close> is the state of all attributes. AES-CMAC is a library outside the tree: the function
  \<open>cmac\<close> gives the code of a message under the key of zeros; its functions fail on null pointers only.
  The keys of bonded peers are the field \<open>bonded\<close>, and what is written to the settings is the list
  \<open>saved_sc\<close>. A work item that computes the hash is the flag \<open>db_hash_work\<close>.
\<close>

abbreviation BT_ATT_ERR_VALUE_NOT_ALLOWED :: int where "BT_ATT_ERR_VALUE_NOT_ALLOWED \<equiv> 0x13"
abbreviation BT_GATT_CCC_INDICATE :: u16 where "BT_GATT_CCC_INDICATE \<equiv> 0x0002"
abbreviation BT_GATT_CHRC_WRITE :: u8 where "BT_GATT_CHRC_WRITE \<equiv> 0x08"
abbreviation BT_GATT_CHRC_INDICATE :: u8 where "BT_GATT_CHRC_INDICATE \<equiv> 0x20"
abbreviation BT_ID_DEFAULT :: u8 where "BT_ID_DEFAULT \<equiv> 0"

abbreviation BT_UUID_GAP :: u16 where "BT_UUID_GAP \<equiv> 0x1800"
abbreviation BT_UUID_GATT :: u16 where "BT_UUID_GATT \<equiv> 0x1801"
abbreviation BT_UUID_DIS :: u16 where "BT_UUID_DIS \<equiv> 0x180a"
abbreviation BT_UUID_BAS :: u16 where "BT_UUID_BAS \<equiv> 0x180f"
abbreviation BT_UUID_GAP_DEVICE_NAME :: u16 where "BT_UUID_GAP_DEVICE_NAME \<equiv> 0x2a00"
abbreviation BT_UUID_GAP_APPEARANCE :: u16 where "BT_UUID_GAP_APPEARANCE \<equiv> 0x2a01"
abbreviation BT_UUID_GAP_PPCP :: u16 where "BT_UUID_GAP_PPCP \<equiv> 0x2a04"
abbreviation BT_UUID_GATT_SC :: u16 where "BT_UUID_GATT_SC \<equiv> 0x2a05"
abbreviation BT_UUID_GATT_CLIENT_FEATURES :: u16 where "BT_UUID_GATT_CLIENT_FEATURES \<equiv> 0x2b29"
abbreviation BT_UUID_GATT_DB_HASH :: u16 where "BT_UUID_GATT_DB_HASH \<equiv> 0x2b2a"
abbreviation BT_UUID_BAS_BATTERY_LEVEL :: u16 where "BT_UUID_BAS_BATTERY_LEVEL \<equiv> 0x2a19"
abbreviation BT_UUID_DIS_MODEL_NUMBER :: u16 where "BT_UUID_DIS_MODEL_NUMBER \<equiv> 0x2a24"
abbreviation BT_UUID_DIS_MANUFACTURER_NAME :: u16 where "BT_UUID_DIS_MANUFACTURER_NAME \<equiv> 0x2a29"
abbreviation BT_UUID_DIS_PNP_ID :: u16 where "BT_UUID_DIS_PNP_ID \<equiv> 0x2a50"

subsection \<open>State\<close>

record gatt_sc_cfg =
  sc_id :: u8
  sc_peer :: bt_addr_le
  sc_start :: u16
  sc_end :: u16

record gatt_cf_cfg =
  cf_id :: u8
  cf_peer :: bt_addr_le
  cf_data :: "u8 list"
  cf_change_aware :: bool
  cf_out_of_sync :: bool

record gatt_server =
  hog_st :: hog
  sc_cfg :: "gatt_sc_cfg list"
  cf_cfg :: "gatt_cf_cfg list"
  saved_sc :: "gatt_sc_cfg list"
  bonded :: "(u8 \<times> bt_addr_le) list"
  db_hash :: "u8 list"
  db_hash_work :: bool
  battery_level :: u8
  bt_name :: "u8 list"
  dis_strings :: "u8 list list"

subsection \<open>Declarations\<close>

definition bt_gatt_attr_read_service :: "bt_gatt_attr \<Rightarrow> u16 \<Rightarrow> u16 \<Rightarrow> int + u8 list" where
  "bt_gatt_attr_read_service attr len offset =
     bt_gatt_attr_read len offset (case attr_data attr of UD_Uuid uuid \<Rightarrow> sys_put_le16 uuid | _ \<Rightarrow> [])"

text \<open>
  The pointer of an attribute is known here by its handle, which is what \<open>bt_gatt_attr_get_handle\<close> in
  \<open>bt_gatt_attr_value_handle\<close> finds from the pointer.
\<close>

definition chrc_value :: "user_data \<Rightarrow> nat \<Rightarrow> u8 list" where
  "chrc_value data handle =
     (case data of
        UD_Chrc uuid value_handle properties \<Rightarrow>
          [properties]
          @ sys_put_le16 (of_nat (if value_handle = 0 then handle + 1 else value_handle))
          @ sys_put_le16 uuid
      | _ \<Rightarrow> [])"

definition bt_gatt_attr_read_chrc :: "bt_gatt_attr \<Rightarrow> nat \<Rightarrow> u16 \<Rightarrow> u16 \<Rightarrow> int + u8 list" where
  "bt_gatt_attr_read_chrc attr handle len offset =
     bt_gatt_attr_read len offset (chrc_value (attr_data attr) handle)"

subsection \<open>Generic access\<close>

definition read_name :: "gatt_server \<Rightarrow> u16 \<Rightarrow> u16 \<Rightarrow> int + u8 list" where
  "read_name s len offset = bt_gatt_attr_read len offset (bt_name s)"

definition gap_appearance :: u16 where "gap_appearance = 962"

definition read_appearance :: "u16 \<Rightarrow> u16 \<Rightarrow> int + u8 list" where
  "read_appearance len offset = bt_gatt_attr_read len offset (sys_put_le16 gap_appearance)"

definition ppcp_bytes :: "u8 list" where
  "ppcp_bytes = sys_put_le16 24 @ sys_put_le16 40 @ sys_put_le16 0 @ sys_put_le16 42"

definition read_ppcp :: "u16 \<Rightarrow> u16 \<Rightarrow> int + u8 list" where
  "read_ppcp len offset = bt_gatt_attr_read len offset ppcp_bytes"

subsection \<open>Pending Service Changed ranges\<close>

fun find_sc_from :: "nat \<Rightarrow> u8 \<Rightarrow> bt_addr_le \<Rightarrow> gatt_sc_cfg list \<Rightarrow> nat option" where
  "find_sc_from i ident addr [] = None"
| "find_sc_from i ident addr (cfg # cfgs) =
     (if ident = sc_id cfg \<and> sc_peer cfg = addr then Some i else find_sc_from (Suc i) ident addr cfgs)"

definition find_sc_cfg :: "u8 \<Rightarrow> bt_addr_le \<Rightarrow> gatt_server \<Rightarrow> nat option" where
  "find_sc_cfg ident addr s = find_sc_from 0 ident addr (sc_cfg s)"

definition sc_store :: "gatt_sc_cfg \<Rightarrow> gatt_server \<Rightarrow> gatt_server" where
  "sc_store cfg s = s\<lparr>saved_sc := saved_sc s @ [cfg]\<rparr>"

definition clear_sc_cfg :: "gatt_sc_cfg \<Rightarrow> gatt_sc_cfg" where
  "clear_sc_cfg cfg = \<lparr>sc_id = 0, sc_peer = BT_ADDR_LE_ANY, sc_start = 0, sc_end = 0\<rparr>"

definition bt_addr_le_is_bonded :: "u8 \<Rightarrow> bt_addr_le \<Rightarrow> gatt_server \<Rightarrow> bool" where
  "bt_addr_le_is_bonded ident addr s = ((ident, addr) \<in> set (bonded s))"

text \<open>Deleting the key of an entry removes what was saved for its peer.\<close>

definition bt_gatt_clear_sc :: "u8 \<Rightarrow> bt_addr_le \<Rightarrow> gatt_server \<Rightarrow> gatt_server" where
  "bt_gatt_clear_sc ident addr s =
     (case find_sc_cfg ident addr s of
        None \<Rightarrow> s
      | Some i \<Rightarrow>
          s\<lparr>saved_sc := filter (\<lambda>c. \<not> (sc_id c = sc_id (sc_cfg s ! i) \<and> sc_peer c = sc_peer (sc_cfg s ! i)))
              (saved_sc s),
            sc_cfg := (sc_cfg s)[i := clear_sc_cfg (sc_cfg s ! i)]\<rparr>)"

definition sc_clear :: "bt_conn \<Rightarrow> gatt_server \<Rightarrow> gatt_server" where
  "sc_clear conn s =
     (if bt_addr_le_is_bonded (conn_id conn) (conn_dst conn) s
      then bt_gatt_clear_sc (conn_id conn) (conn_dst conn) s
      else case find_sc_cfg (conn_id conn) (conn_dst conn) s of
             None \<Rightarrow> s
           | Some i \<Rightarrow> s\<lparr>sc_cfg := (sc_cfg s)[i := clear_sc_cfg (sc_cfg s ! i)]\<rparr>)"

definition sc_reset :: "nat \<Rightarrow> gatt_server \<Rightarrow> gatt_server" where
  "sc_reset i s =
     (let cfg = (sc_cfg s ! i)\<lparr>sc_start := 0, sc_end := 0\<rparr>
      in sc_store cfg (s\<lparr>sc_cfg := (sc_cfg s)[i := cfg]\<rparr>))"

definition update_range :: "u16 \<Rightarrow> u16 \<Rightarrow> u16 \<times> u16 \<Rightarrow> bool \<times> u16 \<times> u16" where
  "update_range new_start new_end r =
     (if new_start \<ge> fst r \<and> new_end \<le> snd r then (False, r)
      else (True, if fst r > new_start then new_start else fst r,
                  if snd r < new_end then new_end else snd r))"

text \<open>The second half of \<open>sc_save\<close>, once the entry of the peer is known.\<close>

definition sc_save_entry :: "nat \<Rightarrow> u16 \<Rightarrow> u16 \<Rightarrow> gatt_server \<Rightarrow> gatt_server" where
  "sc_save_entry i start en s =
     (let cfg = sc_cfg s ! i;
          (modified, st, e) =
            (if sc_start cfg = 0 \<and> sc_end cfg = 0 then (True, start, en)
             else update_range start en (sc_start cfg, sc_end cfg));
          cfg1 = cfg\<lparr>sc_start := st, sc_end := e\<rparr>;
          s1 = s\<lparr>sc_cfg := (sc_cfg s)[i := cfg1]\<rparr>
      in if modified \<and> bt_addr_le_is_bonded (sc_id cfg1) (sc_peer cfg1) s1 then sc_store cfg1 s1 else s1)"

definition sc_save :: "u8 \<Rightarrow> bt_addr_le \<Rightarrow> u16 \<Rightarrow> u16 \<Rightarrow> gatt_server \<Rightarrow> gatt_server" where
  "sc_save ident peer start en s =
     (case find_sc_cfg ident peer s of
        Some i \<Rightarrow> sc_save_entry i start en s
      | None \<Rightarrow>
          (case find_sc_cfg BT_ID_DEFAULT BT_ADDR_LE_ANY s of
             None \<Rightarrow> s
           | Some i \<Rightarrow>
               sc_save_entry i start en
                 (s\<lparr>sc_cfg := (sc_cfg s)[i := (sc_cfg s ! i)\<lparr>sc_id := ident, sc_peer := peer\<rparr>]\<rparr>)))"

definition sc_ccc_cfg_write :: "bt_conn \<Rightarrow> u16 \<Rightarrow> gatt_server \<Rightarrow> int \<times> gatt_server" where
  "sc_ccc_cfg_write conn value s =
     (2, if value = BT_GATT_CCC_INDICATE then sc_save (conn_id conn) (conn_dst conn) 0 0 s
         else sc_clear conn s)"

subsection \<open>Client supported features and robust caching\<close>

abbreviation CF_BIT_LAST :: nat where "CF_BIT_LAST \<equiv> 2"
abbreviation CF_BYTE_LAST :: nat where "CF_BYTE_LAST \<equiv> CF_BIT_LAST mod 8"

definition CF_ROBUST_CACHING :: "gatt_cf_cfg \<Rightarrow> bool" where
  "CF_ROBUST_CACHING cfg \<longleftrightarrow> cf_data cfg ! 0 AND BIT 0 \<noteq> 0"

definition clear_cf_cfg :: "gatt_cf_cfg \<Rightarrow> gatt_cf_cfg" where
  "clear_cf_cfg cfg = cfg\<lparr>cf_peer := BT_ADDR_LE_ANY, cf_data := replicate (length (cf_data cfg)) 0,
     cf_change_aware := False, cf_out_of_sync := False\<rparr>"

fun find_cf_from :: "nat \<Rightarrow> bt_conn option \<Rightarrow> gatt_cf_cfg list \<Rightarrow> nat option" where
  "find_cf_from i conn [] = None"
| "find_cf_from i conn (cfg # cfgs) =
     (if (case conn of None \<Rightarrow> cf_peer cfg = BT_ADDR_LE_ANY
          | Some c \<Rightarrow> bt_conn_is_peer_addr_le c (cf_id cfg) (cf_peer cfg))
      then Some i else find_cf_from (Suc i) conn cfgs)"

definition find_cf_cfg :: "bt_conn option \<Rightarrow> gatt_server \<Rightarrow> nat option" where
  "find_cf_cfg conn s = find_cf_from 0 conn (cf_cfg s)"

definition cf_value :: "bt_conn \<Rightarrow> gatt_server \<Rightarrow> u8 list" where
  "cf_value conn s = (case find_cf_cfg (Some conn) s of None \<Rightarrow> [0] | Some i \<Rightarrow> take 1 (cf_data (cf_cfg s ! i)))"

definition cf_read :: "bt_conn \<Rightarrow> gatt_server \<Rightarrow> u16 \<Rightarrow> u16 \<Rightarrow> int + u8 list" where
  "cf_read conn s len offset = bt_gatt_attr_read len offset (cf_value conn s)"

text \<open>No bit of the client is cleared by the byte written.\<close>

definition cf_bits_ok :: "u8 \<Rightarrow> u8 \<Rightarrow> bool" where
  "cf_bits_ok value data =
     list_all (\<lambda>b. \<not> (BIT b AND (value XOR data) \<noteq> 0 \<and> BIT b AND data \<noteq> 0)) [0..<Suc CF_BIT_LAST]"

definition cf_set_value :: "u8 list \<Rightarrow> gatt_cf_cfg \<Rightarrow> bool \<times> gatt_cf_cfg" where
  "cf_set_value value cfg =
     (if \<not> list_all (\<lambda>i. cf_bits_ok (value ! i) (cf_data cfg ! i)) [0..<min (length value) (Suc CF_BYTE_LAST)]
      then (False, cfg)
      else (True, cfg\<lparr>cf_data := fold (\<lambda>i d. d[i := d ! i OR (value ! i AND (BIT (CF_BIT_LAST + 1) - 1))])
              [0..<min (length value) CF_BYTE_LAST] (cf_data cfg)\<rparr>))"

definition cf_write :: "bt_conn \<Rightarrow> u8 list \<Rightarrow> u16 \<Rightarrow> gatt_server \<Rightarrow> int \<times> gatt_server" where
  "cf_write conn value offset s =
     (if offset > 1 then (BT_GATT_ERR BT_ATT_ERR_INVALID_OFFSET, s)
      else if unat offset + length value > 1 then (BT_GATT_ERR BT_ATT_ERR_INVALID_ATTRIBUTE_LEN, s)
      else case (case find_cf_cfg (Some conn) s of None \<Rightarrow> find_cf_cfg None s | Some i \<Rightarrow> Some i) of
             None \<Rightarrow> (BT_GATT_ERR BT_ATT_ERR_INSUFFICIENT_RESOURCES, s)
           | Some i \<Rightarrow>
               (case cf_set_value value (cf_cfg s ! i) of (ok, cfg) \<Rightarrow>
                  if \<not> ok then (BT_GATT_ERR BT_ATT_ERR_VALUE_NOT_ALLOWED, s)
                  else (int (length value),
                        s\<lparr>cf_cfg := (cf_cfg s)[i := cfg\<lparr>cf_peer := conn_dst conn, cf_id := conn_id conn,
                            cf_change_aware := True\<rparr>]\<rparr>)))"

definition bt_gatt_change_aware :: "bt_conn \<Rightarrow> bool \<Rightarrow> gatt_server \<Rightarrow> bool \<times> gatt_server" where
  "bt_gatt_change_aware conn req s =
     (case find_cf_cfg (Some conn) s of
        None \<Rightarrow> (True, s)
      | Some i \<Rightarrow>
          let cfg = cf_cfg s ! i
          in if \<not> CF_ROBUST_CACHING cfg then (True, s)
             else if cf_change_aware cfg then (True, s)
             else if \<not> req then (False, s)
             else if cf_out_of_sync cfg
             then (True, s\<lparr>cf_cfg := (cf_cfg s)[i := cfg\<lparr>cf_out_of_sync := False, cf_change_aware := True\<rparr>]\<rparr>)
             else (False, s\<lparr>cf_cfg := (cf_cfg s)[i := cfg\<lparr>cf_out_of_sync := True\<rparr>]\<rparr>))"

definition remove_cf_cfg :: "bt_conn \<Rightarrow> gatt_server \<Rightarrow> gatt_server" where
  "remove_cf_cfg conn s =
     (case find_cf_cfg (Some conn) s of
        None \<Rightarrow> s
      | Some i \<Rightarrow>
          let cfg = cf_cfg s ! i
          in if \<not> bt_addr_le_is_bonded (conn_id conn) (conn_dst conn) s
             then s\<lparr>cf_cfg := (cf_cfg s)[i := clear_cf_cfg cfg]\<rparr>
             else s\<lparr>cf_cfg := (cf_cfg s)[i := cfg\<lparr>cf_peer := conn_dst conn, cf_out_of_sync := False\<rparr>]\<rparr>)"

subsection \<open>Database hash\<close>

text \<open>The message is the list of bytes given to the code so far.\<close>

definition gen_hash_m ::
    "(bt_gatt_attr \<Rightarrow> nat \<Rightarrow> u16 \<Rightarrow> u16 \<Rightarrow> int + u8 list) \<Rightarrow> bt_gatt_attr \<Rightarrow> nat \<Rightarrow> u8 list \<Rightarrow> iter \<times> u8 list" where
  "gen_hash_m rd attr handle msg =
     (let head = sys_put_le16 (of_nat handle) @ sys_put_le16 (attr_uuid attr)
      in if attr_uuid attr \<in> {0x2800, 0x2801, 0x2802, 0x2803, 0x2900}
         then case rd attr handle 16 0 of
                Inl _ \<Rightarrow> (BT_GATT_ITER_STOP, msg @ head)
              | Inr data \<Rightarrow> (BT_GATT_ITER_CONTINUE, msg @ head @ data)
         else if attr_uuid attr \<in> {0x2901, 0x2902, 0x2903, 0x2904, 0x2905}
         then (BT_GATT_ITER_CONTINUE, msg @ head)
         else (BT_GATT_ITER_CONTINUE, msg))"

text \<open>Of the attributes that are hashed with their value the database has declarations only.\<close>

definition read_declaration :: "bt_gatt_attr \<Rightarrow> nat \<Rightarrow> u16 \<Rightarrow> u16 \<Rightarrow> int + u8 list" where
  "read_declaration attr handle len offset =
     (if attr_read attr = Some Read_chrc then bt_gatt_attr_read_chrc attr handle len offset
      else bt_gatt_attr_read_service attr len offset)"

definition hash_message :: "service list \<Rightarrow> u8 list" where
  "hash_message svcs = bt_gatt_foreach_attr_type svcs 1 0xffff None None 0 (gen_hash_m read_declaration) []"

definition hash_of :: "(u8 list \<Rightarrow> u8 list) \<Rightarrow> gatt_server \<Rightarrow> u8 list" where
  "hash_of cmac s = sys_mem_swap (cmac (hash_message (services (gatt_st (hog_st s))))) 16"

definition db_hash_gen :: "(u8 list \<Rightarrow> u8 list) \<Rightarrow> gatt_server \<Rightarrow> gatt_server" where
  "db_hash_gen cmac s = s\<lparr>db_hash := hash_of cmac s\<rparr>"

definition db_hash_read ::
    "(u8 list \<Rightarrow> u8 list) \<Rightarrow> bt_conn \<Rightarrow> u16 \<Rightarrow> u16 \<Rightarrow> gatt_server \<Rightarrow> (int + u8 list) \<times> gatt_server" where
  "db_hash_read cmac conn len offset s =
     (let s1 = (if db_hash_work s then db_hash_gen cmac (s\<lparr>db_hash_work := False\<rparr>) else s);
          s2 = snd (bt_gatt_change_aware conn True s1)
      in (bt_gatt_attr_read len offset (db_hash s2), s2))"

subsection \<open>Battery and device information\<close>

definition read_blvl :: "gatt_server \<Rightarrow> u16 \<Rightarrow> u16 \<Rightarrow> int + u8 list" where
  "read_blvl s len offset = bt_gatt_attr_read len offset [battery_level s]"

definition dis_string :: "bt_gatt_attr \<Rightarrow> gatt_server \<Rightarrow> u8 list" where
  "dis_string attr s =
     (case attr_data attr of UD_Obj n \<Rightarrow> if n < length (dis_strings s) then dis_strings s ! n else [] | _ \<Rightarrow> [])"

definition read_str :: "bt_gatt_attr \<Rightarrow> gatt_server \<Rightarrow> u16 \<Rightarrow> u16 \<Rightarrow> int + u8 list" where
  "read_str attr s len offset = bt_gatt_attr_read len offset (dis_string attr s)"

definition dis_pnp_id :: "u8 list" where
  "dis_pnp_id = [1] @ sys_put_le16 0 @ sys_put_le16 0 @ sys_put_le16 1"

definition read_pnp_id :: "u16 \<Rightarrow> u16 \<Rightarrow> int + u8 list" where
  "read_pnp_id len offset = bt_gatt_attr_read len offset dis_pnp_id"

definition bt_bas_get_battery_level :: "gatt_server \<Rightarrow> u8" where
  "bt_bas_get_battery_level s = battery_level s"

text \<open>The battery service is the third of the database.\<close>

definition bt_bas_set_battery_level :: "u8 \<Rightarrow> gatt_server \<Rightarrow> int \<times> gatt_server" where
  "bt_bas_set_battery_level level s =
     (if level > 100 then (- EINVAL, s)
      else case bt_gatt_notify None (2, 1) [level] (gatt_st (hog_st s)) of (rc, g) \<Rightarrow>
             (if rc = - ENOTCONN then 0 else rc,
              s\<lparr>battery_level := level, hog_st := (hog_st s)\<lparr>gatt_st := g\<rparr>\<rparr>))"

subsection \<open>The services\<close>

text \<open>
  The callbacks are numbered after those of the HID service, the client configurations are number 0
  for Service Changed and 1 for the battery level.
\<close>

abbreviation fn_read_name :: read_fn where "fn_read_name \<equiv> Read_app 4"
abbreviation fn_read_appearance :: read_fn where "fn_read_appearance \<equiv> Read_app 5"
abbreviation fn_read_ppcp :: read_fn where "fn_read_ppcp \<equiv> Read_app 6"
abbreviation fn_cf_read :: read_fn where "fn_cf_read \<equiv> Read_app 7"
abbreviation fn_db_hash_read :: read_fn where "fn_db_hash_read \<equiv> Read_app 8"
abbreviation fn_read_blvl :: read_fn where "fn_read_blvl \<equiv> Read_app 9"
abbreviation fn_read_str :: read_fn where "fn_read_str \<equiv> Read_app 10"
abbreviation fn_read_pnp_id :: read_fn where "fn_read_pnp_id \<equiv> Read_app 11"
abbreviation fn_cf_write :: write_fn where "fn_cf_write \<equiv> Write_app 1"
abbreviation sc_ccc :: nat where "sc_ccc \<equiv> 0"
abbreviation blvl_ccc :: nat where "blvl_ccc \<equiv> 1"

definition gatt_svc :: service where
  "gatt_svc =
     [BT_GATT_PRIMARY_SERVICE BT_UUID_GATT]
     @ BT_GATT_CHARACTERISTIC BT_UUID_GATT_SC BT_GATT_CHRC_INDICATE 0 None None UD_Null
     @ [BT_GATT_CCC sc_ccc (BT_GATT_PERM_READ OR BT_GATT_PERM_WRITE)]
     @ BT_GATT_CHARACTERISTIC BT_UUID_GATT_CLIENT_FEATURES (BT_GATT_CHRC_READ OR BT_GATT_CHRC_WRITE)
         (BT_GATT_PERM_READ OR BT_GATT_PERM_WRITE) (Some fn_cf_read) (Some fn_cf_write) UD_Null
     @ BT_GATT_CHARACTERISTIC BT_UUID_GATT_DB_HASH BT_GATT_CHRC_READ BT_GATT_PERM_READ
         (Some fn_db_hash_read) None UD_Null"

definition gap_svc :: service where
  "gap_svc =
     [BT_GATT_PRIMARY_SERVICE BT_UUID_GAP]
     @ BT_GATT_CHARACTERISTIC BT_UUID_GAP_DEVICE_NAME BT_GATT_CHRC_READ BT_GATT_PERM_READ
         (Some fn_read_name) None UD_Null
     @ BT_GATT_CHARACTERISTIC BT_UUID_GAP_APPEARANCE BT_GATT_CHRC_READ BT_GATT_PERM_READ
         (Some fn_read_appearance) None UD_Null
     @ BT_GATT_CHARACTERISTIC BT_UUID_GAP_PPCP BT_GATT_CHRC_READ BT_GATT_PERM_READ
         (Some fn_read_ppcp) None UD_Null"

definition bas :: service where
  "bas =
     [BT_GATT_PRIMARY_SERVICE BT_UUID_BAS]
     @ BT_GATT_CHARACTERISTIC BT_UUID_BAS_BATTERY_LEVEL (BT_GATT_CHRC_READ OR BT_GATT_CHRC_NOTIFY)
         BT_GATT_PERM_READ (Some fn_read_blvl) None UD_Null
     @ [BT_GATT_CCC blvl_ccc (BT_GATT_PERM_READ OR BT_GATT_PERM_WRITE)]"

definition dis_svc :: service where
  "dis_svc =
     [BT_GATT_PRIMARY_SERVICE BT_UUID_DIS]
     @ BT_GATT_CHARACTERISTIC BT_UUID_DIS_MODEL_NUMBER BT_GATT_CHRC_READ BT_GATT_PERM_READ
         (Some fn_read_str) None (UD_Obj 0)
     @ BT_GATT_CHARACTERISTIC BT_UUID_DIS_MANUFACTURER_NAME BT_GATT_CHRC_READ BT_GATT_PERM_READ
         (Some fn_read_str) None (UD_Obj 1)
     @ BT_GATT_CHARACTERISTIC BT_UUID_DIS_PNP_ID BT_GATT_CHRC_READ BT_GATT_PERM_READ
         (Some fn_read_pnp_id) None UD_Null"

text \<open>The static services stand in their linker section in the order of their names.\<close>

definition static_services :: "nat \<Rightarrow> service list" where
  "static_services ccc = [gatt_svc, gap_svc, bas, dis_svc, hog_svc ccc]"

subsection \<open>The callbacks of an attribute\<close>

text \<open>
  The calls of \<open>attr->read\<close> and \<open>attr->write\<close>. An attribute without a callback does not get here: the
  permission check refuses it first, and every service declaration has one.
\<close>

definition server_read ::
    "(u8 list \<Rightarrow> u8 list) \<Rightarrow> bt_conn \<Rightarrow> bt_gatt_attr \<Rightarrow> nat \<Rightarrow> u16 \<Rightarrow> u16 \<Rightarrow> gatt_server \<Rightarrow>
     (int + u8 list) \<times> gatt_server" where
  "server_read cmac conn attr handle len offset s =
     (case attr_read attr of
        Some Read_service \<Rightarrow> (bt_gatt_attr_read_service attr len offset, s)
      | Some Read_chrc \<Rightarrow> (bt_gatt_attr_read_chrc attr handle len offset, s)
      | Some Read_ccc \<Rightarrow>
          (case attr_data attr of
             UD_Ccc n \<Rightarrow> (bt_gatt_attr_read_ccc conn (cccs (gatt_st (hog_st s)) n) len offset, s)
           | _ \<Rightarrow> (bt_gatt_attr_read len offset [], s))
      | Some fn \<Rightarrow>
          if fn = fn_db_hash_read then db_hash_read cmac conn len offset s
          else (if fn = fn_read_info then read_info len offset
                else if fn = fn_read_report_map then read_report_map len offset
                else if fn = fn_read_input_report then read_input_report len offset
                else if fn = fn_read_report then read_report (hog_st s) len offset
                else if fn = fn_read_name then read_name s len offset
                else if fn = fn_read_appearance then read_appearance len offset
                else if fn = fn_read_ppcp then read_ppcp len offset
                else if fn = fn_cf_read then cf_read conn s len offset
                else if fn = fn_read_blvl then read_blvl s len offset
                else if fn = fn_read_str then read_str attr s len offset
                else if fn = fn_read_pnp_id then read_pnp_id len offset
                else bt_gatt_attr_read len offset [], s)
      | None \<Rightarrow> (bt_gatt_attr_read len offset [], s))"

text \<open>
  A client configuration is written by \<open>bt_gatt_attr_write_ccc\<close>. That of the HID service calls
  \<open>input_ccc_changed\<close>, that of Service Changed has a \<open>cfg_write\<close> callback, which is called once the
  entry of the peer is known and always accepts, and that of the battery level only prints.
\<close>

definition write_sc_ccc :: "bt_conn \<Rightarrow> u8 list \<Rightarrow> u16 \<Rightarrow> gatt_server \<Rightarrow> int \<times> gatt_server" where
  "write_sc_ccc conn buf offset s =
     (let g = gatt_st (hog_st s); ccc = cccs g sc_ccc;
          value = (if length buf < 2 then ucast (buf ! 0) else sys_get_le16 buf)
      in case bt_gatt_attr_write_ccc conn ccc buf offset of (ret, ccc', _) \<Rightarrow>
           let s1 = (if ret \<ge> 0 \<and> (find_ccc_cfg (Some conn) ccc \<noteq> None \<or> value \<noteq> 0)
                     then snd (sc_ccc_cfg_write conn value s) else s)
           in (ret, s1\<lparr>hog_st := (hog_st s1)\<lparr>gatt_st := g\<lparr>cccs := (cccs g)(sc_ccc := ccc')\<rparr>\<rparr>\<rparr>))"

definition write_blvl_ccc :: "bt_conn \<Rightarrow> u8 list \<Rightarrow> u16 \<Rightarrow> gatt_server \<Rightarrow> int \<times> gatt_server" where
  "write_blvl_ccc conn buf offset s =
     (let g = gatt_st (hog_st s)
      in case bt_gatt_attr_write_ccc conn (cccs g blvl_ccc) buf offset of (ret, ccc', _) \<Rightarrow>
           (ret, s\<lparr>hog_st := (hog_st s)\<lparr>gatt_st := g\<lparr>cccs := (cccs g)(blvl_ccc := ccc')\<rparr>\<rparr>\<rparr>))"

definition lift_hog :: "int \<times> hog \<Rightarrow> gatt_server \<Rightarrow> int \<times> gatt_server" where
  "lift_hog r s = (fst r, s\<lparr>hog_st := snd r\<rparr>)"

definition server_write ::
    "bt_conn \<Rightarrow> bt_gatt_attr \<Rightarrow> nat \<Rightarrow> u8 list \<Rightarrow> u16 \<Rightarrow> u8 \<Rightarrow> gatt_server \<Rightarrow> int \<times> gatt_server" where
  "server_write conn attr handle buf offset flags s =
     (case attr_write attr of
        Some Write_ccc \<Rightarrow>
          if attr_data attr = UD_Ccc (hog_ccc (hog_st s)) then lift_hog (write_input_ccc conn buf offset (hog_st s)) s
          else if attr_data attr = UD_Ccc sc_ccc then write_sc_ccc conn buf offset s
          else write_blvl_ccc conn buf offset s
      | Some fn \<Rightarrow>
          if fn = fn_write_ctrl_point then lift_hog (write_ctrl_point buf offset (hog_st s)) s
          else cf_write conn buf offset s
      | None \<Rightarrow> (0, s))"

text \<open>The connection's ATT server of this build; the MTU is \<open>CONFIG_BT_L2CAP_RX_MTU\<close>.\<close>

definition server_env :: "(u8 list \<Rightarrow> u8 list) \<Rightarrow> bt_conn \<Rightarrow> service list \<Rightarrow> gatt_server att_env" where
  "server_env cmac conn svcs =
     \<lparr>env_db = svcs, env_conn = conn, env_mtu = 65, env_read = server_read cmac conn,
      env_write = server_write conn, env_aware = bt_gatt_change_aware conn\<rparr>"

subsection \<open>Features and ranges\<close>

lemma cf_bits_ok_iff: "cf_bits_ok v d \<longleftrightarrow> d AND NOT v AND 7 = 0"
proof -
  have "cf_bits_ok v d \<longleftrightarrow> (\<forall>n < 3. \<not> (bit d n \<and> \<not> bit v n))"
    by (auto simp: cf_bits_ok_def BIT_and_eq_0 bit_xor_iff list_all_iff less_Suc_eq numeral_3_eq_3)
  moreover have "bit (7 :: u8) n \<longleftrightarrow> n < 3" for n
    using bit_mask_iff [of 3 n, where ?'a = u8] by (auto simp: mask_eq_exp_minus_1)
  ultimately show ?thesis by (auto simp: bit_eq_iff bit_simps)
qed

text \<open>
  A client sets features and never clears one: a byte that has a feature of the client clear is
  refused and changes nothing, and any other adds its features, after which the client is aware of
  the database.
\<close>

lemma features_only_grow:
  assumes "find_cf_cfg (Some conn) s = Some i" and "cf_data (cf_cfg s ! i) = [d]"
  shows "cf_write conn [v] 0 s =
    (if d AND NOT v AND 7 = 0
     then (1, s\<lparr>cf_cfg := (cf_cfg s)[i := (cf_cfg s ! i)\<lparr>cf_data := [d OR (v AND 7)], cf_peer := conn_dst conn,
       cf_id := conn_id conn, cf_change_aware := True\<rparr>]\<rparr>)
     else (BT_GATT_ERR BT_ATT_ERR_VALUE_NOT_ALLOWED, s))"
  using assms by (simp add: cf_write_def cf_set_value_def cf_bits_ok_iff BIT_def split: prod.split)

text \<open>The range that is kept for a peer is the smallest one that contains the ranges reported.\<close>

lemma update_range_hull:
  "snd (update_range st en r) = (min (fst r) st, max (snd r) en)"
  by (auto simp: update_range_def min_def max_def not_le not_less prod_eq_iff)

lemma sc_save_hull:
  assumes "find_sc_cfg ident peer s = Some i" and "i < length (sc_cfg s)"
  shows "sc_cfg (sc_save ident peer st en s) = (sc_cfg s)[i := (sc_cfg s ! i)
    \<lparr>sc_start := if sc_start (sc_cfg s ! i) = 0 \<and> sc_end (sc_cfg s ! i) = 0 then st else min (sc_start (sc_cfg s ! i)) st,
     sc_end := if sc_start (sc_cfg s ! i) = 0 \<and> sc_end (sc_cfg s ! i) = 0 then en else max (sc_end (sc_cfg s ! i)) en\<rparr>]"
  using assms(1) update_range_hull [of st en "(sc_start (sc_cfg s ! i), sc_end (sc_cfg s ! i))"]
  by (auto simp: sc_save_def sc_save_entry_def Let_def sc_store_def split: prod.splits)

text \<open>
  A peer that writes its subscription again while a range is kept for it loses the start of the
  range: it becomes zero, which is not a handle.
\<close>

lemma resubscription_widens_range:
  assumes "find_sc_cfg (conn_id conn) (conn_dst conn) s = Some i" and "i < length (sc_cfg s)"
    and "sc_end (sc_cfg s ! i) \<noteq> 0"
  shows "sc_start (sc_cfg (snd (sc_ccc_cfg_write conn BT_GATT_CCC_INDICATE s)) ! i) = 0"
  using sc_save_hull [OF assms(1,2), of 0 0] assms(2,3) by (simp add: sc_ccc_cfg_write_def)

end
