(* ===== verification/Att_Response.thy ===== *)
theory Att_Response
  imports Att
begin

text \<open>
  What the attribute protocol server promises. The locale \<open>att_server\<close> is the contract between the
  server and the services: every read callback returns the part of the attribute's value that was
  asked for, as \<open>bt_gatt_attr_read\<close> does.
\<close>

lemma unat_of_nat_u8: "n < 256 \<Longrightarrow> unat (of_nat n :: u8) = n"
  by (simp add: unat_of_nat take_bit_nat_eq_self)

lemma unat_of_nat_u16: "n < 65536 \<Longrightarrow> unat (of_nat n :: u16) = n"
  by (simp add: unat_of_nat take_bit_nat_eq_self)

subsection \<open>The iteration without a limit on matches\<close>

fun visit :: "nat \<Rightarrow> nat \<Rightarrow> (bt_gatt_attr \<Rightarrow> nat \<Rightarrow> 'd \<Rightarrow> iter \<times> 'd) \<Rightarrow> bt_gatt_attr list \<Rightarrow> nat \<Rightarrow> 'd \<Rightarrow> iter \<times> 'd" where
  "visit st en f [] h d = (BT_GATT_ITER_CONTINUE, d)"
| "visit st en f (a # attrs) h d =
     (if en < h then (BT_GATT_ITER_STOP, d)
      else if h < st then visit st en f attrs (Suc h) d
      else case f a h d of
             (BT_GATT_ITER_STOP, d') \<Rightarrow> (BT_GATT_ITER_STOP, d')
           | (BT_GATT_ITER_CONTINUE, d') \<Rightarrow> visit st en f attrs (Suc h) d')"

lemma visit_append:
  "visit st en f (xs @ ys) h d =
     (case visit st en f xs h d of
        (BT_GATT_ITER_STOP, d') \<Rightarrow> (BT_GATT_ITER_STOP, d')
      | (BT_GATT_ITER_CONTINUE, d') \<Rightarrow> visit st en f ys (h + length xs) d')"
  by (induction xs arbitrary: h d) (auto split: prod.splits iter.splits)

lemma visit_stop:
  "fst (visit st en f xs h d) = BT_GATT_ITER_STOP \<or> length ys = 0 \<Longrightarrow>
   snd (visit st en f (xs @ ys) h d) = snd (visit st en f xs h d)"
  by (cases ys) (auto simp: visit_append split: prod.splits)

lemma visit_past: "en < h \<Longrightarrow> snd (visit st en f xs h d) = d"
  by (cases xs) simp_all

lemma visit_before: "h + length xs \<le> st \<Longrightarrow> snd (visit st en f (xs @ ys) h d) = snd (visit st en f ys (h + length xs) d)"
  by (induction xs arbitrary: h) (simp_all add: visit_past)

lemma iter_step [simp]:
  "gatt_foreach_iter st en None None f a h (m, d) =
     (if en < h then (BT_GATT_ITER_STOP, m, d) else if h < st then (BT_GATT_ITER_CONTINUE, m, d)
      else case f a h d of (r, d') \<Rightarrow> (if m - 1 = 0 then BT_GATT_ITER_STOP else r, m - 1, d'))"
  by (simp add: gatt_foreach_iter_def Let_def split: prod.splits)

lemma foreach_attrs_visit:
  assumes "length attrs \<le> m" and "0 < m"
    and "foreach_attrs (gatt_foreach_iter st en None None f) attrs h (m, d) = (it, h', m', d')"
  shows "d' = snd (visit st en f attrs h d)"
    and "it = BT_GATT_ITER_CONTINUE \<Longrightarrow>
      fst (visit st en f attrs h d) = BT_GATT_ITER_CONTINUE \<and> h' = h + length attrs \<and> m \<le> m' + length attrs \<and> 0 < m'"
    and "it = BT_GATT_ITER_STOP \<Longrightarrow> fst (visit st en f attrs h d) = BT_GATT_ITER_STOP \<or> length attrs = m"
proof -
  have "d' = snd (visit st en f attrs h d) \<and>
    (it = BT_GATT_ITER_CONTINUE \<longrightarrow>
      fst (visit st en f attrs h d) = BT_GATT_ITER_CONTINUE \<and> h' = h + length attrs \<and> m \<le> m' + length attrs \<and> 0 < m') \<and>
    (it = BT_GATT_ITER_STOP \<longrightarrow> fst (visit st en f attrs h d) = BT_GATT_ITER_STOP \<or> length attrs = m)"
    using assms
  proof (induction attrs arbitrary: h m d)
    case (Cons a attrs)
    consider (past) "en < h" | (before) "\<not> en < h" "h < st" | (visit) "\<not> en < h" "\<not> h < st" by blast
    then show ?case
    proof cases
      case past
      with Cons.prems show ?thesis by auto
    next
      case before
      with Cons.prems have e: "foreach_attrs (gatt_foreach_iter st en None None f) attrs (Suc h) (m, d) = (it, h', m', d')"
        by simp
      from Cons.IH [OF _ Cons.prems(2) e] Cons.prems(1) before show ?thesis by auto
    next
      case visit
      obtain r d1 where f: "f a h d = (r, d1)" by fastforce
      show ?thesis
      proof (cases "m = 1")
        case True
        with Cons.prems have "attrs = []" by simp
        with True visit f Cons.prems show ?thesis
          by (cases r) auto
      next
        case False
        then have m1: "0 < m - 1" using Cons.prems(2) by simp
        show ?thesis
        proof (cases r)
          case BT_GATT_ITER_STOP
          with False visit f Cons.prems show ?thesis
            by auto
        next
          case BT_GATT_ITER_CONTINUE
          with m1 visit f Cons.prems(3)
          have e: "foreach_attrs (gatt_foreach_iter st en None None f) attrs (Suc h) (m - 1, d1) = (it, h', m', d')"
            by auto
          have l: "length attrs \<le> m - 1" "length (a # attrs) = m \<longleftrightarrow> length attrs = m - 1"
            and m': "m - 1 \<le> m' + length attrs \<longleftrightarrow> m \<le> m' + length (a # attrs)"
            using Cons.prems(1) by auto
          from Cons.IH [OF l(1) m1 e] visit f BT_GATT_ITER_CONTINUE show ?thesis
            unfolding l(2) m' by auto
        qed
      qed
    qed
  qed auto
  then show "d' = snd (visit st en f attrs h d)"
    "it = BT_GATT_ITER_CONTINUE \<Longrightarrow>
      fst (visit st en f attrs h d) = BT_GATT_ITER_CONTINUE \<and> h' = h + length attrs \<and> m \<le> m' + length attrs \<and> 0 < m'"
    "it = BT_GATT_ITER_STOP \<Longrightarrow> fst (visit st en f attrs h d) = BT_GATT_ITER_STOP \<or> length attrs = m"
    by blast+
qed

lemma foreach_svcs_visit:
  assumes "length (concat svcs) \<le> m" and "0 < m"
  shows "snd (foreach_svcs st (gatt_foreach_iter st en None None f) svcs h (m, d)) =
    snd (visit st en f (concat svcs) h d)"
  using assms
proof (induction svcs arbitrary: h m d)
  case (Cons svc svcs)
  obtain it h' m' d' where e: "foreach_attrs (gatt_foreach_iter st en None None f) svc h (m, d) = (it, h', m', d')"
    by (metis prod_cases4)
  have len: "length svc \<le> m" using Cons.prems(1) by simp
  note v = foreach_attrs_visit [OF len Cons.prems(2) e]
  show ?case
  proof (cases "h + length svc < st")
    case True
    then show ?thesis
      using Cons.IH [of m "h + length svc" d] Cons.prems by (simp add: visit_before)
  next
    case False
    show ?thesis
    proof (cases it)
      case BT_GATT_ITER_STOP
      have "fst (visit st en f svc h d) = BT_GATT_ITER_STOP \<or> length (concat svcs) = 0"
        using v(3) [OF BT_GATT_ITER_STOP] Cons.prems(1) by (auto simp del: length_0_conv)
      then have "snd (visit st en f (svc @ concat svcs) h d) = snd (visit st en f svc h d)"
        by (rule visit_stop)
      then show ?thesis
        using BT_GATT_ITER_STOP False e v(1) by simp
    next
      case BT_GATT_ITER_CONTINUE
      then have c: "fst (visit st en f svc h d) = BT_GATT_ITER_CONTINUE" "h' = h + length svc"
        "length (concat svcs) \<le> m'" "0 < m'"
        using v(2) Cons.prems(1) by auto
      show ?thesis
        using BT_GATT_ITER_CONTINUE False e v(1) c(1,2) Cons.IH [OF c(3,4), of h' d']
        by (auto simp: visit_append split: prod.splits iter.splits)
    qed
  qed
qed simp

lemma foreach_attr_visit:
  assumes "length (concat (env_db env)) \<le> 0xffff"
  shows "bt_gatt_foreach_attr env st en f d = snd (visit (unat st) (unat en) f (concat (env_db env)) 1 d)"
proof (cases "unat st \<le> length (concat (env_db env))")
  case True
  then show ?thesis
    using foreach_svcs_visit [of "env_db env" 65535 "unat st" "unat en" f 1 d] assms
    by (simp add: bt_gatt_foreach_attr_def bt_gatt_foreach_attr_type_def Let_def)
next
  case False
  then show ?thesis
    using visit_before [of 1 "concat (env_db env)" "unat st" "unat en" f "[]" d]
    by (simp add: bt_gatt_foreach_attr_def bt_gatt_foreach_attr_type_def Let_def)
qed

lemma visit_inv:
  assumes "I d" and "\<And>a h d. I d \<Longrightarrow> fst (f a h d) = BT_GATT_ITER_CONTINUE \<Longrightarrow> I (snd (f a h d))"
    and "\<And>a h d. I d \<Longrightarrow> J (snd (f a h d))" and "\<And>d. I d \<Longrightarrow> J d"
  shows "J (snd (visit st en f attrs h d))"
  using assms(1)
proof (induction attrs arbitrary: h d)
  case (Cons a attrs)
  show ?case
    using Cons.IH Cons.prems assms(2) [OF Cons.prems, of a h] assms(3) [OF Cons.prems, of a h] assms(4) [OF Cons.prems]
    by (auto split: prod.splits iter.splits)
qed (simp add: assms(4))

lemma visit_one:
  assumes "h \<le> k" and "k < h + length attrs"
  shows "snd (visit k k f attrs h d) = snd (f (attrs ! (k - h)) k d)"
  using assms
proof (induction attrs arbitrary: h)
  case (Cons a attrs)
  show ?case
  proof (cases "h = k")
    case True
    then show ?thesis
      by (auto simp: visit_past split: prod.splits iter.splits)
  next
    case False
    with Cons.prems have "h < k" by simp
    with Cons show ?thesis by (simp add: Suc_diff_le nth_Cons')
  qed
qed simp

lemma visit_none:
  assumes "k < h \<or> h + length attrs \<le> k"
  shows "snd (visit k k f attrs h d) = d"
  using assms visit_before [of h attrs k k f "[]" d] by (auto simp: visit_past)

subsection \<open>One turn of a read\<close>

lemma read_at:
  assumes "length buf < mtu" and "mtu \<le> 0xffff"
    and "\<And>len off s. fst (rd len off s) = bt_gatt_attr_read len off (val s)"
    and s1: "snd (rd (of_nat (mtu - length buf)) off s) = s1"
  shows "att_chan_read rd mtu cb off buf d s =
    (if length (val s) < unat off then (BT_GATT_ERR BT_ATT_ERR_INVALID_OFFSET, buf, d, s1)
     else let bytes = take (mtu - length buf) (drop (unat off) (val s))
          in case cb (length bytes) buf d of
               Inl refused \<Rightarrow> (0, fst refused, snd refused, s1)
             | Inr d1 \<Rightarrow> (int (length bytes), buf @ bytes, d1, s1))"
proof -
  have len: "unat (of_nat (mtu - length buf) :: u16) = mtu - length buf"
    using assms(2) by (intro unat_of_nat_u16) simp
  show ?thesis
  proof (cases "length (val s) < unat off")
    case True
    then have "fst (rd (of_nat (mtu - length buf)) off s) = Inl (BT_GATT_ERR BT_ATT_ERR_INVALID_OFFSET)"
      by (simp add: assms(3) bt_gatt_attr_read_def)
    with True assms(1) s1 show ?thesis
      by (simp add: att_chan_read_def att_chan_read_loop.simps)
  next
    case False
    define bytes where "bytes = take (mtu - length buf) (drop (unat off) (val s))"
    have rd: "fst (rd (of_nat (mtu - length buf)) off s) = Inr bytes"
      using False by (simp add: assms(3) bt_gatt_attr_read_ok len bytes_def)
    have "\<not> (mtu > length buf + length bytes \<and> length bytes = mtu - length buf)"
      using assms(1) by auto
    then have "att_chan_read rd mtu cb off buf d s =
        (case cb (length bytes) buf d of Inl refused \<Rightarrow> (0, fst refused, snd refused, s1)
         | Inr d1 \<Rightarrow> (int (length bytes), buf @ bytes, d1, s1))"
      unfolding att_chan_read_def using assms(1)
      by (subst att_chan_read_loop.simps) (auto simp only: rd s1 sum.case if_False of_nat_0 add_0 not_le split: sum.splits; simp)
    with False show ?thesis
      unfolding Let_def bytes_def by simp
  qed
qed

subsection \<open>The contract with the services\<close>

locale att_server =
  fixes env :: "'s att_env" and attr_value :: "bt_gatt_attr \<Rightarrow> nat \<Rightarrow> 's \<Rightarrow> u8 list"
  assumes reads: "fst (env_read env a h len off s) = bt_gatt_attr_read len off (attr_value a h s)"
    and db_size: "length (concat (env_db env)) \<le> 0xffff"
    and mtu_range: "23 \<le> env_mtu env" "env_mtu env \<le> 255"

definition chan_ok :: "'s att_chan \<Rightarrow> bool" where
  "chan_ok c \<longleftrightarrow> 23 \<le> tx_mtu c \<and> tx_mtu c \<le> 255 \<and> \<not> no_bufs c"

lemma chan_ok_fields [simp]:
  "chan_ok (c\<lparr>srv := s\<rparr>) = chan_ok c" "chan_ok (c\<lparr>pending_rsp := p\<rparr>) = chan_ok c"
  by (simp_all add: chan_ok_def)

text \<open>A packet that answers a request: the response that belongs to it, or an error that names it.\<close>

definition response_to :: "u8 \<Rightarrow> u8 list \<Rightarrow> bool" where
  "response_to code rsp \<longleftrightarrow> (rsp \<noteq> [] \<and> hd rsp = code + 1) \<or>
     (\<exists>handle err. err \<noteq> 0 \<and> rsp = [BT_ATT_OP_ERROR_RSP, code] @ sys_put_le16 handle @ [err])"

definition handled :: "u8 \<Rightarrow> 's att_chan \<Rightarrow> u8 \<times> 's att_chan \<Rightarrow> bool" where
  "handled code c r \<longleftrightarrow> chan_ok (snd r) \<and> pending_rsp (snd r) = pending_rsp c \<and>
     (if fst r = 0
      then \<exists>rsp. tx_pdus (snd r) = tx_pdus c @ [rsp] \<and> length rsp \<le> tx_mtu c \<and> response_to code rsp
      else tx_pdus (snd r) = tx_pdus c)"

lemma create_pdu: "chan_ok c \<Longrightarrow> len < 23 \<Longrightarrow> bt_att_chan_create_pdu op len c = Some [op]"
  by (simp add: chan_ok_def bt_att_chan_create_pdu_def)

lemma handled_error:
  assumes "chan_ok c" and "code \<noteq> 0" and "err \<noteq> 0" and "tx_pdus c = tx_pdus c0"
    and "pending_rsp c = pending_rsp c0" and "tx_mtu c = tx_mtu c0"
  shows "handled code c0 (0, send_err_rsp code handle err c)"
proof -
  have "send_err_rsp code handle err c =
      c\<lparr>tx_pdus := tx_pdus c @ [[BT_ATT_OP_ERROR_RSP, code] @ sys_put_le16 handle @ [err]]\<rparr>"
    using assms(2) create_pdu [OF assms(1), of 4 BT_ATT_OP_ERROR_RSP]
    by (simp add: send_err_rsp_def bt_att_chan_send_rsp_def)
  moreover have "response_to code ([BT_ATT_OP_ERROR_RSP, code] @ sys_put_le16 handle @ [err])"
    using assms(3) by (auto simp: response_to_def)
  ultimately show ?thesis
    using assms(1,4-6) by (auto simp: handled_def chan_ok_def)
qed

lemma handled_response:
  assumes "chan_ok c" and "length rsp \<le> tx_mtu c0" and "rsp \<noteq> []" and "hd rsp = code + 1"
    and "tx_pdus c = tx_pdus c0" and "pending_rsp c = pending_rsp c0"
  shows "handled code c0 (0, bt_att_chan_send_rsp rsp c)"
  using assms by (auto simp: handled_def bt_att_chan_send_rsp_def chan_ok_def response_to_def)

lemma length_extend [simp]:
  "grp = None \<or> the grp + 4 \<le> length buf \<Longrightarrow> length (extend_group grp h buf) = length buf"
  by (auto simp: extend_group_def split: option.splits)

lemma hd_extend:
  assumes "grp = None \<or> (0 < the grp \<and> the grp + 4 \<le> length buf)" and "buf \<noteq> []"
  shows "hd (extend_group grp h buf) = hd buf"
  using assms by (cases buf) (auto simp: extend_group_def memcpy_at_def split: option.splits)

definition grows :: "nat \<Rightarrow> u8 \<Rightarrow> u8 list \<Rightarrow> nat option \<Rightarrow> bool" where
  "grows mtu op buf grp \<longleftrightarrow> length buf \<le> mtu \<and> buf \<noteq> [] \<and> hd buf = op \<and>
     (case grp of None \<Rightarrow> True | Some g \<Rightarrow> 0 < g \<and> g + 4 \<le> length buf)"

lemma grows_extend: "grows mtu op buf grp \<Longrightarrow> grows mtu op (extend_group grp h buf) grp"
  by (auto simp: grows_def hd_extend split: option.splits)
    (metis length_extend length_0_conv option.sel)+

context att_server
begin

lemma foreach: "bt_gatt_foreach_attr env st en f d = snd (visit (unat st) (unat en) f (concat (env_db env)) 1 d)"
  by (rule foreach_attr_visit [OF db_size])

lemma handled_mtu:
  assumes "chan_ok c"
  shows "handled BT_ATT_OP_MTU_REQ c (att_mtu_req env buf c)"
proof (cases "sys_get_le16 buf < BT_ATT_DEFAULT_LE_MTU")
  case False
  then have "23 \<le> min (sys_get_le16 buf) (env_mtu env)" "min (sys_get_le16 buf) (env_mtu env) \<le> 255"
    using mtu_range by (auto simp: min_le_iff_disj)
  then have "23 \<le> unat (min (sys_get_le16 buf) (env_mtu env))" "unat (min (sys_get_le16 buf) (env_mtu env)) \<le> 255"
    by (simp_all add: word_le_nat_alt)
  with False assms show ?thesis
    by (auto simp: att_mtu_req_def Let_def create_pdu handled_def bt_att_chan_send_rsp_def chan_ok_def response_to_def)
qed (use assms in \<open>simp add: att_mtu_req_def handled_def\<close>)

lemma find_info_fits:
  assumes "chan_ok c" and "bt_gatt_foreach_attr env st en (find_info_cb (tx_mtu c)) (False, [op]) = (rsp, buf)"
  shows "length buf \<le> tx_mtu c \<and> buf \<noteq> [] \<and> hd buf = op"
proof -
  define I where "I = (\<lambda>d :: bool \<times> u8 list. length (snd d) + (if fst d then 0 else 1) + 4 \<le> tx_mtu c \<and>
    snd d \<noteq> [] \<and> hd (snd d) = op)"
  define J where "J = (\<lambda>d :: bool \<times> u8 list. length (snd d) \<le> tx_mtu c \<and> snd d \<noteq> [] \<and> hd (snd d) = op)"
  have "I (False, [op])" using assms(1) by (simp add: I_def chan_ok_def)
  then have "J (snd (visit (unat st) (unat en) (find_info_cb (tx_mtu c)) (concat (env_db env)) 1 (False, [op])))"
    by (rule visit_inv) (auto simp: I_def J_def find_info_cb_def Let_def split: if_splits)
  with assms(2) show ?thesis by (simp add: foreach J_def)
qed

lemma handled_find_info:
  assumes "chan_ok c"
  shows "handled BT_ATT_OP_FIND_INFO_REQ c (att_find_info_req env buf c)"
proof -
  have "handled BT_ATT_OP_FIND_INFO_REQ c (att_find_info_rsp env st en c)" for st en
  proof -
    obtain rsp out where r: "bt_gatt_foreach_attr env st en (find_info_cb (tx_mtu c)) (False, [BT_ATT_OP_FIND_INFO_RSP]) = (rsp, out)"
      by fastforce
    from find_info_fits [OF assms r] assms r show ?thesis
      by (auto simp: att_find_info_rsp_def create_pdu intro: handled_error handled_response)
  qed
  with assms show ?thesis
    by (auto simp: att_find_info_req_def Let_def intro: handled_error split: prod.splits)
qed

lemma find_type_fits:
  assumes "chan_ok c"
  shows "grows (tx_mtu c) op (ft_buf (bt_gatt_foreach_attr env st en (find_type_cb env (tx_mtu c) v)
    \<lparr>ft_buf = [op], ft_group = None, ft_err = e, ft_srv = s\<rparr>)) None"
proof -
  define I where "I = (\<lambda>d :: 's find_type_data. grows (tx_mtu c) op (ft_buf d) (ft_group d))"
  have step: "I (snd (find_type_cb env (tx_mtu c) v a h d))" if "I d" for a h d
    using that by (auto simp: I_def find_type_cb_def Let_def grows_extend split: sum.splits prod.splits)
      (auto simp: grows_def split: option.splits)
  have "I \<lparr>ft_buf = [op], ft_group = None, ft_err = e, ft_srv = s\<rparr>"
    using assms by (simp add: I_def grows_def chan_ok_def)
  then have "I (snd (visit (unat st) (unat en) (find_type_cb env (tx_mtu c) v) (concat (env_db env)) 1
      \<lparr>ft_buf = [op], ft_group = None, ft_err = e, ft_srv = s\<rparr>))"
    by (rule visit_inv) (simp_all add: step)
  then show ?thesis by (auto simp: foreach I_def grows_def)
qed

lemma handled_find_type:
  assumes "chan_ok c"
  shows "handled BT_ATT_OP_FIND_TYPE_REQ c (att_find_type_req env buf c)"
proof -
  have "handled BT_ATT_OP_FIND_TYPE_REQ c (att_find_type_rsp env st en v c)" for st en v
    using find_type_fits [OF assms, of BT_ATT_OP_FIND_TYPE_RSP st en v BT_ATT_ERR_ATTRIBUTE_NOT_FOUND "srv c"] assms
    by (auto simp: att_find_type_rsp_def create_pdu Let_def grows_def intro!: handled_error handled_response)
  with assms show ?thesis
    by (auto simp: att_find_type_req_def Let_def intro: handled_error split: prod.splits)
qed

lemma read_into:
  assumes "length buf < mtu" and "mtu \<le> 255"
  obtains s1 where "att_chan_read (env_read env a h) mtu cb off buf d s =
    (if length (attr_value a h s) < unat off then (BT_GATT_ERR BT_ATT_ERR_INVALID_OFFSET, buf, d, s1)
     else let bytes = take (mtu - length buf) (drop (unat off) (attr_value a h s))
          in case cb (length bytes) buf d of
               Inl refused \<Rightarrow> (0, fst refused, snd refused, s1)
             | Inr d1 \<Rightarrow> (int (length bytes), buf @ bytes, d1, s1))"
proof -
  have "mtu \<le> 0xffff" using assms(2) by simp
  from that [OF read_at [OF assms(1) this reads refl]] show thesis .
qed

lemma read_cb_fits:
  assumes "mtu \<le> 255" and "length (rd_buf d) \<le> mtu" and "rd_buf d \<noteq> []"
  shows "length (rd_buf (snd (read_cb env mtu off a h d))) \<le> mtu \<and>
    rd_buf (snd (read_cb env mtu off a h d)) \<noteq> [] \<and> hd (rd_buf (snd (read_cb env mtu off a h d))) = hd (rd_buf d)"
proof (cases "length (rd_buf d) < mtu")
  case True
  obtain s1 where "att_chan_read (env_read env a h) mtu no_cb off (rd_buf d) () (rd_srv d) =
      (if length (attr_value a h (rd_srv d)) < unat off then (BT_GATT_ERR BT_ATT_ERR_INVALID_OFFSET, rd_buf d, (), s1)
       else let bytes = take (mtu - length (rd_buf d)) (drop (unat off) (attr_value a h (rd_srv d)))
            in case no_cb (length bytes) (rd_buf d) () of
                 Inl refused \<Rightarrow> (0, fst refused, snd refused, s1)
               | Inr d1 \<Rightarrow> (int (length bytes), rd_buf d @ bytes, d1, s1))"
    by (rule read_into [OF True assms(1)])
  with True assms show ?thesis
    by (auto simp: read_cb_def Let_def no_cb_def split: if_splits)
next
  case False
  then show ?thesis
    using assms by (auto simp: read_cb_def Let_def att_chan_read_def)
qed

lemma read_fits:
  assumes "mtu \<le> 255" and "length pdu \<le> mtu" and "pdu \<noteq> []"
  shows "length (rd_buf (bt_gatt_foreach_attr env st en (read_cb env mtu off) \<lparr>rd_buf = pdu, rd_err = e, rd_srv = s\<rparr>)) \<le> mtu \<and>
    rd_buf (bt_gatt_foreach_attr env st en (read_cb env mtu off) \<lparr>rd_buf = pdu, rd_err = e, rd_srv = s\<rparr>) \<noteq> [] \<and>
    hd (rd_buf (bt_gatt_foreach_attr env st en (read_cb env mtu off) \<lparr>rd_buf = pdu, rd_err = e, rd_srv = s\<rparr>)) = hd pdu"
proof -
  define I where "I = (\<lambda>d :: 's read_data. length (rd_buf d) \<le> mtu \<and> rd_buf d \<noteq> [] \<and> hd (rd_buf d) = hd pdu)"
  have "I \<lparr>rd_buf = pdu, rd_err = e, rd_srv = s\<rparr>" using assms by (simp add: I_def)
  then have "I (snd (visit (unat st) (unat en) (read_cb env mtu off) (concat (env_db env)) 1 \<lparr>rd_buf = pdu, rd_err = e, rd_srv = s\<rparr>))"
    by (rule visit_inv) (use read_cb_fits [OF assms(1)] in \<open>auto simp: I_def\<close>)
  then show ?thesis by (simp add: foreach I_def)
qed

lemma handled_read:
  assumes "chan_ok c" and "rsp = op + 1" and "op \<noteq> 0"
  shows "handled op c (att_read_rsp env op rsp handle offset c)"
proof -
  obtain aware s1 where a: "env_aware env True (srv c) = (aware, s1)" by fastforce
  let ?c = "c\<lparr>srv := s1\<rparr>"
  have c: "chan_ok ?c" "tx_mtu ?c = tx_mtu c" using assms(1) by (simp_all add: chan_ok_def)
  have m: "tx_mtu c \<le> 255" "1 \<le> tx_mtu c" using assms(1) by (auto simp: chan_ok_def)
  from read_fits [OF m(1), of "[rsp]" handle handle offset BT_ATT_ERR_INVALID_HANDLE s1] m(2) c assms(2,3) show ?thesis
    by (auto simp: att_read_rsp_def a Let_def create_pdu handled_def [of op c "(BT_ATT_ERR_DB_OUT_OF_SYNC, ?c)"]
      handled_def [of op c "(BT_ATT_ERR_INVALID_HANDLE, ?c)"] intro!: handled_error handled_response)
qed

lemma handled_read_mult:
  assumes "chan_ok c"
  shows "handled BT_ATT_OP_READ_MULT_REQ c (att_read_mult_req env buf c)"
proof -
  have m: "tx_mtu c \<le> 255" "1 \<le> tx_mtu c" using assms by (auto simp: chan_ok_def)
  have "handled BT_ATT_OP_READ_MULT_REQ c (read_mult_loop env buf pdu (c\<lparr>srv := s\<rparr>))"
    if "length pdu \<le> tx_mtu c" "pdu \<noteq> []" "hd pdu = BT_ATT_OP_READ_MULT_RSP" for pdu s
    using that
  proof (induction buf arbitrary: pdu s rule: induct_list012)
    case (3 lo hi buf)
    let ?h = "sys_get_le16 [lo, hi]"
    let ?d = "bt_gatt_foreach_attr env ?h ?h (read_cb env (tx_mtu c) 0)
      \<lparr>rd_buf = pdu, rd_err = BT_ATT_ERR_INVALID_HANDLE, rd_srv = s\<rparr>"
    have "length (rd_buf ?d) \<le> tx_mtu c" "rd_buf ?d \<noteq> []" "hd (rd_buf ?d) = BT_ATT_OP_READ_MULT_RSP"
      using read_fits [OF m(1) "3.prems"(1,2), of ?h ?h 0 BT_ATT_ERR_INVALID_HANDLE s] "3.prems"(3) by simp_all
    with 3 assms show ?case
      by (auto simp: Let_def chan_ok_def intro: handled_error)
  qed (use assms in \<open>auto simp: chan_ok_def intro: handled_response\<close>)
  from this [of "[BT_ATT_OP_READ_MULT_RSP]" "srv c"] m assms show ?thesis
    by (simp add: att_read_mult_req_def create_pdu)
qed

lemma read_value:
  assumes "mtu \<le> 255" and "length buf < mtu" and "bytes = take (mtu - length buf) (attr_value a h s)"
  obtains s1 where "att_chan_read (env_read env a h) mtu cb 0 buf d s =
    (case cb (length bytes) buf d of
       Inl refused \<Rightarrow> (0, fst refused, snd refused, s1) | Inr d1 \<Rightarrow> (int (length bytes), buf @ bytes, d1, s1))"
  by (rule read_into [OF assms(2,1), of a h cb 0 d s]) (simp add: Let_def assms(3) [symmetric])

lemma read_type_step:
  fixes d :: "'s read_type_data"
  assumes "mtu \<le> 255" and "23 \<le> mtu" and "2 \<le> length (rt_buf d)"
    and "rt_len d = 0 \<and> length (rt_buf d) = 2 \<or> 2 \<le> unat (rt_len d) \<and> length (rt_buf d) + unat (rt_len d) < mtu"
    and "read_type_cb env mtu u a h d = (it, d')"
  shows "length (rt_buf d') \<le> mtu \<and> 2 \<le> length (rt_buf d') \<and> hd (rt_buf d') = hd (rt_buf d) \<and>
    (it = BT_GATT_ITER_CONTINUE \<longrightarrow>
      rt_len d' = 0 \<and> length (rt_buf d') = 2 \<or> 2 \<le> unat (rt_len d') \<and> length (rt_buf d') + unat (rt_len d') < mtu)"
proof -
  let ?buf = "rt_buf d @ sys_put_le16 (of_nat h)"
  have room: "length ?buf < mtu" using assms(2,4) by auto
  have hd: "hd (rt_buf d @ xs) = hd (rt_buf d)" "hd (take (length ?buf - 2) ?buf) = hd (rt_buf d)" for xs
    using assms(3) by (auto simp: hd_append)
  define n where "n = length (take (mtu - length ?buf) (attr_value a h (rt_srv d)))"
  have n: "n + length ?buf \<le> mtu" using room by (simp add: n_def)
  then have "n + 2 < 256"
    using assms(1,3) by simp
  then have n2: "unat (of_nat (n + 2) :: u8) = n + 2"
    by (rule unat_of_nat_u8)
  define bytes where "bytes = take (mtu - length ?buf) (attr_value a h (rt_srv d))"
  have lb: "length bytes = n" by (simp add: bytes_def n_def)
  obtain s1 where "att_chan_read (env_read env a h) mtu attr_read_type_cb 0 ?buf (rt_len d, True) (rt_srv d) =
      (case attr_read_type_cb (length bytes) ?buf (rt_len d, True) of
         Inl refused \<Rightarrow> (0, fst refused, snd refused, s1) | Inr d1 \<Rightarrow> (int (length bytes), ?buf @ bytes, d1, s1))"
    by (rule read_value [OF assms(1) room bytes_def])
  note read = this [unfolded lb]
  obtain r buf len item s2 where e: "att_chan_read (env_read env a h) mtu attr_read_type_cb 0 ?buf
      (rt_len d, True) (rt_srv d) = (r, buf, (len, item), s2)"
    by (metis prod_cases4 surj_pair)
  consider (some) "buf = ?buf @ bytes" "r = int n" "item" "unat len = n + 2"
    | (none) "buf = take (length ?buf - 2) ?buf" "r = 0" "\<not> item"
  proof (cases "rt_len d = 0 \<or> unat (rt_len d) = n + 2")
    case True
    with e [unfolded read] show thesis
      using that(1) n2 by (cases "rt_len d = 0") (auto simp: attr_read_type_cb_def)
  next
    case False
    with e [unfolded read] show thesis
      using that(2) by (auto simp: attr_read_type_cb_def)
  qed
  then have res: "0 \<le> r \<and> length buf \<le> mtu \<and> 2 \<le> length buf \<and> hd buf = hd (rt_buf d) \<and> (item \<longrightarrow> 2 \<le> unat len)"
  proof cases
    case some
    then show ?thesis using n lb hd(1) [of "sys_put_le16 (of_nat h) @ bytes"] assms(3) by simp
  next
    case none
    then show ?thesis using n hd(2) assms(3) by simp
  qed
  show ?thesis
    using assms(3-5) e res by (auto simp: read_type_cb_def Let_def split: if_splits)
qed

lemma handled_read_type:
  assumes "chan_ok c"
  shows "handled BT_ATT_OP_READ_TYPE_REQ c (att_read_type_req env buf c)"
proof -
  have m: "tx_mtu c \<le> 255" "23 \<le> tx_mtu c" using assms by (auto simp: chan_ok_def)
  have "handled BT_ATT_OP_READ_TYPE_REQ c (att_read_type_rsp env u st en c)" for u st en
  proof -
    define d0 where "d0 = \<lparr>rt_buf = [BT_ATT_OP_READ_TYPE_RSP, 0], rt_len = 0, rt_item = False,
      rt_err = BT_ATT_ERR_ATTRIBUTE_NOT_FOUND, rt_srv = srv c\<rparr>"
    define d where "d = bt_gatt_foreach_attr env st en (read_type_cb env (tx_mtu c) u) d0"
    define J where "J = (\<lambda>d :: 's read_type_data. length (rt_buf d) \<le> tx_mtu c \<and> 2 \<le> length (rt_buf d) \<and>
      hd (rt_buf d) = BT_ATT_OP_READ_TYPE_RSP)"
    define I where "I = (\<lambda>d :: 's read_type_data. J d \<and> (rt_len d = 0 \<and> length (rt_buf d) = 2 \<or>
      2 \<le> unat (rt_len d) \<and> length (rt_buf d) + unat (rt_len d) < tx_mtu c))"
    have step: "J (snd (read_type_cb env (tx_mtu c) u a h d)) \<and>
        (fst (read_type_cb env (tx_mtu c) u a h d) = BT_GATT_ITER_CONTINUE \<longrightarrow>
         I (snd (read_type_cb env (tx_mtu c) u a h d)))" if "I d" for a h d
      using read_type_step [OF m, of d u a h] that
      by (cases "read_type_cb env (tx_mtu c) u a h d") (auto simp: I_def J_def)
    have "I d0" using m by (simp add: I_def J_def d0_def)
    then have "J (snd (visit (unat st) (unat en) (read_type_cb env (tx_mtu c) u) (concat (env_db env)) 1 d0))"
      by (rule visit_inv) (use step in \<open>auto simp: I_def\<close>)
    then have J: "J d" by (simp add: d_def foreach)
    then have "hd ((rt_buf d)[1 := rt_len d]) = BT_ATT_OP_READ_TYPE_RSP" "rt_buf d \<noteq> []"
      by (cases "rt_buf d"; auto simp: J_def)+
    then show ?thesis
      using J assms by (auto simp: att_read_type_rsp_def create_pdu Let_def J_def d_def [symmetric] d0_def [symmetric]
        intro!: handled_error handled_response)
  qed
  with assms show ?thesis
    by (auto simp: att_read_type_req_def Let_def handled_def [of _ c "(_, c)"] intro: handled_error
      split: prod.splits option.splits)
qed

lemma read_group_step:
  fixes d :: "'s read_group_data"
  assumes "mtu \<le> 255" and "23 \<le> mtu" and "grows mtu op (rg_buf d) (rg_group d)" and "2 \<le> length (rg_buf d)"
    and "rg_len d = 0 \<and> length (rg_buf d) = 2 \<or> 4 \<le> unat (rg_len d)"
    and "read_group_cb env mtu u a h d = (it, d')"
  shows "grows mtu op (rg_buf d') (rg_group d') \<and> 2 \<le> length (rg_buf d') \<and>
    (rg_len d' = 0 \<and> length (rg_buf d') = 2 \<or> 4 \<le> unat (rg_len d'))"
proof -
  let ?buf = "rg_buf d @ sys_put_le16 (of_nat h) @ sys_put_le16 (of_nat h)"
    and ?rd = "env_read env a h" and ?g = "Some (length (rg_buf d))"
  obtain r buf len grp s2 where
    e: "att_chan_read ?rd mtu attr_read_group_cb 0 ?buf (rg_len d, ?g) (rg_srv d) = (r, buf, (len, grp), s2)"
    by (metis prod_cases4 surj_pair)
  have res: "0 \<le> r \<and> grows mtu op buf grp \<and> 2 \<le> length buf \<and> 4 \<le> unat len"
    if room: "\<not> (rg_len d \<noteq> 0 \<and> mtu - length (rg_buf d) < unat (rg_len d))"
  proof -
    have l: "length (rg_buf d) + 4 \<le> mtu"
      using room assms(2,3,5) by (auto simp: grows_def)
    have hd: "hd (rg_buf d @ xs) = op" "hd (take (length (rg_buf d)) (rg_buf d @ xs)) = op" for xs
      using assms(3) by (auto simp: grows_def hd_append)
    show ?thesis
    proof (cases "length ?buf < mtu")
      case True
      define bytes where "bytes = take (mtu - length ?buf) (attr_value a h (rg_srv d))"
      have lb: "length bytes + length ?buf \<le> mtu" using True by (simp add: bytes_def)
      then have n4: "unat (of_nat (length bytes + 4) :: u8) = length bytes + 4"
        using assms(1) by (intro unat_of_nat_u8) simp
      obtain s1 where "att_chan_read ?rd mtu attr_read_group_cb 0 ?buf (rg_len d, ?g) (rg_srv d) =
          (case attr_read_group_cb (length bytes) ?buf (rg_len d, ?g) of
             Inl refused \<Rightarrow> (0, fst refused, snd refused, s1)
           | Inr d1 \<Rightarrow> (int (length bytes), ?buf @ bytes, d1, s1))"
        by (rule read_value [OF assms(1) True bytes_def])
      note read = e [unfolded this]
      show ?thesis
      proof (cases "rg_len d = 0 \<or> unat (rg_len d) = length bytes + 4")
        case True
        with read n4 have "buf = ?buf @ bytes \<and> r = int (length bytes) \<and> unat len = length bytes + 4 \<and> grp = ?g"
          by (cases "rg_len d = 0") (auto simp: attr_read_group_cb_def)
        with lb hd(1) assms(4) show ?thesis by (auto simp: grows_def)
      next
        case False
        with read assms(5) have "buf = rg_buf d \<and> r = 0 \<and> len = rg_len d \<and> grp = None"
          by (auto simp: attr_read_group_cb_def)
        with False assms(3-5) show ?thesis by (auto simp: grows_def)
      qed
    next
      case False
      with e have "r = 0 \<and> buf = ?buf \<and> len = rg_len d \<and> grp = ?g"
        by (auto simp: att_chan_read_def)
      moreover have "rg_len d \<noteq> 0" using False assms(2,5) by auto
      ultimately show ?thesis using l hd(1) assms(4,5) by (auto simp: grows_def)
    qed
  qed
  have none: "grows mtu op (rg_buf d) None" using assms(3) by (simp add: grows_def)
  have ext: "length (extend_group (rg_group d) h (rg_buf d)) = length (rg_buf d)"
    using assms(3) by (auto simp: grows_def split: option.splits)
  show ?thesis
    using assms(3-6) e res none grows_extend [OF assms(3), of h] ext
    by (auto simp: read_group_cb_def Let_def split: if_splits)
qed

lemma handled_read_group:
  assumes "chan_ok c"
  shows "handled BT_ATT_OP_READ_GROUP_REQ c (att_read_group_req env buf c)"
proof -
  have m: "tx_mtu c \<le> 255" "23 \<le> tx_mtu c" using assms by (auto simp: chan_ok_def)
  have "handled BT_ATT_OP_READ_GROUP_REQ c (att_read_group_rsp env u st en c)" for u st en
  proof -
    define d0 where "d0 = \<lparr>rg_buf = [BT_ATT_OP_READ_GROUP_RSP, 0], rg_len = 0, rg_group = None, rg_srv = srv c\<rparr>"
    define d where "d = bt_gatt_foreach_attr env st en (read_group_cb env (tx_mtu c) u) d0"
    define I where "I = (\<lambda>d :: 's read_group_data. grows (tx_mtu c) BT_ATT_OP_READ_GROUP_RSP (rg_buf d) (rg_group d) \<and>
      2 \<le> length (rg_buf d) \<and> (rg_len d = 0 \<and> length (rg_buf d) = 2 \<or> 4 \<le> unat (rg_len d)))"
    have step: "I (snd (read_group_cb env (tx_mtu c) u a h d))" if "I d" for a h d
      using read_group_step [OF m, of BT_ATT_OP_READ_GROUP_RSP d u a h] that
      by (cases "read_group_cb env (tx_mtu c) u a h d") (simp add: I_def)
    have "I d0" using m by (simp add: I_def d0_def grows_def)
    then have "I (snd (visit (unat st) (unat en) (read_group_cb env (tx_mtu c) u) (concat (env_db env)) 1 d0))"
      by (rule visit_inv) (simp_all add: step)
    then have I: "I d" by (simp add: d_def foreach)
    then have "hd ((rg_buf d)[1 := rg_len d]) = BT_ATT_OP_READ_GROUP_RSP" "rg_buf d \<noteq> []" "length (rg_buf d) \<le> tx_mtu c"
      by (cases "rg_buf d"; auto simp: I_def grows_def)+
    then show ?thesis
      using assms by (auto simp: att_read_group_rsp_def create_pdu Let_def d_def [symmetric] d0_def [symmetric]
        intro!: handled_error handled_response)
  qed
  with assms show ?thesis
    by (auto simp: att_read_group_req_def Let_def handled_def [of _ c "(_, c)"] intro: handled_error
      split: prod.splits option.splits)
qed

lemma handled_write:
  assumes "chan_ok c" and "rsp = op + 1" and "op \<noteq> 0" and "rsp \<noteq> 0" and "op \<noteq> BT_ATT_OP_EXEC_WRITE_REQ"
  shows "handled op c (att_write_rsp env op rsp handle offset value c)"
proof -
  obtain aware s1 where a: "env_aware env True (srv c) = (aware, s1)" by fastforce
  obtain err s2 where w: "bt_gatt_foreach_attr env handle handle (write_cb env op value offset)
      (BT_ATT_ERR_INVALID_HANDLE, s1) = (err, s2)"
    by fastforce
  have c: "chan_ok (c\<lparr>srv := s1\<rparr>)" "chan_ok (c\<lparr>srv := s2\<rparr>)" "1 \<le> tx_mtu c"
    using assms(1) by (simp_all add: chan_ok_def)
  with assms a w show ?thesis
    by (auto simp: att_write_rsp_def Let_def create_pdu handled_def [of op c "(BT_ATT_ERR_DB_OUT_OF_SYNC, _)"]
      handled_def [of op c "(BT_ATT_ERR_INVALID_HANDLE, _)"] intro!: handled_error handled_response)
qed

lemma recv_request:
  assumes "chan_ok c" and "\<not> pending_rsp c" and "code \<noteq> 0"
    and "find (\<lambda>h. fst h = code) handlers = Some (op, n, ATT_REQUEST, func)"
    and "\<And>c. chan_ok c \<Longrightarrow> handled code c (func env buf c)"
  shows "handled code (c\<lparr>pending_rsp := True\<rparr>) (0, bt_att_recv env (code # buf) c)"
proof -
  let ?c = "c\<lparr>pending_rsp := True\<rparr>"
  have c: "chan_ok ?c" using assms(1) by (simp add: chan_ok_def)
  define r where "r = (if length buf < n then (BT_ATT_ERR_INVALID_PDU, ?c) else func env buf ?c)"
  have h: "handled code ?c r"
    using assms(5) [OF c] c by (auto simp: r_def handled_def)
  have recv: "bt_att_recv env (code # buf) c = (if fst r \<noteq> 0 then send_err_rsp code 0 (fst r) (snd r) else snd r)"
    using assms(2,4) by (simp add: bt_att_recv_def r_def split: prod.splits)
  show ?thesis
  proof (cases "fst r = 0")
    case True
    with h recv show ?thesis by (simp add: handled_def)
  next
    case False
    with h have k: "chan_ok (snd r)" "tx_pdus (snd r) = tx_pdus ?c" "pending_rsp (snd r) = pending_rsp ?c"
      by (simp_all add: handled_def)
    have "send_err_rsp code 0 (fst r) (snd r) =
        (snd r)\<lparr>tx_pdus := tx_pdus (snd r) @ [[BT_ATT_OP_ERROR_RSP, code] @ sys_put_le16 0 @ [fst r]]\<rparr>"
      using assms(3) create_pdu [OF k(1), of 4 BT_ATT_OP_ERROR_RSP]
      by (simp add: send_err_rsp_def bt_att_chan_send_rsp_def)
    moreover have "5 \<le> tx_mtu c" using assms(1) by (simp add: chan_ok_def)
    ultimately show ?thesis
      using False recv k by (auto simp: handled_def chan_ok_def response_to_def)
  qed
qed

end

subsection \<open>Reception\<close>

lemma find_SomeD: "find P xs = Some x \<Longrightarrow> x \<in> set xs"
  by (induction xs) (auto split: if_splits)

lemma find_handler:
  assumes "att_op_get_type code = ATT_REQUEST"
  shows "\<exists>n func. find (\<lambda>h. fst h = code) handlers = Some (code, n, ATT_REQUEST, func) \<and> code \<noteq> 0"
proof -
  have "code \<in> {BT_ATT_OP_MTU_REQ, BT_ATT_OP_FIND_INFO_REQ, BT_ATT_OP_FIND_TYPE_REQ, BT_ATT_OP_READ_TYPE_REQ,
      BT_ATT_OP_READ_REQ, BT_ATT_OP_READ_BLOB_REQ, BT_ATT_OP_READ_MULT_REQ, BT_ATT_OP_READ_GROUP_REQ,
      BT_ATT_OP_WRITE_REQ, BT_ATT_OP_PREPARE_WRITE_REQ, BT_ATT_OP_EXEC_WRITE_REQ}" (is "code \<in> ?S")
    using assms unfolding att_op_get_type_def
    by (cases "code \<in> ?S") (simp_all only: if_False if_True att_type.distinct split: if_splits)
  then show ?thesis
    by (elim insertE emptyE; simp only:; simp add: handlers_def)
qed

context att_server begin

lemma handled_unsupported: "chan_ok c \<Longrightarrow> handled code c (BT_ATT_ERR_NOT_SUPPORTED, c)"
  by (simp add: handled_def)

lemma handler_handled:
  assumes "(code, n, ATT_REQUEST, func) \<in> set handlers" and "chan_ok c"
  shows "handled code c (func env buf c)"
proof -
  note h = handled_mtu handled_find_info handled_find_type handled_read_type handled_read
    handled_read_mult handled_read_group handled_write handled_unsupported
  from assms(1) show ?thesis
    unfolding handlers_def list.set
    by (elim insertE emptyE; clarsimp simp: att_read_req_def att_read_blob_req_def att_write_req_def
        att_prepare_write_req_def att_exec_write_req_def Let_def; intro h assms(2); simp)
qed

lemma recv_handled:
  assumes "chan_ok c" and "\<not> pending_rsp c" and "att_op_get_type code = ATT_REQUEST"
  shows "handled code (c\<lparr>pending_rsp := True\<rparr>) (0, bt_att_recv env (code # buf) c)"
proof -
  from find_handler [OF assms(3)] obtain n
    and func :: "'s att_env \<Rightarrow> u8 list \<Rightarrow> 's att_chan \<Rightarrow> u8 \<times> 's att_chan"
    where f: "find (\<lambda>h. fst h = code) handlers = Some (code, n, ATT_REQUEST, func)" and "code \<noteq> 0"
    by blast
  show ?thesis
    by (rule recv_request [OF assms(1,2) \<open>code \<noteq> 0\<close> f handler_handled [OF find_SomeD [OF f]]])
qed

end

text \<open>While a response is due no request is taken.\<close>

lemma recv_busy:
  fixes c :: "'s att_chan"
  assumes "att_op_get_type code = ATT_REQUEST" and "pending_rsp c"
  shows "bt_att_recv env (code # buf) c = c"
proof -
  from find_handler [OF assms(1)] obtain n
    and func :: "'s att_env \<Rightarrow> u8 list \<Rightarrow> 's att_chan \<Rightarrow> u8 \<times> 's att_chan"
    where "find (\<lambda>h. fst h = code) handlers = Some (code, n, ATT_REQUEST, func)"
    by blast
  with assms(2) show ?thesis by (simp add: bt_att_recv_def)
qed

text \<open>A command or a confirmation changes the state of the attributes at most.\<close>

lemma find_quiet:
  assumes "att_op_get_type code \<in> {ATT_COMMAND, ATT_CONFIRMATION}"
  shows "find (\<lambda>h. fst h = code) handlers =
     (if code = BT_ATT_OP_CONFIRM then Some (code, 0, ATT_CONFIRMATION, att_confirm)
      else if code = BT_ATT_OP_WRITE_CMD then Some (code, 2, ATT_COMMAND, att_write_cmd) else None)"
  using assms by (simp add: handlers_def att_op_get_type_def split: if_splits)

lemma write_cmd_quiet: "\<exists>s. snd (att_write_cmd env buf c) = c\<lparr>srv := s\<rparr>"
  by (auto simp: att_write_cmd_def att_write_rsp_def Let_def send_err_rsp_def split: prod.splits)

lemma recv_quiet:
  assumes "att_op_get_type code \<in> {ATT_COMMAND, ATT_CONFIRMATION}"
  shows "\<exists>s. bt_att_recv env (code # buf) c = c\<lparr>srv := s\<rparr>"
proof -
  have u: "\<exists>s. c = c\<lparr>srv := s\<rparr>" by (rule exI [of _ "srv c"]) simp
  have f: "find (\<lambda>h. fst h = code) handlers =
     (if code = BT_ATT_OP_CONFIRM then Some (code, 0, ATT_CONFIRMATION, att_confirm)
      else if code = BT_ATT_OP_WRITE_CMD then Some (code, 2, ATT_COMMAND, att_write_cmd) else None)"
    using assms by (rule find_quiet)
  have "att_op_get_type code = ATT_COMMAND" if "code \<noteq> BT_ATT_OP_CONFIRM"
    using assms that by (auto simp: att_op_get_type_def split: if_splits)
  with write_cmd_quiet [of env buf c] u show ?thesis
    by (auto simp: bt_att_recv_def f att_confirm_def split: prod.splits)
qed

lemma find_other:
  assumes "att_op_get_type code \<notin> {ATT_COMMAND, ATT_CONFIRMATION, ATT_REQUEST}"
  shows "find (\<lambda>h. fst h = code) handlers = None"
  using assms by (auto simp: handlers_def att_op_get_type_def)

context att_server begin

lemma recv_answers:
  assumes "chan_ok c" and "\<not> pending_rsp c"
  shows "chan_ok (bt_att_recv env (code # buf) c) \<and>
    (if att_op_get_type code = ATT_REQUEST
     then \<exists>rsp. tx_pdus (bt_att_recv env (code # buf) c) = tx_pdus c @ [rsp] \<and>
            length rsp \<le> tx_mtu c \<and> response_to code rsp
     else tx_pdus (bt_att_recv env (code # buf) c) = tx_pdus c @
            (if att_op_get_type code \<in> {ATT_COMMAND, ATT_CONFIRMATION} \<or> code = 0 then []
             else [[BT_ATT_OP_ERROR_RSP, code] @ sys_put_le16 0 @ [BT_ATT_ERR_NOT_SUPPORTED]]))"
proof -
  consider (request) "att_op_get_type code = ATT_REQUEST"
    | (quiet) "att_op_get_type code \<in> {ATT_COMMAND, ATT_CONFIRMATION}"
    | (other) "att_op_get_type code \<notin> {ATT_COMMAND, ATT_CONFIRMATION, ATT_REQUEST}"
    by blast
  then show ?thesis
  proof cases
    case request
    with recv_handled [OF assms, of code buf] show ?thesis by (simp add: handled_def)
  next
    case quiet
    with recv_quiet [OF quiet, of env buf c] assms(1) show ?thesis by (auto simp: chan_ok_def)
  next
    case other
    with assms(1) create_pdu [OF assms(1), of 4 BT_ATT_OP_ERROR_RSP] show ?thesis
      by (auto simp: bt_att_recv_def find_other [OF other] send_err_rsp_def bt_att_chan_send_rsp_def chan_ok_def)
  qed
qed

end

end
