(* ===== verification/Att_Procedures.thy ===== *)
theory Att_Procedures
  imports Att_Response
begin

text \<open>
  What a client obtains from the attribute server by the procedures of the attribute profile that take
  several requests: reading a value longer than a packet, and discovering the primary services. The
  client is modelled as it is specified, sending a request, waiting for the response and for the
  server's link to report it sent, and going on from the response alone.
\<close>

subsection \<open>The client\<close>

definition exchange :: "'s att_env \<Rightarrow> u8 list \<Rightarrow> 's att_chan \<Rightarrow> u8 list \<times> 's att_chan" where
  "exchange env pdu c = (let c1 = chan_rsp_sent (bt_att_recv env pdu c) in (last (tx_pdus c1), c1))"

partial_function (option) read_long ::
    "'s att_env \<Rightarrow> u16 \<Rightarrow> u8 list \<Rightarrow> 's att_chan \<Rightarrow> (u8 list \<times> 's att_chan) option" where
  "read_long env handle acc c =
     (let r = exchange env ([BT_ATT_OP_READ_BLOB_REQ] @ sys_put_le16 handle @ sys_put_le16 (of_nat (length acc))) c
      in if hd (fst r) \<noteq> BT_ATT_OP_READ_BLOB_RSP then None
         else if length (fst r) = tx_mtu c then read_long env handle (acc @ tl (fst r)) (snd r)
         else Some (acc @ tl (fst r), snd r))"

text \<open>The entries of a response, of \<open>n\<close> bytes each: first handle, last handle and UUID.\<close>

definition group_entries :: "nat \<Rightarrow> u8 list \<Rightarrow> (u16 \<times> u16 \<times> u8 list) list" where
  "group_entries n bs =
     map (\<lambda>i. let e = take n (drop (i * n) bs) in (sys_get_le16 e, sys_get_le16 (drop 2 e), drop 4 e))
       [0..<length bs div n]"

partial_function (option) discover ::
    "'s att_env \<Rightarrow> u16 \<Rightarrow> (u16 \<times> u16 \<times> u8 list) list \<Rightarrow> 's att_chan \<Rightarrow>
     ((u16 \<times> u16 \<times> u8 list) list \<times> 's att_chan) option" where
  "discover env start acc c =
     (let r = exchange env ([BT_ATT_OP_READ_GROUP_REQ] @ sys_put_le16 start @ sys_put_le16 0xffff
            @ sys_put_le16 BT_UUID_GATT_PRIMARY) c;
          es = group_entries (unat (fst r ! 1)) (drop 2 (fst r))
      in if hd (fst r) = BT_ATT_OP_READ_GROUP_RSP
         then if fst (snd (last es)) = 0xffff then Some (acc @ es, snd r)
              else discover env (fst (snd (last es)) + 1) (acc @ es) (snd r)
         else if fst r = [BT_ATT_OP_ERROR_RSP, BT_ATT_OP_READ_GROUP_REQ] @ sys_put_le16 start
             @ [BT_ATT_ERR_ATTRIBUTE_NOT_FOUND]
         then Some (acc, snd r) else None)"

subsection \<open>The contract of the callbacks\<close>

text \<open>
  Reading an attribute, and the check of robust caching, change no value a client can read, a client
  that is answered stays answered, and a service declaration reads as the UUID of the service.
\<close>

locale att_client = att_server env attr_value
  for env :: "'s att_env" and attr_value :: "bt_gatt_attr \<Rightarrow> nat \<Rightarrow> 's \<Rightarrow> u8 list" +
  assumes reads_keep: "attr_value a' h' (snd (env_read env a h len off s)) = attr_value a' h' s"
    and aware_keep: "attr_value a h (snd (env_aware env q s)) = attr_value a h s"
    and aware_stays: "fst (env_aware env True s) \<Longrightarrow> fst (env_aware env True (snd (env_aware env True s)))"
    and aware_read: "fst (env_aware env True s) \<Longrightarrow> fst (env_aware env True (snd (env_read env a h len off s)))"
    and service_value: "attr_read a = Some Read_service \<Longrightarrow> attr_data a = UD_Uuid u \<Longrightarrow>
      attr_value a h s = sys_put_le16 u"

lemma recv_eq:
  assumes "find (\<lambda>h. fst h = code) handlers = Some (op, n, ATT_REQUEST, func)"
    and "\<not> pending_rsp c" and "n \<le> length buf"
  shows "bt_att_recv env (code # buf) c =
    (case func env buf (c\<lparr>pending_rsp := True\<rparr>) of
       (err, c2) \<Rightarrow> if err \<noteq> 0 then send_err_rsp code 0 err c2 else c2)"
  using assms by (auto simp: bt_att_recv_def Let_def split: prod.splits)

lemma err_to_att_nonzero: "err_to_att err \<noteq> 0"
proof (cases "err < 0 \<and> - 255 \<le> err")
  case True
  then have "uint (of_int (- err) :: u8) = - err"
    by (simp add: uint_word_of_int_eq take_bit_int_eq_self del: of_int_minus)
  with True show ?thesis by (auto simp: err_to_att_def simp del: of_int_minus)
qed (auto simp: err_to_att_def)

subsection \<open>Services and their entries\<close>

text \<open>A primary service: its declaration, then attributes that declare no service.\<close>

fun is_primary :: "service \<Rightarrow> bool" where
  "is_primary [] = False"
| "is_primary (a # rest) =
     ((case attr_data a of UD_Uuid u \<Rightarrow> a = BT_GATT_PRIMARY_SERVICE u | _ \<Rightarrow> False) \<and>
      list_all (\<lambda>b. attr_uuid b \<noteq> BT_UUID_GATT_PRIMARY \<and> attr_uuid b \<noteq> BT_UUID_GATT_SECONDARY) rest)"

fun service_uuid :: "service \<Rightarrow> u16" where
  "service_uuid [] = 0"
| "service_uuid (a # rest) = (case attr_data a of UD_Uuid u \<Rightarrow> u | _ \<Rightarrow> 0)"

fun groups :: "nat \<Rightarrow> service list \<Rightarrow> (u16 \<times> u16 \<times> u8 list) list" where
  "groups h [] = []"
| "groups h (svc # svcs) =
     (of_nat h, of_nat (h + length svc - 1), sys_put_le16 (service_uuid svc)) # groups (h + length svc) svcs"

definition entry_bytes :: "u16 \<times> u16 \<times> u8 list \<Rightarrow> u8 list" where
  "entry_bytes e = sys_put_le16 (fst e) @ sys_put_le16 (fst (snd e)) @ snd (snd e)"

lemma is_primaryE:
  assumes "is_primary svc"
  obtains u rest where "svc = BT_GATT_PRIMARY_SERVICE u # rest" and "service_uuid svc = u"
    and "\<forall>b \<in> set rest. attr_uuid b \<noteq> BT_UUID_GATT_PRIMARY \<and> attr_uuid b \<noteq> BT_UUID_GATT_SECONDARY"
  using assms by (cases svc) (auto simp: list_all_iff split: user_data.splits)

lemma extend_entry:
  assumes "unat e < k" and "k < 65536"
  shows "extend_group (Some (length B)) k (B @ sys_put_le16 h @ sys_put_le16 e @ v) =
    B @ sys_put_le16 h @ sys_put_le16 (of_nat k) @ v"
  using assms by (simp add: extend_group_def memcpy_at_def)

lemma chunk:
  assumes "\<And>e. e \<in> set es \<Longrightarrow> length (f e) = n" and "i < length es"
  shows "take n (drop (i * n) (concat (map f es))) = f (es ! i)"
  using assms
proof (induction es arbitrary: i)
  case (Cons e es)
  then show ?case by (cases i) (auto simp: Cons.IH)
qed simp

lemma group_entries_entries:
  assumes "\<And>e. e \<in> set es \<Longrightarrow> length (snd (snd e)) = 2"
  shows "group_entries 6 (concat (map entry_bytes es)) = es"
proof -
  have len: "length (entry_bytes e) = 6" if "e \<in> set es" for e
    using assms [OF that] by (simp add: entry_bytes_def)
  have "length (concat (map entry_bytes es)) = 6 * length es"
    using len by (induction es) auto
  then have "length (group_entries 6 (concat (map entry_bytes es))) = length es"
    by (simp add: group_entries_def)
  moreover have "group_entries 6 (concat (map entry_bytes es)) ! i = es ! i" if "i < length es" for i
    using that len \<open>length (concat _) = _\<close> by (simp add: group_entries_def chunk entry_bytes_def prod_eq_iff)
  ultimately show ?thesis by (intro nth_equalityI) simp_all
qed

lemma groups_facts:
  "length (groups h svcs) = length svcs"
  "e \<in> set (groups h svcs) \<Longrightarrow> length (snd (snd e)) = 2"
  by (induction svcs arbitrary: h) auto

lemma groups_append: "groups h (xs @ ys) = groups h xs @ groups (h + length (concat xs)) ys"
  by (induction xs arbitrary: h) (simp_all add: add.assoc)

lemma last_group:
  "svcs \<noteq> [] \<Longrightarrow> fst (snd (last (groups h svcs))) = of_nat (h + length (concat svcs) - 1)"
proof (induction svcs arbitrary: h)
  case (Cons svc svcs)
  show ?case
  proof (cases svcs)
    case (Cons t ts)
    then have "groups (h + length svc) svcs \<noteq> []" by simp
    with Cons.IH [of "h + length svc"] Cons show ?thesis by (simp add: add.assoc)
  qed simp
qed simp

context att_client begin

lemma rest_extends:
  assumes "\<forall>b \<in> set rest. attr_uuid b \<noteq> BT_UUID_GATT_PRIMARY \<and> attr_uuid b \<noteq> BT_UUID_GATT_SECONDARY"
    and "rg_buf d = B @ sys_put_le16 h0 @ sys_put_le16 e @ v" and "rg_group d = Some (length B)"
    and "unat e < h" and "h + length rest \<le> 65536" and "st \<le> h"
  shows "visit st 65535 (read_group_cb env mtu u) rest h d =
    (BT_GATT_ITER_CONTINUE, d\<lparr>rg_buf := B @ sys_put_le16 h0 @
       sys_put_le16 (if rest = [] then e else of_nat (h + length rest - 1)) @ v\<rparr>)"
  using assms
proof (induction rest arbitrary: h d e)
  case (Cons b rest)
  let ?d = "d\<lparr>rg_buf := B @ sys_put_le16 h0 @ sys_put_le16 (of_nat h) @ v\<rparr>"
  have "read_group_cb env mtu u b h d = (BT_GATT_ITER_CONTINUE, ?d)"
    using Cons.prems extend_entry [of e h B h0 v] by (simp add: read_group_cb_def)
  moreover have "unat (of_nat h :: u16) = h" using Cons.prems(5) by (intro unat_of_nat_u16) simp
  ultimately show ?case
    using Cons.prems Cons.IH [of ?d "of_nat h" "Suc h"] by (cases "rest = []") simp_all
qed simp

definition unmoved :: "'s \<Rightarrow> 's \<Rightarrow> bool" where
  "unmoved s' s \<longleftrightarrow> (\<forall>a h. attr_value a h s' = attr_value a h s) \<and> fst (env_aware env True s')"

lemma unmoved_aware: "fst (env_aware env True s) \<Longrightarrow> unmoved (snd (env_aware env True s)) s"
  by (simp add: unmoved_def aware_keep aware_stays)

lemma unmoved_read: "unmoved s1 s \<Longrightarrow> unmoved (snd (env_read env a h len off s1)) s"
  by (simp add: unmoved_def reads_keep aware_read)

lemma at_handle:
  assumes "0 < handle" and "unat handle \<le> length (concat (env_db env))"
  shows "bt_gatt_foreach_attr env handle handle f d = snd (f (concat (env_db env) ! (unat handle - 1)) (unat handle) d)"
  using visit_one [of 1 "unat handle" "concat (env_db env)" f d] assms
  by (simp add: foreach Suc_le_eq word_less_nat_alt)

lemma read_blob:
  assumes c: "chan_ok c" "\<not> pending_rsp c" and k: "0 < handle" "unat handle \<le> length (concat (env_db env))"
    and perm: "bt_gatt_check_perm (env_conn env) a BT_GATT_PERM_READ_MASK = 0"
    and a: "a = concat (env_db env) ! (unat handle - 1)" and aware: "fst (env_aware env True (srv c))"
    and off: "unat off \<le> length (attr_value a (unat handle) (srv c))"
  obtains s' where "exchange env ([BT_ATT_OP_READ_BLOB_REQ] @ sys_put_le16 handle @ sys_put_le16 off) c =
      (let rsp = [BT_ATT_OP_READ_BLOB_RSP] @
          take (tx_mtu c - 1) (drop (unat off) (attr_value a (unat handle) (srv c)))
       in (rsp, c\<lparr>srv := s', tx_pdus := tx_pdus c @ [rsp]\<rparr>))" and "unmoved s' (srv c)"
proof -
  define s1 where "s1 = snd (env_aware env True (srv c))"
  have m: "tx_mtu c \<le> 255" "1 < tx_mtu c" using c(1) by (auto simp: chan_ok_def)
  have s1: "env_aware env True (srv c) = (True, s1)" "unmoved s1 (srv c)"
    using aware unmoved_aware [of "srv c"] by (auto simp: s1_def prod_eq_iff)
  define v where "v = attr_value a (unat handle) (srv c)"
  have v: "attr_value a (unat handle) s1 = v" using s1(2) by (simp add: unmoved_def v_def)
  define s2 where "s2 = snd (env_read env a (unat handle) (of_nat (tx_mtu c - 1)) off s1)"
  have rd: "att_chan_read (env_read env a (unat handle)) (tx_mtu c) no_cb off [BT_ATT_OP_READ_BLOB_RSP] () s1 =
      (int (length (take (tx_mtu c - 1) (drop (unat off) v))),
       BT_ATT_OP_READ_BLOB_RSP # take (tx_mtu c - 1) (drop (unat off) v), (), s2)"
    using read_at [of "[BT_ATT_OP_READ_BLOB_RSP]" "tx_mtu c" "env_read env a (unat handle)"
        "attr_value a (unat handle)" off s1 s2 no_cb "()"] m reads off v
    by (simp add: s2_def v_def no_cb_def Let_def)
  have d: "bt_gatt_foreach_attr env handle handle (read_cb env (tx_mtu c) off)
      \<lparr>rd_buf = [BT_ATT_OP_READ_BLOB_RSP], rd_err = BT_ATT_ERR_INVALID_HANDLE, rd_srv = s1\<rparr> =
      \<lparr>rd_buf = BT_ATT_OP_READ_BLOB_RSP # take (tx_mtu c - 1) (drop (unat off) v), rd_err = 0, rd_srv = s2\<rparr>"
    using perm a rd by (simp add: at_handle [OF k] read_cb_def Let_def)
  have "bt_att_recv env ([BT_ATT_OP_READ_BLOB_REQ] @ sys_put_le16 handle @ sys_put_le16 off) c =
      c\<lparr>pending_rsp := True, srv := s2,
        tx_pdus := tx_pdus c @ [[BT_ATT_OP_READ_BLOB_RSP] @ take (tx_mtu c - 1) (drop (unat off) v)]\<rparr>"
    using c k s1 d
    by (simp add: recv_eq [where n = 4 and func = att_read_blob_req] handlers_def att_read_blob_req_def
        att_read_rsp_def create_pdu Let_def bt_att_chan_send_rsp_def)
  then have "exchange env ([BT_ATT_OP_READ_BLOB_REQ] @ sys_put_le16 handle @ sys_put_le16 off) c =
      (let rsp = [BT_ATT_OP_READ_BLOB_RSP] @ take (tx_mtu c - 1) (drop (unat off) v)
       in (rsp, c\<lparr>srv := s2, tx_pdus := tx_pdus c @ [rsp]\<rparr>))"
    using c(2) by (simp add: exchange_def Let_def chan_rsp_sent_def)
  moreover have "unmoved s2 (srv c)" using s1(2) unmoved_read by (simp add: s2_def)
  ultimately show thesis using that by (simp add: v_def)
qed

lemma write_response:
  assumes c: "chan_ok c" "\<not> pending_rsp c" and k: "0 < handle" "unat handle \<le> length (concat (env_db env))"
    and a: "a = concat (env_db env) ! (unat handle - 1)" and aware: "env_aware env True (srv c) = (True, s1)"
    and perm: "of_int (bt_gatt_check_perm (env_conn env) a BT_GATT_PERM_WRITE_MASK) = (err :: u8)"
    and w: "env_write env a (unat handle) value 0 0 s1 = (ret, s2)"
  shows "exchange env ([BT_ATT_OP_WRITE_REQ] @ sys_put_le16 handle @ value) c =
      (let refused = (\<lambda>e. [BT_ATT_OP_ERROR_RSP, BT_ATT_OP_WRITE_REQ] @ sys_put_le16 handle @ [e]);
           bad = ret < 0 \<or> ret \<noteq> int (length value);
           rsp = (if err \<noteq> 0 then refused err else if bad then refused (err_to_att ret)
                  else [BT_ATT_OP_WRITE_RSP])
       in (rsp, c\<lparr>srv := if err \<noteq> 0 then s1 else s2, tx_pdus := tx_pdus c @ [rsp]\<rparr>))"
proof -
  have "handle \<noteq> 0" using k(1) by simp
  have cb: "bt_gatt_foreach_attr env handle handle (write_cb env BT_ATT_OP_WRITE_REQ value 0)
      (BT_ATT_ERR_INVALID_HANDLE, s1) =
      (if err \<noteq> 0 then (err, s1)
       else if ret < 0 \<or> ret \<noteq> int (length value) then (err_to_att ret, s2) else (0, s2))"
    using perm a w by (simp add: at_handle [OF k] write_cb_def Let_def)
  show ?thesis
    using c k aware cb \<open>handle \<noteq> 0\<close>
    by (simp add: exchange_def err_to_att_nonzero recv_eq [where n = 2 and func = att_write_req] handlers_def att_write_req_def
        att_write_rsp_def create_pdu Let_def bt_att_chan_send_rsp_def chan_rsp_sent_def send_err_rsp_def)
qed

text \<open>Reading a value in pieces gives the value.\<close>

lemma read_long_from:
  assumes "chan_ok c" "\<not> pending_rsp c" and k: "0 < handle" "unat handle \<le> length (concat (env_db env))"
    and perm: "bt_gatt_check_perm (env_conn env) a BT_GATT_PERM_READ_MASK = 0"
    and a: "a = concat (env_db env) ! (unat handle - 1)" and "fst (env_aware env True (srv c))"
    and "attr_value a (unat handle) (srv c) = v" and len: "length v \<le> 0xffff" and "n \<le> length v"
  shows "\<exists>c'. read_long env handle (take n v) c = Some (v, c')"
  using assms(1,2,7,8,10)
proof (induction "length v - n" arbitrary: n c rule: less_induct)
  case less
  have m: "1 < tx_mtu c" using less.prems(1) by (simp add: chan_ok_def)
  have off: "unat (of_nat n :: u16) = n" using less.prems(5) len by (intro unat_of_nat_u16) simp
  from read_blob [OF less.prems(1,2) k perm a less.prems(3), of "of_nat n"] less.prems(4,5)
  obtain s' where e: "exchange env ([BT_ATT_OP_READ_BLOB_REQ] @ sys_put_le16 handle @ sys_put_le16 (of_nat n)) c =
      (let rsp = [BT_ATT_OP_READ_BLOB_RSP] @ take (tx_mtu c - 1) (drop n v)
       in (rsp, c\<lparr>srv := s', tx_pdus := tx_pdus c @ [rsp]\<rparr>))" and s': "unmoved s' (srv c)"
    by (auto simp: off)
  let ?rsp = "[BT_ATT_OP_READ_BLOB_RSP] @ take (tx_mtu c - 1) (drop n v)"
  let ?c = "c\<lparr>srv := s', tx_pdus := tx_pdus c @ [?rsp]\<rparr>"
  have step: "read_long env handle (take n v) c =
      (if length ?rsp = tx_mtu c then read_long env handle (take n v @ tl ?rsp) ?c
       else Some (take n v @ tl ?rsp, ?c))"
    using less.prems(5) by (subst read_long.simps) (simp add: e [simplified] Let_def min_absorb2)
  have join: "take n v @ tl ?rsp = take (n + (tx_mtu c - 1)) v"
    by (simp add: take_add)
  show ?case
  proof (cases "length ?rsp = tx_mtu c")
    case True
    with m have more: "n + (tx_mtu c - 1) \<le> length v" by (auto simp: min_def split: if_splits)
    have "\<exists>c'. read_long env handle (take (n + (tx_mtu c - 1)) v) ?c = Some (v, c')"
    proof (rule less.hyps)
      show "length v - (n + (tx_mtu c - 1)) < length v - n" using m more by linarith
      show "chan_ok ?c" "\<not> pending_rsp ?c" using less.prems(1,2) by (simp_all add: chan_ok_def)
      show "fst (env_aware env True (srv ?c))" "attr_value a (unat handle) (srv ?c) = v"
        using s' less.prems(4) by (simp_all add: unmoved_def)
    qed (rule more)
    with True step join show ?thesis by simp
  next
    case False
    then have "length v \<le> n + (tx_mtu c - 1)" using m by (auto simp: min_def split: if_splits)
    with False step join show ?thesis by simp
  qed
qed

text \<open>The declaration of a service for which there is room begins an entry.\<close>

lemma decl_step:
  assumes "mtu \<le> 255" and "length (rg_buf d) + 6 \<le> mtu" and "rg_len d = 0 \<or> rg_len d = 6"
    and "unmoved (rg_srv d) s" and "h < 65536"
  obtains s' where "read_group_cb env mtu (UUID_16 BT_UUID_GATT_PRIMARY) (BT_GATT_PRIMARY_SERVICE u) h d =
      (BT_GATT_ITER_CONTINUE, \<lparr>rg_buf = rg_buf d @ sys_put_le16 (of_nat h) @ sys_put_le16 (of_nat h) @ sys_put_le16 u,
         rg_len = 6, rg_group = Some (length (rg_buf d)), rg_srv = s'\<rparr>)" and "unmoved s' s"
proof -
  let ?a = "BT_GATT_PRIMARY_SERVICE u" and ?b = "rg_buf d @ sys_put_le16 (of_nat h) @ sys_put_le16 (of_nat h)"
  define s' where "s' = snd (env_read env ?a h (of_nat (mtu - length ?b)) 0 (rg_srv d))"
  have val: "attr_value ?a h (rg_srv d) = sys_put_le16 u"
    by (rule service_value) (simp_all add: BT_GATT_PRIMARY_SERVICE_def BT_GATT_ATTRIBUTE_def)
  have "att_chan_read (env_read env ?a h) mtu attr_read_group_cb 0 ?b (rg_len d, Some (length (rg_buf d))) (rg_srv d) =
      (2, ?b @ sys_put_le16 u, (6, Some (length (rg_buf d))), s')"
    using read_at [of ?b mtu "env_read env ?a h" "attr_value ?a h" 0 "rg_srv d" s' attr_read_group_cb
        "(rg_len d, Some (length (rg_buf d)))"] assms(1-3) val reads
    by (auto simp: s'_def attr_read_group_cb_def Let_def)
  then have "read_group_cb env mtu (UUID_16 BT_UUID_GATT_PRIMARY) ?a h d =
      (BT_GATT_ITER_CONTINUE, \<lparr>rg_buf = ?b @ sys_put_le16 u, rg_len = 6, rg_group = Some (length (rg_buf d)), rg_srv = s'\<rparr>)"
    using assms(2,3) by (auto simp: read_group_cb_def BT_GATT_PRIMARY_SERVICE_def BT_GATT_ATTRIBUTE_def)
  moreover have "unmoved s' s" using assms(4) unmoved_read by (simp add: s'_def)
  ultimately show thesis using that by simp
qed

lemma service_entry:
  assumes "is_primary svc" and "mtu \<le> 255" and "length (rg_buf d) + 6 \<le> mtu" and "rg_len d = 0 \<or> rg_len d = 6"
    and "unmoved (rg_srv d) s" and "h + length svc \<le> 65536" and "st \<le> h"
  obtains d' where "visit st 65535 (read_group_cb env mtu (UUID_16 BT_UUID_GATT_PRIMARY)) svc h d =
      (BT_GATT_ITER_CONTINUE, d')"
    and "rg_buf d' = rg_buf d @ entry_bytes (of_nat h, of_nat (h + length svc - 1), sys_put_le16 (service_uuid svc))"
    and "rg_len d' = 6" and "unmoved (rg_srv d') s"
proof -
  from assms(1) obtain u rest where svc: "svc = BT_GATT_PRIMARY_SERVICE u # rest" "service_uuid svc = u"
    and rest: "\<forall>b \<in> set rest. attr_uuid b \<noteq> BT_UUID_GATT_PRIMARY \<and> attr_uuid b \<noteq> BT_UUID_GATT_SECONDARY"
    by (rule is_primaryE)
  have h: "h < 65536" "unat (of_nat h :: u16) = h" using assms(6) svc by (auto intro: unat_of_nat_u16)
  obtain s' where decl: "read_group_cb env mtu (UUID_16 BT_UUID_GATT_PRIMARY) (BT_GATT_PRIMARY_SERVICE u) h d =
      (BT_GATT_ITER_CONTINUE, \<lparr>rg_buf = rg_buf d @ sys_put_le16 (of_nat h) @ sys_put_le16 (of_nat h) @ sys_put_le16 u,
         rg_len = 6, rg_group = Some (length (rg_buf d)), rg_srv = s'\<rparr>)" and s': "unmoved s' s"
    by (rule decl_step [OF assms(2-5) h(1)])
  let ?d = "\<lparr>rg_buf = rg_buf d @ sys_put_le16 (of_nat h) @ sys_put_le16 (of_nat h) @ sys_put_le16 u,
         rg_len = 6, rg_group = Some (length (rg_buf d)), rg_srv = s'\<rparr>"
  have "visit st 65535 (read_group_cb env mtu (UUID_16 BT_UUID_GATT_PRIMARY)) rest (Suc h) ?d =
      (BT_GATT_ITER_CONTINUE, ?d\<lparr>rg_buf := rg_buf d @ sys_put_le16 (of_nat h) @
         sys_put_le16 (if rest = [] then of_nat h else of_nat (Suc h + length rest - 1)) @ sys_put_le16 u\<rparr>)"
    using assms(6,7) h svc(1) by (intro rest_extends [OF rest]) simp_all
  with decl h svc assms(7) s' show thesis
    by (intro that) (auto simp: entry_bytes_def)
qed

lemma visit_groups:
  assumes "list_all is_primary svcs" and m: "mtu \<le> 255" "23 \<le> mtu" and "length (rg_buf d) \<le> mtu"
    and "rg_len d = 6 \<or> rg_len d = 0 \<and> length (rg_buf d) = 2" and "unmoved (rg_srv d) s"
    and "h + length (concat svcs) \<le> 65536" and "st \<le> h"
  shows "\<exists>it d'. visit st 65535 (read_group_cb env mtu (UUID_16 BT_UUID_GATT_PRIMARY)) (concat svcs) h d = (it, d') \<and>
    rg_buf d' = rg_buf d @ concat (map entry_bytes (take ((mtu - length (rg_buf d)) div 6) (groups h svcs))) \<and>
    rg_len d' = (if svcs = [] then rg_len d else 6) \<and> unmoved (rg_srv d') s"
  using assms(1,4-8)
proof (induction svcs arbitrary: h d)
  case (Cons svc svcs)
  let ?f = "read_group_cb env mtu (UUID_16 BT_UUID_GATT_PRIMARY)"
  from Cons.prems(1) have svc: "is_primary svc" "list_all is_primary svcs" by simp_all
  show ?case
  proof (cases "length (rg_buf d) + 6 \<le> mtu")
    case True
    have len: "rg_len d = 0 \<or> rg_len d = 6" and fin: "h + length svc \<le> 65536"
      using Cons.prems(3,5) by auto
    obtain d1 where d1: "visit st 65535 ?f svc h d = (BT_GATT_ITER_CONTINUE, d1)"
      "rg_buf d1 = rg_buf d @ entry_bytes (of_nat h, of_nat (h + length svc - 1), sys_put_le16 (service_uuid svc))"
      "rg_len d1 = 6" "unmoved (rg_srv d1) s"
      by (rule service_entry [OF svc(1) m(1) True len Cons.prems(4) fin Cons.prems(6)])
    have l1: "length (rg_buf d1) = length (rg_buf d) + 6" by (simp add: d1(2) entry_bytes_def)
    then have n: "(mtu - length (rg_buf d)) div 6 = Suc ((mtu - length (rg_buf d1)) div 6)"
      using True div_add_self2 [of 6 "mtu - length (rg_buf d1)"] by simp
    have "\<exists>it d'. visit st 65535 ?f (concat svcs) (h + length svc) d1 = (it, d') \<and>
        rg_buf d' = rg_buf d1 @ concat (map entry_bytes (take ((mtu - length (rg_buf d1)) div 6)
          (groups (h + length svc) svcs))) \<and>
        rg_len d' = (if svcs = [] then rg_len d1 else 6) \<and> unmoved (rg_srv d') s"
      using Cons.prems(5,6) True l1 d1(3,4) by (intro Cons.IH svc(2)) auto
    then show ?thesis
      using d1 n by (auto simp: visit_append)
  next
    case False
    with m(2) Cons.prems(2,3) have full: "rg_len d = 6" "mtu - length (rg_buf d) < 6" by auto
    from svc(1) obtain u rest where r: "svc = BT_GATT_PRIMARY_SERVICE u # rest" by (rule is_primaryE)
    have "?f (BT_GATT_PRIMARY_SERVICE u) h d = (BT_GATT_ITER_STOP, d)"
      using full by (simp add: read_group_cb_def BT_GATT_PRIMARY_SERVICE_def BT_GATT_ATTRIBUTE_def)
    with r full Cons.prems(4,5,6) show ?thesis by simp
  qed
qed simp

lemma group_visit:
  assumes c: "chan_ok c" and db: "env_db env = pre @ svcs" and p: "list_all is_primary svcs"
    and start: "unat start = 1 + length (concat pre)" and aware: "fst (env_aware env True (srv c))"
    and es: "es = take ((tx_mtu c - 2) div 6) (groups (unat start) svcs)"
    and d: "d = bt_gatt_foreach_attr env start 0xffff (read_group_cb env (tx_mtu c) (UUID_16 BT_UUID_GATT_PRIMARY))
      \<lparr>rg_buf = [BT_ATT_OP_READ_GROUP_RSP, 0], rg_len = 0, rg_group = None, rg_srv = srv c\<rparr>"
  shows "rg_buf d = [BT_ATT_OP_READ_GROUP_RSP, 0] @ concat (map entry_bytes es)"
    and "rg_len d = (if svcs = [] then 0 else 6)" and "unmoved (rg_srv d) (srv c)"
proof -
  let ?f = "read_group_cb env (tx_mtu c) (UUID_16 BT_UUID_GATT_PRIMARY)"
  define d0 where "d0 = \<lparr>rg_buf = [BT_ATT_OP_READ_GROUP_RSP, 0], rg_len = 0, rg_group = None, rg_srv = srv c\<rparr>"
  have m: "tx_mtu c \<le> 255" "23 \<le> tx_mtu c" using c by (auto simp: chan_ok_def)
  have size: "unat start + length (concat svcs) \<le> 65536" using db_size db start by simp
  have f: "rg_buf d0 = [BT_ATT_OP_READ_GROUP_RSP, 0]" "rg_len d0 = 0" by (simp_all add: d0_def)
  have "unmoved (rg_srv d0) (srv c)" using aware by (simp add: d0_def unmoved_def)
  with visit_groups [OF p m, of d0 "srv c" "unat start" "unat start"] size m
  obtain it d' where d': "visit (unat start) 65535 ?f (concat svcs) (unat start) d0 = (it, d')"
    "rg_buf d' = [BT_ATT_OP_READ_GROUP_RSP, 0] @ concat (map entry_bytes es)"
    "rg_len d' = (if svcs = [] then 0 else 6)" "unmoved (rg_srv d') (srv c)"
    by (auto simp: f es numeral_2_eq_2)
  have "d = d'"
    using visit_before [of 1 "concat pre" "unat start" 65535 ?f "concat svcs" d0] d'(1) start
    by (simp add: d foreach db d0_def)
  with d' show "rg_buf d = [BT_ATT_OP_READ_GROUP_RSP, 0] @ concat (map entry_bytes es)"
    "rg_len d = (if svcs = [] then 0 else 6)" "unmoved (rg_srv d) (srv c)"
    by simp_all
qed

lemma group_response:
  assumes c: "chan_ok c" "\<not> pending_rsp c" and db: "env_db env = pre @ svcs" and p: "list_all is_primary svcs"
    and start: "unat start = 1 + length (concat pre)" and aware: "fst (env_aware env True (srv c))"
  obtains s' where "exchange env ([BT_ATT_OP_READ_GROUP_REQ] @ sys_put_le16 start @ sys_put_le16 0xffff
        @ sys_put_le16 BT_UUID_GATT_PRIMARY) c =
      (let rsp = (if svcs = []
                  then [BT_ATT_OP_ERROR_RSP, BT_ATT_OP_READ_GROUP_REQ] @ sys_put_le16 start
                    @ [BT_ATT_ERR_ATTRIBUTE_NOT_FOUND]
                  else [BT_ATT_OP_READ_GROUP_RSP, 6]
                    @ concat (map entry_bytes (take ((tx_mtu c - 2) div 6) (groups (unat start) svcs))))
       in (rsp, c\<lparr>srv := s', tx_pdus := tx_pdus c @ [rsp]\<rparr>))" and "unmoved s' (srv c)"
proof -
  define d0 where "d0 = \<lparr>rg_buf = [BT_ATT_OP_READ_GROUP_RSP, 0], rg_len = 0, rg_group = None, rg_srv = srv c\<rparr>"
  define d where
    "d = bt_gatt_foreach_attr env start 0xffff (read_group_cb env (tx_mtu c) (UUID_16 BT_UUID_GATT_PRIMARY)) d0"
  define es where "es = take ((tx_mtu c - 2) div 6) (groups (unat start) svcs)"
  note d = group_visit [OF c(1) db p start aware es_def d_def [unfolded d0_def]]
  let ?rsp = "if svcs = []
    then [BT_ATT_OP_ERROR_RSP, BT_ATT_OP_READ_GROUP_REQ] @ sys_put_le16 start @ [BT_ATT_ERR_ATTRIBUTE_NOT_FOUND]
    else [BT_ATT_OP_READ_GROUP_RSP, 6] @ concat (map entry_bytes es)"
  let ?req = "sys_put_le16 start @ sys_put_le16 0xffff @ sys_put_le16 BT_UUID_GATT_PRIMARY"
  have valid: "range_is_valid start 0xffff = (True, 0)"
    using start unsigned_less [of start, where ?'a = nat]
    by (auto simp: range_is_valid_def word_le_nat_alt word_less_nat_alt unat_eq_zero [symmetric])
  have "att_read_group_rsp env (UUID_16 BT_UUID_GATT_PRIMARY) start 0xffff (c\<lparr>pending_rsp := True\<rparr>) =
      (0, c\<lparr>pending_rsp := True, srv := rg_srv d, tx_pdus := tx_pdus c @ [?rsp]\<rparr>)"
    using d(1,2) c(1) create_pdu [of "c\<lparr>pending_rsp := True\<rparr>" 1 BT_ATT_OP_READ_GROUP_RSP]
      create_pdu [of "c\<lparr>pending_rsp := True, srv := rg_srv d\<rparr>" 4 BT_ATT_OP_ERROR_RSP]
    by (simp add: att_read_group_rsp_def Let_def d_def [symmetric] d0_def [symmetric] send_err_rsp_def
        bt_att_chan_send_rsp_def)
  then have "bt_att_recv env (BT_ATT_OP_READ_GROUP_REQ # ?req) c =
      c\<lparr>pending_rsp := True, srv := rg_srv d, tx_pdus := tx_pdus c @ [?rsp]\<rparr>"
    using c(2) valid
    by (simp add: recv_eq [where n = 4 and func = att_read_group_req] handlers_def att_read_group_req_def Let_def
        bt_uuid_create_def)
  then have "exchange env (BT_ATT_OP_READ_GROUP_REQ # ?req) c =
      (?rsp, c\<lparr>srv := rg_srv d, tx_pdus := tx_pdus c @ [?rsp]\<rparr>)"
    using c(2) by (simp add: exchange_def Let_def chan_rsp_sent_def)
  then show thesis using d(3) by (intro that [of "rg_srv d"]) (simp_all add: Let_def es_def)
qed

text \<open>One request of the discovery: the services \<open>now\<close> are in the response, the services \<open>later\<close> follow.\<close>

lemma discover_round:
  assumes c: "chan_ok c" "\<not> pending_rsp c" and db: "env_db env = pre @ svcs" and p: "list_all is_primary svcs"
    and start: "unat start = 1 + length (concat pre)" and aware: "fst (env_aware env True (srv c))" and "svcs \<noteq> []"
  obtains now later s' pdus where "svcs = now @ later" and "now \<noteq> []" and "unmoved s' (srv c)"
    and "discover env start acc c =
      (let last_handle = of_nat (unat start + length (concat now) - 1); c' = c\<lparr>srv := s', tx_pdus := pdus\<rparr>
       in if last_handle = (0xffff :: u16) then Some (acc @ groups (unat start) now, c')
          else discover env (last_handle + 1) (acc @ groups (unat start) now) c')"
proof -
  define m where "m = (tx_mtu c - 2) div 6"
  define es where "es = take m (groups (unat start) svcs)"
  have m: "0 < m" using c(1) by (auto simp: m_def chan_ok_def div_greater_zero_iff)
  have split: "svcs = take m svcs @ drop m svcs" and now: "take m svcs \<noteq> []" using m assms(7) by simp_all
  have es: "es = groups (unat start) (take m svcs)"
    unfolding es_def by (subst split, unfold groups_append)
      (cases "m \<le> length svcs"; simp add: groups_facts)
  have parse: "group_entries 6 (concat (map entry_bytes es)) = es"
    by (rule group_entries_entries) (simp add: es groups_facts(2))
  obtain s' where e: "exchange env ([BT_ATT_OP_READ_GROUP_REQ] @ sys_put_le16 start @ sys_put_le16 0xffff
        @ sys_put_le16 BT_UUID_GATT_PRIMARY) c =
      (let rsp = [BT_ATT_OP_READ_GROUP_RSP, 6] @ concat (map entry_bytes es)
       in (rsp, c\<lparr>srv := s', tx_pdus := tx_pdus c @ [rsp]\<rparr>))" and s': "unmoved s' (srv c)"
    unfolding es_def m_def
    by (rule group_response [OF c db p start aware]) (simp add: assms(7))
  show thesis
  proof (rule that [OF split now s'])
    show "discover env start acc c =
      (let last_handle = of_nat (unat start + length (concat (take m svcs)) - 1);
           c' = c\<lparr>srv := s', tx_pdus := tx_pdus c @ [[BT_ATT_OP_READ_GROUP_RSP, 6] @ concat (map entry_bytes es)]\<rparr>
       in if last_handle = (0xffff :: u16) then Some (acc @ groups (unat start) (take m svcs), c')
          else discover env (last_handle + 1) (acc @ groups (unat start) (take m svcs)) c')"
      using parse last_group [OF now, of "unat start"]
      by (subst discover.simps) (simp add: e [simplified] Let_def es)
  qed
qed

lemma discover_from:
  assumes "chan_ok c" "\<not> pending_rsp c" and "env_db env = pre @ svcs" and "list_all is_primary svcs"
    and "unat start = 1 + length (concat pre)" and "fst (env_aware env True (srv c))"
  shows "\<exists>c'. discover env start acc c = Some (acc @ groups (unat start) svcs, c')"
  using assms
proof (induction "length svcs" arbitrary: pre svcs start acc c rule: less_induct)
  case less
  show ?case
  proof (cases "svcs = []")
    case True
    obtain s' where "exchange env ([BT_ATT_OP_READ_GROUP_REQ] @ sys_put_le16 start @ sys_put_le16 0xffff
          @ sys_put_le16 BT_UUID_GATT_PRIMARY) c =
        (let rsp = [BT_ATT_OP_ERROR_RSP, BT_ATT_OP_READ_GROUP_REQ] @ sys_put_le16 start @ [BT_ATT_ERR_ATTRIBUTE_NOT_FOUND]
         in (rsp, c\<lparr>srv := s', tx_pdus := tx_pdus c @ [rsp]\<rparr>))"
      by (rule group_response [OF less.prems]) (simp add: True)
    with True show ?thesis by (subst discover.simps) (simp add: Let_def)
  next
    case False
    obtain now later s' pdus where split: "svcs = now @ later" "now \<noteq> []" and s': "unmoved s' (srv c)"
      and step: "discover env start acc c =
      (let last_handle = of_nat (unat start + length (concat now) - 1); c' = c\<lparr>srv := s', tx_pdus := pdus\<rparr>
       in if last_handle = (0xffff :: u16) then Some (acc @ groups (unat start) now, c')
          else discover env (last_handle + 1) (acc @ groups (unat start) now) c')"
      by (rule discover_round [OF less.prems False])
    define fin where "fin = unat start + length (concat now) - 1"
    have size: "fin + 1 + length (concat later) \<le> 65536" and fin1: "fin + 1 = unat start + length (concat now)"
      using db_size less.prems(3,5) split(1) by (simp_all add: fin_def)
    then have fin: "unat (of_nat fin :: u16) = fin" by (intro unat_of_nat_u16) simp
    have "svc \<noteq> []" if "svc \<in> set later" for svc
      using less.prems(4) split(1) that is_primary.simps(1) by (metis list_all_iff Un_iff set_append)
    then have later: "later = []" if "concat later = []"
      using that by (metis concat_eq_Nil_conv last_in_set)
    show ?thesis
    proof (cases "of_nat fin = (0xffff :: u16)")
      case True
      then have "fin = unat (0xffff :: u16)" using fin by metis
      with size have "concat later = []" by simp
      then have "later = []" by (rule later)
      with True step split show ?thesis by (simp add: fin_def Let_def)
    next
      case False
      have "unat (0xffff :: u16) \<noteq> fin" using False fin by (metis word_unat_eq_iff)
      with size have "fin + 1 < 65536" by simp
      then have nxt: "unat (of_nat fin + 1 :: u16) = fin + 1"
        using unat_of_nat_u16 [of "fin + 1"] by (simp add: add.commute)
      have shorter: "length later < length svcs" using split by simp
      have "\<exists>c'. discover env (of_nat fin + 1) (acc @ groups (unat start) now) (c\<lparr>srv := s', tx_pdus := pdus\<rparr>) =
          Some ((acc @ groups (unat start) now) @ groups (unat (of_nat fin + 1 :: u16)) later, c')"
        using less.prems s' split nxt fin1
        by (intro less.hyps [OF shorter, of _ "pre @ now"]) (auto simp: chan_ok_def unmoved_def)
      with False step nxt fin1 split groups_append [of "unat start" now later] show ?thesis
        by (simp add: fin_def Let_def)
    qed
  qed
qed

end

end
