(* ===== verification/Peripheral.thy ===== *)
theory Peripheral
  imports Gatt_Svc Att_Procedures
begin

text \<open>
  The attribute server of the adapter as a whole: the protocol of \<open>Att\<close> with the callbacks of
  \<open>Gatt_Svc\<close> and the services of this build, and what a host that connects obtains from it. The
  contracts \<open>att_server\<close> and \<open>att_client\<close> are interpreted on the callbacks.
\<close>

subsection \<open>The value of an attribute\<close>

definition server_value ::
    "(u8 list \<Rightarrow> u8 list) \<Rightarrow> bt_conn \<Rightarrow> bt_gatt_attr \<Rightarrow> nat \<Rightarrow> gatt_server \<Rightarrow> u8 list" where
  "server_value cmac conn attr handle s =
     (case attr_read attr of
        Some Read_service \<Rightarrow> (case attr_data attr of UD_Uuid uuid \<Rightarrow> sys_put_le16 uuid | _ \<Rightarrow> [])
      | Some Read_chrc \<Rightarrow> chrc_value (attr_data attr) handle
      | Some Read_ccc \<Rightarrow>
          (case attr_data attr of
             UD_Ccc n \<Rightarrow>
               sys_put_le16 (case find_ccc_cfg (Some conn) (cccs (gatt_st (hog_st s)) n) of
                  Some i \<Rightarrow> cfg_value (ccc_cfg (cccs (gatt_st (hog_st s)) n) ! i) | None \<Rightarrow> 0)
           | _ \<Rightarrow> [])
      | Some fn \<Rightarrow>
          if fn = fn_db_hash_read then if db_hash_work s then hash_of cmac s else db_hash s
          else if fn = fn_read_info then info_bytes info
          else if fn = fn_read_report_map then report_map
          else if fn = fn_read_input_report then []
          else if fn = fn_read_report then report_bytes (input_keyboard (hog_st s))
          else if fn = fn_read_name then bt_name s
          else if fn = fn_read_appearance then sys_put_le16 gap_appearance
          else if fn = fn_read_ppcp then ppcp_bytes
          else if fn = fn_cf_read then cf_value conn s
          else if fn = fn_read_blvl then [battery_level s]
          else if fn = fn_read_str then dis_string attr s
          else if fn = fn_read_pnp_id then dis_pnp_id else []
      | None \<Rightarrow> [])"

subsection \<open>Robust caching\<close>

text \<open>What identifies the entries of the clients, and the features they set, is not changed by flags.\<close>

definition cf_keys :: "gatt_cf_cfg list \<Rightarrow> (u8 \<times> bt_addr_le \<times> u8 list) list" where
  "cf_keys cfgs = map (\<lambda>c. (cf_id c, cf_peer c, cf_data c)) cfgs"

lemma find_cf_keys:
  "cf_keys xs = cf_keys ys \<Longrightarrow> find_cf_from i conn xs = find_cf_from i conn ys"
proof (induction xs arbitrary: ys i)
  case (Cons x xs)
  then show ?case by (cases ys) (auto simp: cf_keys_def split: option.splits)
qed (simp add: cf_keys_def)

lemma find_cf_from_Some:
  "find_cf_from k conn cfgs = Some i \<Longrightarrow> k \<le> i \<and> i - k < length cfgs"
  by (induction cfgs arbitrary: k) (force split: if_splits)+

lemma find_cf_Some: "find_cf_cfg conn s = Some i \<Longrightarrow> i < length (cf_cfg s)"
  using find_cf_from_Some [of 0 conn "cf_cfg s" i] by (simp add: find_cf_cfg_def)

lemma cf_keys_flags:
  "i < length cfgs \<Longrightarrow> cf_id c = cf_id (cfgs ! i) \<Longrightarrow> cf_peer c = cf_peer (cfgs ! i) \<Longrightarrow>
   cf_data c = cf_data (cfgs ! i) \<Longrightarrow> cf_keys (cfgs[i := c]) = cf_keys cfgs"
  by (auto simp: cf_keys_def map_update list_update_id intro!: nth_equalityI simp: nth_list_update)

lemma change_aware_frame:
  obtains cfgs where "snd (bt_gatt_change_aware conn req s) = s\<lparr>cf_cfg := cfgs\<rparr>"
    and "cf_keys cfgs = cf_keys (cf_cfg s)"
proof -
  have "\<exists>cfgs. snd (bt_gatt_change_aware conn req s) = s\<lparr>cf_cfg := cfgs\<rparr> \<and> cf_keys cfgs = cf_keys (cf_cfg s)"
  proof (cases "find_cf_cfg (Some conn) s")
    case None
    then show ?thesis by (intro exI [of _ "cf_cfg s"]) (simp add: bt_gatt_change_aware_def)
  next
    case (Some i)
    let ?c = "cf_cfg s ! i"
    have i: "i < length (cf_cfg s)" using Some by (rule find_cf_Some)
    have "snd (bt_gatt_change_aware conn req s) = s \<or>
        snd (bt_gatt_change_aware conn req s) =
          s\<lparr>cf_cfg := (cf_cfg s)[i := ?c\<lparr>cf_out_of_sync := False, cf_change_aware := True\<rparr>]\<rparr> \<or>
        snd (bt_gatt_change_aware conn req s) = s\<lparr>cf_cfg := (cf_cfg s)[i := ?c\<lparr>cf_out_of_sync := True\<rparr>]\<rparr>"
      using Some by (simp add: bt_gatt_change_aware_def Let_def)
    then show ?thesis
      using i by (elim disjE) (auto simp: cf_keys_flags intro: exI [of _ "cf_cfg s"])
  qed
  then show thesis using that by blast
qed

lemma find_cf_update:
  assumes "cf_keys cfgs = cf_keys (cf_cfg s)"
  shows "find_cf_cfg conn (s\<lparr>cf_cfg := cfgs\<rparr>) = find_cf_cfg conn s"
  using find_cf_keys [OF assms] by (simp add: find_cf_cfg_def)

lemma cf_value_update:
  assumes "cf_keys cfgs = cf_keys (cf_cfg s)"
  shows "cf_value conn (s\<lparr>cf_cfg := cfgs\<rparr>) = cf_value conn s"
proof -
  have "cf_data (cfgs ! i) = cf_data (cf_cfg s ! i)" if "i < length (cf_cfg s)" for i
    using assms that by (metis (mono_tags, lifting) cf_keys_def length_map nth_map snd_conv)
  with find_cf_Some [of "Some conn" s] show ?thesis
    by (auto simp: cf_value_def find_cf_update [OF assms] split: option.splits)
qed

text \<open>A client whose request is served has its next request served.\<close>

lemma aware_again:
  assumes "fst (bt_gatt_change_aware conn True s)"
  shows "fst (bt_gatt_change_aware conn True (snd (bt_gatt_change_aware conn True s)))"
proof (cases "find_cf_cfg (Some conn) s")
  case None
  then show ?thesis by (simp add: bt_gatt_change_aware_def)
next
  case (Some i)
  let ?c = "cf_cfg s ! i" and ?s = "snd (bt_gatt_change_aware conn True s)"
  have i: "i < length (cf_cfg s)" using Some by (rule find_cf_Some)
  obtain cfgs where fr: "?s = s\<lparr>cf_cfg := cfgs\<rparr>" "cf_keys cfgs = cf_keys (cf_cfg s)"
    by (rule change_aware_frame)
  have "find_cf_cfg (Some conn) ?s = Some i" using fr find_cf_update Some by simp
  moreover have "\<not> CF_ROBUST_CACHING (cf_cfg ?s ! i) \<or> cf_change_aware (cf_cfg ?s ! i)"
    using assms Some i by (auto simp: bt_gatt_change_aware_def Let_def split: if_splits)
  ultimately show ?thesis by (auto simp: bt_gatt_change_aware_def [of conn True ?s] Let_def)
qed

subsection \<open>The contracts hold of the callbacks\<close>

lemma server_value_update:
  assumes "cf_keys cfgs = cf_keys (cf_cfg s)"
  shows "server_value cmac conn a h (s\<lparr>cf_cfg := cfgs\<rparr>) = server_value cmac conn a h s"
  using cf_value_update [OF assms] 
  by (simp add: server_value_def hash_of_def dis_string_def split: option.split read_fn.split user_data.split)

lemma server_value_hash:
  "server_value cmac conn a h (db_hash_gen cmac (s\<lparr>db_hash_work := False\<rparr>)) = 
   (if db_hash_work s then server_value cmac conn a h s
    else server_value cmac conn a h (db_hash_gen cmac (s\<lparr>db_hash_work := False\<rparr>)))"
  by (simp add: server_value_def hash_of_def dis_string_def db_hash_gen_def cf_value_def find_cf_cfg_def
      split: option.split read_fn.split user_data.split)

lemma server_reads:
  "fst (server_read cmac conn a h len off s) = bt_gatt_attr_read len off (server_value cmac conn a h s)"
proof -
  have hash: "fst (db_hash_read cmac conn len off s) =
      bt_gatt_attr_read len off (if db_hash_work s then hash_of cmac s else db_hash s)"
  proof -
    let ?s = "if db_hash_work s then db_hash_gen cmac (s\<lparr>db_hash_work := False\<rparr>) else s"
    obtain cfgs where "snd (bt_gatt_change_aware conn True ?s) = ?s\<lparr>cf_cfg := cfgs\<rparr>"
      by (rule change_aware_frame)
    then show ?thesis by (simp add: db_hash_read_def Let_def db_hash_gen_def hash_of_def)
  qed
  show ?thesis
    by (simp add: server_read_def server_value_def hash bt_gatt_attr_read_service_def bt_gatt_attr_read_chrc_def
        bt_gatt_attr_read_ccc_def Let_def read_info_def read_report_map_def read_input_report_def read_report_def
        read_name_def read_appearance_def read_ppcp_def cf_read_def read_blvl_def read_str_def read_pnp_id_def
        split: option.split read_fn.split user_data.split)
qed

lemma server_read_state:
  obtains (same) "snd (server_read cmac conn a h len off s) = s"
  | (hash) s1 where "snd (server_read cmac conn a h len off s) = snd (bt_gatt_change_aware conn True s1)"
      and "s1 = s \<or> db_hash_work s \<and> s1 = db_hash_gen cmac (s\<lparr>db_hash_work := False\<rparr>)"
proof (cases "attr_read a = Some fn_db_hash_read")
  case True
  then show thesis
    by (intro hash [of "if db_hash_work s then db_hash_gen cmac (s\<lparr>db_hash_work := False\<rparr>) else s"])
      (auto simp: server_read_def db_hash_read_def Let_def)
next
  case False
  then show thesis
    by (intro same) (auto simp: server_read_def split: option.split read_fn.split user_data.split)
qed

lemma change_aware_hash:
  "fst (bt_gatt_change_aware conn q (db_hash_gen cmac (s\<lparr>db_hash_work := False\<rparr>))) = fst (bt_gatt_change_aware conn q s)"
  by (simp add: bt_gatt_change_aware_def find_cf_cfg_def db_hash_gen_def Let_def split: option.split)

lemma aware_keeps_value:
  "server_value cmac conn a h (snd (bt_gatt_change_aware conn' q s)) = server_value cmac conn a h s"
  by (rule change_aware_frame [of conn' q s]) (simp add: server_value_update)

lemma read_keeps_value:
  "server_value cmac conn a' h' (snd (server_read cmac conn a h len off s)) = server_value cmac conn a' h' s"
  by (rule server_read_state [of cmac conn a h len off s]) (auto simp: aware_keeps_value server_value_hash)

lemma read_keeps_aware:
  assumes "fst (bt_gatt_change_aware conn True s)"
  shows "fst (bt_gatt_change_aware conn True (snd (server_read cmac conn a h len off s)))"
proof (rule server_read_state [of cmac conn a h len off s])
  fix s1
  assume "snd (server_read cmac conn a h len off s) = snd (bt_gatt_change_aware conn True s1)"
    and "s1 = s \<or> db_hash_work s \<and> s1 = db_hash_gen cmac (s\<lparr>db_hash_work := False\<rparr>)"
  with assms show ?thesis by (auto intro!: aware_again simp: change_aware_hash)
qed (use assms in simp)

lemma static_services_length: "length (concat (static_services ccc)) = 37"
  by (simp add: static_services_def gatt_svc_def gap_svc_def bas_def dis_svc_def hog_svc_attrs BT_GATT_CHARACTERISTIC_def)

interpretation hid: att_client "server_env cmac conn (static_services ccc)" "server_value cmac conn" for cmac conn ccc
proof unfold_locales
  show "server_value cmac conn a h s = sys_put_le16 u" if "attr_read a = Some Read_service" "attr_data a = UD_Uuid u"
    for a h s u
    using that by (simp add: server_value_def)
qed (simp_all add: server_env_def server_reads static_services_length read_keeps_value aware_keeps_value
    aware_again read_keeps_aware)

subsection \<open>The adapter after start\<close>

definition boot_server :: "bt_conn list \<Rightarrow> u8 list \<Rightarrow> gatt_server" where
  "boot_server conns model =
     \<lparr>hog_st = (boot_hog conns)\<lparr>hog_no := 4, hog_ccc := 2,
        gatt_st := (gatt_st (boot_hog conns))\<lparr>services := static_services 2\<rparr>\<rparr>,
      sc_cfg = replicate 2 \<lparr>sc_id = 0, sc_peer = BT_ADDR_LE_ANY, sc_start = 0, sc_end = 0\<rparr>,
      cf_cfg = replicate 2 \<lparr>cf_id = 0, cf_peer = BT_ADDR_LE_ANY, cf_data = [0], cf_change_aware = False,
        cf_out_of_sync = False\<rparr>,
      saved_sc = [], bonded = [], db_hash = replicate 16 0, db_hash_work = True, battery_level = 100,
      bt_name = map of_char ''PS2 to bluetooth keyboard adapter'',
      dis_strings = [model, map of_char ''Manufacturer'']\<rparr>"

definition hid_ok :: "gatt_server \<Rightarrow> bool" where
  "hid_ok s \<longleftrightarrow> hog_inv (hog_st s) \<and> services (gatt_st (hog_st s)) = static_services 2 \<and>
     hog_no (hog_st s) = 4 \<and> hog_ccc (hog_st s) = 2"

definition fresh_chan :: "gatt_server \<Rightarrow> gatt_server att_chan" where
  "fresh_chan s = \<lparr>tx_mtu = 23, pending_rsp = False, no_bufs = False, tx_pdus = [], srv = s\<rparr>"

lemma fresh_chan_ok [simp]: "chan_ok (fresh_chan s)" "\<not> pending_rsp (fresh_chan s)" "srv (fresh_chan s) = s"
  by (simp_all add: fresh_chan_def chan_ok_def)

lemma boot_server_ok [simp]: "hid_ok (boot_server conns model)"
proof -
  have "length (services (gatt_st (hog_st (boot_server conns model)))) = 5"
    by (simp add: boot_server_def static_services_def)
  then show ?thesis
    using hog_inv_boot [of conns]
    by (simp add: hid_ok_def hog_inv_def boot_server_def static_services_length)
      (simp add: boot_hog_def static_services_def)
qed

subsection \<open>Every request is answered\<close>

text \<open>
  C6: whatever packet a host sends on the attribute channel of the adapter while no response is due,
  a request is answered by exactly one packet, its response or an error that names the request, never
  longer than the agreed MTU; a command and a confirmation get no answer; any other known or unknown
  packet gets the error that the request is not supported. The channel stays usable, and a further
  request before the response is sent is dropped.
\<close>

theorem att_one_response:
  assumes "chan_ok c" and "\<not> pending_rsp c"
  shows "(let c' = bt_att_recv (server_env cmac conn (static_services ccc)) (code # buf) c
     in chan_ok c' \<and>
       (if att_op_get_type code = ATT_REQUEST
        then (\<exists>rsp. tx_pdus c' = tx_pdus c @ [rsp] \<and> length rsp \<le> tx_mtu c \<and> response_to code rsp) \<and>
          pending_rsp c' \<and> bt_att_recv (server_env cmac conn (static_services ccc)) (code # buf2) c' = c'
        else tx_pdus c' = tx_pdus c @
          (if att_op_get_type code \<in> {ATT_COMMAND, ATT_CONFIRMATION} \<or> code = 0 then []
           else [[BT_ATT_OP_ERROR_RSP, code] @ sys_put_le16 0 @ [BT_ATT_ERR_NOT_SUPPORTED]])))"
proof (cases "att_op_get_type code = ATT_REQUEST")
  case True
  let ?c = "bt_att_recv (server_env cmac conn (static_services ccc)) (code # buf) c"
  have h: "handled code (c\<lparr>pending_rsp := True\<rparr>) (0, ?c)"
    by (rule hid.recv_handled [OF assms True])
  then have "bt_att_recv (server_env cmac conn (static_services ccc)) (code # buf2) ?c = ?c"
    by (intro recv_busy True) (simp add: handled_def)
  with h True show ?thesis by (simp add: handled_def Let_def)
next
  case False
  with hid.recv_answers [OF assms, of cmac conn ccc code buf] show ?thesis by (simp add: Let_def)
qed

text \<open>A connected host, encrypted and authenticated or not, and the adapter it finds.\<close>

definition sample_cmac :: "u8 list \<Rightarrow> u8 list" where
  "sample_cmac msg = replicate 15 0 @ [of_nat (length msg)]"

definition sample_server :: gatt_server where
  "sample_server = boot_server [sample_conn] (map of_char ''nRF52840_QIAA'')"

abbreviation sample_env :: "gatt_server att_env" where
  "sample_env \<equiv> server_env sample_cmac sample_conn (static_services 2)"

theorem att_one_response_witness:
  "\<exists>rsp. tx_pdus (bt_att_recv sample_env [BT_ATT_OP_READ_REQ, 31, 0] (fresh_chan sample_server)) = [rsp] \<and>
     length rsp \<le> 23 \<and> response_to BT_ATT_OP_READ_REQ rsp"
proof -
  have "att_op_get_type BT_ATT_OP_READ_REQ = ATT_REQUEST" by (simp add: att_op_get_type_def)
  then show ?thesis
    using att_one_response [of "fresh_chan sample_server" sample_cmac sample_conn 2 BT_ATT_OP_READ_REQ "[31, 0]"]
    by (auto simp: Let_def) (auto simp: fresh_chan_def)
qed

lemma aware_boot [simp]: "fst (bt_gatt_change_aware conn q sample_server)"
proof -
  have "\<not> CF_ROBUST_CACHING (cf_cfg sample_server ! i)" if "i < length (cf_cfg sample_server)" for i
    using that by (simp add: sample_server_def boot_server_def CF_ROBUST_CACHING_def)
  with find_cf_Some [of "Some conn" sample_server] show ?thesis
    by (auto simp: bt_gatt_change_aware_def Let_def split: option.splits)
qed

subsection \<open>What a host discovers and reads\<close>

lemma static_services_primary: "list_all is_primary (static_services ccc)"
  by (simp add: static_services_def gatt_svc_def gap_svc_def bas_def dis_svc_def hog_svc_def
      BT_GATT_CHARACTERISTIC_def BT_GATT_ATTRIBUTE_def BT_GATT_CCC_def BT_GATT_DESCRIPTOR_def
      BT_GATT_PRIMARY_SERVICE_def)

lemma static_services_groups:
  "groups 1 (static_services ccc) =
     [(1, 8, sys_put_le16 BT_UUID_GATT), (9, 15, sys_put_le16 BT_UUID_GAP), (16, 19, sys_put_le16 BT_UUID_BAS),
      (20, 26, sys_put_le16 BT_UUID_DIS), (27, 37, sys_put_le16 BT_UUID_HIDS)]"
  by (simp add: static_services_def gatt_svc_def gap_svc_def bas_def dis_svc_def hog_svc_def
      BT_GATT_CHARACTERISTIC_def BT_GATT_ATTRIBUTE_def BT_GATT_PRIMARY_SERVICE_def)

text \<open>
  C8: a host that discovers the primary services of the adapter, asking again from the handle after
  the last one it was given until it is told that there are no more, finds after finitely many requests
  exactly the five services of this build with their UUIDs and their ranges of handles, whatever MTU the
  two sides agreed on.
\<close>

theorem services_discovered:
  assumes "chan_ok c" and "\<not> pending_rsp c" and "fst (bt_gatt_change_aware conn True (srv c))"
  shows "\<exists>c'. discover (server_env cmac conn (static_services ccc)) 1 [] c = Some (
     [(1, 8, sys_put_le16 BT_UUID_GATT), (9, 15, sys_put_le16 BT_UUID_GAP), (16, 19, sys_put_le16 BT_UUID_BAS),
      (20, 26, sys_put_le16 BT_UUID_DIS), (27, 37, sys_put_le16 BT_UUID_HIDS)], c')"
  using hid.discover_from [of c cmac conn ccc "[]" "static_services ccc" 1 "[]"] assms
  by (simp add: static_services_primary static_services_groups [unfolded One_nat_def] server_env_def)

theorem services_discovered_witness:
  "\<exists>c'. discover sample_env 1 [] (fresh_chan sample_server) = Some (
     [(1, 8, sys_put_le16 0x1801), (9, 15, sys_put_le16 0x1800), (16, 19, sys_put_le16 0x180f),
      (20, 26, sys_put_le16 0x180a), (27, 37, sys_put_le16 0x1812)], c')"
  using services_discovered [of "fresh_chan sample_server" sample_conn sample_cmac 2] by simp

text \<open>
  C9: a host that reads an attribute the permissions of its connection allow, in pieces, each from
  where the last one ended, obtains the whole value of the attribute after finitely many requests; the
  value is the one the service's callback provides, however long it is against the MTU.
\<close>

theorem attribute_read_whole:
  assumes "chan_ok c" and "\<not> pending_rsp c" and "fst (bt_gatt_change_aware conn True (srv c))"
    and "0 < handle" and "unat handle \<le> 37" and "a = concat (static_services ccc) ! (unat handle - 1)"
    and "bt_gatt_check_perm conn a BT_GATT_PERM_READ_MASK = 0"
    and "length (server_value cmac conn a (unat handle) (srv c)) \<le> 0xffff"
  shows "\<exists>c'. read_long (server_env cmac conn (static_services ccc)) handle [] c =
     Some (server_value cmac conn a (unat handle) (srv c), c')"
  using hid.read_long_from [of c handle cmac conn ccc a _ 0] assms static_services_length [of ccc]
  by (simp add: server_env_def)

lemma report_map_attr:
  "concat (static_services ccc) ! 30 =
     BT_GATT_ATTRIBUTE BT_UUID_HIDS_REPORT_MAP BT_GATT_PERM_READ (Some fn_read_report_map) None UD_Null"
  by (simp add: static_services_def gatt_svc_def gap_svc_def bas_def dis_svc_def hog_svc_def BT_GATT_CHARACTERISTIC_def)

theorem attribute_read_whole_witness:
  "\<exists>c'. read_long sample_env 31 [] (fresh_chan sample_server) = Some (report_map, c') \<and> 22 < length report_map"
proof -
  let ?a = "BT_GATT_ATTRIBUTE BT_UUID_HIDS_REPORT_MAP BT_GATT_PERM_READ (Some fn_read_report_map) None UD_Null"
  have v: "server_value sample_cmac sample_conn ?a 31 sample_server = report_map"
    by (simp add: server_value_def BT_GATT_ATTRIBUTE_def)
  have "bt_gatt_check_perm sample_conn ?a BT_GATT_PERM_READ_MASK = 0"
    by (simp add: bt_gatt_check_perm_def BT_GATT_ATTRIBUTE_def Let_def)
  moreover have "length report_map \<le> 0xffff" "22 < length report_map" by (simp_all add: report_map_def)
  ultimately show ?thesis
    using attribute_read_whole [of "fresh_chan sample_server" sample_conn 31 ?a 2 sample_cmac] v report_map_attr [of 2]
    by simp
qed

subsection \<open>Subscribing to the reports\<close>

lemma input_ccc_attr:
  "concat (static_services ccc) ! 33 = BT_GATT_CCC ccc (BT_GATT_PERM_READ_AUTHEN OR BT_GATT_PERM_WRITE_AUTHEN)"
  by (simp add: static_services_def gatt_svc_def gap_svc_def bas_def dis_svc_def hog_svc_def BT_GATT_CHARACTERISTIC_def)

lemma input_ccc_perm:
  "bt_gatt_check_perm conn (BT_GATT_CCC ccc (BT_GATT_PERM_READ_AUTHEN OR BT_GATT_PERM_WRITE_AUTHEN)) BT_GATT_PERM_WRITE_MASK =
     (if conn_sec conn < BT_SECURITY_L3 then BT_ATT_ERR_AUTHENTICATION else 0)"
  by (simp add: bt_gatt_check_perm_def BT_GATT_CCC_def BT_GATT_ATTRIBUTE_def Let_def)

text \<open>The first write of a peer takes a free entry.\<close>

lemma first_subscription:
  assumes "find_ccc_cfg (Some conn) ccc = None" and "find_ccc_cfg None ccc = Some i"
    and "bt_gatt_attr_write_ccc conn ccc (sys_put_le16 BT_GATT_CCC_NOTIFY) 0 = (ret, ccc', ev)"
  shows "ret = 2" and "ccc_cfg ccc' = (ccc_cfg ccc)[i := (ccc_cfg ccc ! i)\<lparr>cfg_peer := conn_dst conn,
      cfg_id := conn_id conn, cfg_value := BT_GATT_CCC_NOTIFY\<rparr>]"
  using assms find_ccc_cfg_Some [of None ccc i]
  by (auto simp: bt_gatt_attr_write_ccc_def write_ccc_cfg_def gatt_ccc_changed_def Let_def split: if_splits)

lemma subscriber_listed:
  assumes "cfg \<in> set cfgs" and "subscriber conns ty cfg = Some k"
  shows "k \<in> set (subscribers conns ty cfgs)"
  using assms by (induction cfgs) (auto split: option.splits)

lemma all_values_one:
  assumes "\<forall>cfg \<in> set cfgs. cfg_value cfg \<le> 1" and "cfg \<in> set cfgs" and "cfg_value cfg = 1"
  shows "max_cfg_value 0 cfgs = (1 :: u16)"
proof -
  have "Max (insert 0 (cfg_value ` set cfgs)) = (1 :: u16)"
    using assms by (intro Max_eqI) auto
  then show ?thesis by (simp add: max_cfg_value_eq)
qed

lemma subscribed:
  assumes inv: "hog_inv h" and link: "link_ok h"
    and free: "find_ccc_cfg (Some conn) (cccs (gatt_st h) (hog_ccc h)) = None"
      "find_ccc_cfg None (cccs (gatt_st h) (hog_ccc h)) = Some i"
    and others: "\<forall>cfg \<in> set (ccc_cfg (cccs (gatt_st h) (hog_ccc h))). cfg_value cfg \<le> BT_GATT_CCC_NOTIFY"
    and peer: "bt_conn_lookup_addr_le (acl_conns (gatt_st h)) (conn_id conn) (conn_dst conn) = Some k"
      "conn_st (acl_conns (gatt_st h) ! k) = BT_CONN_CONNECTED"
    and w: "write_input_ccc conn (sys_put_le16 BT_GATT_CCC_NOTIFY) 0 h = (ret, h')"
  shows "ret = 2" and "hog_inv h'" and "link_ok h'" and "k \<in> set (report_targets h')"
    and "report_handle h' = report_handle h" and "sent (gatt_st h') = sent (gatt_st h)"
proof -
  obtain ccc' ev where e: "bt_gatt_attr_write_ccc conn (cccs (gatt_st h) (hog_ccc h)) (sys_put_le16 BT_GATT_CCC_NOTIFY) 0 = (ret, ccc', ev)"
    using w by (auto simp: write_input_ccc_def Let_def split: prod.splits)
  note first = first_subscription [OF free e]
  have h': "gatt_st h' = (gatt_st h)\<lparr>cccs := (cccs (gatt_st h))(hog_ccc h := ccc')\<rparr>" "hog_ccc h' = hog_ccc h"
    "hog_no h' = hog_no h"
    using w by (auto simp: write_input_ccc_def e Let_def input_ccc_changed_def split: option.splits)
  show "ret = 2" by (rule first(1))
  show inv': "hog_inv h'" using hog_inv_write_input_ccc [OF inv, of conn "sys_put_le16 BT_GATT_CCC_NOTIFY" 0] w by simp
  show "link_ok h'" using link by (simp add: link_ok_def h')
  show "report_handle h' = report_handle h" "sent (gatt_st h') = sent (gatt_st h)"
    by (simp_all add: report_handle_def h')
  define cfg where "cfg = (ccc_cfg (cccs (gatt_st h) (hog_ccc h)) ! i)\<lparr>cfg_peer := conn_dst conn,
      cfg_id := conn_id conn, cfg_value := BT_GATT_CCC_NOTIFY\<rparr>"
  have "i < length (ccc_cfg (cccs (gatt_st h) (hog_ccc h)))" using free(2) by (simp add: find_ccc_cfg_Some)
  then have mem: "cfg \<in> set (ccc_cfg ccc')" by (simp add: first(2) cfg_def set_update_memI)
  have one: "\<forall>cfg \<in> set (ccc_cfg ccc'). cfg_value cfg \<le> 1"
    using others set_update_subset_insert [of "ccc_cfg (cccs (gatt_st h) (hog_ccc h))" i cfg]
    by (auto simp: first(2) cfg_def)
  have "ccc_value ccc' = 1"
    using inv' all_values_one [OF one mem] by (simp add: hog_inv_def h' ccc_inv_def cfg_def)
  then have "simulate_input h' = 1" using inv' by (simp add: hog_inv_def h')
  moreover have "k \<in> set (subscribers (acl_conns (gatt_st h)) BT_GATT_CCC_NOTIFY (ccc_cfg ccc'))"
    using mem peer by (intro subscriber_listed [of cfg]) (simp_all add: subscriber_def cfg_def)
  ultimately show "k \<in> set (report_targets h')" by (simp add: report_targets_def h')
qed

text \<open>The exchange in which a host writes the client configuration of the report.\<close>

lemma write_ccc_exchange:
  assumes "chan_ok c" and "\<not> pending_rsp c" and aware: "bt_gatt_change_aware conn True (srv c) = (True, s1)"
    and "hog_ccc (hog_st s1) = 2" and w: "write_input_ccc conn value 0 (hog_st s1) = (int (length value), h')"
    and err: "err = (if conn_sec conn < BT_SECURITY_L3 then 0x05 else 0)"
  shows "exchange (server_env cmac conn (static_services 2)) ([BT_ATT_OP_WRITE_REQ] @ sys_put_le16 34 @ value) c =
    (let rsp = (if err \<noteq> 0 then [BT_ATT_OP_ERROR_RSP, BT_ATT_OP_WRITE_REQ] @ sys_put_le16 34 @ [err]
                else [BT_ATT_OP_WRITE_RSP])
     in (rsp, c\<lparr>srv := if err \<noteq> 0 then s1 else s1\<lparr>hog_st := h'\<rparr>, tx_pdus := tx_pdus c @ [rsp]\<rparr>))"
proof -
  let ?env = "server_env cmac conn (static_services 2)"
    and ?a = "BT_GATT_CCC 2 (BT_GATT_PERM_READ_AUTHEN OR BT_GATT_PERM_WRITE_AUTHEN)"
  have a: "?a = concat (env_db ?env) ! (unat (34 :: u16) - 1)" using input_ccc_attr [of 2] by (simp add: server_env_def)
  have perm: "of_int (bt_gatt_check_perm (env_conn ?env) ?a BT_GATT_PERM_WRITE_MASK) = err"
    unfolding server_env_def att_env.simps input_ccc_perm err by simp
  have n: "(0 :: u16) < 34" "unat (34 :: u16) \<le> length (concat (env_db ?env))"
    using static_services_length [of 2] by (simp_all add: server_env_def)
  have aw: "env_aware ?env True (srv c) = (True, s1)" using aware by (simp add: server_env_def)
  have wr: "env_write ?env ?a (unat (34 :: u16)) value 0 0 s1 = (int (length value), s1\<lparr>hog_st := h'\<rparr>)"
    using w assms(4) by (simp add: server_env_def server_write_def lift_hog_def BT_GATT_CCC_def BT_GATT_ATTRIBUTE_def)
  show ?thesis
    using hid.write_response [OF assms(1,2) n a aw perm wr] by (simp add: Let_def)
qed

lemma report_handle_static:
  assumes "services (gatt_st h) = static_services 2" and "hog_no h = 4"
  shows "report_handle h = 33"
  using assms
  by (simp add: report_handle_def bt_gatt_attr_get_handle_def)
    (simp add: static_services_def gatt_svc_def gap_svc_def bas_def dis_svc_def hog_svc_def
      BT_GATT_CHARACTERISTIC_def numeral_eq_Suc)



subsection \<open>A client that does not know of a change\<close>

lemma first_unaware:
  assumes "find_cf_cfg (Some conn) s = Some i" and "CF_ROBUST_CACHING (cf_cfg s ! i)"
    and "\<not> cf_change_aware (cf_cfg s ! i)" and "\<not> cf_out_of_sync (cf_cfg s ! i)"
  shows "bt_gatt_change_aware conn True s = (False, s\<lparr>cf_cfg := (cf_cfg s)[i := (cf_cfg s ! i)\<lparr>cf_out_of_sync := True\<rparr>]\<rparr>)"
    and "bt_gatt_change_aware conn False s = (False, s)"
    and "fst (bt_gatt_change_aware conn True (s\<lparr>cf_cfg := (cf_cfg s)[i := (cf_cfg s ! i)\<lparr>cf_out_of_sync := True\<rparr>]\<rparr>))"
proof -
  let ?s = "s\<lparr>cf_cfg := (cf_cfg s)[i := (cf_cfg s ! i)\<lparr>cf_out_of_sync := True\<rparr>]\<rparr>"
  have i: "i < length (cf_cfg s)" using assms(1) by (rule find_cf_Some)
  have "find_cf_cfg (Some conn) ?s = Some i"
    using assms(1) i by (subst find_cf_update) (simp_all add: cf_keys_flags)
  with i assms(2,3) show "fst (bt_gatt_change_aware conn True ?s)"
    by (simp add: bt_gatt_change_aware_def Let_def CF_ROBUST_CACHING_def)
qed (use assms in \<open>simp_all add: bt_gatt_change_aware_def Let_def\<close>)

lemma unaware_refused:
  assumes "code \<in> {BT_ATT_OP_READ_REQ, BT_ATT_OP_READ_BLOB_REQ, BT_ATT_OP_WRITE_REQ}" and "4 \<le> length buf"
    and "chan_ok c" and "\<not> pending_rsp c" and "env_aware env True (srv c) = (False, s1)"
  shows "exchange env (code # buf) c =
    (let rsp = [BT_ATT_OP_ERROR_RSP, code] @ sys_put_le16 0 @ [BT_ATT_ERR_DB_OUT_OF_SYNC]
     in (rsp, c\<lparr>srv := s1, tx_pdus := tx_pdus c @ [rsp]\<rparr>))"
proof -
  have err: "bt_att_chan_create_pdu BT_ATT_OP_ERROR_RSP 4 (c\<lparr>pending_rsp := True, srv := s1\<rparr>) = Some [BT_ATT_OP_ERROR_RSP]"
    using assms(3) by (intro create_pdu) simp_all
  have "bt_att_recv env (code # buf) c = send_err_rsp code 0 BT_ATT_ERR_DB_OUT_OF_SYNC (c\<lparr>pending_rsp := True, srv := s1\<rparr>)"
    using assms(1,2,4,5)
    by (auto simp: recv_eq [where n = 2 and func = att_read_req] recv_eq [where n = 4 and func = att_read_blob_req]
        recv_eq [where n = 2 and func = att_write_req] handlers_def att_read_req_def att_read_blob_req_def
        att_write_req_def att_read_rsp_def att_write_rsp_def)
  with assms(1,4) err show ?thesis
    by (auto simp: exchange_def Let_def chan_rsp_sent_def send_err_rsp_def bt_att_chan_send_rsp_def)
qed


definition stale_server :: gatt_server where
  "stale_server = sample_server\<lparr>cf_cfg := [\<lparr>cf_id = 0, cf_peer = conn_dst sample_conn, cf_data = [1],
     cf_change_aware = False, cf_out_of_sync = False\<rparr>]\<rparr>"


end
