(* ===== verification/Spec2Isabelle.thy ===== *)
theory Spec2Isabelle
  imports Main_App Ps2_Send Keyboard_Init Sem Stack Mem_Slab Mutex Lll_Chan Ring_Buffer Peripheral
begin

text \<open>
  A PS/2 to Bluetooth keyboard adapter for the nRF52840: the application under
  \<open>projects/peripheral_hids/src\<close> with the parts of the Zephyr kernel, of the GPIO driver and of the
  Bluetooth host it runs on.

  \<^bold>\<open>The program.\<close> A PS/2 keyboard clocks bits into two pins. The falling clock edge raises a GPIOTE
  interrupt (\<open>drivers/gpio/gpio_nrfx.c\<close>), whose handler calls \<open>clk_fall_cb\<close> of \<open>ps2_connector.c\<close>; that
  assembles frames and puts their bytes on a message queue (\<open>kernel/msg_q.c\<close>). The keyboard thread
  (\<open>ps2_keyboard.c\<close>) waits on the queue, parses scan codes (\<open>ps2_hid_translator.c\<close>), keeps a HID
  keyboard report and hands it to the HID service (\<open>hog.c\<close>), which notifies the subscribed peers
  through GATT (\<open>subsys/bluetooth/host/gatt.c\<close>). A host finds the service, reads it and subscribes to
  it through the attribute protocol (\<open>subsys/bluetooth/host/att.c\<close>). The main thread (\<open>main.c\<close>) types a text of its own
  every ten turns (\<open>bt_hid_tools.c\<close>). Threads wait, sleep and wake through \<open>kernel/sched.c\<close> and
  \<open>kernel/timeout.c\<close>.

  \<^bold>\<open>The theories.\<close>
  \<^item> \<open>Prelude\<close>, \<open>Words\<close>, \<open>Byteorder\<close>: machine integers as words and facts on them, errno values,
    \<open>include/sys/util.h\<close>, byte copies into a buffer, and \<open>include/sys/byteorder.h\<close>, whose accessors
    are shown to be inverse to each other in both orders and every width.
  \<^item> \<open>Hid_Keys\<close>, \<open>Hid_Translator\<close>, \<open>Ps2_Keyboard\<close>, \<open>Bt_Hid_Tools\<close>, \<open>Main_App\<close>: the application above
    the queue. A thread is a value of the type \<open>prog\<close> of \<open>Prog\<close>: the code it still has to run, which
    blocks where the source calls \<open>ps2_connector_get_next_code\<close>. Shown: the thread decodes every
    sequence of key events, the six slots of the report implement a bounded set, the report tracks the
    keys and the modifiers that are down, any bytes but 0xFF are handled without a fault.
  \<^item> \<open>Gatt\<close>, \<open>Hog\<close>: attribute reads, client configuration, handles, permissions, notification; the
    service's table and callbacks. Shown: a report goes once to every peer that enabled notifications
    and to nobody else, the consolidated configuration is the maximum over the peers, every callback
    keeps the invariant of the service.
  \<^item> \<open>Uuid\<close>, \<open>Att\<close>: UUIDs and their comparison; the attribute protocol server, one definition per
    request handler and per callback of the iteration over the database, on a channel whose packets
    sent are a list. What the attributes do is the record \<open>att_env\<close>.
  \<^item> \<open>Att_Response\<close>, \<open>Att_Procedures\<close>: the interfaces \<open>att_server\<close> and, extending it, \<open>att_client\<close>,
    with the laws on the callbacks that the protocol relies on. Proved from them: every request has one
    answer that fits the MTU, a long value is read whole, and discovery finds all services. The client
    side is a pair of partial functions that send requests and go on from the responses.
  \<^item> \<open>Gatt_Svc\<close>, \<open>Peripheral\<close>: the generic access, generic attribute, battery and device information
    services with robust caching and the database hash; the composition with the HID service, on which
    both interfaces are interpreted. Shown: what a host that connects to the adapter discovers, reads
    and receives after it subscribed, and what a host without the security or with a stale database gets.
  \<^item> \<open>Timeout\<close>, \<open>Thread\<close>, \<open>Priq\<close>, \<open>Sched\<close>: the kernel of one processor as the record \<open>kernel\<close>,
    passed explicitly. A context switch makes the thread in \<open>cache\<close> current. \<open>Priq\<close> has the interface
    \<open>priority_queue\<close> and its interpretations by the list queue and by the multi-queue with bitmap.
    Shown: the timeout list fires what is due and in order, pending and waking choose the most urgent
    thread, the invariant of ready queue, wait queues and cache is kept.
  \<^item> \<open>Wait_Object\<close>, \<open>Sem\<close>, \<open>Stack\<close>, \<open>Mem_Slab\<close>, \<open>Mutex\<close>: kernel objects on which threads wait
    (\<open>kernel/sem.c\<close>, \<open>stack.c\<close>, \<open>mem_slab.c\<close>, \<open>mutex.c\<close>). The interface \<open>wait_object\<close> has the laws
    that what is given goes to the first waiter and that a thread waits only while there is nothing to
    take; it is interpreted by semaphores, stacks and memory slabs. Shown: units are neither lost nor made, a block is never handed out twice, a mutex
    lends its owner the priority of the most urgent waiter and gives it back.
  \<^item> \<open>Thread_Life\<close>, \<open>Keyboard_Init\<close>: creating, starting, aborting and joining threads
    (\<open>kernel/thread.c\<close>, \<open>thread_abort.c\<close>), and \<open>ps2_keyboard_init\<close>, which readies the connector and
    starts the worker thread.
  \<^item> \<open>Fifo\<close>, \<open>Msgq\<close>: the interface \<open>bounded_fifo\<close> and its interpretation by the ring buffer of a
    message queue; the contracts of put, get and purge with blocked readers and writers.
  \<^item> \<open>Ring_Buffer\<close>: \<open>lib/os/ring_buffer.c\<close> in both modes; a second interpretation of \<open>bounded_fifo\<close>.
  \<^item> \<open>Lll_Chan\<close>: the selection of data channels in the controller (\<open>lll_chan.c\<close>). Shown: a selected
    channel is one of the channel map, hopping reaches all of them, the pseudo-random numbers permute.
  \<^item> \<open>Gpio_Nrfx\<close>, \<open>Gpio\<close>: driver and interface. The vendor's register access layer is not part of the
    tree; it is the record \<open>hal\<close> of functions on a hardware state, with the documented effect of each
    function as the predicate \<open>hal_ok\<close>. Shown: the channels implement a map from pins to edges, an
    interrupt calls exactly the callbacks concerned, logical writes reach the latch.
  \<^item> \<open>Ps2_Connector\<close>, \<open>Ps2_Frame\<close>, \<open>Ps2_Init\<close>, \<open>Ps2_Send\<close>: the connector. Its state extends the
    driver's, so that one value holds hardware, driver, connector and kernel. Shown: what any eleven
    bits do, that bytes come out as they were sent, that initialisation ends ready to receive, that an
    edge runs the handler once, and that sending a byte never ends.
  \<^item> \<open>Adapter\<close>: the composition, a step relation in which clock interrupts, the keyboard thread and
    the other threads interleave. Shown: no code is lost, duplicated or reordered, the thread catches
    up whenever it is scheduled, and the report is the one of the key events clocked in.

  \<^bold>\<open>Bounds.\<close> No fuel is used: the keyboard thread consumes a code at each turn and ends where it would
  block, loops over channels and pins run over the list of their indices, the loop that waits for the
  lines at initialisation runs over the list of what the environment does at each turn and \<open>None\<close>
  means that the list ended first. The main loop is cut after any number of turns. The procedures of a
  client are partial functions whose theorems say that they return. Ticks, priorities and counters are
  integers where the source keeps them in range, words where it masks or wraps. The MTU is at least 23
  and at most 255, which holds of every MTU this build can agree on.

  \<^bold>\<open>Not modelled.\<close> The Bluetooth host below the attribute protocol and the controller but for its
  channel selection (protocol machines over HCI and the radio; the model has the connections with their
  state and security, the keys of bonded peers and the packets handed down), the client side of GATT and
  ATT (the adapter is a server only), indications, settings and flash (the model starts from the state
  they leave), the boot sequence up to the first threads, architecture assembly (its effect on the
  kernel record is modelled), work queues, timers and the other kernel objects that the modelled code
  does not use, code that the configuration does not compile (SMP, user space, assertions, enhanced
  bearers, prepared writes) and printing.
\<close>

end
